(* ===== verification/Prelude.thy ===== *)
theory Prelude
  imports Main "HOL-Library.Word" "HOL-Library.Multiset" "HOL-Library.List_Lexorder" "HOL-Library.Char_ord"
begin

text \<open>
  The Go values and standard-library functions every component of souz-go shares: errors as
  values, byte strings with the functions of \<open>strings\<close> and \<open>strconv\<close> the source calls, and
  association lists for Go maps.

  A Go \<open>string\<close> is a sequence of bytes, so it is a HOL \<open>string\<close> (a \<open>char\<close> is a byte) and
  \<open>length\<close> is Go's \<open>len\<close>. A Go map is an association list with the insertion \<open>put\<close> below;
  the order of its entries stands for Go's unspecified iteration order. A call that may fail
  returns \<open>Inl err\<close> or \<open>Inr value\<close>; a call with effects takes the world and returns it.
\<close>

named_theorems go_str \<open>facts on the byte-string functions\<close>
named_theorems go_map \<open>facts on Go maps as association lists\<close>

section \<open>Errors\<close>

datatype errno = ENOENT | ENOTDIR | EISDIR | ELOOP | EEXIST | ENOTEMPTY | EINVAL | EIO

text \<open>
  \<open>Err\<close> is \<open>errors.New\<close> or \<open>fmt.Errorf\<close> without \<open>%w\<close>; \<open>Wrap pre e post\<close> is \<open>fmt.Errorf\<close> with one
  \<open>%w\<close>, between the formatted texts \<open>pre\<close> and \<open>post\<close>; \<open>PathError\<close> is the os package's error.
\<close>

datatype go_error =
    Canceled
  | DeadlineExceeded
  | ErrMaxSteps
  | ErrBusClosed
  | Err string
  | PathError string string errno
  | Wrap string go_error string

type_synonym 'a result = "go_error + 'a"

fun errno_text :: "errno \<Rightarrow> string" where
  "errno_text ENOENT = ''no such file or directory''"
| "errno_text ENOTDIR = ''not a directory''"
| "errno_text EISDIR = ''is a directory''"
| "errno_text ELOOP = ''too many levels of symbolic links''"
| "errno_text EEXIST = ''file exists''"
| "errno_text ENOTEMPTY = ''directory not empty''"
| "errno_text EINVAL = ''invalid argument''"
| "errno_text EIO = ''input/output error''"

text \<open>\<open>err.Error()\<close>.\<close>

fun error_text :: "go_error \<Rightarrow> string" where
  "error_text Canceled = ''context canceled''"
| "error_text DeadlineExceeded = ''context deadline exceeded''"
| "error_text ErrMaxSteps = ''graph: maximum steps exceeded''"
| "error_text ErrBusClosed = ''bus: closed''"
| "error_text (Err s) = s"
| "error_text (PathError op p n) = op @ '' '' @ p @ '': '' @ errno_text n"
| "error_text (Wrap a e b) = a @ error_text e @ b"

text \<open>\<open>errors.Is(err, target)\<close> for a sentinel target; \<open>is_not_exist\<close> is \<open>errors.Is(err, os.ErrNotExist)\<close>.\<close>

fun errors_Is :: "go_error \<Rightarrow> go_error \<Rightarrow> bool" where
  "errors_Is (Wrap a e b) t = (Wrap a e b = t \<or> errors_Is e t)"
| "errors_Is e t = (e = t)"

fun is_not_exist :: "go_error \<Rightarrow> bool" where
  "is_not_exist (PathError _ _ n) = (n = ENOENT)"
| "is_not_exist (Wrap _ e _) = is_not_exist e"
| "is_not_exist _ = False"

fun bind_result :: "'a result \<Rightarrow> ('a \<Rightarrow> 'b result) \<Rightarrow> 'b result" where
  "bind_result (Inl e) f = Inl e"
| "bind_result (Inr a) f = f a"

lemma bind_result_Inr [simp]:
  "bind_result r f = Inr b \<longleftrightarrow> (\<exists>a. r = Inr a \<and> f a = Inr b)"
  by (cases r) auto

lemma errors_Is_Wrap [intro]: "errors_Is e t \<Longrightarrow> errors_Is (Wrap a e b) t"
  by simp

section \<open>Association lists for Go maps\<close>

text \<open>\<open>m[k] = v\<close>, \<open>delete(m, k)\<close>; \<open>m[k]\<close> is \<open>map_of m k\<close>.\<close>

fun put :: "'k \<Rightarrow> 'v \<Rightarrow> ('k \<times> 'v) list \<Rightarrow> ('k \<times> 'v) list" where
  "put k v [] = [(k, v)]"
| "put k v (e # m) = (if fst e = k then (k, v) # m else e # put k v m)"

fun del :: "'k \<Rightarrow> ('k \<times> 'v) list \<Rightarrow> ('k \<times> 'v) list" where
  "del k [] = []"
| "del k (e # m) = (if fst e = k then del k m else e # del k m)"

lemma map_of_put [simp, go_map]: "map_of (put k v m) = (map_of m)(k \<mapsto> v)"
  by (induction m) (auto simp: fun_eq_iff)

lemma map_of_del [simp, go_map]: "map_of (del k m) = (map_of m)(k := None)"
  by (induction m) (auto simp: fun_eq_iff)

lemma keys_put [simp]: "fst ` set (put k v m) = insert k (fst ` set m)"
  by (induction m) auto

lemma keys_del [simp]: "fst ` set (del k m) = fst ` set m - {k}"
  by (induction m) auto

lemma distinct_put [simp, intro]: "distinct (map fst m) \<Longrightarrow> distinct (map fst (put k v m))"
proof (induction m)
  case (Cons e m)
  then show ?case by (auto simp flip: set_map simp: image_set) (metis insertE keys_put list.set_map)
qed simp

lemma distinct_del [simp, intro]: "distinct (map fst m) \<Longrightarrow> distinct (map fst (del k m))"
proof (induction m)
  case (Cons e m)
  then show ?case using keys_del [of k m] by auto
qed simp

text \<open>A loop that stores every element under its key keeps the last one of each key.\<close>

lemma map_of_foldl_put [go_map]:
  "map_of (foldl (\<lambda>m x. put (key x) x m) m0 xs) i =
     (case find (\<lambda>x. key x = i) (rev xs) of Some x \<Rightarrow> Some x | None \<Rightarrow> map_of m0 i)"
  by (induction xs rule: rev_induct) (auto split: option.splits)

section \<open>Byte strings\<close>

definition HasPrefix :: "string \<Rightarrow> string \<Rightarrow> bool" where
  "HasPrefix s p \<longleftrightarrow> take (length p) s = p"

definition HasSuffix :: "string \<Rightarrow> string \<Rightarrow> bool" where
  "HasSuffix s p \<longleftrightarrow> HasPrefix (rev s) (rev p)"

definition TrimPrefix :: "string \<Rightarrow> string \<Rightarrow> string" where
  "TrimPrefix s p = (if HasPrefix s p then drop (length p) s else s)"

definition TrimSuffix :: "string \<Rightarrow> string \<Rightarrow> string" where
  "TrimSuffix s p = (if HasSuffix s p then take (length s - length p) s else s)"

text \<open>\<open>strings.Index\<close> and \<open>strings.IndexByte\<close>: \<open>None\<close> for Go's \<open>-1\<close>.\<close>

fun Index :: "string \<Rightarrow> string \<Rightarrow> nat option" where
  "Index [] p = (if p = [] then Some 0 else None)"
| "Index (c # s) p = (if HasPrefix (c # s) p then Some 0 else map_option Suc (Index s p))"

fun IndexByte :: "string \<Rightarrow> char \<Rightarrow> nat option" where
  "IndexByte [] c = None"
| "IndexByte (d # s) c = (if d = c then Some 0 else map_option Suc (IndexByte s c))"

definition Contains :: "string \<Rightarrow> string \<Rightarrow> bool" where
  "Contains s p \<longleftrightarrow> Index s p \<noteq> None"

text \<open>\<open>strings.Split(s, sep)\<close> for a one-byte separator, and \<open>strings.Join\<close>.\<close>

fun Split :: "string \<Rightarrow> char \<Rightarrow> string list" where
  "Split [] c = [[]]"
| "Split (d # s) c =
     (if d = c then [] # Split s c
      else (case Split s c of [] \<Rightarrow> [[d]] | x # xs \<Rightarrow> (d # x) # xs))"

fun Join :: "string list \<Rightarrow> string \<Rightarrow> string" where
  "Join [] sep = []"
| "Join [x] sep = x"
| "Join (x # y # xs) sep = x @ sep @ Join (y # xs) sep"

text \<open>
  \<open>strings.ReplaceAll(s, old, new)\<close>, with a fuel that is at least the length of \<open>s\<close>; the source
  only uses a non-empty \<open>old\<close>.
\<close>

fun replace_fuel :: "nat \<Rightarrow> string \<Rightarrow> string \<Rightarrow> string \<Rightarrow> string" where
  "replace_fuel 0 s old new = s"
| "replace_fuel (Suc n) [] old new = []"
| "replace_fuel (Suc n) (c # s) old new =
     (if HasPrefix (c # s) old then new @ replace_fuel n (drop (length old) (c # s)) old new
      else c # replace_fuel n s old new)"

definition ReplaceAll :: "string \<Rightarrow> string \<Rightarrow> string \<Rightarrow> string" where
  "ReplaceAll s old new = replace_fuel (length s) s old new"

text \<open>
  \<open>unicode.IsSpace\<close> on UTF-8: the six ASCII white-space bytes and the encodings of U+0085, U+00A0,
  U+1680, U+2000 to U+200A, U+2028, U+2029, U+202F, U+205F and U+3000.
\<close>

definition bytes :: "nat list \<Rightarrow> string" where
  "bytes = map char_of"

definition space_seqs :: "string list" where
  "space_seqs =
     map (\<lambda>n. bytes [n]) [9, 10, 11, 12, 13, 32] @
     [bytes [0xC2, 0x85], bytes [0xC2, 0xA0], bytes [0xE1, 0x9A, 0x80]] @
     map (\<lambda>n. bytes [0xE2, 0x80, 0x80 + n]) [0, 1, 2, 3, 4, 5, 6, 7, 8, 9, 10] @
     [bytes [0xE2, 0x80, 0xA8], bytes [0xE2, 0x80, 0xA9], bytes [0xE2, 0x80, 0xAF],
      bytes [0xE2, 0x81, 0x9F], bytes [0xE3, 0x80, 0x80]]"

text \<open>Drop the longest run of the given byte sequences from the front; fuel is the length.\<close>

fun strip_fuel :: "string list \<Rightarrow> nat \<Rightarrow> string \<Rightarrow> string" where
  "strip_fuel seqs 0 s = s"
| "strip_fuel seqs (Suc n) s =
     (case find (\<lambda>q. HasPrefix s q) seqs of
        None \<Rightarrow> s
      | Some q \<Rightarrow> strip_fuel seqs n (drop (length q) s))"

definition TrimLeftSpace :: "string \<Rightarrow> string" where
  "TrimLeftSpace s = strip_fuel space_seqs (length s) s"

definition TrimRightSpace :: "string \<Rightarrow> string" where
  "TrimRightSpace s = rev (strip_fuel (map rev space_seqs) (length s) (rev s))"

text \<open>\<open>strings.TrimSpace\<close>, \<open>strings.TrimLeft(s, cutset)\<close> and \<open>strings.Trim(s, cutset)\<close> for ASCII cutsets.\<close>

definition TrimSpace :: "string \<Rightarrow> string" where
  "TrimSpace s = TrimRightSpace (TrimLeftSpace s)"

definition TrimLeft :: "string \<Rightarrow> string \<Rightarrow> string" where
  "TrimLeft s cs = dropWhile (\<lambda>c. c \<in> set cs) s"

definition TrimChars :: "string \<Rightarrow> string \<Rightarrow> string" where
  "TrimChars s cs = rev (TrimLeft (rev (TrimLeft s cs)) cs)"

text \<open>
  \<open>strings.ToLower\<close> and \<open>strings.ToUpper\<close> on ASCII. Bytes of other runes stay as they are; the two
  runes whose lower case is ASCII (U+212A and U+0130) are mapped, so that the ASCII bytes of the
  result are exact.
\<close>

definition lower_byte :: "char \<Rightarrow> char" where
  "lower_byte c = (let n = of_char c :: nat in if 65 \<le> n \<and> n \<le> 90 then char_of (n + 32) else c)"

definition upper_byte :: "char \<Rightarrow> char" where
  "upper_byte c = (let n = of_char c :: nat in if 97 \<le> n \<and> n \<le> 122 then char_of (n - 32) else c)"

definition ToLower :: "string \<Rightarrow> string" where
  "ToLower s = map lower_byte
     (ReplaceAll (ReplaceAll s (bytes [0xE2, 0x84, 0xAA]) ''k'') (bytes [0xC4, 0xB0]) ''i'')"

definition ToUpper :: "string \<Rightarrow> string" where
  "ToUpper s = map upper_byte s"

section \<open>Decimal integers\<close>

text \<open>\<open>strconv.Itoa\<close> and \<open>%d\<close>.\<close>

definition digit_char :: "nat \<Rightarrow> char" where
  "digit_char d = char_of (48 + d)"

fun nat_digits :: "nat \<Rightarrow> string" where
  "nat_digits n = (if n < 10 then [digit_char n] else nat_digits (n div 10) @ [digit_char (n mod 10)])"

declare nat_digits.simps [simp del]

definition Itoa :: "int \<Rightarrow> string" where
  "Itoa i = (if i < 0 then ''-'' @ nat_digits (nat (- i)) else nat_digits (nat i))"

definition is_digit :: "char \<Rightarrow> bool" where
  "is_digit c \<longleftrightarrow> (48::nat) \<le> of_char c \<and> of_char c \<le> (57::nat)"

text \<open>\<open>strconv.ParseInt(s, 10, 64)\<close>: optional sign, digits, in range.\<close>

definition digits_val :: "string \<Rightarrow> int" where
  "digits_val s = foldl (\<lambda>n c. 10 * n + (of_char c - 48)) 0 s"

definition ParseInt64 :: "string \<Rightarrow> int option" where
  "ParseInt64 s =
     (let neg = HasPrefix s ''-'';
          ds = (if HasPrefix s ''-'' \<or> HasPrefix s ''+'' then drop 1 s else s);
          v = (if neg then - digits_val ds else digits_val ds)
      in if ds \<noteq> [] \<and> list_all is_digit ds \<and> - (2 ^ 63) \<le> v \<and> v < 2 ^ 63 then Some v else None)"

text \<open>
  \<open>%q\<close>: a double-quoted Go literal. Exact for ASCII; bytes of multi-byte runes are kept, as for
  printable runes.
\<close>

definition hex_digit :: "nat \<Rightarrow> char" where
  "hex_digit d = (if d < 10 then char_of (48 + d) else char_of (87 + d))"

definition quote_char :: "char \<Rightarrow> string" where
  "quote_char c =
     (let n = of_char c :: nat in
      if n = 34 then [char_of (92::nat), c]
      else if n = 92 then [c, c]
      else if n = 10 then [char_of (92::nat), CHR ''n'']
      else if n = 9 then [char_of (92::nat), CHR ''t'']
      else if n = 13 then [char_of (92::nat), CHR ''r'']
      else if n = 7 then [char_of (92::nat), CHR ''a'']
      else if n = 8 then [char_of (92::nat), CHR ''b'']
      else if n = 12 then [char_of (92::nat), CHR ''f'']
      else if n = 11 then [char_of (92::nat), CHR ''v'']
      else if n < 32 \<or> n = 127 then [char_of (92::nat), CHR ''x'', hex_digit (n div 16), hex_digit (n mod 16)]
      else [c])"

definition quote :: "string \<Rightarrow> string" where
  "quote s = CHR 0x22 # concat (map quote_char s) @ [CHR 0x22]"

definition nl :: string where
  "nl = [char_of (10::nat)]"

section \<open>Facts the components share\<close>

lemma HasPrefix_append [simp, go_str]: "HasPrefix (p @ s) p"
  by (simp add: HasPrefix_def)

lemma HasPrefix_iff [go_str]: "HasPrefix s p \<longleftrightarrow> (\<exists>t. s = p @ t)"
  unfolding HasPrefix_def by (metis append_eq_conv_conj append_take_drop_id)

lemma HasPrefix_Nil [simp]: "HasPrefix s []"
  by (simp add: HasPrefix_def)

lemma HasPrefix_empty [simp]: "HasPrefix [] p \<longleftrightarrow> p = []"
  by (auto simp: HasPrefix_def)

lemma Index_Some:
  "Index s p = Some i \<Longrightarrow> i + length p \<le> length s \<and> take (length p) (drop i s) = p"
proof (induction s p arbitrary: i rule: Index.induct)
  case (2 c s p)
  then show ?case
    by (fastforce simp: HasPrefix_def split: if_splits dest: arg_cong [where f = length])
qed (auto split: if_splits)

lemma Index_append [simp]: "\<exists>i. Index (a @ p @ b) p = Some i"
proof (induction a)
  case Nil
  have "HasPrefix (p @ b) p" by simp
  then show ?case by (cases "p @ b") (simp_all del: HasPrefix_append)
next
  case (Cons c a)
  then show ?case by auto
qed

lemma Contains_iff [go_str]: "Contains s p \<longleftrightarrow> (\<exists>a b. s = a @ p @ b)"
proof
  assume "Contains s p"
  then obtain i where i: "Index s p = Some i" by (auto simp: Contains_def)
  from Index_Some [OF i] have "s = take i s @ p @ drop (length p) (drop i s)"
    by (metis append_take_drop_id)
  then show "\<exists>a b. s = a @ p @ b" by blast
next
  assume "\<exists>a b. s = a @ p @ b"
  then show "Contains s p" unfolding Contains_def by (metis Index_append option.distinct(1))
qed

lemma IndexByte_None [go_str]: "IndexByte s c = None \<longleftrightarrow> c \<notin> set s"
  by (induction s) auto

lemma IndexByte_Some:
  "IndexByte s c = Some i \<Longrightarrow> i < length s \<and> s ! i = c \<and> c \<notin> set (take i s)"
  by (induction s arbitrary: i) (auto split: if_splits simp: nth_Cons' take_Cons')

lemma IndexByte_append: "c \<notin> set a \<Longrightarrow> IndexByte (a @ c # b) c = Some (length a)"
  by (induction a) auto

lemma Split_nonempty [simp]: "Split s c \<noteq> []"
  by (induction s) (auto split: list.splits)

lemma Join_Split: "Join (Split s c) [c] = s"
proof (induction s)
  case (Cons d s)
  obtain x xs where "Split s c = x # xs"
    by (cases "Split s c") auto
  with Cons show ?case
    by (cases xs) auto
qed simp

lemma Split_no_sep: "x \<in> set (Split s c) \<Longrightarrow> c \<notin> set x"
proof (induction s arbitrary: x)
  case (Cons d s)
  then show ?case
    by (cases "Split s c") (auto split: if_splits)
qed simp

lemma length_dropWhile_less [termination_simp]: "length (dropWhile P s) < Suc (length s)"
  by (simp add: length_dropWhile_le less_Suc_eq_le)

lemma find_append_case: "find P (xs @ ys) = (case find P xs of Some x \<Rightarrow> Some x | None \<Rightarrow> find P ys)"
  by (induction xs) auto

lemma find_rev_Some: "find P (rev xs) = Some x \<Longrightarrow> x \<in> set xs \<and> P x"
  by (auto simp: find_Some_iff) (metis length_rev nth_mem set_rev)

lemma map_of_Some_distinct: "distinct (map fst m) \<Longrightarrow> (k, v) \<in> set m \<Longrightarrow> map_of m k = Some v"
  by simp

lemma hex_digit_code: "i < 16 \<Longrightarrow> of_char (hex_digit i) = (if i < 10 then 48 + i else 87 + i)"
  by (simp add: hex_digit_def)

lemma hex_digit_inj: "i < 16 \<Longrightarrow> j < 16 \<Longrightarrow> hex_digit i = hex_digit j \<Longrightarrow> i = j"
  by (auto simp: hex_digit_def split: if_splits dest: arg_cong [where f = "of_char :: char \<Rightarrow> nat"])

text \<open>Trimming and replacing leave alone what has nothing to trim or replace.\<close>

definition graphic :: "char \<Rightarrow> bool" where
  "graphic c \<longleftrightarrow> (33::nat) \<le> of_char c \<and> of_char c \<le> (126::nat)"

lemma space_seqs_ends: "list_all (\<lambda>q. q \<noteq> [] \<and> \<not> graphic (hd q) \<and> \<not> graphic (last q)) space_seqs"
  by (simp add: space_seqs_def bytes_def graphic_def)

lemma HasPrefix_Cons: "HasPrefix (c # s) q \<Longrightarrow> q \<noteq> [] \<Longrightarrow> hd q = c"
  by (cases q) (auto simp: HasPrefix_def)

lemma strip_fuel_id: "find (\<lambda>q. HasPrefix s q) seqs = None \<Longrightarrow> strip_fuel seqs n s = s"
  by (cases n) auto

lemma TrimLeftSpace_id [go_str]: "graphic (hd s) \<Longrightarrow> TrimLeftSpace s = s"
proof (cases s)
  case (Cons c t)
  moreover assume "graphic (hd s)"
  ultimately have "find (\<lambda>q. HasPrefix s q) space_seqs = None"
    using space_seqs_ends by (auto simp: find_None_iff list_all_iff dest: HasPrefix_Cons)
  then show ?thesis unfolding TrimLeftSpace_def by (rule strip_fuel_id)
qed (simp add: TrimLeftSpace_def)

lemma TrimRightSpace_id [go_str]: "graphic (last s) \<Longrightarrow> TrimRightSpace s = s"
proof (cases "rev s")
  case (Cons c t)
  moreover assume "graphic (last s)"
  ultimately have g: "graphic c" by (metis hd_rev list.sel(1))
  have "\<not> HasPrefix (rev s) q" if "q \<in> set (map rev space_seqs)" for q
  proof
    assume "HasPrefix (rev s) q"
    from that obtain q' where q': "q = rev q'" "q' \<in> set space_seqs" by auto
    with space_seqs_ends have "q' \<noteq> []" "\<not> graphic (last q')" by (auto simp: list_all_iff)
    with HasPrefix_Cons [of c t q] \<open>HasPrefix (rev s) q\<close> Cons g q' show False by (simp add: hd_rev)
  qed
  then have "find (\<lambda>q. HasPrefix (rev s) q) (map rev space_seqs) = None" by (auto simp: find_None_iff)
  then show ?thesis unfolding TrimRightSpace_def by (simp add: strip_fuel_id)
qed (simp add: TrimRightSpace_def)

lemma TrimSpace_id [go_str]: "graphic (hd s) \<Longrightarrow> graphic (last s) \<Longrightarrow> TrimSpace s = s"
  by (simp add: TrimSpace_def TrimLeftSpace_id TrimRightSpace_id)

lemma TrimSpace_Nil [simp]: "TrimSpace [] = []"
  by (simp add: TrimSpace_def TrimLeftSpace_def TrimRightSpace_def)

lemma space_seqs_chars:
  "space_seqs =
    [[CHR 0x09], [CHR 0x0A], [CHR 0x0B], [CHR 0x0C], [CHR 0x0D], [CHR 0x20], [CHR 0xC2, CHR 0x85], [CHR
     0xC2, CHR 0xA0], [CHR 0xE1, CHR 0x9A, CHR 0x80], [CHR 0xE2, CHR 0x80, CHR 0x80], [CHR 0xE2, CHR
     0x80, CHR 0x81], [CHR 0xE2, CHR 0x80, CHR 0x82], [CHR 0xE2, CHR 0x80, CHR 0x83], [CHR 0xE2, CHR
     0x80, CHR 0x84], [CHR 0xE2, CHR 0x80, CHR 0x85], [CHR 0xE2, CHR 0x80, CHR 0x86], [CHR 0xE2, CHR
     0x80, CHR 0x87], [CHR 0xE2, CHR 0x80, CHR 0x88], [CHR 0xE2, CHR 0x80, CHR 0x89], [CHR 0xE2, CHR
     0x80, CHR 0x8A], [CHR 0xE2, CHR 0x80, CHR 0xA8], [CHR 0xE2, CHR 0x80, CHR 0xA9], [CHR 0xE2, CHR
     0x80, CHR 0xAF], [CHR 0xE2, CHR 0x81, CHR 0x9F], [CHR 0xE3, CHR 0x80, CHR 0x80]]"
  by code_simp

lemma find_space_blank: "find (\<lambda>q. HasPrefix (CHR '' '' # s) q) space_seqs = Some '' ''"
  by (simp add: space_seqs_chars HasPrefix_def)

lemma TrimSpace_blank: "graphic (hd s) \<Longrightarrow> graphic (last s) \<Longrightarrow> s \<noteq> [] \<Longrightarrow> TrimSpace (CHR '' '' # s) = s"
  using TrimLeftSpace_id [of s]
  by (simp add: TrimSpace_def TrimLeftSpace_def [of "CHR '' '' # s"] find_space_blank TrimRightSpace_id
      TrimLeftSpace_def)

lemma replace_fuel_id: "old \<noteq> [] \<Longrightarrow> hd old \<notin> set s \<Longrightarrow> replace_fuel n s old new = s"
proof (induction n s old new rule: replace_fuel.induct)
  case (3 n c s old new)
  then have "\<not> HasPrefix (c # s) old" by (auto dest: HasPrefix_Cons)
  with 3 show ?case by simp
qed auto

lemma ReplaceAll_id [go_str]: "old \<noteq> [] \<Longrightarrow> hd old \<notin> set s \<Longrightarrow> ReplaceAll s old new = s"
  by (simp add: ReplaceAll_def replace_fuel_id)

lemma ToLower_id [go_str]:
  assumes "\<forall>c \<in> set s. of_char c < (128::nat) \<and> lower_byte c = c"
  shows "ToLower s = s"
proof -
  have "char_of (0xE2::nat) \<notin> set s" "char_of (0xC4::nat) \<notin> set s" using assms by auto
  then have "ReplaceAll (ReplaceAll s (bytes [0xE2, 0x84, 0xAA]) ''k'') (bytes [0xC4, 0xB0]) ''i'' = s"
    by (simp add: ReplaceAll_id bytes_def)
  moreover have "map lower_byte s = s" using assms by (intro map_idI) blast
  ultimately show ?thesis by (simp add: ToLower_def)
qed

lemma Split_append_sep: "c \<notin> set a \<Longrightarrow> Split (a @ c # b) c = a # Split b c"
  by (induction a) auto

lemma Split_no_sep_id: "c \<notin> set a \<Longrightarrow> Split a c = [a]"
  by (induction a) auto

section \<open>Decimal numbers\<close>

lemma digits_val_snoc: "digits_val (s @ [c]) = 10 * digits_val s + (of_char c - 48)"
  by (simp add: digits_val_def)

lemma of_digit_char [simp]: "d < 10 \<Longrightarrow> (of_char (digit_char d) :: int) = int d + 48"
  by (subst of_nat_of_char [symmetric]) (simp add: digit_char_def)

lemma digits_val_nat_digits [simp]: "digits_val (nat_digits n) = int n"
proof (induction n rule: nat_digits.induct)
  case (1 n)
  show ?case
  proof (cases "n < 10")
    case True
    then show ?thesis using digits_val_snoc [of "[]" "digit_char n"]
      by (simp add: nat_digits.simps [of n] digits_val_def)
  next
    case False
    have "10 * int (n div 10) + int (n mod 10) = int n" by presburger
    with 1 False show ?thesis by (simp add: nat_digits.simps [of n] digits_val_snoc)
  qed
qed

lemma nat_digits_inj [simp]: "nat_digits m = nat_digits n \<longleftrightarrow> m = n"
  by (metis digits_val_nat_digits of_nat_eq_iff)

lemma is_digit_digit_char [simp]: "d < 10 \<Longrightarrow> is_digit (digit_char d)"
  by (simp add: is_digit_def digit_char_def of_char_of)

lemma nat_digits_digits: "list_all is_digit (nat_digits n)"
proof (induction n rule: nat_digits.induct)
  case (1 n)
  then show ?case by (cases "n < 10") (simp_all add: nat_digits.simps [of n])
qed

end
