(* ===== verification/Fs.thy ===== *)
theory Fs
  imports Prelude
begin

text \<open>
  The part of \<open>os\<close> and \<open>path/filepath\<close> the source uses, on a Unix file tree. A cleaned absolute path is
  the list of its components; a tree is an association list from such lists to files, directories
  and symbolic links, the root \<open>[]\<close> being a directory always. Symbolic links are followed component by
  component, physically, as the kernel and \<open>filepath.EvalSymlinks\<close> do.
\<close>

section \<open>Paths\<close>

type_synonym path = "string list"

datatype entry = EFile string | EDir | ELink string

type_synonym fs = "(path \<times> entry) list"

definition abs_str :: "path \<Rightarrow> string" where
  "abs_str cs = (if cs = [] then ''/'' else concat (map (\<lambda>c. CHR ''/'' # c) cs))"

definition is_abs :: "string \<Rightarrow> bool" where
  "is_abs s = HasPrefix s ''/''"

text \<open>
  \<open>norm_onto base comps\<close>: the lexical cleaning of \<open>filepath.Clean\<close> and \<open>filepath.Join\<close> on absolute
  paths: empty and "." components vanish, ".." removes the component before it.
\<close>

fun norm_onto :: "path \<Rightarrow> string list \<Rightarrow> path" where
  "norm_onto base [] = base"
| "norm_onto base (c # cs) =
     (if c = [] \<or> c = ''.'' then norm_onto base cs
      else if c = ''..'' then norm_onto (butlast base) cs
      else norm_onto (base @ [c]) cs)"

definition comps :: "string \<Rightarrow> string list" where
  "comps s = Split s (CHR ''/'')"

text \<open>\<open>filepath.Clean\<close> of an absolute path, and \<open>filepath.Join(base, s)\<close> for an absolute \<open>base\<close>.\<close>

definition Clean_abs :: "string \<Rightarrow> path" where
  "Clean_abs s = norm_onto [] (comps s)"

definition Join_path :: "path \<Rightarrow> string \<Rightarrow> path" where
  "Join_path base s = norm_onto base (comps s)"

definition plain :: "string \<Rightarrow> bool" where
  "plain c \<longleftrightarrow> c \<noteq> [] \<and> c \<noteq> ''.'' \<and> c \<noteq> ''..'' \<and> CHR ''/'' \<notin> set c"

text \<open>\<open>filepath.Ext\<close>: from the last dot of the last component.\<close>

definition filepath_Ext :: "string \<Rightarrow> string" where
  "filepath_Ext s =
     (let r = takeWhile (\<lambda>c. c \<noteq> CHR ''/'') (rev s)
      in if CHR ''.'' \<in> set r then ''.'' @ rev (takeWhile (\<lambda>c. c \<noteq> CHR ''.'') r) else [])"

text \<open>\<open>filepath.Rel\<close> of two absolute paths never fails.\<close>

definition Rel :: "path \<Rightarrow> path \<Rightarrow> string" where
  "Rel base p =
     (let k = length (takeWhile (\<lambda>(a, b). a = b) (zip base p));
          parts = replicate (length base - k) ''..'' @ drop k p
      in if parts = [] then ''.'' else Join parts ''/'')"

section \<open>The tree\<close>

definition node :: "fs \<Rightarrow> path \<Rightarrow> entry option" where
  "node fs cs = (if cs = [] then Some EDir else map_of fs cs)"

text \<open>
  Follow a path from the physical directory \<open>cur\<close>, with at most \<open>n\<close> links; the error carries the path at
  which it arose.
\<close>

definition link_from :: "string \<Rightarrow> path \<Rightarrow> path" where
  "link_from target cur = (if is_abs target then [] else cur)"

function walk :: "fs \<Rightarrow> nat \<Rightarrow> path \<Rightarrow> string list \<Rightarrow> (path \<times> errno) + path" where
  "walk fs n cur [] = Inr cur"
| "walk fs n cur (c # cs) =
     (if c = [] \<or> c = ''.'' then walk fs n cur cs
      else if c = ''..'' then walk fs n (butlast cur) cs
      else (case node fs (cur @ [c]) of
              None \<Rightarrow> Inl (cur @ [c], ENOENT)
            | Some (EFile _) \<Rightarrow> (if cs = [] then Inr (cur @ [c]) else Inl (cur @ [c], ENOTDIR))
            | Some EDir \<Rightarrow> walk fs n (cur @ [c]) cs
            | Some (ELink t) \<Rightarrow>
                (case n of
                   0 \<Rightarrow> Inl (cur @ [c], ELOOP)
                 | Suc m \<Rightarrow> walk fs m (link_from t cur) (comps t @ cs))))"
  by pat_completeness auto
termination
  by (relation "measures [\<lambda>(fs, n, cur, cs). n, \<lambda>(fs, n, cur, cs). length cs]") auto

declare walk.simps(2) [simp del]

text \<open>The kernel follows at most 40 links, \<open>filepath.EvalSymlinks\<close> at most 255.\<close>

definition path_error :: "string \<Rightarrow> path \<times> errno \<Rightarrow> go_error" where
  "path_error op e = PathError op (abs_str (fst e)) (snd e)"

definition EvalSymlinks :: "fs \<Rightarrow> path \<Rightarrow> path result" where
  "EvalSymlinks fs cs =
     (case walk fs 255 [] cs of
        Inr p \<Rightarrow> Inr p
      | Inl (p, ELOOP) \<Rightarrow> Inl (Err ''EvalSymlinks: too many links'')
      | Inl e \<Rightarrow> Inl (path_error ''lstat'' e))"

definition os_walk :: "fs \<Rightarrow> path \<Rightarrow> (path \<times> errno) + path" where
  "os_walk fs cs = walk fs 40 [] cs"

definition os_Stat :: "fs \<Rightarrow> path \<Rightarrow> entry result" where
  "os_Stat fs cs =
     (case os_walk fs cs of
        Inl (_, e) \<Rightarrow> Inl (path_error ''stat'' (cs, e))
      | Inr p \<Rightarrow> (case node fs p of None \<Rightarrow> Inl (path_error ''stat'' (cs, ENOENT)) | Some x \<Rightarrow> Inr x))"

text \<open>The last component is not followed: the directory is, the name in it is taken as it is.\<close>

definition in_dir :: "fs \<Rightarrow> path \<Rightarrow> (path \<times> errno) + path" where
  "in_dir fs cs =
     (if cs = [] then Inr []
      else (case os_walk fs (butlast cs) of
              Inl e \<Rightarrow> Inl e
            | Inr d \<Rightarrow> (if node fs d = Some EDir then Inr (d @ [last cs]) else Inl (d, ENOTDIR))))"

definition os_Lstat :: "fs \<Rightarrow> path \<Rightarrow> entry result" where
  "os_Lstat fs cs =
     (case in_dir fs cs of
        Inl (_, e) \<Rightarrow> Inl (path_error ''lstat'' (cs, e))
      | Inr p \<Rightarrow> (case node fs p of None \<Rightarrow> Inl (path_error ''lstat'' (cs, ENOENT)) | Some x \<Rightarrow> Inr x))"

definition os_ReadFile :: "fs \<Rightarrow> path \<Rightarrow> string result" where
  "os_ReadFile fs cs =
     (case os_walk fs cs of
        Inl (_, e) \<Rightarrow> Inl (path_error ''open'' (cs, e))
      | Inr p \<Rightarrow>
          (case node fs p of
             Some (EFile s) \<Rightarrow> Inr s
           | Some EDir \<Rightarrow> Inl (path_error ''read'' (cs, EISDIR))
           | _ \<Rightarrow> Inl (path_error ''open'' (cs, ENOENT))))"

definition os_Mkdir :: "fs \<Rightarrow> path \<Rightarrow> unit result \<times> fs" where
  "os_Mkdir fs cs =
     (case in_dir fs cs of
        Inl (_, e) \<Rightarrow> (Inl (path_error ''mkdir'' (cs, e)), fs)
      | Inr p \<Rightarrow>
          (if node fs p \<noteq> None then (Inl (path_error ''mkdir'' (cs, EEXIST)), fs)
           else (Inr (), put p EDir fs)))"

function os_MkdirAll :: "fs \<Rightarrow> path \<Rightarrow> unit result \<times> fs" where
  "os_MkdirAll fs cs =
     (case os_Stat fs cs of
        Inr EDir \<Rightarrow> (Inr (), fs)
      | Inr _ \<Rightarrow> (Inl (path_error ''mkdir'' (cs, ENOTDIR)), fs)
      | Inl _ \<Rightarrow>
          (if cs = [] then (Inr (), fs)
           else (case os_MkdirAll fs (butlast cs) of
                   (Inl e, fs') \<Rightarrow> (Inl e, fs')
                 | (Inr _, fs') \<Rightarrow>
                     (case os_Mkdir fs' cs of
                        (Inr _, fs'') \<Rightarrow> (Inr (), fs'')
                      | (Inl e, fs'') \<Rightarrow>
                          (case os_Lstat fs'' cs of
                             Inr EDir \<Rightarrow> (Inr (), fs'')
                           | _ \<Rightarrow> (Inl e, fs''))))))"
  by pat_completeness auto
termination by (relation "measure (\<lambda>(fs, cs). length cs)") auto

declare os_MkdirAll.simps [simp del]

text \<open>\<open>os.ReadDir\<close>: the names in a directory, sorted, each with its entry (not followed).\<close>

definition children :: "fs \<Rightarrow> path \<Rightarrow> string list" where
  "children fs d =
     sort (remdups (map last (filter (\<lambda>p. p \<noteq> [] \<and> butlast p = d) (map fst fs))))"

text \<open>
  \<open>os.Rename\<close>: a file or a link replaces a file or a link, a directory with all below it replaces an
  empty directory or takes a free name.
\<close>

definition starts_with :: "path \<Rightarrow> path \<Rightarrow> bool" where
  "starts_with p r \<longleftrightarrow> take (length p) r = p"

definition move_tree :: "path \<Rightarrow> path \<Rightarrow> fs \<Rightarrow> fs" where
  "move_tree p q fs =
     map (\<lambda>(r, x). if starts_with p r then (q @ drop (length p) r, x) else (r, x)) (del q fs)"

definition os_Rename :: "fs \<Rightarrow> path \<Rightarrow> path \<Rightarrow> unit result \<times> fs" where
  "os_Rename fs src dst =
     (case (in_dir fs src, in_dir fs dst) of
        (Inr p, Inr q) \<Rightarrow>
          (case node fs p of
             None \<Rightarrow> (Inl (path_error ''rename'' (src, ENOENT)), fs)
           | Some EDir \<Rightarrow>
               (if p = [] then (Inl (path_error ''rename'' (src, EINVAL)), fs)
                else if p = q then (Inr (), fs)
                else if starts_with p q then (Inl (path_error ''rename'' (src, EINVAL)), fs)
                else if node fs q = Some EDir \<and> (q = [] \<or> children fs q \<noteq> [])
                then (Inl (path_error ''rename'' (src, EEXIST)), fs)
                else if node fs q \<noteq> None \<and> node fs q \<noteq> Some EDir
                then (Inl (path_error ''rename'' (src, ENOTDIR)), fs)
                else (Inr (), move_tree p q fs))
           | Some x \<Rightarrow>
               (if node fs q = Some EDir then (Inl (path_error ''rename'' (src, EEXIST)), fs)
                else (Inr (), put q x (del p fs))))
      | _ \<Rightarrow> (Inl (path_error ''rename'' (src, ENOENT)), fs))"

definition os_Remove :: "fs \<Rightarrow> path \<Rightarrow> unit result \<times> fs" where
  "os_Remove fs cs =
     (case in_dir fs cs of
        Inl (_, e) \<Rightarrow> (Inl (path_error ''remove'' (cs, e)), fs)
      | Inr p \<Rightarrow>
          (if p = [] then (Inl (path_error ''remove'' (cs, EINVAL)), fs)
           else if node fs p = None then (Inl (path_error ''remove'' (cs, ENOENT)), fs)
           else if node fs p = Some EDir \<and> children fs p \<noteq> []
           then (Inl (path_error ''remove'' (cs, ENOTEMPTY)), fs)
           else (Inr (), del p fs)))"

text \<open>\<open>os.RemoveAll\<close> removes a path with all below it; an absent path is no error.\<close>

definition os_RemoveAll :: "fs \<Rightarrow> path \<Rightarrow> fs" where
  "os_RemoveAll fs cs =
     (case in_dir fs cs of
        Inl _ \<Rightarrow> fs
      | Inr p \<Rightarrow> (if p = [] then fs else filter (\<lambda>(r, _). \<not> starts_with p r) fs))"

definition os_ReadDir :: "fs \<Rightarrow> path \<Rightarrow> (string \<times> entry) list result" where
  "os_ReadDir fs cs =
     (case os_walk fs cs of
        Inl (_, e) \<Rightarrow> Inl (path_error ''open'' (cs, e))
      | Inr d \<Rightarrow>
          (if node fs d \<noteq> Some EDir then Inl (path_error ''readdirent'' (cs, ENOTDIR))
           else Inr (map (\<lambda>n. (n, case node fs (d @ [n]) of Some x \<Rightarrow> x | None \<Rightarrow> EDir)) (children fs d))))"

text \<open>
  \<open>os.CreateTemp(dir, pre + "*" + post)\<close>: Go draws numbers until the name is free; the model takes the
  first free number.
\<close>

definition temp_name :: "fs \<Rightarrow> path \<Rightarrow> string \<Rightarrow> string \<Rightarrow> string" where
  "temp_name fs d pre post =
     (case find (\<lambda>s. node fs (d @ [s]) = None) (map (\<lambda>k. pre @ nat_digits k @ post) [0..<length fs + 1]) of
        Some s \<Rightarrow> s | None \<Rightarrow> pre @ post)"

definition os_CreateTemp :: "fs \<Rightarrow> path \<Rightarrow> string \<Rightarrow> string \<Rightarrow> path result \<times> fs" where
  "os_CreateTemp fs d pre post =
     (case os_walk fs d of
        Inl (_, e) \<Rightarrow> (Inl (path_error ''open'' (d @ [pre], e)), fs)
      | Inr p \<Rightarrow>
          (if node fs p \<noteq> Some EDir then (Inl (path_error ''open'' (d @ [pre], ENOTDIR)), fs)
           else (let nm = temp_name fs p pre post in (Inr (d @ [nm]), put (p @ [nm]) (EFile []) fs))))"

definition os_Write :: "fs \<Rightarrow> path \<Rightarrow> string \<Rightarrow> fs" where
  "os_Write fs cs s = (case os_walk fs cs of Inr p \<Rightarrow> put p (EFile s) fs | Inl _ \<Rightarrow> fs)"

text \<open>
  \<open>filepath.WalkDir\<close> visits a directory before its content, names in order, and follows no links. The
  callback sees the path and the entry (or the error of \<open>os.Lstat\<close> on the root), and returns nil, an
  error, \<open>fs.SkipDir\<close> or \<open>fs.SkipAll\<close>, and the variables it captures. The root may be reached through links:
  the callback sees the given path, continued by the names below it. The fuel bounds the depth: a path of
  \<open>k\<close> components below the root needs \<open>k\<close> entries, so the size of the tree is enough.
\<close>

datatype walk_act = WNext | WSkipDir | WSkipAll | WErr go_error

type_synonym 's walk_fn = "path \<Rightarrow> entry result \<Rightarrow> 's \<Rightarrow> walk_act \<times> 's"

definition entry_at :: "fs \<Rightarrow> path \<Rightarrow> entry" where
  "entry_at fs p = (case node fs p of Some x \<Rightarrow> x | None \<Rightarrow> EDir)"

fun visit_children :: "(path \<Rightarrow> 's \<Rightarrow> walk_act \<times> 's) \<Rightarrow> path list \<Rightarrow> 's \<Rightarrow> walk_act \<times> 's" where
  "visit_children g [] s = (WNext, s)"
| "visit_children g (p # ps) s =
     (case g p s of
        (WNext, s') \<Rightarrow> visit_children g ps s'
      | (WSkipDir, s') \<Rightarrow> (WNext, s')
      | (a, s') \<Rightarrow> (a, s'))"

primrec visit :: "fs \<Rightarrow> nat \<Rightarrow> 's walk_fn \<Rightarrow> path \<Rightarrow> 's \<Rightarrow> walk_act \<times> 's" where
  "visit fs 0 fn p s = (WNext, s)"
| "visit fs (Suc n) fn p s =
     (case fn p (Inr (entry_at fs p)) s of
        (WNext, s') \<Rightarrow>
          (if entry_at fs p = EDir
           then visit_children (visit fs n fn) (map (\<lambda>nm. p @ [nm]) (children fs p)) s' else (WNext, s'))
      | (WSkipDir, s') \<Rightarrow> (if entry_at fs p = EDir then WNext else WSkipDir, s')
      | (a, s') \<Rightarrow> (a, s'))"

definition WalkDir :: "fs \<Rightarrow> path \<Rightarrow> 's walk_fn \<Rightarrow> 's \<Rightarrow> unit result \<times> 's" where
  "WalkDir fs root fn s =
     (case (case os_Lstat fs root of
              Inl e \<Rightarrow> fn root (Inl e) s
            | Inr _ \<Rightarrow>
                (case in_dir fs root of
                   Inl _ \<Rightarrow> (WNext, s)
                 | Inr q \<Rightarrow> visit fs (length fs + 2) (\<lambda>p. fn (root @ drop (length q) p)) q s)) of
        (WErr e, s') \<Rightarrow> (Inl e, s')
      | (_, s') \<Rightarrow> (Inr (), s'))"

text \<open>The visits of a callback that always goes on.\<close>

primrec preorder :: "fs \<Rightarrow> nat \<Rightarrow> path \<Rightarrow> path list" where
  "preorder fs 0 p = []"
| "preorder fs (Suc n) p =
     p # (if entry_at fs p = EDir then concat (map (\<lambda>nm. preorder fs n (p @ [nm])) (children fs p)) else [])"

text \<open>
  \<open>writeAtomic\<close> and \<open>writeFileAtomic\<close> (the same text in four packages): a temporary file in the same
  directory, written, closed and renamed over the target; the deferred remove clears it when a step
  failed. What may fail is an argument: the write after some bytes, or the close. The trace is the list of
  the trees a reader (or a crash) can find while it runs.
\<close>

datatype write_fault = NoFault | WriteFails nat | CloseFails

fun write_trace :: "write_fault \<Rightarrow> path \<Rightarrow> string \<Rightarrow> fs \<Rightarrow> unit result \<times> fs list" where
  "write_trace flt p data fs =
     (case os_CreateTemp fs (butlast p) ''.tmp-'' [] of
        (Inl e, fs1) \<Rightarrow> (Inl e, [fs1])
      | (Inr tmp, fs1) \<Rightarrow>
          (let wrote = (\<lambda>k. os_Write fs1 tmp (take k data));
               clean = (\<lambda>fs2. snd (os_Remove fs2 tmp))
           in case flt of
                WriteFails k \<Rightarrow>
                  (Inl (path_error ''write'' (tmp, EIO)), fs1 # map wrote [0..<k + 1] @ [clean (wrote k)])
              | CloseFails \<Rightarrow>
                  (Inl (path_error ''close'' (tmp, EIO)),
                   fs1 # map wrote [0..<length data + 1] @ [clean (wrote (length data))])
              | NoFault \<Rightarrow>
                  (case os_Rename (wrote (length data)) tmp p of
                     (r, fs3) \<Rightarrow> (r, fs1 # map wrote [0..<length data + 1] @ [fs3, clean fs3]))))"

definition writeFileAtomic :: "write_fault \<Rightarrow> path \<Rightarrow> string \<Rightarrow> fs \<Rightarrow> unit result \<times> fs" where
  "writeFileAtomic flt p data fs = (case write_trace flt p data fs of (r, ts) \<Rightarrow> (r, last ts))"

section \<open>Facts\<close>

lemma node_Nil [simp]: "node fs [] = Some EDir"
  by (simp add: node_def)

lemma node_put [simp]: "p \<noteq> [] \<Longrightarrow> node (put p x fs) q = (if q = p then Some x else node fs q)"
  by (auto simp: node_def)

lemma node_del [simp]: "p \<noteq> [] \<Longrightarrow> node (del p fs) q = (if q = p then None else node fs q)"
  by (auto simp: node_def)

text \<open>The steps of a walk, and its induction, by what the first component is.\<close>

definition ordinary :: "string \<Rightarrow> bool" where
  "ordinary c \<longleftrightarrow> c \<noteq> [] \<and> c \<noteq> ''.'' \<and> c \<noteq> ''..''"

lemma walk_steps [simp]:
  "c = [] \<or> c = ''.'' \<Longrightarrow> walk fs n cur (c # cs) = walk fs n cur cs"
  "walk fs n cur (''..'' # cs) = walk fs n (butlast cur) cs"
  "ordinary c \<Longrightarrow> node fs (cur @ [c]) = None \<Longrightarrow> walk fs n cur (c # cs) = Inl (cur @ [c], ENOENT)"
  "ordinary c \<Longrightarrow> node fs (cur @ [c]) = Some (EFile s) \<Longrightarrow>
     walk fs n cur (c # cs) = (if cs = [] then Inr (cur @ [c]) else Inl (cur @ [c], ENOTDIR))"
  "ordinary c \<Longrightarrow> node fs (cur @ [c]) = Some EDir \<Longrightarrow> walk fs n cur (c # cs) = walk fs n (cur @ [c]) cs"
  "ordinary c \<Longrightarrow> node fs (cur @ [c]) = Some (ELink t) \<Longrightarrow> walk fs 0 cur (c # cs) = Inl (cur @ [c], ELOOP)"
  "ordinary c \<Longrightarrow> node fs (cur @ [c]) = Some (ELink t) \<Longrightarrow>
     walk fs (Suc m) cur (c # cs) = walk fs m (link_from t cur) (comps t @ cs)"
  by (auto simp: walk.simps(2) ordinary_def)

lemma walk_induct [case_names Nil Skip Up None File Dir Loop Link]:
  assumes "\<And>n cur. P n cur []"
    and "\<And>n cur c cs. c = [] \<or> c = ''.'' \<Longrightarrow> P n cur cs \<Longrightarrow> P n cur (c # cs)"
    and "\<And>n cur cs. P n (butlast cur) cs \<Longrightarrow> P n cur (''..'' # cs)"
    and "\<And>n cur c cs. ordinary c \<Longrightarrow> node fs (cur @ [c]) = None \<Longrightarrow> P n cur (c # cs)"
    and "\<And>n cur c cs s. ordinary c \<Longrightarrow> node fs (cur @ [c]) = Some (EFile s) \<Longrightarrow> P n cur (c # cs)"
    and "\<And>n cur c cs. ordinary c \<Longrightarrow> node fs (cur @ [c]) = Some EDir \<Longrightarrow> P n (cur @ [c]) cs \<Longrightarrow> P n cur (c # cs)"
    and "\<And>cur c cs t. ordinary c \<Longrightarrow> node fs (cur @ [c]) = Some (ELink t) \<Longrightarrow> P 0 cur (c # cs)"
    and "\<And>m cur c cs t. ordinary c \<Longrightarrow> node fs (cur @ [c]) = Some (ELink t) \<Longrightarrow>
           P m (link_from t cur) (comps t @ cs) \<Longrightarrow> P (Suc m) cur (c # cs)"
  shows "P n cur cs"
proof -
  have "fs' = fs \<longrightarrow> P n cur cs" for fs'
  proof (induction fs' n cur cs rule: walk.induct)
    case (2 fs' n cur c cs)
    show ?case
    proof (intro impI)
      assume fs: "fs' = fs"
      consider "c = [] \<or> c = ''.''" | "c = ''..''" | "ordinary c" "node fs (cur @ [c]) = None"
        | s where "ordinary c" "node fs (cur @ [c]) = Some (EFile s)"
        | "ordinary c" "node fs (cur @ [c]) = Some EDir"
        | t where "ordinary c" "node fs (cur @ [c]) = Some (ELink t)" "n = 0"
        | t m where "ordinary c" "node fs (cur @ [c]) = Some (ELink t)" "n = Suc m"
        unfolding ordinary_def by (metis entry.exhaust nat.exhaust option.exhaust)
      then show "P n cur (c # cs)"
      proof cases
        case 1
        then show ?thesis using "2.IH"(1) fs assms(2) by blast
      next
        case 2
        then show ?thesis using "2.IH"(2) fs assms(3) by auto
      next
        case 3
        then show ?thesis by (rule assms(4))
      next
        case (4 s)
        then show ?thesis by (rule assms(5))
      next
        case 5
        then show ?thesis using "2.IH"(3) fs by (intro assms(6)) (auto simp: ordinary_def)
      next
        case (6 t)
        then show ?thesis using assms(7) by simp
      next
        case (7 t m)
        then show ?thesis using "2.IH"(4) fs assms(8) [of c cur t m cs] by (auto simp: ordinary_def)
      qed
    qed
  qed (use assms(1) in simp)
  then show ?thesis by simp
qed

text \<open>A path is physical when every prefix of it is a directory, the path itself a directory or file.\<close>

definition is_dir :: "fs \<Rightarrow> path \<Rightarrow> bool" where
  "is_dir fs d \<longleftrightarrow> list_all plain d \<and> (\<forall>k \<le> length d. node fs (take k d) = Some EDir)"

definition physical :: "fs \<Rightarrow> path \<Rightarrow> bool" where
  "physical fs p \<longleftrightarrow> is_dir fs p \<or> p \<noteq> [] \<and> is_dir fs (butlast p) \<and> plain (last p) \<and> (\<exists>s. node fs p = Some (EFile s))"

definition no_slash :: "string list \<Rightarrow> bool" where
  "no_slash cs \<longleftrightarrow> list_all (\<lambda>c. CHR ''/'' \<notin> set c) cs"

lemma no_slash_simps [simp]:
  "no_slash []" "no_slash (c # cs) \<longleftrightarrow> CHR ''/'' \<notin> set c \<and> no_slash cs"
  "no_slash (cs @ ds) \<longleftrightarrow> no_slash cs \<and> no_slash ds" "no_slash (comps s)"
  by (auto simp: no_slash_def list_all_iff comps_def Split_no_sep)

lemma plain_iff: "plain c \<longleftrightarrow> ordinary c \<and> CHR ''/'' \<notin> set c"
  by (auto simp: plain_def ordinary_def)

lemma is_dir_Nil [simp]: "is_dir fs []"
  by (simp add: is_dir_def)

lemma is_dir_node: "is_dir fs d \<Longrightarrow> node fs d = Some EDir"
  unfolding is_dir_def by (metis order_refl take_all)

lemma is_dir_snoc [simp]: "is_dir fs (d @ [c]) \<longleftrightarrow> is_dir fs d \<and> plain c \<and> node fs (d @ [c]) = Some EDir"
  by (auto simp: is_dir_def le_Suc_eq)

lemma is_dir_step: "d \<noteq> [] \<Longrightarrow> is_dir fs d \<longleftrightarrow> is_dir fs (butlast d) \<and> plain (last d) \<and> node fs d = Some EDir"
  by (cases d rule: rev_cases) simp_all

lemma is_dir_butlast [simp]: "is_dir fs d \<Longrightarrow> is_dir fs (butlast d)"
  by (cases d rule: rev_cases) auto

lemma is_dir_link_from [simp]: "is_dir fs d \<Longrightarrow> is_dir fs (link_from t d)"
  by (simp add: link_from_def)

lemma physical_file [simp]: "is_dir fs d \<Longrightarrow> plain c \<Longrightarrow> node fs (d @ [c]) = Some (EFile s) \<Longrightarrow> physical fs (d @ [c])"
  by (simp add: physical_def)

lemma walk_physical: "walk fs n cur cs = Inr p \<Longrightarrow> is_dir fs cur \<Longrightarrow> no_slash cs \<Longrightarrow> physical fs p"
  by (induction n cur cs rule: walk_induct [of _ fs]) (auto simp: plain_iff physical_def split: if_splits)

text \<open>A physical path is its own resolution, whatever the number of links allowed.\<close>

lemma walk_dir: "is_dir fs (d @ cs) \<Longrightarrow> walk fs n d (cs @ es) = walk fs n (d @ cs) es"
proof (induction cs arbitrary: d)
  case (Cons c cs)
  then have "is_dir fs ((d @ [c]) @ cs)" by simp
  moreover from Cons.prems have "plain c" "node fs (d @ [c]) = Some EDir"
    by (auto simp: is_dir_def dest: spec [of _ "Suc (length d)"])
  ultimately show ?case using Cons.IH [of "d @ [c]"] by (simp add: plain_iff)
qed simp

lemma walk_self: "physical fs p \<Longrightarrow> walk fs n [] p = Inr p"
proof (cases "is_dir fs p")
  case True
  with walk_dir [of fs "[]" p n "[]"] show ?thesis by simp
next
  case False
  moreover assume "physical fs p"
  ultimately obtain d c s where p: "p = d @ [c]" "is_dir fs d" "plain c" "node fs (d @ [c]) = Some (EFile s)"
    by (cases p rule: rev_cases) (auto simp: physical_def)
  with walk_dir [of fs "[]" d n "[c]"] show ?thesis by (simp add: plain_iff)
qed

text \<open>Resolving a longer path goes through the resolution of its beginning.\<close>

lemma walk_append_Inl: "walk fs n cur cs = Inl e \<Longrightarrow> walk fs n cur (cs @ ds) = Inl e"
  by (induction n cur cs rule: walk_induct [of _ fs]) (auto split: if_splits)

lemma walk_append_Inr:
  "walk fs n cur cs = Inr d \<Longrightarrow> node fs d = Some EDir \<Longrightarrow> is_dir fs cur \<Longrightarrow> no_slash cs \<Longrightarrow>
   \<exists>m \<le> n. walk fs n cur (cs @ ds) = walk fs m d ds"
  by (induction n cur cs rule: walk_induct [of _ fs]) (auto simp: plain_iff intro: le_SucI split: if_splits)

lemma walk_append_file:
  "walk fs n cur cs = Inr d \<Longrightarrow> node fs d = Some (EFile s) \<Longrightarrow> is_dir fs cur \<Longrightarrow> no_slash cs \<Longrightarrow> ordinary c \<Longrightarrow>
   \<exists>p. walk fs n cur (cs @ [c]) = Inl (p, ENOTDIR)"
proof (induction n cur cs rule: walk_induct [of _ fs])
  case (Nil n cur)
  then show ?case by (auto dest: is_dir_node)
qed (auto simp: plain_iff split: if_splits)

text \<open>More links change nothing but a link-limit error.\<close>

lemma walk_more_links:
  "n \<le> m \<Longrightarrow> walk fs m cur cs = walk fs n cur cs \<or> (\<exists>p. walk fs n cur cs = Inl (p, ELOOP))"
proof (induction n cur cs arbitrary: m rule: walk_induct [of _ fs])
  case (Link k cur c cs t)
  then obtain m' where "m = Suc m'" "k \<le> m'" by (cases m) auto
  with Link show ?case by simp
qed auto

lemma norm_onto_plain: "list_all plain cs \<Longrightarrow> norm_onto base cs = base @ cs"
  by (induction cs arbitrary: base) (auto simp: plain_def)

lemma norm_onto_all_plain: "list_all plain base \<Longrightarrow> no_slash cs \<Longrightarrow> list_all plain (norm_onto base cs)"
proof (induction base cs rule: norm_onto.induct)
  case (2 base c cs)
  have "list_all plain (butlast base)" using 2(4) by (cases base rule: rev_cases) auto
  moreover have "plain c" if "c \<noteq> []" "c \<noteq> ''.''" "c \<noteq> ''..''" using 2(5) that by (simp add: plain_def)
  ultimately show ?case using 2 by auto
qed simp

lemma physical_plain: "physical fs p \<Longrightarrow> list_all plain p"
  by (cases p rule: rev_cases) (auto simp: physical_def is_dir_def)

section \<open>Operations inside a physical directory\<close>

text \<open>A number that is free among the names of a directory exists, so a temporary file is always new.\<close>

lemma temp_name_free:
  "node fs (d @ [temp_name fs d pre post]) = None \<and> (\<exists>k. temp_name fs d pre post = pre @ nat_digits k @ post)"
proof -
  let ?nm = "\<lambda>k. pre @ nat_digits k @ post"
  have inj: "inj (\<lambda>k. d @ [?nm k])" by (auto simp: inj_def)
  have "\<exists>k \<le> length fs. node fs (d @ [?nm k]) = None"
  proof (rule ccontr)
    assume "\<not> ?thesis"
    then have "(\<lambda>k. d @ [?nm k]) ` {..length fs} \<subseteq> fst ` set fs"
      by (auto simp: node_def map_of_eq_None_iff)
    then have "card ((\<lambda>k. d @ [?nm k]) ` {..length fs}) \<le> card (fst ` set fs)" by (simp add: card_mono)
    moreover have "card (fst ` set fs) \<le> length fs" by (metis card_length length_map list.set_map)
    ultimately show False using inj by (simp add: card_image inj_on_subset)
  qed
  then obtain k where "k < length fs + 1" "node fs (d @ [?nm k]) = None" by (auto simp: less_Suc_eq_le)
  then have "find (\<lambda>s. node fs (d @ [s]) = None) (map ?nm [0..<length fs + 1]) \<noteq> None"
    by (auto simp: find_None_iff simp del: upt_Suc)
  then obtain s where s: "find (\<lambda>s. node fs (d @ [s]) = None) (map ?nm [0..<length fs + 1]) = Some s" by blast
  then have "node fs (d @ [s]) = None" "s \<in> set (map ?nm [0..<length fs + 1])"
    unfolding find_Some_iff by (metis, metis nth_mem)
  with s show ?thesis unfolding temp_name_def by (auto simp del: upt_Suc)
qed

lemma os_walk_physical: "physical fs p \<Longrightarrow> os_walk fs p = Inr p"
  by (simp add: os_walk_def walk_self)

lemma os_walk_dir [simp]: "is_dir fs d \<Longrightarrow> os_walk fs d = Inr d"
  by (rule os_walk_physical) (simp add: physical_def)

lemma os_walk_file [simp]: "is_dir fs d \<Longrightarrow> plain c \<Longrightarrow> node fs (d @ [c]) = Some (EFile s) \<Longrightarrow> os_walk fs (d @ [c]) = Inr (d @ [c])"
  by (rule os_walk_physical) simp

lemma os_walk_child:
  "is_dir fs d \<Longrightarrow> plain c \<Longrightarrow> node fs (d @ [c]) = None \<Longrightarrow> os_walk fs (d @ [c]) = Inl (d @ [c], ENOENT)"
  using walk_dir [of fs "[]" d 40 "[c]"] by (simp add: os_walk_def plain_iff)

lemma in_dir_dir [simp]: "is_dir fs d \<Longrightarrow> in_dir fs (d @ [c]) = Inr (d @ [c])"
  by (simp add: in_dir_def is_dir_node)

lemma os_Stat_dir [simp]: "is_dir fs d \<Longrightarrow> os_Stat fs d = Inr EDir"
  by (simp add: os_Stat_def is_dir_node)

lemma os_ReadFile_file [simp]:
  "is_dir fs d \<Longrightarrow> plain c \<Longrightarrow> node fs (d @ [c]) = Some (EFile s) \<Longrightarrow> os_ReadFile fs (d @ [c]) = Inr s"
  by (simp add: os_ReadFile_def)

lemma os_ReadFile_missing [simp]:
  "is_dir fs d \<Longrightarrow> plain c \<Longrightarrow> node fs (d @ [c]) = None \<Longrightarrow>
   os_ReadFile fs (d @ [c]) = Inl (path_error ''open'' (d @ [c], ENOENT))"
  by (simp add: os_ReadFile_def os_walk_child)

lemma is_dir_put_fresh:
  "node fs q = None \<or> (\<exists>s. node fs q = Some (EFile s)) \<or> (\<exists>t. node fs q = Some (ELink t)) \<Longrightarrow> is_dir fs d \<Longrightarrow> is_dir (put q x fs) d"
  unfolding is_dir_def by (cases "q = []") (auto simp: node_def split: if_splits)

lemma is_dir_del: "node fs q \<noteq> Some EDir \<Longrightarrow> is_dir fs d \<Longrightarrow> is_dir (del q fs) d"
  unfolding is_dir_def by (cases "q = []") (auto simp: node_def split: if_splits)

lemma os_Write_file [simp]:
  "is_dir fs d \<Longrightarrow> plain c \<Longrightarrow> node fs (d @ [c]) = Some (EFile s) \<Longrightarrow> os_Write fs (d @ [c]) t = put (d @ [c]) (EFile t) fs"
  by (simp add: os_Write_def)

lemma plain_temp: "plain (''.tmp-'' @ nat_digits k)"
proof -
  have "CHR ''/'' \<notin> set (nat_digits k)"
    using nat_digits_digits [of k] by (auto simp: list_all_iff is_digit_def)
  then show ?thesis by (simp add: plain_def)
qed

text \<open>Two trees are the same when every path holds the same.\<close>

definition same_tree :: "fs \<Rightarrow> fs \<Rightarrow> bool" where
  "same_tree fs fs' \<longleftrightarrow> node fs = node fs'"

lemma same_treeI: "(\<And>q. node fs q = node fs' q) \<Longrightarrow> same_tree fs fs'"
  by (simp add: same_tree_def fun_eq_iff)

lemma same_tree_refl [simp]: "same_tree fs fs"
  by (simp add: same_tree_def)

definition is_temp :: "string \<Rightarrow> bool" where
  "is_temp c \<longleftrightarrow> (\<exists>k. c = ''.tmp-'' @ nat_digits k)"

text \<open>
  The target of an atomic write holds its old entry or the whole new content in every tree of the
  trace, nothing but it and a fresh temporary name is touched, and at the end the write has happened
  entirely or not at all.
\<close>

lemma write_trace_states:
  assumes d: "is_dir fs d" and c: "plain c" "\<not> is_temp c \<or> node fs (d @ [c]) \<noteq> None"
    and tr: "write_trace flt (d @ [c]) data fs = (r, ts)"
  obtains nm where "is_temp nm" "node fs (d @ [nm]) = None"
    "\<forall>t \<in> set ts. (node t (d @ [c]) = node fs (d @ [c]) \<or> node t (d @ [c]) = Some (EFile data)) \<and>
       (\<forall>q. q \<noteq> d @ [c] \<longrightarrow> q \<noteq> d @ [nm] \<longrightarrow> node t q = node fs q)"
    "ts \<noteq> []"
    "r = Inr () \<and> node fs (d @ [c]) \<noteq> Some EDir \<and> node (last ts) = (node fs)(d @ [c] \<mapsto> EFile data) \<or> r \<noteq> Inr () \<and> node (last ts) = node fs"
    "flt = NoFault \<Longrightarrow> node fs (d @ [c]) \<noteq> Some EDir \<Longrightarrow> r = Inr ()"
proof -
  define nm where "nm = temp_name fs d ''.tmp-'' []"
  have free: "node fs (d @ [nm]) = None" and temp: "is_temp nm"
    using temp_name_free [of fs d "''.tmp-''" "[]"] by (auto simp: nm_def is_temp_def)
  have pl: "plain nm" using temp plain_temp by (auto simp: is_temp_def)
  have neq: "nm \<noteq> c" using c temp free by auto
  let ?w = "\<lambda>s. put (d @ [nm]) (EFile s) fs" and ?fs1 = "put (d @ [nm]) (EFile []) fs"
  have create: "os_CreateTemp fs d ''.tmp-'' [] = (Inr (d @ [nm]), ?fs1)"
    using d by (simp add: os_CreateTemp_def is_dir_node nm_def Let_def)
  have dir1 [simp]: "is_dir (?w s) d" for s using d free by (intro is_dir_put_fresh) auto
  have put2: "put p x (put p y fs) = put p x fs" for p x y and fs :: fs
    by (induction fs) auto
  have wrote [simp]: "os_Write ?fs1 (d @ [nm]) s = ?w s" for s
    using dir1 [of "[]"] pl by (simp add: put2)
  have rm: "snd (os_Remove (?w s) (d @ [nm])) = del (d @ [nm]) (?w s)" for s
    by (simp add: os_Remove_def)
  have del_put: "node (del (d @ [nm]) (?w s)) = node fs" for s
    using free by (auto simp: fun_eq_iff)
  show thesis
  proof (cases flt)
    case NoFault
    let ?fs2 = "?w data"
    show ?thesis
    proof (cases "node fs (d @ [c]) = Some EDir")
      case True
      then have ren: "os_Rename ?fs2 (d @ [nm]) (d @ [c]) = (Inl (path_error ''rename'' (d @ [nm], EEXIST)), ?fs2)"
        using neq by (simp add: os_Rename_def)
      show ?thesis
        using tr NoFault neq True
        by (intro that [OF temp free])
          (auto simp: create ren rm del_put take_all Let_def simp del: upt_Suc os_Write_file)
    next
      case False
      let ?fs3 = "put (d @ [c]) (EFile data) (del (d @ [nm]) ?fs2)"
      have ren: "os_Rename ?fs2 (d @ [nm]) (d @ [c]) = (Inr (), ?fs3)"
        using neq False by (simp add: os_Rename_def)
      have "is_dir ?fs3 d"
        using False neq by (intro is_dir_put_fresh is_dir_del dir1) (auto, metis entry.exhaust)
      then have rm3: "snd (os_Remove ?fs3 (d @ [nm])) = ?fs3"
        using neq by (simp add: os_Remove_def)
      show ?thesis
        using tr NoFault neq False free
        by (intro that [OF temp free])
          (auto simp: create ren rm3 take_all Let_def fun_eq_iff simp del: upt_Suc os_Write_file)
    qed
  next
    case (WriteFails k)
    then show ?thesis
      using tr neq
      by (intro that [OF temp free]) (auto simp: create rm del_put Let_def simp del: upt_Suc os_Write_file)
  next
    case CloseFails
    then show ?thesis
      using tr neq
      by (intro that [OF temp free]) (auto simp: create rm del_put take_all Let_def simp del: upt_Suc os_Write_file)
  qed
qed

lemma writeFileAtomic_cases:
  assumes "is_dir fs d" "plain c" "\<not> is_temp c \<or> node fs (d @ [c]) \<noteq> None" "writeFileAtomic flt (d @ [c]) data fs = (r, fs')"
  shows "r = Inr () \<and> node fs (d @ [c]) \<noteq> Some EDir \<and> node fs' = (node fs)(d @ [c] \<mapsto> EFile data) \<or> r \<noteq> Inr () \<and> node fs' = node fs"
    and "flt = NoFault \<Longrightarrow> node fs (d @ [c]) \<noteq> Some EDir \<Longrightarrow> r = Inr ()"
proof -
  obtain ts where tr: "write_trace flt (d @ [c]) data fs = (r, ts)" and fs': "fs' = last ts"
    using assms(4) by (auto simp: writeFileAtomic_def split: prod.splits)
  from write_trace_states [OF assms(1-3) tr] fs'
  show "r = Inr () \<and> node fs (d @ [c]) \<noteq> Some EDir \<and> node fs' = (node fs)(d @ [c] \<mapsto> EFile data) \<or> r \<noteq> Inr () \<and> node fs' = node fs"
    and "flt = NoFault \<Longrightarrow> node fs (d @ [c]) \<noteq> Some EDir \<Longrightarrow> r = Inr ()"
    by metis+
qed

section \<open>Paths as strings\<close>

lemma slash_split:
  "CHR ''/'' \<notin> set c \<Longrightarrow> CHR ''/'' \<notin> set d \<Longrightarrow> X = [] \<or> hd X = CHR ''/'' \<Longrightarrow> Y = [] \<or> hd Y = CHR ''/'' \<Longrightarrow>
   c @ X = d @ Y \<longleftrightarrow> c = d \<and> X = Y"
proof (induction c arbitrary: d)
  case Nil
  then show ?case by (cases d; cases X) auto
next
  case (Cons a c)
  then show ?case by (cases d; cases Y) auto
qed

abbreviation slashed :: "path \<Rightarrow> string" where
  "slashed cs \<equiv> concat (map (\<lambda>c. CHR ''/'' # c) cs)"

lemma slashed_start: "slashed cs = [] \<or> hd (slashed cs) = CHR ''/''"
  by (cases cs) auto

lemma slashed_prefix:
  "list_all plain q \<Longrightarrow> list_all plain r \<Longrightarrow> (\<exists>t. slashed q = slashed r @ CHR ''/'' # t) \<longleftrightarrow> (\<exists>x xs. q = r @ x # xs)"
proof (induction r arbitrary: q)
  case Nil
  then show ?case by (cases q) auto
next
  case (Cons c r)
  show ?case
  proof (cases q)
    case (Cons d q')
    with Cons.prems have p: "CHR ''/'' \<notin> set c" "CHR ''/'' \<notin> set d" by (simp_all add: plain_def)
    have "d @ slashed q' = c @ (slashed r @ CHR ''/'' # t) \<longleftrightarrow> d = c \<and> slashed q' = slashed r @ CHR ''/'' # t" for t
      using p slashed_start [of q'] slashed_start [of r] by (intro slash_split) (auto simp: hd_append)
    then show ?thesis using Cons Cons.IH [of q'] Cons.prems by simp
  qed simp
qed

lemma slashed_inj: "list_all plain q \<Longrightarrow> list_all plain r \<Longrightarrow> slashed q = slashed r \<longleftrightarrow> q = r"
proof (induction r arbitrary: q)
  case Nil
  then show ?case by (cases q) auto
next
  case (Cons c r)
  show ?case
  proof (cases q)
    case (Cons d q')
    with Cons.prems have "d @ slashed q' = c @ slashed r \<longleftrightarrow> d = c \<and> slashed q' = slashed r"
      using slashed_start [of q'] slashed_start [of r] by (intro slash_split) (auto simp: plain_def)
    then show ?thesis using Cons Cons.IH [of q'] Cons.prems by simp
  qed simp
qed

lemma abs_str_inj: "list_all plain q \<Longrightarrow> list_all plain r \<Longrightarrow> abs_str q = abs_str r \<longleftrightarrow> q = r"
proof -
  have root: "slashed p \<noteq> ''/''" if "list_all plain p" for p
    using that by (cases p) (auto simp: plain_def)
  assume "list_all plain q" "list_all plain r"
  then show ?thesis
    using slashed_inj [of q r] root [of q] root [of r] unfolding abs_str_def by (cases "q = []"; cases "r = []") auto
qed

text \<open>The string test of the sandbox is the prefix test on components.\<close>

lemma abs_str_below:
  "list_all plain q \<Longrightarrow> list_all plain r \<Longrightarrow>
   HasPrefix (abs_str q) (abs_str r @ ''/'') \<longleftrightarrow> r \<noteq> [] \<and> (\<exists>x xs. q = r @ x # xs)"
proof -
  assume pl: "list_all plain q" "list_all plain r"
  show ?thesis
  proof (cases "r = []")
    case True
    with pl show ?thesis by (cases q) (auto simp: abs_str_def HasPrefix_iff plain_def neq_Nil_conv)
  next
    case False
    have "''/'' \<noteq> slashed r @ CHR ''/'' # t" for t using False by (cases r) auto
    then show ?thesis using False slashed_prefix [OF pl]
      by (cases "q = []") (auto simp: abs_str_def HasPrefix_iff)
  qed
qed

section \<open>Trees whose entries have their directories\<close>

definition tree_ok :: "fs \<Rightarrow> bool" where
  "tree_ok fs \<longleftrightarrow> list_all (\<lambda>p. node fs (butlast p) = Some EDir \<and> list_all plain p) (map fst fs)"

lemma tree_ok_parent: "tree_ok fs \<Longrightarrow> node fs p \<noteq> None \<Longrightarrow> node fs (butlast p) = Some EDir"
proof (cases "p = []")
  case False
  assume "tree_ok fs" "node fs p \<noteq> None"
  with False have "p \<in> set (map fst fs)" by (metis node_def map_of_eq_None_iff set_map)
  with \<open>tree_ok fs\<close> show ?thesis unfolding tree_ok_def list_all_iff by blast
qed simp

lemma tree_ok_plain: "tree_ok fs \<Longrightarrow> node fs p \<noteq> None \<Longrightarrow> list_all plain p"
proof (cases "p = []")
  case False
  assume "tree_ok fs" "node fs p \<noteq> None"
  with False have "p \<in> set (map fst fs)" by (metis node_def map_of_eq_None_iff set_map)
  with \<open>tree_ok fs\<close> show ?thesis unfolding tree_ok_def list_all_iff by blast
qed simp

lemma tree_ok_none: "tree_ok fs \<Longrightarrow> node fs p = None \<Longrightarrow> node fs (p @ zs) = None"
proof (induction zs rule: rev_induct)
  case (snoc z zs)
  then show ?case using tree_ok_parent [of fs "p @ zs @ [z]"]
    by (cases "node fs (p @ zs @ [z])") (auto simp: butlast_append)
qed simp

section \<open>Creating missing directories\<close>

lemma os_MkdirAll_dir [simp]: "is_dir fs d \<Longrightarrow> os_MkdirAll fs d = (Inr (), fs)"
  by (simp add: os_MkdirAll.simps)

lemma os_Stat_below_missing:
  assumes "is_dir fs d" "plain x" "node fs (d @ [x]) = None"
  shows "\<exists>e. os_Stat fs (d @ x # ys) = Inl e"
proof -
  have "walk fs 40 d [x] = Inl (d @ [x], ENOENT)" using assms by (simp add: plain_iff)
  then have "walk fs 40 d ([x] @ ys) = Inl (d @ [x], ENOENT)" by (rule walk_append_Inl)
  then show ?thesis using walk_dir [of fs "[]" d 40 "x # ys"] assms by (simp add: os_Stat_def os_walk_def)
qed

lemma os_MkdirAll_new:
  assumes "is_dir fs d" "tree_ok fs" "list_all plain ys" "ys \<noteq> [] \<longrightarrow> node fs (d @ [hd ys]) = None"
  shows "\<exists>fs'. os_MkdirAll fs (d @ ys) = (Inr (), fs') \<and> is_dir fs' (d @ ys) \<and>
    (\<forall>p. node fs' p = (if \<exists>k \<in> {1..length ys}. p = d @ take k ys then Some EDir else node fs p))"
  using assms(3,4)
proof (induction ys rule: rev_induct)
  case Nil
  with assms(1) show ?case by (intro exI [of _ fs]) simp
next
  case (snoc y ys)
  obtain x zs where xz: "ys @ [y] = x # zs" by (cases "ys @ [y]") auto
  have missing: "node fs (d @ [x]) = None" "plain x" using snoc.prems xz by auto
  obtain e where stat: "os_Stat fs (d @ ys @ [y]) = Inl e"
    using os_Stat_below_missing [OF assms(1) missing(2,1)] xz by metis
  have hd: "ys \<noteq> [] \<longrightarrow> node fs (d @ [hd ys]) = None" using snoc.prems by (cases ys) auto
  with snoc obtain fs' where mk: "os_MkdirAll fs (d @ ys) = (Inr (), fs')" and dir: "is_dir fs' (d @ ys)"
    and nodes: "\<And>p. node fs' p = (if \<exists>k \<in> {1..length ys}. p = d @ take k ys then Some EDir else node fs p)"
    by auto
  have "node fs (d @ ys @ [y]) = None" using tree_ok_none [OF assms(2) missing(1), of zs] xz by simp
  moreover have "d @ ys @ [y] \<noteq> d @ take k ys" for k
  proof
    assume "d @ ys @ [y] = d @ take k ys"
    then have "length (ys @ [y]) = length (take k ys)" by (metis same_append_eq)
    then show False by simp
  qed
  ultimately have none: "node fs' (d @ ys @ [y]) = None" using nodes by auto
  let ?fs'' = "put (d @ ys @ [y]) EDir fs'"
  have "os_Mkdir fs' (d @ ys @ [y]) = (Inr (), ?fs'')"
    using none in_dir_dir [OF dir, of y] by (simp add: os_Mkdir_def)
  then have "os_MkdirAll fs (d @ ys @ [y]) = (Inr (), ?fs'')"
    using stat mk by (subst os_MkdirAll.simps) (simp add: butlast_append)
  moreover have "is_dir ?fs'' (d @ ys @ [y])"
    using is_dir_put_fresh [of fs' "d @ ys @ [y]" "d @ ys" EDir] none dir snoc.prems(1)
      is_dir_snoc [of ?fs'' "d @ ys" y] by simp
  moreover have "node ?fs'' p = (if \<exists>k \<in> {1..length (ys @ [y])}. p = d @ take k (ys @ [y]) then Some EDir else node fs p)" for p
  proof -
    have "(\<exists>k \<in> {1..length (ys @ [y])}. p = d @ take k (ys @ [y])) \<longleftrightarrow>
        p = d @ ys @ [y] \<or> (\<exists>k \<in> {1..length ys}. p = d @ take k ys)"
      by (auto simp: atLeastAtMostSuc_conv)
    then show ?thesis using nodes [of p] by simp
  qed
  ultimately show ?case by (intro exI [of _ ?fs'']) simp
qed

text \<open>Nothing can be made below a link that leads nowhere, and the attempt changes nothing.\<close>

lemma os_MkdirAll_dangling:
  assumes "is_dir fs d" "plain x" "node fs (d @ [x]) = Some (ELink t)" "walk fs 40 d [x] = Inl e"
  shows "\<exists>e. os_MkdirAll fs (d @ x # ys) = (Inl e, fs)"
proof (induction ys rule: rev_induct)
  case Nil
  have stat: "\<exists>e. os_Stat fs (d @ [x]) = Inl e"
    using walk_dir [of fs "[]" d 40 "[x]"] assms by (cases e) (simp add: os_Stat_def os_walk_def)
  have "os_Mkdir fs (d @ [x]) = (Inl (path_error ''mkdir'' (d @ [x], EEXIST)), fs)"
    using assms by (simp add: os_Mkdir_def)
  moreover have "os_Lstat fs (d @ [x]) = Inr (ELink t)" using assms by (simp add: os_Lstat_def)
  ultimately show ?case using stat assms by (subst os_MkdirAll.simps) (auto simp: butlast_append)
next
  case (snoc y ys)
  have "walk fs 40 d ([x] @ ys @ [y]) = Inl e" using assms(4) by (rule walk_append_Inl)
  then have "\<exists>e. os_Stat fs (d @ x # ys @ [y]) = Inl e"
    using walk_dir [of fs "[]" d 40 "x # ys @ [y]"] assms(1) by (cases e) (simp add: os_Stat_def os_walk_def)
  then show ?case using snoc by (subst os_MkdirAll.simps) (auto simp: butlast_append)
qed

section \<open>Walking a tree\<close>

text \<open>An invariant of the callback's variables that every call keeps holds after the walk.\<close>

lemma visit_children_invariant:
  "(\<And>p s. p \<in> set ps \<Longrightarrow> I s \<Longrightarrow> I (snd (g p s))) \<Longrightarrow> I s \<Longrightarrow> I (snd (visit_children g ps s))"
proof (induction ps arbitrary: s)
  case (Cons p ps)
  obtain a t where g: "g p s = (a, t)" by fastforce
  then have "I t" using Cons.prems(1) [of p s] Cons.prems(2) by simp
  then have "I (snd (visit_children g ps t))" using Cons.prems(1) by (intro Cons.IH) auto
  with g \<open>I t\<close> show ?case by (cases a) auto
qed simp

lemma visit_invariant:
  assumes step: "\<And>zs d s. I s \<Longrightarrow> I (snd (fn (base @ zs) d s))"
  shows "I s \<Longrightarrow> I (snd (visit fs n fn (base @ zs) s))"
proof (induction n arbitrary: zs s)
  case (Suc n)
  let ?p = "base @ zs"
  obtain a t where g: "fn ?p (Inr (entry_at fs ?p)) s = (a, t)" by fastforce
  then have t: "I t" using step [of s zs] Suc.prems by (metis snd_conv)
  have "I (snd (visit_children (visit fs n fn) (map (\<lambda>nm. ?p @ [nm]) (children fs ?p)) t))"
  proof (rule visit_children_invariant [where I = I])
    fix q s
    assume "q \<in> set (map (\<lambda>nm. ?p @ [nm]) (children fs ?p))" "I s"
    then show "I (snd (visit fs n fn q s))" using Suc.IH by auto
  qed (rule t)
  with g t show ?case by (cases a) simp_all
qed simp

lemma WalkDir_invariant:
  assumes step: "\<And>zs d s. I s \<Longrightarrow> I (snd (fn (base @ zs) d s))" and "I s" "WalkDir fs base fn s = (r, s')"
  shows "I s'"
proof -
  have "I (snd (visit fs n (\<lambda>p. fn (base @ drop (length q) p)) q s))" for n q
    using visit_invariant [of I "\<lambda>p. fn (base @ drop (length q) p)" q s fs n "[]"] step assms(2) by simp
  then have "I (snd (case os_Lstat fs base of Inl e \<Rightarrow> fn base (Inl e) s
      | Inr _ \<Rightarrow> (case in_dir fs base of Inl _ \<Rightarrow> (WNext, s)
          | Inr q \<Rightarrow> visit fs (length fs + 2) (\<lambda>p. fn (base @ drop (length q) p)) q s)))"
    using step [of s "[]"] assms(2) by (simp del: visit.simps split: sum.split)
  with assms(3) show ?thesis by (auto simp: WalkDir_def split: prod.splits walk_act.splits)
qed

text \<open>Only paths below the root are visited; from a directory reached without links they are its own.\<close>

lemma visit_children_cong:
  "(\<And>q s. q \<in> set ps \<Longrightarrow> g q s = h q s) \<Longrightarrow> visit_children g ps s = visit_children h ps s"
  by (induction ps arbitrary: s) (auto split: prod.split walk_act.split)

lemma visit_cong: "(\<And>zs d s. fn (p @ zs) d s = fn' (p @ zs) d s) \<Longrightarrow> visit fs n fn p s = visit fs n fn' p s"
proof (induction n arbitrary: p s)
  case (Suc n)
  have head: "fn p d s = fn' p d s" for d s using Suc.prems [of "[]"] by simp
  have "visit_children (visit fs n fn) (map (\<lambda>nm. p @ [nm]) (children fs p)) t =
      visit_children (visit fs n fn') (map (\<lambda>nm. p @ [nm]) (children fs p)) t" for t
    by (rule visit_children_cong) (use Suc in auto)
  then show ?case using head by (simp split: prod.split walk_act.split)
qed simp

lemma in_dir_physical [simp]: "is_dir fs d \<Longrightarrow> in_dir fs d = Inr d"
  by (cases d rule: rev_cases) (auto simp: in_dir_def is_dir_node)

lemma WalkDir_dir:
  assumes "is_dir fs d"
  shows "WalkDir fs d fn s =
    (case visit fs (length fs + 2) fn d s of (WErr e, s') \<Rightarrow> (Inl e, s') | (_, s') \<Rightarrow> (Inr (), s'))"
proof -
  have "visit fs n (\<lambda>p. fn (d @ drop (length d) p)) d s = visit fs n fn d s" for n
    by (rule visit_cong) simp
  moreover have "os_Lstat fs d = Inr EDir" using assms by (simp add: os_Lstat_def is_dir_node)
  ultimately show ?thesis using assms by (simp add: WalkDir_def del: visit.simps)
qed

text \<open>A callback that never skips folds over the visits in order until its first error.\<close>

primrec walk_fold :: "fs \<Rightarrow> 's walk_fn \<Rightarrow> path list \<Rightarrow> 's \<Rightarrow> walk_act \<times> 's" where
  "walk_fold fs fn [] s = (WNext, s)"
| "walk_fold fs fn (p # ps) s =
     (case fn p (Inr (entry_at fs p)) s of (WNext, s') \<Rightarrow> walk_fold fs fn ps s' | r \<Rightarrow> r)"

definition never_skips :: "'s walk_fn \<Rightarrow> bool" where
  "never_skips fn \<longleftrightarrow> (\<forall>p d s. fst (fn p d s) = WNext \<or> (\<exists>e. fst (fn p d s) = WErr e))"

lemma walk_fold_append:
  "walk_fold fs fn (ps @ qs) s = (case walk_fold fs fn ps s of (WNext, s') \<Rightarrow> walk_fold fs fn qs s' | r \<Rightarrow> r)"
  by (induction ps arbitrary: s) (auto split: prod.split walk_act.split)

lemma walk_fold_acts:
  assumes "never_skips fn"
  obtains "fst (walk_fold fs fn ps s) = WNext" | e where "fst (walk_fold fs fn ps s) = WErr e"
proof -
  have "fst (walk_fold fs fn ps s) = WNext \<or> (\<exists>e. fst (walk_fold fs fn ps s) = WErr e)"
  proof (induction ps arbitrary: s)
    case (Cons p ps)
    obtain a t where g: "fn p (Inr (entry_at fs p)) s = (a, t)" by fastforce
    with assms have "a = WNext \<or> (\<exists>e. a = WErr e)" unfolding never_skips_def by (metis fst_conv)
    with g Cons [of t] show ?case by auto
  qed simp
  then show ?thesis using that by blast
qed

lemma visit_walk_fold:
  assumes "never_skips fn"
  shows "visit fs n fn p s = walk_fold fs fn (preorder fs n p) s"
proof (induction n arbitrary: p s)
  case (Suc n)
  have kids: "visit_children (visit fs n fn) ps t = walk_fold fs fn (concat (map (preorder fs n) ps)) t" for ps t
  proof (induction ps arbitrary: t)
    case (Cons q qs)
    obtain a u where g: "walk_fold fs fn (preorder fs n q) t = (a, u)" by fastforce
    have "a = WNext \<or> (\<exists>e. a = WErr e)" using walk_fold_acts [OF assms, of fs "preorder fs n q" t] g by auto
    with g Suc.IH Cons show ?case by (auto simp: walk_fold_append)
  qed simp
  obtain a t where g: "fn p (Inr (entry_at fs p)) s = (a, t)" by fastforce
  with assms have "a = WNext \<or> (\<exists>e. a = WErr e)" unfolding never_skips_def by (metis fst_conv)
  with g kids [of "map (\<lambda>nm. p @ [nm]) (children fs p)" t] show ?case by (auto simp: comp_def)
qed simp

lemma WalkDir_walk_fold:
  assumes "is_dir fs d" "never_skips fn"
  shows "WalkDir fs d fn s = (case walk_fold fs fn (preorder fs (length fs + 2) d) s of
    (WErr e, s') \<Rightarrow> (Inl e, s') | (_, s') \<Rightarrow> (Inr (), s'))"
  using assms by (simp add: WalkDir_dir visit_walk_fold del: preorder.simps visit.simps)

text \<open>A callback that goes on at every visit of the tree folds over the visits in order.\<close>

lemma visit_children_fold:
  assumes "\<And>p s. p \<in> set ps \<Longrightarrow> (\<And>vs v ws. pre p = vs @ v # ws \<Longrightarrow> go (foldl f s vs) v) \<Longrightarrow> g p s = (WNext, foldl f s (pre p))"
    and "\<And>vs v ws. concat (map pre ps) = vs @ v # ws \<Longrightarrow> go (foldl f s vs) v"
  shows "visit_children g ps s = (WNext, foldl f s (concat (map pre ps)))"
  using assms
proof (induction ps arbitrary: s)
  case (Cons p ps)
  have "g p s = (WNext, foldl f s (pre p))"
    using Cons.prems(2) by (intro Cons.prems(1)) auto
  moreover have "visit_children g ps (foldl f s (pre p)) = (WNext, foldl f (foldl f s (pre p)) (concat (map pre ps)))"
  proof (rule Cons.IH)
    fix vs v ws
    assume "concat (map pre ps) = vs @ v # ws"
    then have "concat (map pre (p # ps)) = (pre p @ vs) @ v # ws" by simp
    from Cons.prems(2) [OF this] show "go (foldl f (foldl f s (pre p)) vs) v" by simp
  qed (use Cons.prems(1) in auto)
  ultimately show ?case by simp
qed simp

lemma visit_fold:
  assumes "\<And>vs v ws. preorder fs n p = vs @ v # ws \<Longrightarrow>
             fst (fn v (Inr (entry_at fs v)) (foldl (\<lambda>s q. snd (fn q (Inr (entry_at fs q)) s)) s vs)) = WNext"
  shows "visit fs n fn p s = (WNext, foldl (\<lambda>s q. snd (fn q (Inr (entry_at fs q)) s)) s (preorder fs n p))"
  using assms
proof (induction n arbitrary: p s)
  case (Suc n)
  let ?f = "\<lambda>s q. snd (fn q (Inr (entry_at fs q)) s)"
  have "fst (fn p (Inr (entry_at fs p)) s) = WNext" using Suc.prems [of "[]" p] by simp
  then obtain s1 where head: "fn p (Inr (entry_at fs p)) s = (WNext, s1)" by (metis prod.collapse)
  show ?case
  proof (cases "entry_at fs p = EDir")
    case True
    let ?ps = "map (\<lambda>nm. p @ [nm]) (children fs p)"
    have pre: "preorder fs (Suc n) p = p # concat (map (preorder fs n) ?ps)" using True by (simp add: comp_def)
    have "visit_children (visit fs n fn) ?ps s1 = (WNext, foldl ?f s1 (concat (map (preorder fs n) ?ps)))"
    proof (rule visit_children_fold [where go = "\<lambda>s v. fst (fn v (Inr (entry_at fs v)) s) = WNext"])
      fix vs v ws
      assume "concat (map (preorder fs n) ?ps) = vs @ v # ws"
      with pre have "preorder fs (Suc n) p = (p # vs) @ v # ws" by simp
      from Suc.prems [OF this] show "fst (fn v (Inr (entry_at fs v)) (foldl ?f s1 vs)) = WNext" using head by simp
    qed (rule Suc.IH)
    with head True pre show ?thesis by (simp del: preorder.simps)
  qed (use head in simp)
qed simp

text \<open>What is visited: exactly what the tree holds below the directory, when the fuel is its size.\<close>

lemma node_key: "node fs q \<noteq> None \<Longrightarrow> q \<noteq> [] \<Longrightarrow> q \<in> fst ` set fs"
  by (simp add: node_def) (metis map_of_eq_None_iff option.distinct(1))

lemma children_iff:
  "nm \<in> set (children fs d) \<longleftrightarrow> map_of fs (d @ [nm]) \<noteq> None"
proof -
  have "(\<exists>p \<in> fst ` set fs. p \<noteq> [] \<and> butlast p = d \<and> last p = nm) \<longleftrightarrow> d @ [nm] \<in> fst ` set fs"
    by (metis append_butlast_last_id butlast_snoc last_snoc snoc_eq_iff_butlast)
  then show ?thesis by (auto simp: children_def map_of_eq_None_iff)
qed

lemma preorder_sound: "q \<in> set (preorder fs n p) \<Longrightarrow> node fs p \<noteq> None \<Longrightarrow> node fs q \<noteq> None \<and> (\<exists>zs. q = p @ zs)"
proof (induction n arbitrary: p)
  case (Suc n)
  show ?case
  proof (cases "q = p")
    case False
    with Suc.prems obtain nm where nm: "nm \<in> set (children fs p)" "q \<in> set (preorder fs n (p @ [nm]))"
      by (auto split: if_splits)
    then have "node fs (p @ [nm]) \<noteq> None" by (simp add: children_iff node_def)
    from Suc.IH [OF nm(2) this] show ?thesis by auto
  qed (use Suc.prems in simp)
qed simp

lemma preorder_complete:
  "tree_ok fs \<Longrightarrow> node fs (p @ zs) \<noteq> None \<Longrightarrow> length zs < n \<Longrightarrow> p @ zs \<in> set (preorder fs n p)"
proof (induction zs arbitrary: p n)
  case Nil
  then show ?case by (cases n) auto
next
  case (Cons z zs)
  then obtain m where n: "n = Suc m" "length zs < m" by (cases n) auto
  have step: "node fs (p @ [z]) \<noteq> None" using tree_ok_none [OF Cons.prems(1), of "p @ [z]" zs] Cons.prems(2) by auto
  then have "z \<in> set (children fs p)" by (simp add: children_iff node_def)
  moreover have "entry_at fs p = EDir"
    using tree_ok_parent [OF Cons.prems(1) step] by (simp add: entry_at_def)
  moreover have "(p @ [z]) @ zs \<in> set (preorder fs m (p @ [z]))"
    using Cons.prems n by (intro Cons.IH) auto
  ultimately show ?case using n by auto
qed

lemma depth_le_size:
  assumes "tree_ok fs" "node fs (p @ zs) \<noteq> None"
  shows "length zs \<le> length fs"
proof -
  have "(\<lambda>k. p @ take k zs) ` {1..length zs} \<subseteq> fst ` set fs"
  proof (intro image_subsetI)
    fix k
    assume "k \<in> {1..length zs}"
    then have ne: "p @ take k zs \<noteq> []" by (cases zs) auto
    have "node fs (p @ take k zs) \<noteq> None"
      using tree_ok_none [OF assms(1), of "p @ take k zs" "drop k zs"] assms(2) by auto
    then show "p @ take k zs \<in> fst ` set fs" using ne by (rule node_key)
  qed
  then have "card ((\<lambda>k. p @ take k zs) ` {1..length zs}) \<le> card (fst ` set fs)" by (simp add: card_mono)
  moreover have "inj_on (\<lambda>k. p @ take k zs) {1..length zs}"
    by (rule inj_onI) (metis atLeastAtMost_iff length_take min.absorb2 same_append_eq)
  moreover have "card (fst ` set fs) \<le> length fs" by (metis card_length length_map list.set_map)
  ultimately show ?thesis by (simp add: card_image)
qed

lemma preorder_exact:
  assumes "tree_ok fs" "node fs p \<noteq> None"
  shows "set (preorder fs (length fs + 2) p) = {q. node fs q \<noteq> None \<and> (\<exists>zs. q = p @ zs)}"
proof (intro equalityI subsetI)
  fix q
  assume "q \<in> {q. node fs q \<noteq> None \<and> (\<exists>zs. q = p @ zs)}"
  then obtain zs where "q = p @ zs" "node fs (p @ zs) \<noteq> None" by auto
  with depth_le_size [OF assms(1), of p zs] show "q \<in> set (preorder fs (length fs + 2) p)"
    using preorder_complete [OF assms(1), of p zs "length fs + 2"] by simp
qed (use preorder_sound [OF _ assms(2)] in blast)

lemma preorder_prefix: "q \<in> set (preorder fs n p) \<Longrightarrow> \<exists>zs. q = p @ zs"
proof (induction n arbitrary: p)
  case (Suc n)
  show ?case
  proof (cases "q = p")
    case False
    with Suc.prems obtain nm where "q \<in> set (preorder fs n (p @ [nm]))" by (auto split: if_splits)
    from Suc.IH [OF this] show ?thesis by auto
  qed simp
qed simp

lemma distinct_concat_map:
  "distinct xs \<Longrightarrow> (\<And>x. x \<in> set xs \<Longrightarrow> distinct (f x)) \<Longrightarrow>
   (\<And>x y. x \<in> set xs \<Longrightarrow> y \<in> set xs \<Longrightarrow> x \<noteq> y \<Longrightarrow> set (f x) \<inter> set (f y) = {}) \<Longrightarrow> distinct (concat (map f xs))"
  by (induction xs) fastforce+

lemma preorder_distinct: "distinct (preorder fs n p)"
proof (induction n arbitrary: p)
  case (Suc n)
  have "p \<notin> set (preorder fs n (p @ [nm]))" for nm
    using preorder_prefix [of p fs n "p @ [nm]"] by auto
  moreover have "set (preorder fs n (p @ [x])) \<inter> set (preorder fs n (p @ [y])) = {}" if "x \<noteq> y" for x y
    using that preorder_prefix [of _ fs n "p @ [x]"] preorder_prefix [of _ fs n "p @ [y]"]
    by (auto simp: set_eq_iff)
  moreover have "distinct (children fs p)" by (simp add: children_def)
  ultimately show ?case using Suc by (simp add: distinct_concat_map)
qed simp

text \<open>The paths below a directory are the walk without its first visit.\<close>

lemma preorder_below:
  assumes "tree_ok fs" "node fs p \<noteq> None"
  shows "set (tl (preorder fs (length fs + 2) p)) = {q. node fs q \<noteq> None \<and> (\<exists>x xs. q = p @ x # xs)}"
proof -
  obtain ps where ps: "preorder fs (length fs + 2) p = p # ps" by simp
  have "p \<notin> set ps" using preorder_distinct [of fs "length fs + 2" p] unfolding ps by simp
  moreover have "set (p # ps) = {q. node fs q \<noteq> None \<and> (\<exists>zs. q = p @ zs)}"
    using preorder_exact [OF assms] unfolding ps .
  ultimately have "set ps = {q. node fs q \<noteq> None \<and> (\<exists>zs. q = p @ zs)} - {p}" by (metis Diff_insert_absorb list.simps(15))
  then show ?thesis using ps by (auto simp: neq_Nil_conv)
qed

section \<open>Names and nodes\<close>

lemma json_not_temp: "\<not> is_temp (i @ ''.json'')"
proof
  assume "is_temp (i @ ''.json'')"
  then obtain k where "i @ ''.json'' = ''.tmp-'' @ nat_digits k" by (auto simp: is_temp_def)
  then have "last (''.tmp-'' @ nat_digits k) = CHR ''n''" by (metis last_appendR last.simps list.distinct(1))
  moreover have "nat_digits k \<noteq> []" by (simp add: nat_digits.simps [of k])
  ultimately have "CHR ''n'' \<in> set (nat_digits k)" by (metis last_appendR last_in_set)
  with nat_digits_digits [of k] show False by (auto simp: list_all_iff is_digit_def)
qed

lemma json_plain: "CHR ''/'' \<notin> set i \<Longrightarrow> plain (i @ ''.json'')"
  by (auto simp: plain_def)

lemma Join_path_name: "plain n \<Longrightarrow> Join_path rt n = rt @ [n]"
  by (simp add: Join_path_def comps_def plain_def Split_no_sep_id)

lemma take_neq_snoc: "take k rt \<noteq> rt @ [x]"
proof
  assume "take k rt = rt @ [x]"
  then have "length (take k rt) = length (rt @ [x])" by (rule arg_cong)
  then show False by simp
qed

lemma is_dir_same_nodes: "is_dir fs d \<Longrightarrow> (\<And>k. k \<le> length d \<Longrightarrow> node fs' (take k d) = node fs (take k d)) \<Longrightarrow> is_dir fs' d"
  by (simp add: is_dir_def)

definition file_or_free :: "fs \<Rightarrow> path \<Rightarrow> bool" where
  "file_or_free fs p \<longleftrightarrow> (case node fs p of None \<Rightarrow> True | Some (EFile _) \<Rightarrow> True | _ \<Rightarrow> False)"

lemma file_or_free_cases:
  "file_or_free fs p \<Longrightarrow> (node fs p = None \<Longrightarrow> Q) \<Longrightarrow> (\<And>s. node fs p = Some (EFile s) \<Longrightarrow> Q) \<Longrightarrow> Q"
  by (auto simp: file_or_free_def split: option.splits entry.splits)

text \<open>Whether a tree is well-formed depends on its nodes.\<close>

lemma tree_ok_iff:
  "tree_ok fs \<longleftrightarrow> (\<forall>p. node fs p \<noteq> None \<longrightarrow> node fs (butlast p) = Some EDir \<and> list_all plain p)"
proof
  assume r: "\<forall>p. node fs p \<noteq> None \<longrightarrow> node fs (butlast p) = Some EDir \<and> list_all plain p"
  show "tree_ok fs" unfolding tree_ok_def
  proof (subst list_all_iff, intro ballI)
    fix p
    assume "p \<in> set (map fst fs)"
    then have "map_of fs p \<noteq> None" by (metis map_of_eq_None_iff set_map)
    then have "node fs p \<noteq> None" by (simp add: node_def)
    with r show "node fs (butlast p) = Some EDir \<and> list_all plain p" by blast
  qed
qed (simp add: tree_ok_parent tree_ok_plain)

lemma tree_ok_put:
  "tree_ok fs \<Longrightarrow> node fs' = (node fs)(p := e) \<Longrightarrow> node fs (butlast p) = Some EDir \<Longrightarrow>
   node fs p \<noteq> Some EDir \<Longrightarrow> list_all plain p \<Longrightarrow> tree_ok fs'"
  unfolding tree_ok_iff by (auto split: if_splits)

text \<open>Directories are made along a path where nothing but directories is in the way.\<close>

definition clear_way :: "fs \<Rightarrow> path \<Rightarrow> path \<Rightarrow> bool" where
  "clear_way fs d ys \<longleftrightarrow> (\<forall>k \<le> length ys. node fs (d @ take k ys) \<in> {None, Some EDir})"

lemma clear_way_Cons: "clear_way fs d (y # ys) \<Longrightarrow> clear_way fs (d @ [y]) ys \<and> node fs (d @ [y]) \<in> {None, Some EDir}"
  unfolding clear_way_def by (auto dest: spec [of _ "Suc k" for k])

lemma os_MkdirAll_clear:
  "is_dir fs d \<Longrightarrow> tree_ok fs \<Longrightarrow> list_all plain ys \<Longrightarrow> clear_way fs d ys \<Longrightarrow>
   \<exists>fs'. os_MkdirAll fs (d @ ys) = (Inr (), fs') \<and> is_dir fs' (d @ ys) \<and> tree_ok fs' \<and>
     (\<forall>p. node fs' p = (if \<exists>k \<in> {1..length ys}. p = d @ take k ys then Some EDir else node fs p))"
proof (induction ys arbitrary: d)
  case (Cons y ys)
  show ?case
  proof (cases "node fs (d @ [y])")
    case None
    from os_MkdirAll_new [OF Cons.prems(1-3)] None obtain fs' where fs': "os_MkdirAll fs (d @ y # ys) = (Inr (), fs')"
      "is_dir fs' (d @ y # ys)"
      "\<And>p. node fs' p = (if \<exists>k \<in> {1..length (y # ys)}. p = d @ take k (y # ys) then Some EDir else node fs p)"
      by auto
    have dp: "list_all plain d" using Cons.prems(1) by (simp add: is_dir_def)
    have "node fs' (butlast p) = Some EDir \<and> list_all plain p" if "node fs' p \<noteq> None" for p
    proof (cases "\<exists>k \<in> {1..length (y # ys)}. p = d @ take k (y # ys)")
      case True
      then obtain k where k: "k \<in> {1..length (y # ys)}" "p = d @ take k (y # ys)" by blast
      then have bl: "butlast p = d @ take (k - 1) (y # ys)" by (simp add: butlast_append butlast_take)
      have pl: "list_all plain p"
        using k(2) dp Cons.prems(3) set_take_subset [of k "y # ys"] by (auto simp: list_all_iff)
      show ?thesis
      proof (cases "k = 1")
        case True
        then show ?thesis using bl pl fs'(3) [of d] is_dir_node [OF Cons.prems(1)] by simp
      next
        case False
        then have "\<exists>j \<in> {1..length (y # ys)}. butlast p = d @ take j (y # ys)"
          using k bl by (intro bexI [of _ "k - 1"]) auto
        then show ?thesis using fs'(3) [of "butlast p"] pl by simp
      qed
    next
      case False
      with that fs'(3) have "node fs p \<noteq> None" by auto
      with tree_ok_parent [OF Cons.prems(2)] tree_ok_plain [OF Cons.prems(2)] fs'(3) show ?thesis by auto
    qed
    with fs' show ?thesis unfolding tree_ok_iff by blast
  next
    case (Some e)
    with clear_way_Cons [OF Cons.prems(4)] have e: "e = EDir" by simp
    with Some Cons.prems have "is_dir fs (d @ [y])" "list_all plain ys" "clear_way fs (d @ [y]) ys"
      using clear_way_Cons [OF Cons.prems(4)] by simp_all
    with Cons.IH [OF _ Cons.prems(2)] obtain fs' where fs': "os_MkdirAll fs ((d @ [y]) @ ys) = (Inr (), fs')"
      "is_dir fs' ((d @ [y]) @ ys)" "tree_ok fs'"
      "\<And>p. node fs' p = (if \<exists>k \<in> {1..length ys}. p = (d @ [y]) @ take k ys then Some EDir else node fs p)" by blast
    have "(\<exists>k \<in> {1..length (y # ys)}. p = d @ take k (y # ys)) \<longleftrightarrow>
        p = d @ [y] \<or> (\<exists>k \<in> {1..length ys}. p = (d @ [y]) @ take k ys)" for p
    proof -
      have eq: "{1..length (y # ys)} = insert 1 (Suc ` {1..length ys})" by (auto simp: image_iff)
      show ?thesis by (simp only: eq bex_simps take_Suc_Cons append.simps append_assoc) simp
    qed
    with fs' Some e show ?thesis by auto
  qed
qed (auto intro!: exI [of _ fs])

end
