(* ===== verification/Json.thy ===== *)
theory Json
  imports Prelude
begin

text \<open>
  What the source uses of \<open>unicode/utf8\<close> and \<open>encoding/json\<close>: UTF-8 validity and rune counting, a
  JSON parser on bytes (\<open>json.Unmarshal\<close>'s grammar and string decoding), the compact printer of
  \<open>json.Marshal\<close>, and the decoding of a parsed value into Go values: \<open>null\<close> leaves the target as it
  is, object keys match struct fields without regard to (ASCII) case with the last key winning, and
  a type mismatch is an error.
\<close>

section \<open>UTF-8\<close>

definition in_range :: "char \<Rightarrow> nat \<Rightarrow> nat \<Rightarrow> bool" where
  "in_range c lo hi \<longleftrightarrow> lo \<le> (of_char c :: nat) \<and> (of_char c :: nat) \<le> hi"

definition cont :: "char \<Rightarrow> bool" where
  "cont c \<longleftrightarrow> in_range c 0x80 0xBF"

text \<open>The length of the well-formed rune at the front, 0 if there is none.\<close>

fun rune_len :: "string \<Rightarrow> nat" where
  "rune_len [] = 0"
| "rune_len (a # s) =
     (if in_range a 0 0x7F then 1
      else case s of
        [] \<Rightarrow> 0
      | b # s' \<Rightarrow>
          if in_range a 0xC2 0xDF \<and> cont b then 2
          else (case s' of
            [] \<Rightarrow> 0
          | c # s'' \<Rightarrow>
              if cont c \<and>
                 (in_range a 0xE0 0xE0 \<and> in_range b 0xA0 0xBF \<or>
                  in_range a 0xE1 0xEC \<and> cont b \<or>
                  in_range a 0xED 0xED \<and> in_range b 0x80 0x9F \<or>
                  in_range a 0xEE 0xEF \<and> cont b) then 3
              else (case s'' of
                [] \<Rightarrow> 0
              | d # _ \<Rightarrow>
                  if cont c \<and> cont d \<and>
                     (in_range a 0xF0 0xF0 \<and> in_range b 0x90 0xBF \<or>
                      in_range a 0xF1 0xF3 \<and> cont b \<or>
                      in_range a 0xF4 0xF4 \<and> in_range b 0x80 0x8F) then 4
                  else 0)))"

lemma rune_len_le: "rune_len s \<le> length s"
  by (cases s rule: rune_len.cases) (auto split: list.splits)

declare rune_len.simps [simp del]

text \<open>
  \<open>[]rune(s)\<close> as the list of the runes' encodings; an ill-formed byte is the rune U+FFFD. The fuel is
  the length of the string.
\<close>

definition replacement :: string where
  "replacement = bytes [0xEF, 0xBF, 0xBD]"

fun runes_fuel :: "nat \<Rightarrow> string \<Rightarrow> string list" where
  "runes_fuel 0 s = []"
| "runes_fuel (Suc n) [] = []"
| "runes_fuel (Suc n) (c # s) =
     (let k = rune_len (c # s)
      in if k = 0 then replacement # runes_fuel n s
         else take k (c # s) # runes_fuel n (drop k (c # s)))"

definition runes :: "string \<Rightarrow> string list" where
  "runes s = runes_fuel (length s) s"

fun valid_fuel :: "nat \<Rightarrow> string \<Rightarrow> bool" where
  "valid_fuel 0 s = (s = [])"
| "valid_fuel (Suc n) [] = True"
| "valid_fuel (Suc n) (c # s) =
     (let k = rune_len (c # s) in k > 0 \<and> valid_fuel n (drop k (c # s)))"

text \<open>\<open>utf8.Valid\<close> and \<open>utf8.RuneCountInString\<close>.\<close>

definition utf8_Valid :: "string \<Rightarrow> bool" where
  "utf8_Valid s = valid_fuel (length s) s"

definition RuneCountInString :: "string \<Rightarrow> nat" where
  "RuneCountInString s = length (runes s)"

lemma concat_runes_fuel:
  "valid_fuel n s \<Longrightarrow> length s \<le> n \<Longrightarrow> concat (runes_fuel n s) = s"
proof (induction n s rule: valid_fuel.induct)
  case (3 n c s)
  then show ?case
    using append_take_drop_id [of "rune_len (c # s)" "c # s"]
    by (auto simp: Let_def)
qed auto

lemma concat_runes: "utf8_Valid s \<Longrightarrow> concat (runes s) = s"
  by (simp add: utf8_Valid_def runes_def concat_runes_fuel)

section \<open>JSON values and their text\<close>

text \<open>A number is its lexeme; the members of an object are in the order of the text.\<close>

datatype json =
    JNull
  | JBool bool
  | JNum string
  | JStr string
  | JArr "json list"
  | JObj "(string \<times> json) list"

definition json_ws :: "char \<Rightarrow> bool" where
  "json_ws c \<longleftrightarrow> of_char c \<in> {9, 10, 13, 32 :: nat}"

definition skip_ws :: "string \<Rightarrow> string" where
  "skip_ws s = dropWhile json_ws s"

definition hex_val :: "char \<Rightarrow> nat option" where
  "hex_val c =
     (let n = of_char c :: nat in
      if 48 \<le> n \<and> n \<le> 57 then Some (n - 48)
      else if 65 \<le> n \<and> n \<le> 70 then Some (n - 55)
      else if 97 \<le> n \<and> n \<le> 102 then Some (n - 87)
      else None)"

fun hex4 :: "string \<Rightarrow> (nat \<times> string) option" where
  "hex4 (a # b # c # d # s) =
     (case (hex_val a, hex_val b, hex_val c, hex_val d) of
        (Some x, Some y, Some z, Some t) \<Rightarrow> Some (x * 4096 + y * 256 + z * 16 + t, s)
      | _ \<Rightarrow> None)"
| "hex4 _ = None"

text \<open>\<open>utf8.EncodeRune\<close>; a surrogate half is encoded as U+FFFD.\<close>

definition encode_rune :: "nat \<Rightarrow> string" where
  "encode_rune r =
     (if r < 0x80 then bytes [r]
      else if r < 0x800 then bytes [0xC0 + r div 64, 0x80 + r mod 64]
      else if 0xD800 \<le> r \<and> r < 0xE000 then replacement
      else if r < 0x10000 then bytes [0xE0 + r div 4096, 0x80 + (r div 64) mod 64, 0x80 + r mod 64]
      else bytes [0xF0 + r div 262144, 0x80 + (r div 4096) mod 64, 0x80 + (r div 64) mod 64, 0x80 + r mod 64])"

text \<open>A \<open>\\u\<close> escape after its \<open>u\<close>, joining a surrogate pair.\<close>

definition unicode_escape :: "string \<Rightarrow> (string \<times> string) option" where
  "unicode_escape s =
     (case hex4 s of
        None \<Rightarrow> None
      | Some (r, s') \<Rightarrow>
          if 0xD800 \<le> r \<and> r < 0xDC00 \<and> take 2 s' = [char_of (92::nat), CHR ''u''] then
            (case hex4 (drop 2 s') of
               Some (r2, s'') \<Rightarrow>
                 if 0xDC00 \<le> r2 \<and> r2 < 0xE000
                 then Some (encode_rune (0x10000 + (r - 0xD800) * 1024 + (r2 - 0xDC00)), s'')
                 else Some (replacement, s')
             | None \<Rightarrow> Some (replacement, s'))
          else Some (encode_rune r, s'))"

definition simple_escape :: "char \<Rightarrow> char option" where
  "simple_escape c =
     (let n = of_char c :: nat in
      if n = 34 \<or> n = 92 \<or> n = 47 then Some c
      else if c = CHR ''b'' then Some (char_of (8::nat))
      else if c = CHR ''f'' then Some (char_of (12::nat))
      else if c = CHR ''n'' then Some (char_of (10::nat))
      else if c = CHR ''r'' then Some (char_of (13::nat))
      else if c = CHR ''t'' then Some (char_of (9::nat))
      else None)"

text \<open>The rest of a string literal after its opening quote: the decoded bytes and the remaining text.\<close>

fun string_body :: "nat \<Rightarrow> string \<Rightarrow> (string \<times> string) option" where
  "string_body 0 s = None"
| "string_body (Suc n) [] = None"
| "string_body (Suc n) (c # s) =
     (if of_char c = (34::nat) then Some ([], s)
      else if of_char c = (92::nat) then
        (case s of
           [] \<Rightarrow> None
         | e # s' \<Rightarrow>
             if e = CHR ''u'' then
               (case unicode_escape s' of
                  None \<Rightarrow> None
                | Some (x, s'') \<Rightarrow> map_option (map_prod (\<lambda>y. x @ y) id) (string_body n s''))
             else (case simple_escape e of
                     None \<Rightarrow> None
                   | Some x \<Rightarrow> map_option (map_prod (\<lambda>y. x # y) id) (string_body n s')))
      else if of_char c < (32::nat) then None
      else (let k = rune_len (c # s) in
            if k = 0 then map_option (map_prod (\<lambda>y. replacement @ y) id) (string_body n s)
            else map_option (map_prod (\<lambda>y. take k (c # s) @ y) id) (string_body n (drop k (c # s)))))"

text \<open>A number lexeme: \<open>-? (0 | [1-9][0-9]*) (. [0-9]+)? ([eE] [+-]? [0-9]+)?\<close>.\<close>

definition take_digits :: "string \<Rightarrow> string \<times> string" where
  "take_digits s = (takeWhile is_digit s, dropWhile is_digit s)"

definition number_lexeme :: "string \<Rightarrow> (string \<times> string) option" where
  "number_lexeme s =
     (let sign = (if HasPrefix s ''-'' then ''-'' else []);
          (ip, s1) = take_digits (drop (length sign) s)
      in if ip = [] \<or> (length ip > 1 \<and> hd ip = CHR ''0'') then None
         else
           (let (fp, s2) =
              (if HasPrefix s1 ''.'' then (case take_digits (drop 1 s1) of (d, r) \<Rightarrow> (''.'' @ d, r)) else ([], s1))
            in if length fp = 1 then None
               else
                 (let (ep, s3) =
                    (if HasPrefix s2 ''e'' \<or> HasPrefix s2 ''E'' then
                       (let sg = (if HasPrefix (drop 1 s2) ''+'' \<or> HasPrefix (drop 1 s2) ''-''
                                  then take 1 (drop 1 s2) else []);
                            (d, r) = take_digits (drop (1 + length sg) s2)
                        in if d = [] then (''!'', r) else (take 1 s2 @ sg @ d, r))
                     else ([], s2))
                  in if ep = ''!'' then None else Some (sign @ ip @ fp @ ep, s3))))"

datatype token =
  TLbrace | TRbrace | TLbrack | TRbrack | TColon | TComma | TQuote | TTrue | TFalse | TNull | TOther

definition first_char :: "string \<Rightarrow> char \<Rightarrow> bool" where
  "first_char s c \<longleftrightarrow> (case s of [] \<Rightarrow> False | d # _ \<Rightarrow> d = c)"

text \<open>What the text starts with, after white space, and the text behind it.\<close>

definition next_token :: "string \<Rightarrow> token \<times> string" where
  "next_token s0 =
     (let s = skip_ws s0 in
      if first_char s (CHR ''{'') then (TLbrace, drop 1 s)
      else if first_char s (CHR ''}'') then (TRbrace, drop 1 s)
      else if first_char s (CHR ''['') then (TLbrack, drop 1 s)
      else if first_char s (CHR '']'') then (TRbrack, drop 1 s)
      else if first_char s (CHR '':'') then (TColon, drop 1 s)
      else if first_char s (CHR '','') then (TComma, drop 1 s)
      else if first_char s (CHR 0x22) then (TQuote, drop 1 s)
      else if HasPrefix s ''true'' then (TTrue, drop 4 s)
      else if HasPrefix s ''false'' then (TFalse, drop 5 s)
      else if HasPrefix s ''null'' then (TNull, drop 4 s)
      else (TOther, s))"

definition string_literal :: "string \<Rightarrow> (string \<times> string) option" where
  "string_literal s = string_body (Suc (length s)) s"

text \<open>An object key with its colon.\<close>

definition key_colon :: "string \<Rightarrow> (string \<times> string) option" where
  "key_colon s =
     (case next_token s of
        (TQuote, r) \<Rightarrow>
          (case string_literal r of
             None \<Rightarrow> None
           | Some (k, r') \<Rightarrow> (case next_token r' of (TColon, r'') \<Rightarrow> Some (k, r'') | _ \<Rightarrow> None))
      | _ \<Rightarrow> None)"

datatype parse_mode = PValue | PElems | PMembers

fun cons_elem :: "json \<Rightarrow> json \<Rightarrow> json" where
  "cons_elem v (JArr vs) = JArr (v # vs)"
| "cons_elem v j = JArr [v]"

fun cons_member :: "string \<Rightarrow> json \<Rightarrow> json \<Rightarrow> json" where
  "cons_member k v (JObj ms) = JObj ((k, v) # ms)"
| "cons_member k v j = JObj [(k, v)]"

text \<open>
  One value, the elements of an array after its bracket, or the members of an object after its brace.
\<close>

primrec parse_json :: "nat \<Rightarrow> parse_mode \<Rightarrow> string \<Rightarrow> (json \<times> string) option" where
  "parse_json 0 = (\<lambda>m s. None)"
| "parse_json (Suc n) = (\<lambda>m s.
     case m of
       PValue \<Rightarrow>
         (case next_token s of (t, r) \<Rightarrow>
            if t = TLbrace then
              (if fst (next_token r) = TRbrace then Some (JObj [], snd (next_token r))
               else parse_json n PMembers r)
            else if t = TLbrack then
              (if fst (next_token r) = TRbrack then Some (JArr [], snd (next_token r))
               else parse_json n PElems r)
            else if t = TQuote then map_option (map_prod JStr id) (string_literal r)
            else if t = TTrue then Some (JBool True, r)
            else if t = TFalse then Some (JBool False, r)
            else if t = TNull then Some (JNull, r)
            else if t = TOther then map_option (map_prod JNum id) (number_lexeme r)
            else None)
     | PElems \<Rightarrow>
         (case parse_json n PValue s of
            None \<Rightarrow> None
          | Some (v, r) \<Rightarrow>
              (case next_token r of (t, r') \<Rightarrow>
                 if t = TRbrack then Some (JArr [v], r')
                 else if t = TComma then map_option (map_prod (cons_elem v) id) (parse_json n PElems r')
                 else None))
     | PMembers \<Rightarrow>
         (case key_colon s of
            None \<Rightarrow> None
          | Some (k, r0) \<Rightarrow>
              (case parse_json n PValue r0 of
                 None \<Rightarrow> None
               | Some (v, r) \<Rightarrow>
                   (case next_token r of (t, r') \<Rightarrow>
                      if t = TRbrace then Some (JObj [(k, v)], r')
                      else if t = TComma then map_option (map_prod (cons_member k v) id) (parse_json n PMembers r')
                      else None))))"

text \<open>
  Every second call consumes a byte, so twice the length of the text is enough fuel. (The library's
  nesting limit of 10000 is not modelled.)
\<close>

definition json_parse :: "string \<Rightarrow> json option" where
  "json_parse s =
     (case parse_json (2 * length s + 2) PValue s of
        None \<Rightarrow> None
      | Some (v, r) \<Rightarrow> if skip_ws r = [] then Some v else None)"

section \<open>Printing\<close>

text \<open>
  \<open>json.Marshal\<close> escapes quotes, backslashes, control characters, the HTML characters and U+2028/U+2029,
  and writes ill-formed UTF-8 as the escape of U+FFFD.
\<close>

definition u_escape :: "nat \<Rightarrow> string" where
  "u_escape n =
     [char_of (92::nat), CHR ''u'', hex_digit (n div 4096), hex_digit ((n div 256) mod 16),
      hex_digit ((n div 16) mod 16), hex_digit (n mod 16)]"

definition escape_byte :: "char \<Rightarrow> string" where
  "escape_byte c =
     (let n = of_char c :: nat; b = char_of (92::nat) in
      if n = 34 \<or> n = 92 then [b, c]
      else if n = 8 then [b, CHR ''b'']
      else if n = 12 then [b, CHR ''f'']
      else if n = 10 then [b, CHR ''n'']
      else if n = 13 then [b, CHR ''r'']
      else if n = 9 then [b, CHR ''t'']
      else if n < 32 \<or> n = 60 \<or> n = 62 \<or> n = 38 then u_escape n
      else [c])"

fun escape_fuel :: "nat \<Rightarrow> string \<Rightarrow> string" where
  "escape_fuel 0 s = []"
| "escape_fuel (Suc n) [] = []"
| "escape_fuel (Suc n) (c # s) =
     (let k = rune_len (c # s) in
      if k = 0 then u_escape 0xFFFD @ escape_fuel n s
      else if k = 1 then escape_byte c @ escape_fuel n s
      else if take k (c # s) = bytes [0xE2, 0x80, 0xA8] then u_escape 0x2028 @ escape_fuel n (drop k (c # s))
      else if take k (c # s) = bytes [0xE2, 0x80, 0xA9] then u_escape 0x2029 @ escape_fuel n (drop k (c # s))
      else take k (c # s) @ escape_fuel n (drop k (c # s)))"

definition print_string :: "string \<Rightarrow> string" where
  "print_string s = CHR 0x22 # escape_fuel (length s) s @ [CHR 0x22]"

fun json_print :: "json \<Rightarrow> string" where
  "json_print JNull = ''null''"
| "json_print (JBool b) = (if b then ''true'' else ''false'')"
| "json_print (JNum l) = l"
| "json_print (JStr s) = print_string s"
| "json_print (JArr vs) = ''['' @ Join (map json_print vs) '','' @ '']''"
| "json_print (JObj ms) = ''{'' @ Join (map (\<lambda>(k, v). print_string k @ '':'' @ json_print v) ms) '','' @ ''}''"

section \<open>Decoding into Go values\<close>

type_synonym 'a decoder = "'a \<Rightarrow> json \<Rightarrow> 'a option"

fun dec_string :: "string decoder" where
  "dec_string cur (JStr s) = Some s"
| "dec_string cur JNull = Some cur"
| "dec_string cur _ = None"

fun dec_bool :: "bool decoder" where
  "dec_bool cur (JBool b) = Some b"
| "dec_bool cur JNull = Some cur"
| "dec_bool cur _ = None"

fun dec_int :: "int decoder" where
  "dec_int cur (JNum l) = ParseInt64 l"
| "dec_int cur JNull = Some cur"
| "dec_int cur _ = None"

fun dec_list :: "'a \<Rightarrow> 'a decoder \<Rightarrow> 'a list decoder" where
  "dec_list z d cur (JArr vs) = those (map (d z) vs)"
| "dec_list z d cur JNull = Some []"
| "dec_list z d cur _ = None"

text \<open>A pointer field: \<open>null\<close> is nil.\<close>

fun dec_ptr :: "'a \<Rightarrow> 'a decoder \<Rightarrow> 'a option decoder" where
  "dec_ptr z d cur JNull = Some None"
| "dec_ptr z d cur j = map_option Some (d (case cur of None \<Rightarrow> z | Some x \<Rightarrow> x) j)"

text \<open>\<open>map[string]T\<close>; \<open>map[string]json.RawMessage\<close> keeps the values.\<close>

fun dec_map :: "'a \<Rightarrow> 'a decoder \<Rightarrow> (string \<times> 'a) list decoder" where
  "dec_map z d cur (JObj ms) =
     foldl (\<lambda>acc (k, v). case acc of None \<Rightarrow> None | Some m \<Rightarrow> map_option (\<lambda>x. put k x m) (d z v)) (Some cur) ms"
| "dec_map z d cur JNull = Some cur"
| "dec_map z d cur _ = None"

definition dec_raw :: "json decoder" where
  "dec_raw cur j = Some j"

text \<open>
  A struct is decoded field by field: \<open>members j\<close> are the key/value pairs of an object (a \<open>null\<close>
  changes nothing, any other value is a mismatch), \<open>dec_field\<close> folds the values given for one field.
\<close>

fun members :: "json \<Rightarrow> (string \<times> json) list option" where
  "members (JObj ms) = Some ms"
| "members JNull = Some []"
| "members _ = None"

definition dec_field :: "string \<Rightarrow> 'a decoder \<Rightarrow> 'a \<Rightarrow> (string \<times> json) list \<Rightarrow> 'a option" where
  "dec_field name d z ms =
     foldl (\<lambda>acc (k, v). if ToLower k = ToLower name
                         then (case acc of None \<Rightarrow> None | Some x \<Rightarrow> d x v) else acc) (Some z) ms"

end
