(* ===== verification/JsonText.thy ===== *)
theory JsonText
  imports Json
begin

text \<open>
  \<open>json.MarshalIndent\<close>, and the round trip of the two printers through the parser: a value whose strings
  are valid UTF-8 and whose numbers are JSON numbers is read back as it was written.
\<close>

section \<open>Indented printing\<close>

text \<open>
  The layout is what stands before an element at a nesting level and what follows a key: for
  \<open>json.Marshal\<close> nothing and a colon, for \<open>json.MarshalIndent(v, "", "  ")\<close> a line break with two blanks
  for each level and a colon with a blank. Empty arrays and objects stay on one line.
\<close>

fun json_pp :: "(nat \<Rightarrow> string) \<Rightarrow> string \<Rightarrow> nat \<Rightarrow> json \<Rightarrow> string" where
  "json_pp br col n (JArr vs) =
     (if vs = [] then ''[]''
      else ''['' @ br (n + 1) @ Join (map (json_pp br col (n + 1)) vs) ('','' @ br (n + 1)) @ br n @ '']'')"
| "json_pp br col n (JObj ms) =
     (if ms = [] then ''{}''
      else ''{'' @ br (n + 1) @
           Join (map (\<lambda>(k, v). print_string k @ col @ json_pp br col (n + 1) v) ms) ('','' @ br (n + 1)) @
           br n @ ''}'')"
| "json_pp br col n j = json_print j"

definition line_break :: "nat \<Rightarrow> string" where
  "line_break n = nl @ replicate (2 * n) (CHR '' '')"

definition MarshalIndent :: "json \<Rightarrow> string" where
  "MarshalIndent j = json_pp line_break '': '' 0 j"

lemma json_print_pp: "json_print j = json_pp (\<lambda>_. []) '':'' n j"
proof (induction j arbitrary: n)
  case (JArr vs)
  then have "map json_print vs = map (json_pp (\<lambda>_. []) '':'' (n + 1)) vs" by simp
  then show ?case by (simp del: map_eq_conv)
next
  case (JObj ms)
  then have "map (\<lambda>(k, v). print_string k @ '':'' @ json_print v) ms =
      map (\<lambda>(k, v). print_string k @ '':'' @ json_pp (\<lambda>_. []) '':'' (n + 1) v) ms" by (auto intro!: map_cong)
  then show ?case by (simp del: map_eq_conv)
qed simp_all

section \<open>Strings\<close>

lemma hex_val_digit [simp]: "d < 16 \<Longrightarrow> hex_val (hex_digit d) = Some d"
  by (auto simp: hex_val_def hex_digit_def Let_def)

lemma hex4_escape [simp]:
  "n < 65536 \<Longrightarrow> hex4 (hex_digit (n div 4096) # hex_digit ((n div 256) mod 16) # hex_digit ((n div 16) mod 16) #
      hex_digit (n mod 16) # s) = Some (n, s)"
proof -
  assume "n < 65536"
  then have "n div 4096 < 16" by simp
  moreover have "n div 4096 * 4096 + (n div 256) mod 16 * 256 + (n div 16) mod 16 * 16 + n mod 16 = n"
  proof -
    have "n = n div 16 * 16 + n mod 16" "n div 16 = n div 256 * 16 + (n div 16) mod 16"
      "n div 256 = n div 4096 * 16 + (n div 256) mod 16"
      using div_mult_mod_eq [of "n div 16" 16] div_mult_mod_eq [of "n div 256" 16]
      by (simp_all add: div_mult2_eq [symmetric])
    then show ?thesis by linarith
  qed
  ultimately show ?thesis by simp
qed

lemma string_body_escape:
  assumes "n < 65536" "\<not> (0xD800 \<le> n \<and> n < 0xE000)"
  shows "string_body (Suc m) (u_escape n @ s) = map_option (map_prod (\<lambda>y. encode_rune n @ y) id) (string_body m s)"
proof -
  have u: "unicode_escape (hex_digit (n div 4096) # hex_digit ((n div 256) mod 16) # hex_digit ((n div 16) mod 16) #
      hex_digit (n mod 16) # s) = Some (encode_rune n, s)"
    unfolding unicode_escape_def hex4_escape [OF assms(1)] using assms(2) by auto
  show ?thesis by (simp add: u_escape_def u)
qed

lemma rune_len_take: "rune_len s = k \<Longrightarrow> k > 0 \<Longrightarrow> rune_len (take k s @ t) = k"
  by (induction s rule: rune_len.induct)
    (auto simp: rune_len.simps split: list.splits if_splits)

lemma rune_len_ascii: "rune_len (c # s) = Suc 0 \<longleftrightarrow> (of_char c :: nat) < 128"
  by (auto simp: rune_len.simps in_range_def cont_def split: list.splits if_splits)

lemma append_single: "(@) [x] = (#) x"
  by (simp add: fun_eq_iff)

lemma escape_byte_parsed:
  assumes "(of_char c :: nat) < 128"
  shows "string_body (Suc m) (escape_byte c @ s) = map_option (map_prod (\<lambda>y. c # y) id) (string_body m s)"
proof -
  let ?n = "of_char c :: nat"
  have enc: "encode_rune ?n = [c]" using assms by (simp add: encode_rune_def bytes_def)
  have "c = char_of (8::nat)" if "?n = 8" using that by (metis char_of_char)
  moreover have "c = char_of (12::nat)" if "?n = 12" using that by (metis char_of_char)
  moreover have "c = char_of (10::nat)" if "?n = 10" using that by (metis char_of_char)
  moreover have "c = char_of (13::nat)" if "?n = 13" using that by (metis char_of_char)
  moreover have "c = char_of (9::nat)" if "?n = 9" using that by (metis char_of_char)
  moreover have "rune_len (c # s) = Suc 0" using assms by (simp add: rune_len_ascii)
  ultimately show ?thesis
    using assms string_body_escape [of ?n m s] enc
    by (auto simp: escape_byte_def Let_def simple_escape_def append_single)
qed

lemma u_escape_2028:
  "string_body (Suc m) (u_escape 0x2028 @ s) = map_option (map_prod (\<lambda>y. bytes [0xE2, 0x80, 0xA8] @ y) id) (string_body m s)"
  "string_body (Suc m) (u_escape 0x2029 @ s) = map_option (map_prod (\<lambda>y. bytes [0xE2, 0x80, 0xA9] @ y) id) (string_body m s)"
  by (subst string_body_escape; simp add: encode_rune_def)+

lemma long_rune_parsed:
  assumes "rune_len (c # s) = k" "k > 1"
  shows "string_body (Suc m) (take k (c # s) @ t) = map_option (map_prod (\<lambda>y. take k (c # s) @ y) id) (string_body m t)"
proof -
  obtain r where r: "take k (c # s) = c # r" using assms by (cases k) auto
  have "rune_len (c # r @ t) = k" using rune_len_take [OF assms(1), of t] assms(2) r by simp
  moreover have "\<not> (of_char c :: nat) < 128" using assms rune_len_ascii [of c s] by auto
  moreover have "k \<le> length (c # s)" using rune_len_le [of "c # s"] assms(1) by simp
  then have len: "length (c # r) = k" using r by (metis length_take min.absorb2)
  then have "take k (c # r @ t) = c # r" "drop k (c # r @ t) = t" by auto
  moreover have "take k (c # r) = c # r" "(@) (c # r) = (\<lambda>y. c # r @ y)" using len by (simp_all add: fun_eq_iff)
  ultimately show ?thesis using assms(2) by (simp add: Let_def r)
qed

lemma escape_parsed:
  "valid_fuel n s \<Longrightarrow> length s \<le> n \<Longrightarrow> length s < m \<Longrightarrow>
   string_body m (escape_fuel n s @ CHR 0x22 # t) = Some (s, t)"
proof (induction n s arbitrary: m rule: valid_fuel.induct)
  case (1 s)
  then show ?case by (cases m) auto
next
  case (2 n)
  then show ?case by (cases m) auto
next
  case (3 n c s)
  define k where "k = rune_len (c # s)"
  from 3(2) have k: "k > 0" "valid_fuel n (drop k (c # s))" by (simp_all add: k_def Let_def)
  have kl: "k \<le> length (c # s)" using rune_len_le [of "c # s"] by (simp add: k_def)
  from 3(4) obtain m' where m: "m = Suc m'" by (cases m) auto
  have IH: "string_body m' (escape_fuel n (drop k (c # s)) @ CHR 0x22 # t) = Some (drop k (c # s), t)"
    using k 3(3,4) m kl by (intro "3.IH") (auto simp: k_def)
  show ?case
  proof (cases "k = 1")
    case True
    then have "(of_char c :: nat) < 128" using rune_len_ascii [of c s] by (simp add: k_def)
    then show ?thesis using IH True m escape_byte_parsed [of c m' "escape_fuel n s @ CHR 0x22 # t"]
      by (simp add: Let_def k_def [symmetric])
  next
    case False
    then have "k > 1" using k by simp
    then show ?thesis
      using IH k m long_rune_parsed [OF k_def [symmetric] \<open>k > 1\<close>, of m' "escape_fuel n (drop k (c # s)) @ CHR 0x22 # t"]
        append_take_drop_id [of k "c # s"]
      by (auto simp: Let_def k_def [symmetric] u_escape_2028 simp del: string_body.simps append_take_drop_id
          split: if_splits)
  qed
qed

lemma escape_longer: "valid_fuel n s \<Longrightarrow> length s \<le> n \<Longrightarrow> length s \<le> length (escape_fuel n s)"
proof (induction n s rule: valid_fuel.induct)
  case (3 n c s)
  define k where "k = rune_len (c # s)"
  from 3(2) have k: "k > 0" "valid_fuel n (drop k (c # s))" by (simp_all add: k_def Let_def)
  have kl: "k \<le> length (c # s)" using rune_len_le [of "c # s"] by (simp add: k_def)
  have IH: "length (drop k (c # s)) \<le> length (escape_fuel n (drop k (c # s)))"
    using k 3(3) by (intro "3.IH") (auto simp: k_def)
  have "length (escape_byte c) \<ge> 1" by (simp add: escape_byte_def Let_def u_escape_def)
  moreover have "k \<le> 4" unfolding k_def by (cases "c # s" rule: rune_len.cases) (auto simp: rune_len.simps split: list.splits)
  ultimately show ?case using IH k kl
    by (auto simp: Let_def k_def [symmetric] u_escape_def split: if_splits)
qed auto

lemma string_literal_print:
  "utf8_Valid s \<Longrightarrow> string_literal (escape_fuel (length s) s @ CHR 0x22 # t) = Some (s, t)"
  using escape_longer [of "length s" s] unfolding string_literal_def utf8_Valid_def
  by (intro escape_parsed) auto

section \<open>Numbers\<close>

definition ends_number :: "string \<Rightarrow> bool" where
  "ends_number r \<longleftrightarrow> r = [] \<or> \<not> is_digit (hd r) \<and> hd r \<notin> {CHR ''.'', CHR ''e'', CHR ''E'', CHR ''+'', CHR ''-''}"

lemma digits_ext:
  "ends_number r \<Longrightarrow> takeWhile is_digit (a @ r) = takeWhile is_digit a"
  "ends_number r \<Longrightarrow> dropWhile is_digit (a @ r) = dropWhile is_digit a @ r"
  by (induction a) (cases r; auto simp: ends_number_def)+

lemma special_ext:
  "ends_number r \<Longrightarrow> c \<in> {CHR ''.'', CHR ''e'', CHR ''E'', CHR ''+'', CHR ''-''} \<Longrightarrow>
   HasPrefix (a @ r) [c] \<longleftrightarrow> HasPrefix a [c]"
  by (cases a; cases r) (auto simp: HasPrefix_def ends_number_def)

lemma HasPrefix_drop: "HasPrefix a [c] \<Longrightarrow> drop (Suc 0) (a @ r) = drop (Suc 0) a @ r"
  by (cases a) (auto simp: HasPrefix_def)

lemma HasPrefix_drop2: "HasPrefix a [c] \<Longrightarrow> HasPrefix (drop (Suc 0) a) [d] \<Longrightarrow> drop 2 (a @ r) = drop 2 a @ r"
  by (cases a; cases "drop 1 a") (auto simp: HasPrefix_def)

lemma HasPrefix_take2: "HasPrefix (drop (Suc 0) a) [d] \<Longrightarrow> take (Suc 0) (drop (Suc 0) a @ r) = take (Suc 0) (drop (Suc 0) a)"
  by (cases "drop (Suc 0) a") (auto simp: HasPrefix_def)

lemma HasPrefix_take: "HasPrefix a [c] \<Longrightarrow> take (Suc 0) (a @ r) = take (Suc 0) a"
  by (cases a) (auto simp: HasPrefix_def)

lemma number_lexeme_ext:
  assumes "ends_number r"
  shows "number_lexeme (l @ r) = map_option (\<lambda>(x, y). (x, y @ r)) (number_lexeme l)"
proof -
  note e = digits_ext [OF assms] special_ext [OF assms] HasPrefix_drop HasPrefix_take HasPrefix_take2
  define sg where "sg = (if HasPrefix l ''-'' then ''-'' else [])"
  define l1 where "l1 = drop (length sg) l"
  have l1: "drop (length sg) (l @ r) = l1 @ r" by (cases l) (auto simp: sg_def l1_def HasPrefix_def)
  define s1 where "s1 = dropWhile is_digit l1"
  define f where "f = (if HasPrefix s1 ''.'' then takeWhile is_digit (drop 1 s1) else [])"
  define s2 where "s2 = (if HasPrefix s1 ''.'' then dropWhile is_digit (drop 1 s1) else s1)"
  have sp: "HasPrefix (l @ r) ''-'' = HasPrefix l ''-''" by (simp add: e)
  have s1': "take_digits (l1 @ r) = (takeWhile is_digit l1, s1 @ r)" "take_digits l1 = (takeWhile is_digit l1, s1)"
    by (simp_all add: take_digits_def e s1_def)
  have s2': "(if HasPrefix (s1 @ r) ''.'' then (case take_digits (drop 1 (s1 @ r)) of (d, r) \<Rightarrow> (''.'' @ d, r)) else ([], s1 @ r))
      = ((if HasPrefix s1 ''.'' then ''.'' @ f else []), s2 @ r)"
    "(if HasPrefix s1 ''.'' then (case take_digits (drop 1 s1) of (d, r) \<Rightarrow> (''.'' @ d, r)) else ([], s1))
      = ((if HasPrefix s1 ''.'' then ''.'' @ f else []), s2)"
    by (simp_all add: take_digits_def e f_def s2_def del: drop_append)
  have exp: "HasPrefix (s2 @ r) ''e'' = HasPrefix s2 ''e''" "HasPrefix (s2 @ r) ''E'' = HasPrefix s2 ''E''"
    by (simp_all add: e)
  show ?thesis
  proof (cases "HasPrefix s2 ''e'' \<or> HasPrefix s2 ''E''")
    case False
    then show ?thesis
      unfolding number_lexeme_def Let_def sp sg_def [symmetric] l1 l1_def [symmetric] s1' prod.case s2' exp by auto
  next
    case True
    then obtain t c where t: "s2 = c # t" by (cases s2) (auto simp: HasPrefix_def)
    define sg2 where "sg2 = (if HasPrefix t ''+'' \<or> HasPrefix t ''-'' then take 1 t else [])"
    have "t = sg2 @ drop (length sg2) t" by (cases t) (auto simp: sg2_def HasPrefix_def)
    then obtain t' where t': "t = sg2 @ t'" by blast
    have sgn: "(if HasPrefix (drop 1 (s2 @ r)) ''+'' \<or> HasPrefix (drop 1 (s2 @ r)) ''-'' then take 1 (drop 1 (s2 @ r)) else []) = sg2"
      "(if HasPrefix (drop 1 s2) ''+'' \<or> HasPrefix (drop 1 s2) ''-'' then take 1 (drop 1 s2) else []) = sg2"
      using special_ext [OF assms, of "CHR ''+''" t] special_ext [OF assms, of "CHR ''-''" t]
      by (auto simp: t sg2_def Suc_le_eq)
    have dr: "drop (1 + length sg2) (s2 @ r) = t' @ r" "drop (1 + length sg2) s2 = t'" "take 1 (s2 @ r) = [c]" "take 1 s2 = [c]"
      by (simp_all add: t t')
    show ?thesis using True
      unfolding number_lexeme_def Let_def sp sg_def [symmetric] l1 l1_def [symmetric] s1' prod.case s2' exp sgn dr
      by (simp add: take_digits_def e)
  qed
qed

section \<open>Values\<close>

definition num_ok :: "string \<Rightarrow> bool" where
  "num_ok l \<longleftrightarrow> number_lexeme l = Some (l, [])"

fun json_ok :: "json \<Rightarrow> bool" where
  "json_ok (JNum l) = num_ok l"
| "json_ok (JStr s) = utf8_Valid s"
| "json_ok (JArr vs) = (\<forall>v \<in> set vs. json_ok v)"
| "json_ok (JObj ms) = (\<forall>e \<in> set ms. utf8_Valid (fst e) \<and> json_ok (snd e))"
| "json_ok _ = True"

definition blank :: "string \<Rightarrow> bool" where
  "blank w \<longleftrightarrow> list_all json_ws w"

lemma skip_ws_append [simp]: "blank w \<Longrightarrow> skip_ws (w @ s) = skip_ws s"
  by (induction w) (auto simp: blank_def skip_ws_def)

lemma next_token_blank [simp]: "blank w \<Longrightarrow> next_token (w @ s) = next_token s"
  by (simp add: next_token_def)

lemma next_token_chars [simp]:
  "next_token (CHR ''{'' # s) = (TLbrace, s)" "next_token (CHR ''}'' # s) = (TRbrace, s)"
  "next_token (CHR ''['' # s) = (TLbrack, s)" "next_token (CHR '']'' # s) = (TRbrack, s)"
  "next_token (CHR '':'' # s) = (TColon, s)" "next_token (CHR '','' # s) = (TComma, s)"
  "next_token (CHR 0x22 # s) = (TQuote, s)"
  "next_token (''true'' @ s) = (TTrue, s)" "next_token (''false'' @ s) = (TFalse, s)"
  "next_token (''null'' @ s) = (TNull, s)"
  by (simp_all add: next_token_def skip_ws_def json_ws_def first_char_def HasPrefix_def Let_def)

lemmas next_token_words [simp] = next_token_chars(8-10) [simplified]

lemma number_start:
  assumes "num_ok l"
  shows "l \<noteq> [] \<and> (hd l = CHR ''-'' \<or> is_digit (hd l))"
proof (cases l)
  case Nil
  with assms show ?thesis by (simp add: num_ok_def number_lexeme_def take_digits_def HasPrefix_def)
next
  case (Cons c s)
  show ?thesis
  proof (cases "c = CHR ''-'' \<or> is_digit c")
    case False
    with Cons have "number_lexeme l = None"
      by (simp add: number_lexeme_def take_digits_def HasPrefix_def)
    with assms show ?thesis by (simp add: num_ok_def)
  qed (use Cons in simp)
qed

lemma next_token_number:
  assumes "num_ok l"
  shows "next_token (l @ s) = (TOther, l @ s)"
proof -
  obtain c t where l: "l = c # t" using number_start [OF assms] by (cases l) auto
  then have "c = CHR ''-'' \<or> is_digit c" using number_start [OF assms] by simp
  then have "c = CHR ''-'' \<or> 48 \<le> (of_char c :: nat) \<and> (of_char c :: nat) \<le> 57" by (simp add: is_digit_def)
  then have "\<not> json_ws c" "c \<notin> {CHR ''{'', CHR ''}'', CHR ''['', CHR '']'', CHR '':'', CHR '','', CHR 0x22, CHR ''t'', CHR ''f'', CHR ''n''}"
    by (auto simp: json_ws_def)
  then show ?thesis by (simp add: l next_token_def skip_ws_def first_char_def HasPrefix_def)
qed

text \<open>The layouts of the two printers: only blanks where the grammar allows them.\<close>

definition layout_ok :: "(nat \<Rightarrow> string) \<Rightarrow> string \<Rightarrow> bool" where
  "layout_ok br col \<longleftrightarrow> (\<forall>n. blank (br n)) \<and> (\<exists>w. blank w \<and> col = CHR '':'' # w)"

lemma json_pp_nonempty: "json_ok j \<Longrightarrow> json_pp br col n j \<noteq> []"
  by (cases j) (auto simp: print_string_def dest: number_start)

lemma ends_number_close [simp]:
  "ends_number (CHR '','' # s)" "ends_number (CHR '']'' # s)" "ends_number (CHR ''}'' # s)" "ends_number []"
  by (simp_all add: ends_number_def is_digit_def)

lemma blank_ends: "blank w \<Longrightarrow> ends_number s \<Longrightarrow> ends_number (w @ s)"
  by (cases w) (auto simp: ends_number_def blank_def json_ws_def is_digit_def)

lemma key_colon_print:
  "utf8_Valid k \<Longrightarrow> blank w \<Longrightarrow> blank w' \<Longrightarrow> key_colon (w @ print_string k @ (CHR '':'' # w') @ s) = Some (k, w' @ s)"
  by (simp add: key_colon_def print_string_def string_literal_print)

lemma next_token_pp: "json_ok j \<Longrightarrow> fst (next_token (json_pp br col n j @ s)) \<notin> {TRbrack, TRbrace}"
  by (cases j) (auto simp: print_string_def next_token_number split: if_splits)

lemma Join_Cons: "xs \<noteq> [] \<Longrightarrow> Join (x # xs) sep = x @ sep @ Join xs sep"
  by (cases xs) simp_all

lemma parse_elems:
  assumes "layout_ok br col"
    and "\<And>v w rest fuel. v \<in> set vs \<Longrightarrow> blank w \<Longrightarrow> ends_number rest \<Longrightarrow> 2 * length (json_pp br col n v) \<le> fuel \<Longrightarrow>
           parse_json fuel PValue (w @ json_pp br col n v @ rest) = Some (v, rest)"
    and "vs \<noteq> []" "blank w" "blank w2" "2 * length (Join (map (json_pp br col n) vs) ('','' @ br n)) + 1 \<le> fuel"
  shows "parse_json fuel PElems (w @ Join (map (json_pp br col n) vs) ('','' @ br n) @ w2 @ CHR '']'' # rest) = Some (JArr vs, rest)"
  using assms(2-)
proof (induction vs arbitrary: w fuel)
  case (Cons v vs)
  then obtain f where f: "fuel = Suc f" by (cases fuel) auto
  show ?case
  proof (cases "vs = []")
    case True
    have "parse_json f PValue (w @ json_pp br col n v @ w2 @ CHR '']'' # rest) = Some (v, w2 @ CHR '']'' # rest)"
      using Cons.prems f True by (intro Cons.prems(1)) (auto intro: blank_ends)
    with True f Cons.prems(4) show ?thesis by simp
  next
    case False
    let ?J = "Join (map (json_pp br col n) vs) ('','' @ br n)"
    have J: "Join (map (json_pp br col n) (v # vs)) ('','' @ br n) = json_pp br col n v @ '','' @ br n @ ?J"
      using False by (simp add: Join_Cons)
    have "parse_json f PValue (w @ json_pp br col n v @ CHR '','' # br n @ ?J @ w2 @ CHR '']'' # rest) =
        Some (v, CHR '','' # br n @ ?J @ w2 @ CHR '']'' # rest)"
      using Cons.prems f unfolding J by (intro Cons.prems(1)) auto
    moreover have "parse_json f PElems (br n @ ?J @ w2 @ CHR '']'' # rest) = Some (JArr vs, rest)"
      using Cons.prems f False assms(1) unfolding J by (intro Cons.IH) (auto simp: layout_ok_def)
    ultimately show ?thesis using f unfolding J by simp
  qed
qed simp

lemma parse_members:
  assumes "layout_ok br col"
    and "\<And>k v w rest fuel. (k, v) \<in> set ms \<Longrightarrow> blank w \<Longrightarrow> ends_number rest \<Longrightarrow> 2 * length (json_pp br col n v) \<le> fuel \<Longrightarrow>
           parse_json fuel PValue (w @ json_pp br col n v @ rest) = Some (v, rest)"
    and "\<forall>e \<in> set ms. utf8_Valid (fst e)"
    and "ms \<noteq> []" "blank w" "blank w2"
      "2 * length (Join (map (\<lambda>(k, v). print_string k @ col @ json_pp br col n v) ms) ('','' @ br n)) + 1 \<le> fuel"
  shows "parse_json fuel PMembers (w @ Join (map (\<lambda>(k, v). print_string k @ col @ json_pp br col n v) ms) ('','' @ br n) @
           w2 @ CHR ''}'' # rest) = Some (JObj ms, rest)"
  using assms(2-)
proof (induction ms arbitrary: w fuel)
  case (Cons kv ms)
  obtain k v where kv: "kv = (k, v)" by fastforce
  from Cons.prems obtain f where f: "fuel = Suc f" by (cases fuel) auto
  from assms(1) obtain w' where w': "blank w'" "col = CHR '':'' # w'" by (auto simp: layout_ok_def)
  have key: "key_colon (w @ print_string k @ col @ s) = Some (k, w' @ s)" for s
    using key_colon_print [of k w w' s] Cons.prems(2,4) w' kv by simp
  let ?pp = "\<lambda>(k, v). print_string k @ col @ json_pp br col n v"
  show ?case
  proof (cases "ms = []")
    case True
    have "parse_json f PValue (w' @ json_pp br col n v @ w2 @ CHR ''}'' # rest) = Some (v, w2 @ CHR ''}'' # rest)"
      using Cons.prems f True w' kv by (intro Cons.prems(1)) (auto intro: blank_ends)
    with True f Cons.prems(5) kv key show ?thesis by simp
  next
    case False
    let ?J = "Join (map ?pp ms) ('','' @ br n)"
    have J: "Join (map ?pp (kv # ms)) ('','' @ br n) = print_string k @ col @ json_pp br col n v @ '','' @ br n @ ?J"
      using False kv by (simp add: Join_Cons)
    have "parse_json f PValue (w' @ json_pp br col n v @ CHR '','' # br n @ ?J @ w2 @ CHR ''}'' # rest) =
        Some (v, CHR '','' # br n @ ?J @ w2 @ CHR ''}'' # rest)"
      using Cons.prems f w' kv unfolding J by (intro Cons.prems(1)) auto
    moreover have len: "2 * length ?J + 1 \<le> f" using Cons.prems(6) f unfolding J by simp
    have "parse_json f PMembers (br n @ ?J @ w2 @ CHR ''}'' # rest) = Some (JObj ms, rest)"
    proof (rule Cons.IH)
      show "parse_json fuel PValue (w @ json_pp br col n v @ rest) = Some (v, rest)"
        if "(k, v) \<in> set ms" "blank w" "ends_number rest" "2 * length (json_pp br col n v) \<le> fuel" for k v w rest fuel
        using that by (intro Cons.prems(1) [of k]) simp_all
    qed (use Cons.prems(2,5) False assms(1) len in \<open>auto simp: layout_ok_def\<close>)
    ultimately show ?thesis using f key kv unfolding J by simp
  qed
qed simp

lemma parse_pp:
  "layout_ok br col \<Longrightarrow> json_ok j \<Longrightarrow> blank w \<Longrightarrow> ends_number rest \<Longrightarrow> 2 * length (json_pp br col n j) \<le> fuel \<Longrightarrow>
   parse_json fuel PValue (w @ json_pp br col n j @ rest) = Some (j, rest)"
proof (induction j arbitrary: n w rest fuel)
  case (JArr vs)
  then obtain f where f: "fuel = Suc f" by (cases fuel) (auto split: if_splits)
  show ?case
  proof (cases "vs = []")
    case False
    let ?J = "Join (map (json_pp br col (n + 1)) vs) ('','' @ br (n + 1))"
    have br: "blank (br (n + 1))" "blank (br n)" using JArr.prems by (auto simp: layout_ok_def)
    have "parse_json f PElems (br (n + 1) @ ?J @ br n @ CHR '']'' # rest) = Some (JArr vs, rest)"
      using JArr f False br by (intro parse_elems) auto
    moreover have "fst (next_token (br (n + 1) @ ?J @ br n @ CHR '']'' # rest)) \<noteq> TRbrack"
      using False br JArr.prems(2) next_token_pp [of "hd vs" br col "n + 1"]
      by (cases vs; cases "tl vs") (auto simp: Join_Cons)
    ultimately show ?thesis using f False JArr.prems by simp
  qed (use f JArr in simp)
next
  case (JObj ms)
  then obtain f where f: "fuel = Suc f" by (cases fuel) (auto split: if_splits)
  show ?case
  proof (cases "ms = []")
    case False
    let ?J = "Join (map (\<lambda>(k, v). print_string k @ col @ json_pp br col (n + 1) v) ms) ('','' @ br (n + 1))"
    have br: "blank (br (n + 1))" "blank (br n)" using JObj.prems by (auto simp: layout_ok_def)
    have "parse_json f PMembers (br (n + 1) @ ?J @ br n @ CHR ''}'' # rest) = Some (JObj ms, rest)"
    proof (rule parse_members [OF JObj.prems(1)])
      show "parse_json fuel PValue (w @ json_pp br col (n + 1) v @ rest) = Some (v, rest)"
        if "(k, v) \<in> set ms" "blank w" "ends_number rest" "2 * length (json_pp br col (n + 1) v) \<le> fuel" for k v w rest fuel
        using that JObj.prems(1,2) by (intro JObj.IH [of "(k, v)"]) auto
    qed (use JObj f False br in auto)
    moreover have "fst (next_token (br (n + 1) @ ?J @ br n @ CHR ''}'' # rest)) \<noteq> TRbrace"
      using False br by (cases ms; cases "tl ms") (auto simp: Join_Cons print_string_def)
    ultimately show ?thesis using f False JObj.prems by simp
  qed (use f JObj in simp)
next
  case (JNum l)
  then obtain f where f: "fuel = Suc f" by (cases fuel) (auto dest: number_start)
  have "number_lexeme (l @ rest) = Some (l, rest)"
    using JNum number_lexeme_ext [of rest l] by (simp add: num_ok_def)
  with f JNum show ?case by (simp add: next_token_number)
next
  case (JStr s)
  then obtain f where f: "fuel = Suc f" by (cases fuel) (auto simp: print_string_def)
  with JStr show ?case by (simp add: print_string_def string_literal_print)
next
  case JNull
  then obtain f where "fuel = Suc f" by (cases fuel) auto
  with JNull next_token_chars(10) [of rest] show ?case by simp
next
  case (JBool b)
  then obtain f where "fuel = Suc f" by (cases fuel) (auto split: if_splits)
  with JBool next_token_chars(8,9) [of rest] show ?case by (cases b) simp_all
qed

lemma json_parse_pp: "layout_ok br col \<Longrightarrow> json_ok j \<Longrightarrow> json_parse (json_pp br col n j) = Some j"
  using parse_pp [of br col j "[]" "[]" n "2 * length (json_pp br col n j) + 2"]
  by (simp add: json_parse_def blank_def skip_ws_def)

lemma layouts: "layout_ok (\<lambda>_. []) '':''" "layout_ok line_break '': ''"
  by (simp_all add: layout_ok_def blank_def line_break_def nl_def json_ws_def list_all_iff)

lemma json_parse_print [simp]: "json_ok j \<Longrightarrow> json_parse (json_print j) = Some j"
  unfolding json_print_pp [of j 0] by (rule json_parse_pp [OF layouts(1)])

lemma json_parse_MarshalIndent [simp]: "json_ok j \<Longrightarrow> json_parse (MarshalIndent j) = Some j"
  unfolding MarshalIndent_def by (rule json_parse_pp [OF layouts(2)])

text \<open>The decimal text of an integer is a JSON number.\<close>

lemma nat_digits_start: "n \<ge> 10 \<Longrightarrow> hd (nat_digits n) \<noteq> CHR ''0''"
proof (induction n rule: nat_digits.induct)
  case (1 n)
  then have ge: "\<not> n < 10" by simp
  show ?case
  proof (cases "n div 10 < 10")
    case True
    then have "nat_digits (n div 10) = [digit_char (n div 10)]" by (simp add: nat_digits.simps [of "n div 10"])
    moreover have "n div 10 \<noteq> 0" using ge by simp
    moreover have "digit_char d \<noteq> CHR ''0''" if "d \<noteq> 0" "d < 10" for d
    proof
      assume "digit_char d = CHR ''0''"
      moreover have "(of_char (digit_char d) :: nat) = 48 + d" using that by (simp add: digit_char_def)
      ultimately show False using that by simp
    qed
    ultimately show ?thesis using ge True by (simp add: nat_digits.simps [of n])
  next
    case False
    then have "nat_digits (n div 10) \<noteq> []" by (simp add: nat_digits.simps [of "n div 10"])
    with 1(1) ge False show ?thesis by (simp add: nat_digits.simps [of n])
  qed
qed

lemma nat_digits_nonempty [simp]: "nat_digits n \<noteq> []"
  by (simp add: nat_digits.simps [of n])

lemma num_ok_Itoa [simp]: "num_ok (Itoa i)"
proof -
  have all: "takeWhile is_digit (nat_digits n) = nat_digits n" "dropWhile is_digit (nat_digits n) = []" for n
    using nat_digits_digits [of n] by (simp_all add: list_all_iff takeWhile_eq_all_conv dropWhile_eq_Nil_conv)
  have start: "\<not> (length (nat_digits n) > 1 \<and> hd (nat_digits n) = CHR ''0'')" for n
    using nat_digits_start [of n] by (cases "n < 10") (auto simp: nat_digits.simps [of n])
  have minus: "\<not> HasPrefix (nat_digits n) ''-''" for n
    using nat_digits_digits [of n] by (cases "nat_digits n") (auto simp: HasPrefix_def is_digit_def)
  show ?thesis
    using start [of "nat i"] start [of "nat (- i)"] minus [of "nat i"]
      nat_digits_digits [of "nat i"] nat_digits_digits [of "nat (- i)"]
    by (auto simp: num_ok_def number_lexeme_def Itoa_def take_digits_def all HasPrefix_iff Let_def list_all_iff)
qed

section \<open>Properties\<close>

text \<open>
  A JSON value whose strings are valid UTF-8 and whose numbers are JSON numbers is parsed back
  from its compact text and from its indented text as exactly the value it was.
\<close>

theorem json_roundtrip:
  assumes "json_ok j"
  shows "json_parse (json_print j) = Some j \<and> json_parse (MarshalIndent j) = Some j"
  using assms by simp

definition sample_json :: json where
  "sample_json = JObj [(''a'', JArr [JNum ''-12.5e3'', JNull, JBool True, JArr [], JObj []]), (''<'', JStr (bytes [34, 92, 10, 0xD0, 0x96]))]"

theorem json_roundtrip_witness:
  "json_parse (MarshalIndent sample_json) = Some sample_json \<and> json_parse (json_print sample_json) = Some sample_json"
proof -
  have "json_ok sample_json" by code_simp
  from json_roundtrip [OF this] show ?thesis by simp
qed

section \<open>Integers\<close>

definition int64 :: "int \<Rightarrow> bool" where
  "int64 i \<longleftrightarrow> - (2 ^ 63) \<le> i \<and> i < 2 ^ 63"

lemma ParseInt64_Itoa [simp]: "int64 i \<Longrightarrow> ParseInt64 (Itoa i) = Some i"
proof -
  assume r: "int64 i"
  have sign: "\<not> HasPrefix (nat_digits n) ''-''" "\<not> HasPrefix (nat_digits n) ''+''" for n
    using nat_digits_digits [of n] by (cases "nat_digits n"; auto simp: HasPrefix_def is_digit_def)+
  show ?thesis
    using r sign nat_digits_digits by (auto simp: ParseInt64_def Itoa_def Let_def int64_def HasPrefix_iff)
qed

section \<open>Plain text\<close>

text \<open>Printable ASCII without quotes, backslashes and HTML characters is printed as it is.\<close>

definition plain_char :: "char \<Rightarrow> bool" where
  "plain_char c \<longleftrightarrow> (let n = of_char c :: nat in 32 \<le> n \<and> n \<le> 126 \<and> n \<notin> {34, 38, 60, 62, 92})"

lemma print_plain: "list_all plain_char s \<Longrightarrow> print_string s = CHR 0x22 # s @ [CHR 0x22]"
proof -
  have "list_all plain_char s \<Longrightarrow> escape_fuel (length s) s = s"
  proof (induction s)
    case (Cons c s)
    then have "rune_len (c # s) = 1" using rune_len_ascii [of c s] by (simp add: plain_char_def Let_def)
    moreover have "escape_byte c = [c]" using Cons by (auto simp: plain_char_def escape_byte_def Let_def)
    ultimately show ?case using Cons by simp
  qed simp
  then show "list_all plain_char s \<Longrightarrow> print_string s = CHR 0x22 # s @ [CHR 0x22]" by (simp add: print_string_def)
qed

end
