(* ===== verification/Providers.thy ===== *)
theory Providers
  imports Prelude Complex_Main
begin

text \<open>
  The data every LLM backend shares (\<^verbatim>\<open>pkg/providers/types.go\<close>) and the execution events of
  \<^verbatim>\<open>pkg/agent/context.go\<close>. JSON fragments the code only passes on (\<open>json.RawMessage\<close> schemas and
  arguments) are their bytes. A finite \<open>float64\<close> is the rational number it denotes.
\<close>

type_synonym Role = string

definition RoleSystem :: Role where "RoleSystem = ''system''"
definition RoleUser :: Role where "RoleUser = ''user''"
definition RoleAssistant :: Role where "RoleAssistant = ''assistant''"
definition RoleTool :: Role where "RoleTool = ''tool''"

lemmas Role_defs = RoleSystem_def RoleUser_def RoleAssistant_def RoleTool_def

lemma Role_distinct [simp]:
  "RoleSystem \<noteq> RoleUser" "RoleUser \<noteq> RoleSystem"
  "RoleSystem \<noteq> RoleAssistant" "RoleAssistant \<noteq> RoleSystem"
  "RoleSystem \<noteq> RoleTool" "RoleTool \<noteq> RoleSystem"
  "RoleUser \<noteq> RoleAssistant" "RoleAssistant \<noteq> RoleUser"
  "RoleUser \<noteq> RoleTool" "RoleTool \<noteq> RoleUser"
  "RoleAssistant \<noteq> RoleTool" "RoleTool \<noteq> RoleAssistant"
  by (simp_all add: Role_defs)

record ContentPart =
  cp_Type :: string
  cp_Text :: string
  cp_ToolCallID :: string
  cp_Content :: string
  cp_IsError :: bool

record ToolCall =
  tc_ID :: string
  tc_Name :: string
  tc_Args :: string

record Message =
  m_Role :: Role
  m_Content :: string
  m_Parts :: "ContentPart list"
  m_ToolCallID :: string
  m_Name :: string
  m_ToolCalls :: "ToolCall list"

text \<open>A composite literal leaves the fields it does not name at their zero values.\<close>

definition zero_Message :: Message where
  "zero_Message =
     \<lparr>m_Role = [], m_Content = [], m_Parts = [], m_ToolCallID = [], m_Name = [], m_ToolCalls = []\<rparr>"

record ToolDefinition =
  td_Name :: string
  td_Description :: string
  td_InputSchema :: string

record ChatRequest =
  rq_Model :: string
  rq_Messages :: "Message list"
  rq_Tools :: "ToolDefinition list"
  rq_SystemPrompt :: string
  rq_Temperature :: rat
  rq_MaxTokens :: int

datatype FinishReason = FinishStop | FinishToolUse | FinishLength | FinishUnset

record Usage =
  us_InputTokens :: int
  us_OutputTokens :: int

record ChatResponse =
  rs_Content :: string
  rs_ToolCalls :: "ToolCall list"
  rs_Usage :: Usage
  rs_FinishReason :: FinishReason

definition zero_Usage :: Usage where
  "zero_Usage = \<lparr>us_InputTokens = 0, us_OutputTokens = 0\<rparr>"

text \<open>
  The interface \<open>LLMProvider\<close>. \<open>ChatStream\<close> gets the callback \<open>onChunk\<close>, whose effect is on the
  world.
\<close>

record 'w LLMProvider =
  Chat :: "ChatRequest \<Rightarrow> 'w \<Rightarrow> ChatResponse result \<times> 'w"
  ChatStream :: "ChatRequest \<Rightarrow> (string \<Rightarrow> 'w \<Rightarrow> 'w) \<Rightarrow> 'w \<Rightarrow> ChatResponse result \<times> 'w"

end
