(* ===== verification/Clock.thy ===== *)
theory Clock
  imports Prelude
begin

text \<open>
  What the source uses of \<open>time.Time\<close>: an instant in UTC as its civil fields, the order \<open>After\<close>, the zero
  time, and the RFC 3339 text of \<open>encoding/json\<close> ("2006-01-02T15:04:05.999999999Z"). Texts with another
  zone offset than Z, which the program never writes, are not read.
\<close>

datatype time = Time (t_year: nat) (t_month: nat) (t_day: nat) (t_hour: nat) (t_min: nat) (t_sec: nat) (t_nsec: nat)

definition zero_time :: time where
  "zero_time = Time 1 1 1 0 0 0 0"

definition IsZero :: "time \<Rightarrow> bool" where
  "IsZero t \<longleftrightarrow> t = zero_time"

text \<open>Instants are ordered by their fields, so the sorting functions of the library apply to them.\<close>

fun time_fields :: "time \<Rightarrow> nat list" where
  "time_fields (Time y mo d h mi s ns) = [y, mo, d, h, mi, s, ns]"

instantiation time :: linorder
begin

definition less_time :: "time \<Rightarrow> time \<Rightarrow> bool" where
  "less_time a b \<longleftrightarrow> time_fields a < time_fields b"

definition less_eq_time :: "time \<Rightarrow> time \<Rightarrow> bool" where
  "less_eq_time a b \<longleftrightarrow> time_fields a \<le> time_fields b"

instance
proof
  fix a b :: time
  assume "a \<le> b" "b \<le> a"
  then have "time_fields a = time_fields b" by (simp add: less_eq_time_def)
  then show "a = b" by (cases a; cases b) simp
qed (auto simp: less_time_def less_eq_time_def)

end

definition After :: "time \<Rightarrow> time \<Rightarrow> bool" where
  "After a b \<longleftrightarrow> b < a"

definition leap :: "nat \<Rightarrow> bool" where
  "leap y \<longleftrightarrow> y mod 4 = 0 \<and> (y mod 100 \<noteq> 0 \<or> y mod 400 = 0)"

definition month_days :: "nat \<Rightarrow> nat \<Rightarrow> nat" where
  "month_days y m = (if m = 2 then (if leap y then 29 else 28) else if m \<in> {4, 6, 9, 11} then 30 else 31)"

fun time_ok :: "time \<Rightarrow> bool" where
  "time_ok (Time y mo d h mi s ns) \<longleftrightarrow>
     y < 10000 \<and> 1 \<le> mo \<and> mo \<le> 12 \<and> 1 \<le> d \<and> d \<le> month_days y mo \<and> h < 24 \<and> mi < 60 \<and> s < 60 \<and> ns < 1000000000"

section \<open>Text\<close>

text \<open>\<open>n\<close> in \<open>k\<close> decimal digits, and back.\<close>

primrec pad_digits :: "nat \<Rightarrow> nat \<Rightarrow> string" where
  "pad_digits 0 n = []"
| "pad_digits (Suc k) n = pad_digits k (n div 10) @ [digit_char (n mod 10)]"

definition read_digits :: "nat \<Rightarrow> string \<Rightarrow> (nat \<times> string) option" where
  "read_digits k s =
     (if k \<le> length s \<and> list_all is_digit (take k s) then Some (nat (digits_val (take k s)), drop k s) else None)"

definition trim_zeros :: "string \<Rightarrow> string" where
  "trim_zeros s = rev (dropWhile (\<lambda>c. c = CHR ''0'') (rev s))"

definition fraction :: "nat \<Rightarrow> string" where
  "fraction ns = (if ns = 0 then [] else ''.'' @ trim_zeros (pad_digits 9 ns))"

fun format_time :: "time \<Rightarrow> string" where
  "format_time (Time y mo d h mi s ns) =
     pad_digits 4 y @ ''-'' @ pad_digits 2 mo @ ''-'' @ pad_digits 2 d @ ''T'' @
     pad_digits 2 h @ '':'' @ pad_digits 2 mi @ '':'' @ pad_digits 2 s @ fraction ns @ ''Z''"

text \<open>More than nine digits of a fraction are cut.\<close>

definition read_fraction :: "string \<Rightarrow> (nat \<times> string) option" where
  "read_fraction s =
     (if HasPrefix s ''.'' then
        (let ds = takeWhile is_digit (drop 1 s)
         in if ds = [] then None
            else Some (nat (digits_val (take 9 (ds @ replicate 9 (CHR ''0'')))), dropWhile is_digit (drop 1 s)))
      else Some (0, s))"

definition expect :: "string \<Rightarrow> string \<Rightarrow> string option" where
  "expect p s = (if HasPrefix s p then Some (drop (length p) s) else None)"

definition parse_time :: "string \<Rightarrow> time option" where
  "parse_time t =
     Option.bind (read_digits 4 t) (\<lambda>(y, t). Option.bind (expect ''-'' t) (\<lambda>t.
     Option.bind (read_digits 2 t) (\<lambda>(mo, t). Option.bind (expect ''-'' t) (\<lambda>t.
     Option.bind (read_digits 2 t) (\<lambda>(d, t). Option.bind (expect ''T'' t) (\<lambda>t.
     Option.bind (read_digits 2 t) (\<lambda>(h, t). Option.bind (expect '':'' t) (\<lambda>t.
     Option.bind (read_digits 2 t) (\<lambda>(mi, t). Option.bind (expect '':'' t) (\<lambda>t.
     Option.bind (read_digits 2 t) (\<lambda>(s, t). Option.bind (read_fraction t) (\<lambda>(ns, t).
       if t = ''Z'' \<and> time_ok (Time y mo d h mi s ns) then Some (Time y mo d h mi s ns) else None))))))))))))"

section \<open>The text of a time is read back\<close>

lemma length_pad_digits [simp]: "length (pad_digits k n) = k"
  by (induction k arbitrary: n) simp_all

lemma digits_val_append: "digits_val (a @ b) = digits_val a * 10 ^ length b + digits_val b"
proof (induction b rule: rev_induct)
  case (snoc c b)
  then show ?case by (simp add: digits_val_snoc flip: append_assoc)
qed (simp add: digits_val_def)

lemma digits_val_pad: "n < 10 ^ k \<Longrightarrow> digits_val (pad_digits k n) = int n"
proof (induction k arbitrary: n)
  case (Suc k)
  then have "n div 10 < 10 ^ k" by auto
  with Suc.IH have "digits_val (pad_digits k (n div 10)) = int (n div 10)" by blast
  moreover have "10 * int (n div 10) + int (n mod 10) = int n" by presburger
  ultimately show ?case by (simp add: digits_val_snoc)
qed (simp add: digits_val_def)

lemma pad_digits_digits: "list_all is_digit (pad_digits k n)"
  by (induction k arbitrary: n) simp_all

lemma read_digits_pad [simp]: "n < 10 ^ k \<Longrightarrow> read_digits k (pad_digits k n @ s) = Some (n, s)"
  by (simp add: read_digits_def pad_digits_digits digits_val_pad)

lemma expect_append [simp]: "expect p (p @ s) = Some s"
  by (simp add: expect_def)

lemma digits_val_zeros: "digits_val (replicate k (CHR ''0'')) = 0"
  by (induction k) (simp_all add: digits_val_def)

lemma trim_zeros_split: "\<exists>k. s = trim_zeros s @ replicate k (CHR ''0'') \<and> length s = length (trim_zeros s) + k"
proof -
  let ?p = "\<lambda>c. c = CHR ''0''"
  have "rev s = takeWhile ?p (rev s) @ dropWhile ?p (rev s)" by simp
  then have "s = trim_zeros s @ rev (takeWhile ?p (rev s))" unfolding trim_zeros_def by (metis rev_append rev_rev_ident)
  moreover have "rev (takeWhile ?p (rev s)) = replicate (length (takeWhile ?p (rev s))) (CHR ''0'')"
    by (intro replicate_eqI) (auto dest: set_takeWhileD)
  ultimately show ?thesis by (metis length_append length_rev length_replicate)
qed

lemma trim_zeros_digits: "list_all is_digit s \<Longrightarrow> list_all is_digit (trim_zeros s)"
  by (auto simp: trim_zeros_def list_all_iff dest: set_dropWhileD)

lemma read_fraction_text:
  assumes "ns < 1000000000"
  shows "read_fraction (fraction ns @ ''Z'') = Some (ns, ''Z'')"
proof (cases "ns = 0")
  case True
  then show ?thesis by (simp add: fraction_def read_fraction_def HasPrefix_def)
next
  case False
  let ?t = "trim_zeros (pad_digits 9 ns)"
  obtain k where k: "pad_digits 9 ns = ?t @ replicate k (CHR ''0'')" "9 = length ?t + k"
    using trim_zeros_split [of "pad_digits 9 ns"] by auto
  have v: "digits_val (pad_digits 9 ns) = int ns" using assms by (simp add: digits_val_pad)
  have "?t \<noteq> []"
  proof
    assume "?t = []"
    with k(1) have "digits_val (pad_digits 9 ns) = 0" by (simp add: digits_val_zeros)
    with v False show False by simp
  qed
  moreover have d: "list_all is_digit ?t" by (intro trim_zeros_digits pad_digits_digits)
  then have "takeWhile is_digit (?t @ ''Z'') = ?t" "dropWhile is_digit (?t @ ''Z'') = ''Z''"
    by (auto simp: list_all_iff takeWhile_append dropWhile_append is_digit_def)
  moreover have "take 9 (?t @ replicate 9 (CHR ''0'')) = pad_digits 9 ns"
  proof -
    have "length ?t \<le> 9" "9 - length ?t = k" using k(2) by simp_all
    then have "take 9 (?t @ replicate 9 (CHR ''0'')) = ?t @ replicate k (CHR ''0'')"
      using k(2) by (simp only: take_append take_all take_replicate) (simp add: min_def)
    with k(1) show ?thesis by simp
  qed
  ultimately show ?thesis using False v by (simp add: fraction_def read_fraction_def HasPrefix_def)
qed

lemma parse_format_time: "time_ok t \<Longrightarrow> parse_time (format_time t) = Some t"
proof (cases t)
  case (Time y mo d h mi s ns)
  assume ok: "time_ok t"
  have "month_days y mo \<le> 31" by (simp add: month_days_def)
  with ok Time have "y < 10 ^ 4" "mo < 10 ^ 2" "d < 10 ^ 2" "h < 10 ^ 2" "mi < 10 ^ 2" "s < 10 ^ 2" "ns < 1000000000"
    by auto
  note b = this
  show ?thesis
    using ok unfolding Time parse_time_def format_time.simps
    by (simp only: b read_digits_pad expect_append bind.simps prod.case read_fraction_text if_True conj_absorb simp_thms)
qed

end
