(* ===== verification/Codec.thy ===== *)
theory Codec
  imports JsonText Providers Clock
begin

text \<open>
  The JSON form of the shared data: how \<open>encoding/json\<close> writes and reads the struct types by their field
  tags (\<^verbatim>\<open>pkg/providers/types.go\<close>), with \<open>omitempty\<close>. A \<open>json.RawMessage\<close> is its text; writing it fails
  when the text is not JSON, and reading keeps the value, printed without white space.
\<close>

section \<open>Fields\<close>

definition fld :: "string \<Rightarrow> json \<Rightarrow> (string \<times> json) list" where
  "fld k v = [(k, v)]"

definition opt_fld :: "string \<Rightarrow> bool \<Rightarrow> json \<Rightarrow> (string \<times> json) list" where
  "opt_fld k c v = (if c then [(k, v)] else [])"

text \<open>A nil slice is \<open>null\<close>.\<close>

definition slice_json :: "('a \<Rightarrow> json) \<Rightarrow> 'a list \<Rightarrow> json" where
  "slice_json f xs = (if xs = [] then JNull else JArr (map f xs))"

definition same_key :: "string \<Rightarrow> string \<Rightarrow> bool" where
  "same_key k name \<longleftrightarrow> ToLower k = ToLower name"

lemma dec_field_Nil [simp]: "dec_field name d z [] = Some z"
  by (simp add: dec_field_def)

lemma dec_field_None: "foldl (\<lambda>acc (k, v). if ToLower k = ToLower name
     then (case acc of None \<Rightarrow> None | Some x \<Rightarrow> d x v) else acc) None ms = None"
  by (induction ms) auto

lemma dec_field_fld [simp]:
  "dec_field name d z (fld k v @ ms) =
     (if same_key k name then (case d z v of None \<Rightarrow> None | Some x \<Rightarrow> dec_field name d x ms)
      else dec_field name d z ms)"
  by (auto simp: dec_field_def fld_def same_key_def dec_field_None split: option.split)

lemma dec_field_opt [simp]:
  "dec_field name d z (opt_fld k c v @ ms) =
     (if c \<and> same_key k name then (case d z v of None \<Rightarrow> None | Some x \<Rightarrow> dec_field name d x ms)
      else dec_field name d z ms)"
  using dec_field_fld [of name d z k v ms] by (auto simp: opt_fld_def fld_def)

lemmas dec_field_last [simp] =
  dec_field_fld [where ms = "[]", simplified] dec_field_opt [where ms = "[]", simplified]

lemma json_ok_slice [simp]: "json_ok (slice_json f xs) \<longleftrightarrow> (\<forall>x \<in> set xs. json_ok (f x))"
  by (auto simp: slice_json_def)

definition members_ok :: "(string \<times> json) list \<Rightarrow> bool" where
  "members_ok ms \<longleftrightarrow> (\<forall>e \<in> set ms. utf8_Valid (fst e) \<and> json_ok (snd e))"

lemma members_ok_simps [simp]:
  "members_ok []" "members_ok (fld k v @ ms) \<longleftrightarrow> utf8_Valid k \<and> json_ok v \<and> members_ok ms"
  "members_ok (opt_fld k c v @ ms) \<longleftrightarrow> (c \<longrightarrow> utf8_Valid k \<and> json_ok v) \<and> members_ok ms"
  "members_ok (fld k v) \<longleftrightarrow> utf8_Valid k \<and> json_ok v"
  "members_ok (opt_fld k c v) \<longleftrightarrow> (c \<longrightarrow> utf8_Valid k \<and> json_ok v)"
  by (auto simp: members_ok_def fld_def opt_fld_def)

lemma json_ok_JObj [simp]: "json_ok (JObj ms) \<longleftrightarrow> members_ok ms"
  by (simp add: members_ok_def)

declare json_ok.simps(4) [simp del]

text \<open>Decoding what the encoder of the elements wrote.\<close>

lemma those_map_Some: "(\<And>x. x \<in> set xs \<Longrightarrow> f x = Some (g x)) \<Longrightarrow> those (map f xs) = Some (map g xs)"
  by (induction xs) auto

lemma dec_list_slice:
  "(\<And>x. x \<in> set xs \<Longrightarrow> d z (f x) = Some (g x)) \<Longrightarrow> dec_list z d [] (slice_json f xs) = Some (map g xs)"
  by (auto simp: slice_json_def comp_def intro!: those_map_Some)

definition unmarshal :: "'a \<Rightarrow> 'a decoder \<Rightarrow> string \<Rightarrow> 'a option" where
  "unmarshal z d s = Option.bind (json_parse s) (d z)"

section \<open>Times\<close>

fun dec_time :: "time decoder" where
  "dec_time cur (JStr s) = parse_time s"
| "dec_time cur JNull = Some cur"
| "dec_time cur _ = None"

text \<open>\<open>time.Time\<close> is kept as its canonical text by some records.\<close>

definition dec_time_text :: "string decoder" where
  "dec_time_text cur j =
     (case j of JStr s \<Rightarrow> map_option format_time (parse_time s) | JNull \<Rightarrow> Some cur | _ \<Rightarrow> None)"

section \<open>Messages\<close>

definition enc_raw :: "string \<Rightarrow> json option" where
  "enc_raw s = (if s = [] then Some JNull else json_parse s)"

definition dec_raw_text :: "string decoder" where
  "dec_raw_text cur j = Some (json_print j)"

definition enc_ContentPart :: "ContentPart \<Rightarrow> json" where
  "enc_ContentPart p = JObj (
     fld ''type'' (JStr (cp_Type p)) @
     opt_fld ''text'' (cp_Text p \<noteq> []) (JStr (cp_Text p)) @
     opt_fld ''tool_call_id'' (cp_ToolCallID p \<noteq> []) (JStr (cp_ToolCallID p)) @
     opt_fld ''content'' (cp_Content p \<noteq> []) (JStr (cp_Content p)) @
     opt_fld ''is_error'' (cp_IsError p) (JBool (cp_IsError p)))"

definition dec_ContentPart :: "ContentPart decoder" where
  "dec_ContentPart cur j =
     Option.bind (members j) (\<lambda>ms.
     Option.bind (dec_field ''type'' dec_string (cp_Type cur) ms) (\<lambda>ty.
     Option.bind (dec_field ''text'' dec_string (cp_Text cur) ms) (\<lambda>tx.
     Option.bind (dec_field ''tool_call_id'' dec_string (cp_ToolCallID cur) ms) (\<lambda>i.
     Option.bind (dec_field ''content'' dec_string (cp_Content cur) ms) (\<lambda>c.
     Option.bind (dec_field ''is_error'' dec_bool (cp_IsError cur) ms) (\<lambda>e.
       Some \<lparr>cp_Type = ty, cp_Text = tx, cp_ToolCallID = i, cp_Content = c, cp_IsError = e\<rparr>))))))"

definition zero_ContentPart :: ContentPart where
  "zero_ContentPart = \<lparr>cp_Type = [], cp_Text = [], cp_ToolCallID = [], cp_Content = [], cp_IsError = False\<rparr>"

definition raw_json :: "string \<Rightarrow> json" where
  "raw_json s = (case enc_raw s of Some j \<Rightarrow> j | None \<Rightarrow> JNull)"

definition enc_ToolCall :: "ToolCall \<Rightarrow> json" where
  "enc_ToolCall t = JObj (fld ''id'' (JStr (tc_ID t)) @ fld ''name'' (JStr (tc_Name t)) @ fld ''args'' (raw_json (tc_Args t)))"

definition zero_ToolCall :: ToolCall where
  "zero_ToolCall = \<lparr>tc_ID = [], tc_Name = [], tc_Args = []\<rparr>"

definition dec_ToolCall :: "ToolCall decoder" where
  "dec_ToolCall cur j =
     Option.bind (members j) (\<lambda>ms.
     Option.bind (dec_field ''id'' dec_string (tc_ID cur) ms) (\<lambda>i.
     Option.bind (dec_field ''name'' dec_string (tc_Name cur) ms) (\<lambda>n.
     Option.bind (dec_field ''args'' dec_raw_text (tc_Args cur) ms) (\<lambda>a.
       Some \<lparr>tc_ID = i, tc_Name = n, tc_Args = a\<rparr>))))"

definition enc_Message :: "Message \<Rightarrow> json" where
  "enc_Message m = JObj (
     fld ''role'' (JStr (m_Role m)) @
     opt_fld ''content'' (m_Content m \<noteq> []) (JStr (m_Content m)) @
     opt_fld ''parts'' (m_Parts m \<noteq> []) (slice_json enc_ContentPart (m_Parts m)) @
     opt_fld ''tool_call_id'' (m_ToolCallID m \<noteq> []) (JStr (m_ToolCallID m)) @
     opt_fld ''name'' (m_Name m \<noteq> []) (JStr (m_Name m)) @
     opt_fld ''tool_calls'' (m_ToolCalls m \<noteq> []) (slice_json enc_ToolCall (m_ToolCalls m)))"

definition dec_Message :: "Message decoder" where
  "dec_Message cur j =
     Option.bind (members j) (\<lambda>ms.
     Option.bind (dec_field ''role'' dec_string (m_Role cur) ms) (\<lambda>r.
     Option.bind (dec_field ''content'' dec_string (m_Content cur) ms) (\<lambda>c.
     Option.bind (dec_field ''parts'' (dec_list zero_ContentPart dec_ContentPart) (m_Parts cur) ms) (\<lambda>p.
     Option.bind (dec_field ''tool_call_id'' dec_string (m_ToolCallID cur) ms) (\<lambda>i.
     Option.bind (dec_field ''name'' dec_string (m_Name cur) ms) (\<lambda>n.
     Option.bind (dec_field ''tool_calls'' (dec_list zero_ToolCall dec_ToolCall) (m_ToolCalls cur) ms) (\<lambda>t.
       Some \<lparr>m_Role = r, m_Content = c, m_Parts = p, m_ToolCallID = i, m_Name = n, m_ToolCalls = t\<rparr>)))))))"

text \<open>Marshalling fails only on a raw message that is not JSON.\<close>

definition Message_marshals :: "Message \<Rightarrow> bool" where
  "Message_marshals m \<longleftrightarrow> list_all (\<lambda>t. enc_raw (tc_Args t) \<noteq> None) (m_ToolCalls m)"

section \<open>Round trips\<close>

text \<open>The keys in lower case, evaluated once.\<close>

lemma lower_keys [simp]:
  "ToLower ''type'' = ''type''"
  "ToLower ''text'' = ''text''"
  "ToLower ''tool_call_id'' = ''tool_call_id''"
  "ToLower ''content'' = ''content''"
  "ToLower ''is_error'' = ''is_error''"
  "ToLower ''id'' = ''id''"
  "ToLower ''name'' = ''name''"
  "ToLower ''args'' = ''args''"
  "ToLower ''role'' = ''role''"
  "ToLower ''parts'' = ''parts''"
  "ToLower ''tool_calls'' = ''tool_calls''"
  by code_simp+

lemma valid_keys [simp]:
  "utf8_Valid ''type''"
  "utf8_Valid ''text''"
  "utf8_Valid ''tool_call_id''"
  "utf8_Valid ''content''"
  "utf8_Valid ''is_error''"
  "utf8_Valid ''id''"
  "utf8_Valid ''name''"
  "utf8_Valid ''args''"
  "utf8_Valid ''role''"
  "utf8_Valid ''parts''"
  "utf8_Valid ''tool_calls''"
  by code_simp+


text \<open>A tool call comes back with its arguments printed without white space.\<close>

definition compact_call :: "ToolCall \<Rightarrow> ToolCall" where
  "compact_call t = t\<lparr>tc_Args := json_print (raw_json (tc_Args t))\<rparr>"

definition compact_message :: "Message \<Rightarrow> Message" where
  "compact_message m = m\<lparr>m_ToolCalls := map compact_call (m_ToolCalls m)\<rparr>"

lemma dec_enc_ContentPart [simp]: "dec_ContentPart zero_ContentPart (enc_ContentPart p) = Some p"
  by (simp add: dec_ContentPart_def enc_ContentPart_def zero_ContentPart_def same_key_def)

lemma dec_enc_ToolCall [simp]: "dec_ToolCall zero_ToolCall (enc_ToolCall t) = Some (compact_call t)"
  by (simp add: dec_ToolCall_def enc_ToolCall_def zero_ToolCall_def same_key_def compact_call_def dec_raw_text_def)

lemma dec_enc_Message [simp]: "dec_Message zero_Message (enc_Message m) = Some (compact_message m)"
proof -
  have p: "dec_list zero_ContentPart dec_ContentPart [] (slice_json enc_ContentPart (m_Parts m)) = Some (m_Parts m)"
    using dec_list_slice [of "m_Parts m" dec_ContentPart zero_ContentPart enc_ContentPart id] by simp
  have t: "dec_list zero_ToolCall dec_ToolCall [] (slice_json enc_ToolCall (m_ToolCalls m)) = Some (map compact_call (m_ToolCalls m))"
    by (rule dec_list_slice) simp
  show ?thesis
    by (simp add: dec_Message_def enc_Message_def zero_Message_def same_key_def p t compact_message_def)
qed

text \<open>What is written is text when the strings are.\<close>

definition call_ok :: "ToolCall \<Rightarrow> bool" where
  "call_ok t \<longleftrightarrow> utf8_Valid (tc_ID t) \<and> utf8_Valid (tc_Name t) \<and> enc_raw (tc_Args t) \<noteq> None \<and> json_ok (raw_json (tc_Args t))"

definition part_ok :: "ContentPart \<Rightarrow> bool" where
  "part_ok p \<longleftrightarrow> utf8_Valid (cp_Type p) \<and> utf8_Valid (cp_Text p) \<and> utf8_Valid (cp_ToolCallID p) \<and> utf8_Valid (cp_Content p)"

definition message_ok :: "Message \<Rightarrow> bool" where
  "message_ok m \<longleftrightarrow> utf8_Valid (m_Role m) \<and> utf8_Valid (m_Content m) \<and> utf8_Valid (m_ToolCallID m) \<and>
     utf8_Valid (m_Name m) \<and> list_all part_ok (m_Parts m) \<and> list_all call_ok (m_ToolCalls m)"

lemma json_ok_ContentPart: "part_ok p \<Longrightarrow> json_ok (enc_ContentPart p)"
  by (simp add: part_ok_def enc_ContentPart_def)

lemma json_ok_ToolCall: "call_ok t \<Longrightarrow> json_ok (enc_ToolCall t)"
  by (simp add: call_ok_def enc_ToolCall_def)

lemma json_ok_Message: "message_ok m \<Longrightarrow> json_ok (enc_Message m)"
  by (simp add: message_ok_def enc_Message_def list_all_iff json_ok_ContentPart json_ok_ToolCall)

lemma message_ok_marshals: "message_ok m \<Longrightarrow> Message_marshals m"
  by (simp add: message_ok_def Message_marshals_def list_all_iff call_ok_def)

section \<open>ASCII texts\<close>

lemma ascii_valid_fuel: "list_all (\<lambda>c. (of_char c :: nat) < 128) s \<Longrightarrow> length s \<le> n \<Longrightarrow> valid_fuel n s"
proof (induction n arbitrary: s)
  case (Suc n)
  show ?case
  proof (cases s)
    case (Cons c t)
    with Suc.prems have "rune_len (c # t) = Suc 0" by (simp add: rune_len_ascii)
    with Suc Cons show ?thesis by (simp add: Let_def)
  qed simp
qed simp

lemma ascii_valid: "list_all (\<lambda>c. (of_char c :: nat) < 128) s \<Longrightarrow> utf8_Valid s"
  by (simp add: utf8_Valid_def ascii_valid_fuel)

lemma digits_ascii: "list_all is_digit s \<Longrightarrow> list_all (\<lambda>c. (of_char c :: nat) < 128) s"
  by (auto simp: list_all_iff is_digit_def)

lemma format_time_utf8 [simp]: "utf8_Valid (format_time t)"
proof -
  have f: "list_all (\<lambda>c. (of_char c :: nat) < 128) (fraction n)" for n
    using digits_ascii [OF trim_zeros_digits [OF pad_digits_digits]] by (simp add: fraction_def)
  have d: "list_all (\<lambda>c. (of_char c :: nat) < 128) (pad_digits k n)" for k n
    by (rule digits_ascii [OF pad_digits_digits])
  show ?thesis by (cases t) (auto intro!: ascii_valid simp: f d)
qed

end
