(* ===== verification/Keyed_Store.thy ===== *)
theory Keyed_Store
  imports Prelude
begin

text \<open>
  The contract the file stores of the program share: a record is saved under the key it carries and read
  back by key, and an operation on one key leaves what the other keys read. A store with removal extends
  it. The session storage and the validation record store provide it.
\<close>

locale keyed_store =
  fixes inv :: "'s \<Rightarrow> bool"
    and valid_key :: "'k \<Rightarrow> bool"
    and acceptable :: "'v \<Rightarrow> bool"
    and key :: "'v \<Rightarrow> 'k"
    and save :: "'v \<Rightarrow> 's \<Rightarrow> 's"
    and lookup :: "'k \<Rightarrow> 's \<Rightarrow> 'r"
    and stored :: "'v \<Rightarrow> 'r"
  assumes inv_save: "inv s \<Longrightarrow> acceptable v \<Longrightarrow> inv (save v s)"
    and key_valid: "acceptable v \<Longrightarrow> valid_key (key v)"
    and lookup_save_same: "inv s \<Longrightarrow> acceptable v \<Longrightarrow> lookup (key v) (save v s) = stored v"
    and lookup_save_other:
      "inv s \<Longrightarrow> acceptable v \<Longrightarrow> valid_key k \<Longrightarrow> k \<noteq> key v \<Longrightarrow> lookup k (save v s) = lookup k s"
begin

lemma inv_saves: "inv s \<Longrightarrow> list_all acceptable vs \<Longrightarrow> inv (fold save vs s)"
  by (induction vs arbitrary: s) (simp_all add: inv_save)

text \<open>After any run of saves a key reads the last record saved under it.\<close>

lemma lookup_saves:
  "inv s \<Longrightarrow> list_all acceptable vs \<Longrightarrow> valid_key k \<Longrightarrow>
   lookup k (fold save vs s) =
     (case find (\<lambda>v. key v = k) (rev vs) of Some v \<Rightarrow> stored v | None \<Rightarrow> lookup k s)"
proof (induction vs rule: rev_induct)
  case (snoc v vs)
  then have "inv (fold save vs s)" by (simp add: inv_saves)
  with snoc show ?case
    by (cases "key v = k") (auto simp: lookup_save_same lookup_save_other)
qed simp

text \<open>The order of saves under different keys does not matter to a reader.\<close>

lemma saves_commute:
  "inv s \<Longrightarrow> acceptable v \<Longrightarrow> acceptable w \<Longrightarrow> key v \<noteq> key w \<Longrightarrow> valid_key k \<Longrightarrow>
   lookup k (save v (save w s)) = lookup k (save w (save v s))"
  by (cases "k = key v"; cases "k = key w") (auto simp: lookup_save_same lookup_save_other inv_save key_valid)

end

locale keyed_store_removal = keyed_store +
  fixes remove :: "'k \<Rightarrow> 's \<Rightarrow> 's"
    and absent :: 'r
  assumes inv_remove: "inv s \<Longrightarrow> valid_key k \<Longrightarrow> inv (remove k s)"
    and lookup_remove_same: "inv s \<Longrightarrow> valid_key k \<Longrightarrow> lookup k (remove k s) = absent"
    and lookup_remove_other:
      "inv s \<Longrightarrow> valid_key k \<Longrightarrow> valid_key j \<Longrightarrow> j \<noteq> k \<Longrightarrow> lookup j (remove k s) = lookup j s"
begin

lemma removed_after_save:
  "inv s \<Longrightarrow> acceptable v \<Longrightarrow> valid_key k \<Longrightarrow>
   lookup k (remove (key v) (save v s)) = (if k = key v then absent else lookup k s)"
  by (auto simp: lookup_remove_same lookup_remove_other lookup_save_other inv_save key_valid)

lemma saved_after_remove:
  "inv s \<Longrightarrow> acceptable v \<Longrightarrow> lookup (key v) (save v (remove (key v) s)) = stored v"
  by (simp add: inv_remove key_valid lookup_save_same)

end

end
