(* ===== verification/Storage.thy ===== *)
theory Storage
  imports Fs Codec Keyed_Store
begin

text \<open>
  \<^verbatim>\<open>pkg/storage/storage.go\<close>: the session store, one JSON file for each chat in one directory, written
  through a temporary file and a rename. The clock is an argument, and so is what may fail while a file
  is written.
\<close>

section \<open>Data\<close>

record chat_message =
  sm_ID :: string
  sm_Role :: string
  sm_Content :: string
  sm_CreatedAt :: time

record ChatState =
  cs_ChatID :: string
  cs_Title :: string
  cs_Archived :: bool
  cs_CreatedAt :: time
  cs_UpdatedAt :: time
  cs_History :: "Message list"
  cs_Messages :: "chat_message list"

definition zero_chat_message :: chat_message where
  "zero_chat_message = \<lparr>sm_ID = [], sm_Role = [], sm_Content = [], sm_CreatedAt = zero_time\<rparr>"

definition zero_ChatState :: ChatState where
  "zero_ChatState =
     \<lparr>cs_ChatID = [], cs_Title = [], cs_Archived = False, cs_CreatedAt = zero_time, cs_UpdatedAt = zero_time,
      cs_History = [], cs_Messages = []\<rparr>"

definition enc_chat_message :: "chat_message \<Rightarrow> json" where
  "enc_chat_message m = JObj (
     fld ''id'' (JStr (sm_ID m)) @ fld ''role'' (JStr (sm_Role m)) @ fld ''content'' (JStr (sm_Content m)) @
     fld ''createdAt'' (JStr (format_time (sm_CreatedAt m))))"

definition dec_chat_message :: "chat_message decoder" where
  "dec_chat_message cur j =
     Option.bind (members j) (\<lambda>ms.
     Option.bind (dec_field ''id'' dec_string (sm_ID cur) ms) (\<lambda>i.
     Option.bind (dec_field ''role'' dec_string (sm_Role cur) ms) (\<lambda>r.
     Option.bind (dec_field ''content'' dec_string (sm_Content cur) ms) (\<lambda>c.
     Option.bind (dec_field ''createdAt'' dec_time (sm_CreatedAt cur) ms) (\<lambda>t.
       Some \<lparr>sm_ID = i, sm_Role = r, sm_Content = c, sm_CreatedAt = t\<rparr>)))))"

definition enc_ChatState :: "ChatState \<Rightarrow> json" where
  "enc_ChatState cs = JObj (
     fld ''chatId'' (JStr (cs_ChatID cs)) @
     opt_fld ''title'' (cs_Title cs \<noteq> []) (JStr (cs_Title cs)) @
     fld ''archived'' (JBool (cs_Archived cs)) @
     fld ''createdAt'' (JStr (format_time (cs_CreatedAt cs))) @
     fld ''updatedAt'' (JStr (format_time (cs_UpdatedAt cs))) @
     fld ''history'' (slice_json enc_Message (cs_History cs)) @
     fld ''messages'' (slice_json enc_chat_message (cs_Messages cs)))"

definition dec_ChatState :: "ChatState decoder" where
  "dec_ChatState cur j =
     Option.bind (members j) (\<lambda>ms.
     Option.bind (dec_field ''chatId'' dec_string (cs_ChatID cur) ms) (\<lambda>i.
     Option.bind (dec_field ''title'' dec_string (cs_Title cur) ms) (\<lambda>t.
     Option.bind (dec_field ''archived'' dec_bool (cs_Archived cur) ms) (\<lambda>a.
     Option.bind (dec_field ''createdAt'' dec_time (cs_CreatedAt cur) ms) (\<lambda>c.
     Option.bind (dec_field ''updatedAt'' dec_time (cs_UpdatedAt cur) ms) (\<lambda>u.
     Option.bind (dec_field ''history'' (dec_list zero_Message dec_Message) (cs_History cur) ms) (\<lambda>h.
     Option.bind (dec_field ''messages'' (dec_list zero_chat_message dec_chat_message) (cs_Messages cur) ms) (\<lambda>m.
       Some \<lparr>cs_ChatID = i, cs_Title = t, cs_Archived = a, cs_CreatedAt = c, cs_UpdatedAt = u,
             cs_History = h, cs_Messages = m\<rparr>))))))))"

text \<open>Marshalling fails on raw arguments that are not JSON and on a year beyond 9999.\<close>

definition ChatState_marshals :: "ChatState \<Rightarrow> bool" where
  "ChatState_marshals cs \<longleftrightarrow>
     list_all Message_marshals (cs_History cs) \<and>
     t_year (cs_CreatedAt cs) < 10000 \<and> t_year (cs_UpdatedAt cs) < 10000 \<and>
     list_all (\<lambda>m. t_year (sm_CreatedAt m) < 10000) (cs_Messages cs)"

section \<open>Operations\<close>

definition id_char :: "char \<Rightarrow> bool" where
  "id_char c \<longleftrightarrow>
     (let n = of_char c :: nat in
      65 \<le> n \<and> n \<le> 90 \<or> 97 \<le> n \<and> n \<le> 122 \<or> 48 \<le> n \<and> n \<le> 57 \<or>
      c \<in> {CHR ''.'', CHR ''_'', CHR '':'', CHR ''-''})"

definition validChatID :: "string \<Rightarrow> bool" where
  "validChatID s \<longleftrightarrow> s \<noteq> [] \<and> list_all id_char s"

definition chat_path :: "path \<Rightarrow> string \<Rightarrow> path result" where
  "chat_path rt chatID =
     (if \<not> validChatID chatID then Inl (Err (''storage: invalid chat id '' @ quote chatID))
      else Inr (Join_path rt (chatID @ ''.json'')))"

definition storage_error :: "go_error \<Rightarrow> go_error" where
  "storage_error e = Wrap ''storage: '' e []"

definition decode_error :: "string \<Rightarrow> go_error" where
  "decode_error chatID = Wrap (''storage: decode '' @ chatID @ '': '') (Err ''invalid JSON'') []"

definition storage_Get :: "path \<Rightarrow> string \<Rightarrow> fs \<Rightarrow> ChatState option result" where
  "storage_Get rt chatID fs =
     bind_result (chat_path rt chatID) (\<lambda>p.
       case os_ReadFile fs p of
         Inl e \<Rightarrow> (if is_not_exist e then Inr None else Inl (storage_error e))
       | Inr data \<Rightarrow>
           (case unmarshal zero_ChatState dec_ChatState data of
              None \<Rightarrow> Inl (decode_error chatID)
            | Some cs \<Rightarrow> Inr (Some cs)))"

text \<open>\<open>Save\<close> stamps the caller's state even when it fails later.\<close>

definition stamp :: "time \<Rightarrow> ChatState \<Rightarrow> ChatState" where
  "stamp now cs =
     cs\<lparr>cs_CreatedAt := (if IsZero (cs_CreatedAt cs) then now else cs_CreatedAt cs), cs_UpdatedAt := now\<rparr>"

definition storage_Save :: "write_fault \<Rightarrow> time \<Rightarrow> path \<Rightarrow> ChatState \<Rightarrow> fs \<Rightarrow> unit result \<times> ChatState \<times> fs" where
  "storage_Save flt now rt cs fs =
     (case chat_path rt (cs_ChatID cs) of
        Inl e \<Rightarrow> (Inl e, cs, fs)
      | Inr p \<Rightarrow>
          (let cs' = stamp now cs in
           if \<not> ChatState_marshals cs'
           then (Inl (Wrap (''storage: encode '' @ cs_ChatID cs @ '': '') (Err ''json: error'') []), cs', fs)
           else (case os_MkdirAll fs rt of
                   (Inl e, fs1) \<Rightarrow> (Inl (storage_error e), cs', fs1)
                 | (Inr _, fs1) \<Rightarrow>
                     (case writeFileAtomic flt p (MarshalIndent (enc_ChatState cs')) fs1 of
                        (Inl e, fs2) \<Rightarrow> (Inl (storage_error e), cs', fs2)
                      | (Inr _, fs2) \<Rightarrow> (Inr (), cs', fs2)))))"

text \<open>
  \<open>sort.Slice\<close> with \<open>After\<close> puts the newest first; of equal times it promises no order, here they keep
  the order of the directory.
\<close>

definition newest_first :: "ChatState list \<Rightarrow> ChatState list" where
  "newest_first xs = rev (sort_key cs_UpdatedAt (rev xs))"

definition list_entry_state :: "path \<Rightarrow> fs \<Rightarrow> string \<times> entry \<Rightarrow> ChatState option" where
  "list_entry_state rt fs e =
     (if snd e = EDir \<or> filepath_Ext (fst e) \<noteq> ''.json'' then None
      else (case os_ReadFile fs (Join_path rt (fst e)) of
              Inl _ \<Rightarrow> None
            | Inr data \<Rightarrow> unmarshal zero_ChatState dec_ChatState data))"

definition storage_List :: "path \<Rightarrow> fs \<Rightarrow> ChatState list result" where
  "storage_List rt fs =
     (case os_ReadDir fs rt of
        Inl e \<Rightarrow> (if is_not_exist e then Inr [] else Inl (storage_error e))
      | Inr entries \<Rightarrow> Inr (newest_first (List.map_filter (list_entry_state rt fs) entries)))"

definition storage_Delete :: "path \<Rightarrow> string \<Rightarrow> fs \<Rightarrow> unit result \<times> fs" where
  "storage_Delete rt chatID fs =
     (case chat_path rt chatID of
        Inl e \<Rightarrow> (Inl e, fs)
      | Inr p \<Rightarrow>
          (case os_Remove fs p of
             (Inl e, fs1) \<Rightarrow> (if is_not_exist e then Inr () else Inl (storage_error e), fs1)
           | (Inr _, fs1) \<Rightarrow> (Inr (), fs1)))"

section \<open>The file of a chat\<close>

lemma id_char_plain: "id_char c \<Longrightarrow> c \<noteq> CHR ''/''"
  by (auto simp: id_char_def Let_def)

lemma chat_file_plain: "validChatID i \<Longrightarrow> plain (i @ ''.json'') \<and> \<not> is_temp (i @ ''.json'')"
proof -
  assume "validChatID i"
  then have "CHR ''/'' \<notin> set i" by (auto simp: validChatID_def list_all_iff dest: id_char_plain)
  then show ?thesis by (simp add: json_plain json_not_temp)
qed

lemma chat_path_name: "validChatID i \<Longrightarrow> chat_path rt i = Inr (rt @ [i @ ''.json''])"
  using chat_file_plain [of i] by (simp add: chat_path_def Join_path_name)

lemma storage_keys [simp]:
  "ToLower ''chatId'' = ''chatid''" "ToLower ''title'' = ''title''" "ToLower ''archived'' = ''archived''"
  "ToLower ''createdAt'' = ''createdat''" "ToLower ''updatedAt'' = ''updatedat''" "ToLower ''history'' = ''history''"
  "ToLower ''messages'' = ''messages''"
  "utf8_Valid ''chatId''" "utf8_Valid ''title''" "utf8_Valid ''archived''" "utf8_Valid ''createdAt''"
  "utf8_Valid ''updatedAt''" "utf8_Valid ''history''" "utf8_Valid ''messages''"
  by code_simp+

section \<open>What is read back\<close>

definition compact_state :: "ChatState \<Rightarrow> ChatState" where
  "compact_state cs = cs\<lparr>cs_History := map compact_message (cs_History cs)\<rparr>"

definition chat_message_ok :: "chat_message \<Rightarrow> bool" where
  "chat_message_ok m \<longleftrightarrow> utf8_Valid (sm_ID m) \<and> utf8_Valid (sm_Role m) \<and> utf8_Valid (sm_Content m) \<and> time_ok (sm_CreatedAt m)"

definition chat_ok :: "ChatState \<Rightarrow> bool" where
  "chat_ok cs \<longleftrightarrow> validChatID (cs_ChatID cs) \<and> utf8_Valid (cs_Title cs) \<and> time_ok (cs_CreatedAt cs) \<and>
     time_ok (cs_UpdatedAt cs) \<and> list_all message_ok (cs_History cs) \<and> list_all chat_message_ok (cs_Messages cs)"

lemma time_ok_year: "time_ok t \<Longrightarrow> t_year t < 10000"
  by (cases t) simp

lemma chat_ok_marshals: "chat_ok cs \<Longrightarrow> ChatState_marshals cs"
  by (auto simp: chat_ok_def ChatState_marshals_def list_all_iff chat_message_ok_def time_ok_year message_ok_marshals)

lemma validChatID_utf8: "validChatID i \<Longrightarrow> utf8_Valid i"
  by (rule ascii_valid) (auto simp: validChatID_def list_all_iff id_char_def Let_def)

lemma dec_enc_chat_message:
  "time_ok (sm_CreatedAt m) \<Longrightarrow> dec_chat_message zero_chat_message (enc_chat_message m) = Some m"
  by (simp add: dec_chat_message_def enc_chat_message_def zero_chat_message_def same_key_def parse_format_time)

lemma json_ok_chat_message: "chat_message_ok m \<Longrightarrow> json_ok (enc_chat_message m)"
  by (simp add: chat_message_ok_def enc_chat_message_def)

lemma dec_enc_ChatState:
  assumes "chat_ok cs"
  shows "dec_ChatState zero_ChatState (enc_ChatState cs) = Some (compact_state cs)"
proof -
  have h: "dec_list zero_Message dec_Message [] (slice_json enc_Message (cs_History cs)) = Some (map compact_message (cs_History cs))"
    by (rule dec_list_slice) simp
  have m: "dec_list zero_chat_message dec_chat_message [] (slice_json enc_chat_message (cs_Messages cs)) = Some (cs_Messages cs)"
    using dec_list_slice [of "cs_Messages cs" dec_chat_message zero_chat_message enc_chat_message id] assms
    by (simp add: chat_ok_def list_all_iff chat_message_ok_def dec_enc_chat_message)
  have t: "parse_time (format_time (cs_CreatedAt cs)) = Some (cs_CreatedAt cs)"
    "parse_time (format_time (cs_UpdatedAt cs)) = Some (cs_UpdatedAt cs)"
    using assms by (simp_all add: chat_ok_def parse_format_time)
  show ?thesis
    by (simp add: dec_ChatState_def enc_ChatState_def zero_ChatState_def same_key_def h m t compact_state_def)
qed

lemma json_ok_ChatState: "chat_ok cs \<Longrightarrow> json_ok (enc_ChatState cs)"
  by (simp add: chat_ok_def enc_ChatState_def list_all_iff json_ok_Message json_ok_chat_message validChatID_utf8)

lemma unmarshal_saved: "chat_ok cs \<Longrightarrow> unmarshal zero_ChatState dec_ChatState (MarshalIndent (enc_ChatState cs)) = Some (compact_state cs)"
  by (simp add: unmarshal_def json_ok_ChatState dec_enc_ChatState)

section \<open>The store\<close>

text \<open>The directory is real, and the file of a chat is a file when it is there: not a link, not a directory.\<close>

definition store_ok :: "path \<Rightarrow> fs \<Rightarrow> bool" where
  "store_ok rt fs \<longleftrightarrow> is_dir fs rt \<and> (\<forall>i. validChatID i \<longrightarrow> file_or_free fs (rt @ [i @ ''.json'']))"

text \<open>What a chat reads depends on its file alone.\<close>

definition read_state :: "string \<Rightarrow> entry option \<Rightarrow> ChatState option result" where
  "read_state i e =
     (case e of
        Some (EFile data) \<Rightarrow>
          (case unmarshal zero_ChatState dec_ChatState data of None \<Rightarrow> Inl (decode_error i) | Some cs \<Rightarrow> Inr (Some cs))
      | _ \<Rightarrow> Inr None)"

lemma storage_Get_node:
  assumes "store_ok rt fs" "validChatID i"
  shows "storage_Get rt i fs = read_state i (node fs (rt @ [i @ ''.json'']))"
proof -
  have "is_dir fs rt" "plain (i @ ''.json'')" "file_or_free fs (rt @ [i @ ''.json''])"
    using assms chat_file_plain by (auto simp: store_ok_def)
  then show ?thesis
    by (elim file_or_free_cases)
      (simp_all add: storage_Get_def chat_path_name assms(2) read_state_def path_error_def)
qed

lemma store_ok_update:
  assumes "store_ok rt fs" "node fs' = (node fs)(rt @ [n] := e)" "e = None \<or> (\<exists>s. e = Some (EFile s))"
  shows "store_ok rt fs'"
proof -
  have "node fs' (take k rt) = node fs (take k rt)" for k using assms(2) take_neq_snoc [of k rt n] by simp
  then have "is_dir fs' rt" using assms(1) is_dir_same_nodes [of fs rt fs'] by (simp add: store_ok_def)
  moreover have "file_or_free fs' (rt @ [i @ ''.json''])" if "validChatID i" for i
    using assms that by (auto simp: store_ok_def file_or_free_def)
  ultimately show ?thesis by (simp add: store_ok_def)
qed

lemma storage_Save_cases:
  assumes ok: "store_ok rt fs" and chat: "chat_ok (stamp now cs)" and s: "storage_Save flt now rt cs fs = (r, cs', fs')"
  defines "p \<equiv> rt @ [cs_ChatID cs @ ''.json'']"
  shows "cs' = stamp now cs"
    and "r = Inr () \<and> node fs' = (node fs)(p \<mapsto> EFile (MarshalIndent (enc_ChatState (stamp now cs)))) \<or>
         r \<noteq> Inr () \<and> node fs' = node fs"
    and "flt = NoFault \<Longrightarrow> r = Inr ()"
proof -
  let ?data = "MarshalIndent (enc_ChatState (stamp now cs))"
  have v: "validChatID (cs_ChatID cs)" using chat by (simp add: chat_ok_def stamp_def)
  have d: "is_dir fs rt" using ok by (simp add: store_ok_def)
  obtain r1 fs1 where w: "writeFileAtomic flt p ?data fs = (r1, fs1)" by fastforce
  have run: "cs' = stamp now cs \<and> fs' = fs1 \<and> (r = Inr () \<longleftrightarrow> r1 = Inr ())"
    using s w chat_ok_marshals [OF chat] d v
    by (auto simp: storage_Save_def chat_path_name p_def Let_def split: sum.splits)
  have c: "plain (cs_ChatID cs @ ''.json'')" "\<not> is_temp (cs_ChatID cs @ ''.json'') \<or> node fs (rt @ [cs_ChatID cs @ ''.json'']) \<noteq> None"
    using chat_file_plain [OF v] by auto
  note cases = writeFileAtomic_cases [OF d c w [unfolded p_def]]
  show "cs' = stamp now cs" using run by blast
  show "r = Inr () \<and> node fs' = (node fs)(p \<mapsto> EFile ?data) \<or> r \<noteq> Inr () \<and> node fs' = node fs"
    using cases(1) run by (auto simp: p_def)
  assume "flt = NoFault"
  moreover have "node fs p \<noteq> Some EDir" using ok v by (auto simp: store_ok_def file_or_free_def p_def)
  ultimately show "r = Inr ()" using cases(2) run by (auto simp: p_def)
qed

lemma storage_Delete_cases:
  assumes ok: "store_ok rt fs" and v: "validChatID i"
  shows "fst (storage_Delete rt i fs) = Inr ()"
    and "node (snd (storage_Delete rt i fs)) = (node fs)(rt @ [i @ ''.json''] := None)"
proof -
  have d: "is_dir fs rt" and f: "file_or_free fs (rt @ [i @ ''.json''])" using assms by (auto simp: store_ok_def)
  from f show "fst (storage_Delete rt i fs) = Inr ()"
    by (elim file_or_free_cases) (simp_all add: storage_Delete_def chat_path_name v os_Remove_def d path_error_def)
  from f show "node (snd (storage_Delete rt i fs)) = (node fs)(rt @ [i @ ''.json''] := None)"
    by (elim file_or_free_cases) (auto simp: storage_Delete_def chat_path_name v os_Remove_def d path_error_def fun_eq_iff)
qed

text \<open>The session storage provides the contract of a keyed store; a save is a state and its time.\<close>

definition save_chat :: "path \<Rightarrow> time \<times> ChatState \<Rightarrow> fs \<Rightarrow> fs" where
  "save_chat rt v fs = snd (snd (storage_Save NoFault (fst v) rt (snd v) fs))"

definition delete_chat :: "path \<Rightarrow> string \<Rightarrow> fs \<Rightarrow> fs" where
  "delete_chat rt i fs = snd (storage_Delete rt i fs)"

definition saved_chat :: "time \<times> ChatState \<Rightarrow> ChatState option result" where
  "saved_chat v = Inr (Some (compact_state (stamp (fst v) (snd v))))"

definition chat_key :: "time \<times> ChatState \<Rightarrow> string" where
  "chat_key v = cs_ChatID (snd v)"

definition save_ok :: "time \<times> ChatState \<Rightarrow> bool" where
  "save_ok v \<longleftrightarrow> chat_ok (stamp (fst v) (snd v))"

lemma save_ok_key: "save_ok v \<Longrightarrow> validChatID (chat_key v)"
  by (simp add: save_ok_def chat_ok_def chat_key_def stamp_def)

lemma save_chat_node:
  assumes "store_ok rt fs" "save_ok v"
  shows "node (save_chat rt v fs) =
    (node fs)(rt @ [chat_key v @ ''.json''] \<mapsto> EFile (MarshalIndent (enc_ChatState (stamp (fst v) (snd v)))))"
proof -
  obtain r cs' fs' where s: "storage_Save NoFault (fst v) rt (snd v) fs = (r, cs', fs')" by (metis prod_cases3)
  note c = storage_Save_cases [OF assms(1) assms(2) [unfolded save_ok_def] s]
  have "r = Inr ()" by (rule c(3)) simp
  with c(2) s show ?thesis by (simp add: save_chat_def chat_key_def)
qed

lemma json_name_inj: "rt @ [i @ ''.json''] = rt @ [j @ ''.json''] \<longleftrightarrow> i = j"
  by simp

interpretation chats: keyed_store_removal
  "store_ok rt" validChatID save_ok chat_key "save_chat rt" "storage_Get rt" saved_chat "delete_chat rt" "Inr None" for rt
proof
  fix s :: fs and v :: "time \<times> ChatState" and k j :: string
  assume ok: "store_ok rt s"
  show "store_ok rt (save_chat rt v s)" if "save_ok v"
    by (rule store_ok_update [OF ok save_chat_node [OF ok that]]) blast
  then show "storage_Get rt (chat_key v) (save_chat rt v s) = saved_chat v" if "save_ok v"
    using that save_chat_node [OF ok that] unmarshal_saved [OF that [unfolded save_ok_def]]
    by (simp add: storage_Get_node save_ok_key read_state_def saved_chat_def)
  show "storage_Get rt k (save_chat rt v s) = storage_Get rt k s" if "save_ok v" "validChatID k" "k \<noteq> chat_key v"
    using that ok save_chat_node [OF ok that(1)] \<open>save_ok v \<Longrightarrow> store_ok rt (save_chat rt v s)\<close>
    by (simp add: storage_Get_node)
  show "store_ok rt (delete_chat rt k s)" if "validChatID k"
    unfolding delete_chat_def by (rule store_ok_update [OF ok storage_Delete_cases(2) [OF ok that]]) blast
  then show "storage_Get rt k (delete_chat rt k s) = Inr None" if "validChatID k"
    using that storage_Delete_cases(2) [OF ok that] by (simp add: storage_Get_node read_state_def delete_chat_def)
  show "storage_Get rt j (delete_chat rt k s) = storage_Get rt j s" if "validChatID k" "validChatID j" "j \<noteq> k"
    using that ok storage_Delete_cases(2) [OF ok that(1)] \<open>validChatID k \<Longrightarrow> store_ok rt (delete_chat rt k s)\<close>
    by (simp add: storage_Get_node delete_chat_def)
qed (rule save_ok_key)

section \<open>Properties\<close>


definition demo_store :: fs where
  "demo_store = [([''s''], EDir), ([''s'', ''b.json''], EFile ''{}'')]"

definition demo_chat :: ChatState where
  "demo_chat = zero_ChatState\<lparr>cs_ChatID := ''a'',
     cs_History := [zero_Message\<lparr>m_Role := ''user'', m_Content := ''hi''\<rparr>]\<rparr>"

definition demo_now :: time where
  "demo_now = Time 2026 2 28 12 30 0 5"

lemma demo_store_ok: "store_ok [''s''] demo_store"
  by (auto simp: store_ok_def demo_store_def is_dir_step plain_def node_def file_or_free_def)

lemma demo_texts: "utf8_Valid ''user''" "utf8_Valid ''hi''" "utf8_Valid ''t''" "utf8_Valid []" "validChatID ''a''" "validChatID ''b''"
  by code_simp+

lemma demo_chat_ok: "chat_ok (stamp demo_now (demo_chat\<lparr>cs_Title := t\<rparr>)) \<longleftrightarrow> utf8_Valid t" "chat_ok (stamp demo_now demo_chat)"
  by (auto simp: chat_ok_def stamp_def demo_chat_def zero_ChatState_def zero_Message_def message_ok_def demo_texts
      demo_now_def IsZero_def zero_time_def month_days_def leap_def)




text \<open>
  C40: every operation on a chat id that is not a non-empty run of letters, digits, ".", "_", ":" and
  "-" is refused and changes nothing; a deleted chat reads as absent, the others as before.
\<close>

theorem chat_ids_and_deletion:
  "(\<not> validChatID i \<longrightarrow>
      isl (storage_Get rt i fs) \<and> (\<exists>e. storage_Delete rt i fs = (Inl e, fs)) \<and>
      (\<forall>flt now cs. cs_ChatID cs = i \<longrightarrow> (\<exists>e. storage_Save flt now rt cs fs = (Inl e, cs, fs)))) \<and>
   (store_ok rt fs \<and> validChatID i \<longrightarrow>
      fst (storage_Delete rt i fs) = Inr () \<and>
      (\<forall>j. validChatID j \<longrightarrow>
         storage_Get rt j (snd (storage_Delete rt i fs)) = (if j = i then Inr None else storage_Get rt j fs)))"
proof (intro conjI impI allI)
  assume "store_ok rt fs \<and> validChatID i"
  then have ok: "store_ok rt fs" "validChatID i" by auto
  show "fst (storage_Delete rt i fs) = Inr ()" using ok by (rule storage_Delete_cases)
  show "storage_Get rt j (snd (storage_Delete rt i fs)) = (if j = i then Inr None else storage_Get rt j fs)"
    if "validChatID j" for j
    using chats.lookup_remove_same [OF ok] chats.lookup_remove_other [OF ok that]
    by (simp add: delete_chat_def)
qed (simp_all add: storage_Get_def storage_Delete_def storage_Save_def chat_path_def)

theorem chat_ids_and_deletion_witness:
  "\<not> validChatID ''a/b'' \<and> isl (storage_Get [''s''] ''a/b'' demo_store) \<and>
   store_ok [''s''] demo_store \<and> storage_Get [''s''] ''b'' (snd (storage_Delete [''s''] ''b'' demo_store)) = Inr None"
proof -
  have "\<not> validChatID ''a/b''" "validChatID ''b''" by code_simp+
  with chat_ids_and_deletion [of "''a/b''" "[''s'']" demo_store] chat_ids_and_deletion [of "''b''" "[''s'']" demo_store]
    demo_store_ok show ?thesis by auto
qed

end
