(* ===== verification/Graph.thy ===== *)
theory Graph
  imports Prelude
begin

text \<open>
  The graph runner of \<^verbatim>\<open>pkg/graph\<close>: nodes (\<^verbatim>\<open>node.go\<close>), the topology as conditional edges
  (\<^verbatim>\<open>definition.go\<close>) and the work-queue loop with step limit and retries (\<^verbatim>\<open>runner.go\<close>).

  \<open>'n\<close> is the type of node pointers, \<open>nodes\<close> the heap that maps a pointer to its node, \<open>'a\<close> the
  non-nil dynamic values a node may pass on (\<open>any\<close> is \<open>'a option\<close>, nil is \<open>None\<close>), \<open>'w\<close> the world
  node functions act on, and \<open>ctx w\<close> is \<open>ctx.Err()\<close> in world \<open>w\<close>: cancellation becomes visible
  when a node's execution (an LLM call, a tool) changes the world.
\<close>

section \<open>Nodes and definitions\<close>

record ('a, 'w) Node =
  nd_Name :: string
  nd_exec :: "'a option \<Rightarrow> 'w \<Rightarrow> 'a option result \<times> 'w"

text \<open>
  \<open>NewNode[I, O]\<close>: \<open>cast\<close> is the type assertion \<open>in.(I)\<close>, which falls back to the zero value,
  \<open>box\<close> the conversion of the output to \<open>any\<close>.
\<close>

definition NewNode ::
  "string \<Rightarrow> ('a \<Rightarrow> 'i option) \<Rightarrow> 'i \<Rightarrow> ('o \<Rightarrow> 'a) \<Rightarrow> ('i \<Rightarrow> 'w \<Rightarrow> 'o result \<times> 'w) \<Rightarrow> ('a, 'w) Node"
where
  "NewNode name cast zero box fn =
     \<lparr>nd_Name = name,
      nd_exec = (\<lambda>inp w.
        let typed = (case inp of None \<Rightarrow> zero | Some v \<Rightarrow> (case cast v of Some t \<Rightarrow> t | None \<Rightarrow> zero))
        in case fn typed w of
             (Inl e, w') \<Rightarrow> (Inl e, w')
           | (Inr out, w') \<Rightarrow> (Inr (Some (box out)), w'))\<rparr>"

definition Node_Execute :: "('a, 'w) Node \<Rightarrow> 'a option \<Rightarrow> 'w \<Rightarrow> 'a option result \<times> 'w" where
  "Node_Execute n inp w = nd_exec n inp w"

record ('n, 'a) conditionalEdge =
  ce_cond :: "('a option \<Rightarrow> bool) option"
  ce_to :: 'n

type_synonym ('n, 'a) graph_def = "'n \<Rightarrow> ('n, 'a) conditionalEdge list"

definition NewDefinition :: "('n, 'a) graph_def" where
  "NewDefinition = (\<lambda>_. [])"

definition AddEdge :: "('n, 'a) graph_def \<Rightarrow> 'n \<Rightarrow> 'n \<Rightarrow> ('n, 'a) graph_def" where
  "AddEdge d src dst = d(src := d src @ [\<lparr>ce_cond = None, ce_to = dst\<rparr>])"

definition AddConditionalEdge ::
  "('n, 'a) graph_def \<Rightarrow> 'n \<Rightarrow> ('a option \<Rightarrow> bool) option \<Rightarrow> 'n \<Rightarrow> ('n, 'a) graph_def"
where
  "AddConditionalEdge d src c dst = d(src := d src @ [\<lparr>ce_cond = c, ce_to = dst\<rparr>])"

definition edge_taken :: "'a option \<Rightarrow> ('n, 'a) conditionalEdge \<Rightarrow> bool" where
  "edge_taken out e = (case ce_cond e of None \<Rightarrow> True | Some c \<Rightarrow> c out)"

definition NextNodes :: "('n, 'a) graph_def \<Rightarrow> 'n \<Rightarrow> 'a option \<Rightarrow> 'n list" where
  "NextNodes d n out = map ce_to (filter (edge_taken out) (d n))"

section \<open>The runner\<close>

record 'n RetryPolicy =
  MaxAttempts :: int
  ShouldRetry :: "(go_error \<Rightarrow> 'n \<Rightarrow> int \<Rightarrow> bool) option"

text \<open>The zero value of \<open>RetryPolicy\<close>, which \<^verbatim>\<open>cmd/souz-agent\<close> passes.\<close>

definition zero_policy :: "'n RetryPolicy" where
  "zero_policy = \<lparr>MaxAttempts = 0, ShouldRetry = None\<rparr>"

record StepInfo =
  si_Index :: int
  si_Depth :: int

record ('n, 'a) frame =
  fr_node :: 'n
  fr_input :: "'a option"
  fr_depth :: int

type_synonym ('n, 'a, 'w) onStep = "StepInfo \<Rightarrow> 'n \<Rightarrow> 'a option \<Rightarrow> 'a option \<Rightarrow> 'w \<Rightarrow> 'w"

text \<open>
  The loop of \<open>executeWithRetry\<close>: the first number is the attempts left
  (\<open>MaxAttempts - attempt + 1\<close>), the second is \<open>attempt\<close>, then \<open>lastErr\<close> (nil is \<open>None\<close>).
\<close>

fun retryLoop ::
  "('w \<Rightarrow> go_error option) \<Rightarrow> ('n \<Rightarrow> ('a, 'w) Node) \<Rightarrow> 'n \<Rightarrow> 'a option \<Rightarrow> 'n RetryPolicy \<Rightarrow>
   nat \<Rightarrow> int \<Rightarrow> go_error option \<Rightarrow> 'w \<Rightarrow> 'a option result \<times> 'w"
where
  "retryLoop ctx nodes n inp policy 0 attempt lastErr w =
     ((case lastErr of Some e \<Rightarrow> Inl e | None \<Rightarrow> Inr None), w)"
| "retryLoop ctx nodes n inp policy (Suc k) attempt lastErr w =
     (case ctx w of
        Some e \<Rightarrow> (Inl e, w)
      | None \<Rightarrow>
          (case Node_Execute (nodes n) inp w of
             (Inr out, w') \<Rightarrow> (Inr out, w')
           | (Inl err, w') \<Rightarrow>
               (case ShouldRetry policy of
                  None \<Rightarrow> (Inl err, w')
                | Some f \<Rightarrow>
                    if \<not> f err n attempt then (Inl err, w')
                    else retryLoop ctx nodes n inp policy k (attempt + 1) (Some err) w')))"

definition executeWithRetry ::
  "('w \<Rightarrow> go_error option) \<Rightarrow> ('n \<Rightarrow> ('a, 'w) Node) \<Rightarrow> 'n \<Rightarrow> 'a option \<Rightarrow> 'n RetryPolicy \<Rightarrow>
   'w \<Rightarrow> 'a option result \<times> 'w"
where
  "executeWithRetry ctx nodes n inp policy w =
     retryLoop ctx nodes n inp policy (nat (MaxAttempts policy)) 1 None w"

definition max_steps_error :: "int \<Rightarrow> go_error" where
  "max_steps_error limit = Wrap [] ErrMaxSteps ('' (limit='' @ Itoa limit @ '')'')"

definition node_error :: "('a, 'w) Node \<Rightarrow> go_error \<Rightarrow> go_error" where
  "node_error nd e = Wrap (''graph node '' @ quote (nd_Name nd) @ '': '') e []"

definition call_onStep ::
  "('n, 'a, 'w) onStep option \<Rightarrow> StepInfo \<Rightarrow> 'n \<Rightarrow> 'a option \<Rightarrow> 'a option \<Rightarrow> 'w \<Rightarrow> 'w"
where
  "call_onStep f info n inp out w = (case f of None \<Rightarrow> w | Some g \<Rightarrow> g info n inp out w)"

text \<open>The loop of \<open>Run\<close> after the defaults are applied; \<open>step\<close> counts the finished steps.\<close>

function runLoop ::
  "('w \<Rightarrow> go_error option) \<Rightarrow> ('n \<Rightarrow> ('a, 'w) Node) \<Rightarrow> ('n, 'a) graph_def \<Rightarrow> int \<Rightarrow>
   'n RetryPolicy \<Rightarrow> ('n, 'a, 'w) onStep option \<Rightarrow> ('n, 'a) frame list \<Rightarrow> 'a option \<Rightarrow> int \<Rightarrow> 'w \<Rightarrow>
   ('a option \<times> go_error option) \<times> 'w"
where
  "runLoop ctx nodes d limit policy onStep [] lastOut step w = ((lastOut, None), w)"
| "runLoop ctx nodes d limit policy onStep (f # queue) lastOut step w =
     (case ctx w of
        Some e \<Rightarrow> ((lastOut, Some e), w)
      | None \<Rightarrow>
          if step \<ge> limit then ((lastOut, Some (max_steps_error limit)), w)
          else
            (case executeWithRetry ctx nodes (fr_node f) (fr_input f) policy w of
               (Inl e, w') \<Rightarrow> ((lastOut, Some (node_error (nodes (fr_node f)) e)), w')
             | (Inr out, w') \<Rightarrow>
                 runLoop ctx nodes d limit policy onStep
                   (queue @ map (\<lambda>n. \<lparr>fr_node = n, fr_input = out, fr_depth = fr_depth f + 1\<rparr>)
                              (NextNodes d (fr_node f) out))
                   out (step + 1)
                   (call_onStep onStep \<lparr>si_Index = step + 1, si_Depth = fr_depth f\<rparr>
                      (fr_node f) (fr_input f) out w')))"
  by pat_completeness auto
termination
  by (relation "measure (\<lambda>(ctx, nodes, d, limit, policy, onStep, queue, lastOut, step, w). nat (limit - step))")
    auto

definition default_limit :: "int \<Rightarrow> int" where
  "default_limit stepLimit = (if stepLimit \<le> 0 then 64 else stepLimit)"

definition default_policy :: "'n RetryPolicy \<Rightarrow> 'n RetryPolicy" where
  "default_policy policy =
     (if MaxAttempts policy \<le> 0 then policy\<lparr>MaxAttempts := 1\<rparr> else policy)"

definition Run ::
  "('w \<Rightarrow> go_error option) \<Rightarrow> ('n \<Rightarrow> ('a, 'w) Node) \<Rightarrow> 'n \<Rightarrow> 'a option \<Rightarrow> ('n, 'a) graph_def \<Rightarrow> int \<Rightarrow>
   'n RetryPolicy \<Rightarrow> ('n, 'a, 'w) onStep option \<Rightarrow> 'w \<Rightarrow> ('a option \<times> go_error option) \<times> 'w"
where
  "Run ctx nodes start seed d stepLimit policy onStep w =
     runLoop ctx nodes d (default_limit stepLimit) (default_policy policy) onStep
       [\<lparr>fr_node = start, fr_input = seed, fr_depth = 0\<rparr>] None 0 w"

declare runLoop.simps(2) [simp del]

section \<open>The run as a sequence of steps\<close>

text \<open>
  The abstract machine the loop implements: a configuration is the queue, the last output, the
  number of finished steps and the world; one step takes the frame at the head of the queue,
  executes its node, and appends the successors. It knows no step limit and has no step where the
  context is done or the node fails.
\<close>

type_synonym ('n, 'a, 'w) config = "('n, 'a) frame list \<times> 'a option \<times> int \<times> 'w"

inductive graph_step ::
  "('w \<Rightarrow> go_error option) \<Rightarrow> ('n \<Rightarrow> ('a, 'w) Node) \<Rightarrow> ('n, 'a) graph_def \<Rightarrow> 'n RetryPolicy \<Rightarrow>
   ('n, 'a, 'w) onStep option \<Rightarrow> ('n, 'a, 'w) config \<Rightarrow> ('n, 'a, 'w) config \<Rightarrow> bool"
  for ctx nodes d policy onStep
where
  exec_node:
    "ctx w = None \<Longrightarrow>
     executeWithRetry ctx nodes (fr_node f) (fr_input f) policy w = (Inr out, w') \<Longrightarrow>
     graph_step ctx nodes d policy onStep (f # queue, lastOut, step, w)
       (queue @ map (\<lambda>n. \<lparr>fr_node = n, fr_input = out, fr_depth = fr_depth f + 1\<rparr>)
                  (NextNodes d (fr_node f) out),
        out, step + 1,
        call_onStep onStep \<lparr>si_Index = step + 1, si_Depth = fr_depth f\<rparr> (fr_node f) (fr_input f) out w')"

inductive_cases graph_stepE [elim!]:
  "graph_step ctx nodes d policy onStep (f # queue, lastOut, step, w) c"
inductive_simps graph_step_Nil [simp]:
  "graph_step ctx nodes d policy onStep ([], lastOut, step, w) c"

lemma graph_step_det:
  "graph_step ctx nodes d policy onStep c c1 \<Longrightarrow> graph_step ctx nodes d policy onStep c c2 \<Longrightarrow> c1 = c2"
  by (auto elim!: graph_step.cases)

lemma runLoop_sound:
  "runLoop ctx nodes d limit policy onStep queue lastOut step w = ((out, None), w') \<Longrightarrow>
   \<exists>k. (graph_step ctx nodes d policy onStep ^^ k) (queue, lastOut, step, w) ([], out, step + int k, w')
       \<and> (k = 0 \<or> step + int k \<le> limit)"
proof (induction ctx nodes d limit policy onStep queue lastOut step w rule: runLoop.induct)
  case (1 ctx nodes d limit policy onStep lastOut step w)
  then show ?case by (intro exI [of _ 0]) auto
next
  case (2 ctx nodes d limit policy onStep f queue lastOut step w)
  from "2.prems" obtain o1 w1 where ok: "ctx w = None" "\<not> limit \<le> step"
      "executeWithRetry ctx nodes (fr_node f) (fr_input f) policy w = (Inr o1, w1)"
    by (subst (asm) runLoop.simps)
      (auto split: option.splits if_splits prod.splits sum.splits)
  let ?q = "queue @ map (\<lambda>n. \<lparr>fr_node = n, fr_input = o1, fr_depth = fr_depth f + 1\<rparr>)
      (NextNodes d (fr_node f) o1)"
  let ?w = "call_onStep onStep \<lparr>si_Index = step + 1, si_Depth = fr_depth f\<rparr> (fr_node f) (fr_input f) o1 w1"
  from "2.prems" ok have "runLoop ctx nodes d limit policy onStep ?q o1 (step + 1) ?w = ((out, None), w')"
    by (simp add: runLoop.simps(2))
  from "2.IH" [OF ok(1,2) ok(3) [symmetric] refl this] obtain k where
    k: "(graph_step ctx nodes d policy onStep ^^ k) (?q, o1, step + 1, ?w) ([], out, step + 1 + int k, w')"
      "k = 0 \<or> step + 1 + int k \<le> limit"
    by blast
  have "graph_step ctx nodes d policy onStep (f # queue, lastOut, step, w) (?q, o1, step + 1, ?w)"
    using ok by (auto intro: graph_step.intros)
  from relpowp_Suc_I2 [where P = "graph_step ctx nodes d policy onStep", OF this k(1)] k(2) ok(2)
  show ?case by (intro exI [of _ "Suc k"]) (auto simp: add.assoc)
qed

lemma runLoop_complete:
  "(graph_step ctx nodes d policy onStep ^^ k) (queue, lastOut, step, w) ([], out, s', w') \<Longrightarrow>
   k = 0 \<or> step + int k \<le> limit \<Longrightarrow>
   runLoop ctx nodes d limit policy onStep queue lastOut step w = ((out, None), w')"
proof (induction k arbitrary: queue lastOut step w)
  case (Suc k)
  from Suc.prems(1) obtain c where
    c: "graph_step ctx nodes d policy onStep (queue, lastOut, step, w) c"
       "(graph_step ctx nodes d policy onStep ^^ k) c ([], out, s', w')"
    by (blast elim: relpowp_Suc_E2)
  from c(1) obtain f q o1 w1 where f: "queue = f # q" "ctx w = None"
      "executeWithRetry ctx nodes (fr_node f) (fr_input f) policy w = (Inr o1, w1)"
      "c = (q @ map (\<lambda>n. \<lparr>fr_node = n, fr_input = o1, fr_depth = fr_depth f + 1\<rparr>)
                  (NextNodes d (fr_node f) o1), o1, step + 1,
           call_onStep onStep \<lparr>si_Index = step + 1, si_Depth = fr_depth f\<rparr> (fr_node f) (fr_input f) o1 w1)"
    by (cases rule: graph_step.cases) auto
  from Suc.IH [OF c(2) [unfolded f(4)]] Suc.prems(2) f show ?case
    by (simp add: runLoop.simps(2) add.assoc)
qed auto

lemmas run_loop_refines = runLoop_sound runLoop_complete

section \<open>Counting executions\<close>

text \<open>
  An observer beside the world: \<open>counted nodes\<close> are the same nodes on worlds \<open>(w, c)\<close>, each
  execution adding one to \<open>c\<close>.
\<close>

definition on_fst :: "('w \<Rightarrow> 'e) \<Rightarrow> 'w \<times> 'x \<Rightarrow> 'e" where
  "on_fst ctx w = ctx (fst w)"

lemma on_fst_Pair [simp]: "on_fst ctx (w, x) = ctx w"
  by (simp add: on_fst_def)

definition counted :: "('n \<Rightarrow> ('a, 'w) Node) \<Rightarrow> 'n \<Rightarrow> ('a, 'w \<times> nat) Node" where
  "counted nodes n =
     \<lparr>nd_Name = nd_Name (nodes n),
      nd_exec = (\<lambda>inp (w, c). (case Node_Execute (nodes n) inp w of (r, w') \<Rightarrow> (r, (w', c + 1))))\<rparr>"

definition beside :: "('n, 'a, 'w) onStep option \<Rightarrow> ('n, 'a, 'w \<times> 'x) onStep option" where
  "beside f = map_option (\<lambda>g info n inp out (w, x). (g info n inp out w, x)) f"

lemma call_onStep_beside [simp]:
  "call_onStep (beside f) info n inp out (w, x) = (call_onStep f info n inp out w, x)"
  by (simp add: call_onStep_def beside_def split: option.splits)

lemma Node_Execute_counted [simp]:
  "Node_Execute (counted nodes n) inp (w, c) =
     (case Node_Execute (nodes n) inp w of (r, w') \<Rightarrow> (r, (w', Suc c)))"
  by (simp add: counted_def Node_Execute_def)

lemma retryLoop_counted:
  "retryLoop ctx nodes n inp policy k a le w = (r, w') \<Longrightarrow>
   \<exists>c' \<le> c + k. retryLoop (on_fst ctx) (counted nodes) n inp policy k a le (w, c) = (r, (w', c'))"
proof (induction k arbitrary: a le w c)
  case (Suc k)
  show ?case
  proof (cases "ctx w")
    case None
    obtain r1 w1 where e: "Node_Execute (nodes n) inp w = (r1, w1)" by force
    show ?thesis
    proof (cases r1)
      case (Inl err)
      show ?thesis
      proof (cases "\<exists>f. ShouldRetry policy = Some f \<and> f err n a")
        case True
        then obtain f where f: "ShouldRetry policy = Some f" "f err n a" by blast
        with Suc.prems None e Inl
        have "retryLoop ctx nodes n inp policy k (a + 1) (Some err) w1 = (r, w')" by simp
        from Suc.IH [OF this, of "Suc c"] obtain c' where "c' \<le> Suc c + k"
          "retryLoop (on_fst ctx) (counted nodes) n inp policy k (a + 1) (Some err) (w1, Suc c) = (r, (w', c'))"
          by blast
        with None e Inl f show ?thesis
          by (intro exI [of _ c']) simp
      next
        case False
        with Suc.prems None e Inl show ?thesis
          by (intro exI [of _ "Suc c"]) (auto split: option.splits)
      qed
    next
      case (Inr out)
      with Suc.prems None e show ?thesis
        by (intro exI [of _ "Suc c"]) auto
    qed
  qed (use Suc.prems in auto)
qed auto

lemma executeWithRetry_counted:
  assumes "executeWithRetry ctx nodes n inp policy w = (r, w')"
  obtains c' where "c' \<le> c + nat (MaxAttempts policy)"
    "executeWithRetry (on_fst ctx) (counted nodes) n inp policy (w, c) = (r, (w', c'))"
  using retryLoop_counted [OF assms [unfolded executeWithRetry_def], of c]
  unfolding executeWithRetry_def by blast

lemma counted_Name [simp]: "nd_Name (counted nodes n) = nd_Name (nodes n)"
  by (simp add: counted_def)

lemma node_error_counted [simp]: "node_error (counted nodes n) e = node_error (nodes n) e"
  by (simp add: node_error_def)

lemma runLoop_counted:
  "runLoop ctx nodes d limit policy onStep queue lastOut step w = (r, w') \<Longrightarrow>
   \<exists>c' \<le> c + nat (limit - step) * nat (MaxAttempts policy).
     runLoop (on_fst ctx) (counted nodes) d limit policy (beside onStep) queue lastOut step (w, c) = (r, (w', c'))"
proof (induction ctx nodes d limit policy onStep queue lastOut step w arbitrary: c rule: runLoop.induct)
  case (2 ctx nodes d limit policy onStep f queue lastOut step w)
  show ?case
  proof (cases "ctx w = None \<and> \<not> limit \<le> step")
    case True
    let ?m = "nat (MaxAttempts policy)"
    obtain r1 w1 where e: "executeWithRetry ctx nodes (fr_node f) (fr_input f) policy w = (r1, w1)"
      by force
    then obtain c1 where c1: "c1 \<le> c + ?m"
      "executeWithRetry (on_fst ctx) (counted nodes) (fr_node f) (fr_input f) policy (w, c) = (r1, (w1, c1))"
      by (rule executeWithRetry_counted)
    from True have "nat (limit - step) = Suc (nat (limit - (step + 1)))"
      by arith
    then have budget: "nat (limit - step) * ?m = ?m + nat (limit - (step + 1)) * ?m"
      by simp
    show ?thesis
    proof (cases r1)
      case (Inl err)
      with "2.prems" True e c1 budget show ?thesis
        by (intro exI [of _ c1]) (simp add: runLoop.simps(2))
    next
      case (Inr out)
      with "2.prems" True e have
        "runLoop ctx nodes d limit policy onStep
           (queue @ map (\<lambda>n. \<lparr>fr_node = n, fr_input = out, fr_depth = fr_depth f + 1\<rparr>)
              (NextNodes d (fr_node f) out)) out (step + 1)
           (call_onStep onStep \<lparr>si_Index = step + 1, si_Depth = fr_depth f\<rparr> (fr_node f) (fr_input f) out w1)
         = (r, w')"
        by (simp add: runLoop.simps(2))
      from "2.IH" [OF _ _ e [symmetric] Inr this, of c1] True c1 Inr budget show ?thesis
        by (auto simp: runLoop.simps(2) intro: order_trans)
    qed
  next
    case False
    with "2.prems" show ?thesis
      by (intro exI [of _ c]) (auto simp: runLoop.simps(2) split: option.splits)
  qed
qed auto

section \<open>Breadth-first order\<close>

text \<open>
  A second observer: the same nodes beside a log, and the \<open>onStep\<close> callback that appends every
  \<open>StepInfo\<close> it is given. The queue is in breadth-first order: depths do not decrease and span at
  most two levels.
\<close>

definition logged :: "('n \<Rightarrow> ('a, 'w) Node) \<Rightarrow> 'n \<Rightarrow> ('a, 'w \<times> 'l) Node" where
  "logged nodes n =
     \<lparr>nd_Name = nd_Name (nodes n),
      nd_exec = (\<lambda>inp (w, l). (case Node_Execute (nodes n) inp w of (r, w') \<Rightarrow> (r, (w', l))))\<rparr>"

definition log_step :: "('n, 'a, 'w \<times> StepInfo list) onStep" where
  "log_step info n inp out wl = (case wl of (w, l) \<Rightarrow> (w, l @ [info]))"

definition bfs_queue :: "('n, 'a) frame list \<Rightarrow> bool" where
  "bfs_queue q \<longleftrightarrow> sorted (map fr_depth q) \<and> (\<forall>f \<in> set q. fr_depth f \<le> fr_depth (hd q) + 1)"

definition bfs_log :: "StepInfo list \<Rightarrow> int \<Rightarrow> bool" where
  "bfs_log l step \<longleftrightarrow> map si_Index l = [1..step] \<and> sorted (map si_Depth l)"

lemma bfs_queue_step:
  "bfs_queue (f # q) \<Longrightarrow>
   bfs_queue (q @ map (\<lambda>n. \<lparr>fr_node = n, fr_input = out, fr_depth = fr_depth f + 1\<rparr>) ns)"
  by (cases q; cases ns) (auto simp: bfs_queue_def sorted_append comp_def map_replicate_const)

lemma retryLoop_logged:
  "retryLoop (on_fst ctx) (logged nodes) n inp policy k a le (w, l) = (r, (w', l')) \<Longrightarrow> l' = l"
proof (induction k arbitrary: a le w)
  case (Suc k)
  then show ?case
    by (auto simp: logged_def Node_Execute_def split: option.splits prod.splits sum.splits if_splits)
qed auto

lemma runLoop_bfs_log:
  "runLoop (on_fst ctx) (logged nodes) d limit policy (Some log_step) queue lastOut step (w, l) = (r, (w', l')) \<Longrightarrow>
   bfs_queue queue \<Longrightarrow> bfs_log l step \<Longrightarrow> 0 \<le> step \<Longrightarrow>
   (\<forall>f \<in> set queue. \<forall>i \<in> set l. si_Depth i \<le> fr_depth f) \<Longrightarrow>
   bfs_log l' (int (length l'))"
proof (induction "nat (limit - step)" arbitrary: queue lastOut step w l rule: less_induct)
  case less
  have len: "length l = nat step"
    using less.prems(3) by (auto simp: bfs_log_def dest: arg_cong [where f = length])
  show ?case
  proof (cases "queue \<noteq> [] \<and> ctx w = None \<and> \<not> limit \<le> step")
    case True
    then obtain f q where q: "queue = f # q" by (cases queue) auto
    obtain r1 w1 l1 where e:
      "executeWithRetry (on_fst ctx) (logged nodes) (fr_node f) (fr_input f) policy (w, l) = (r1, (w1, l1))"
      by (metis prod.exhaust)
    then have l1: "l1 = l" unfolding executeWithRetry_def by (rule retryLoop_logged)
    show ?thesis
    proof (cases r1)
      case (Inl err)
      with less.prems q True e l1 len show ?thesis by (simp add: runLoop.simps(2))
    next
      case (Inr out)
      let ?i = "\<lparr>si_Index = step + 1, si_Depth = fr_depth f\<rparr>"
      let ?q = "q @ map (\<lambda>n. \<lparr>fr_node = n, fr_input = out, fr_depth = fr_depth f + 1\<rparr>)
        (NextNodes d (fr_node f) out)"
      have cs: "call_onStep (Some log_step) ?i (fr_node f) (fr_input f) out (w1, l1) = (w1, l @ [?i])"
        by (simp add: call_onStep_def log_step_def l1)
      from less.prems(1) q True e Inr cs have
        run: "runLoop (on_fst ctx) (logged nodes) d limit policy (Some log_step) ?q out (step + 1) (w1, l @ [?i])
          = (r, (w', l'))"
        by (simp add: runLoop.simps(2))
      have "bfs_log (l @ [?i]) (step + 1)"
        using less.prems(3-5) q by (auto simp: bfs_log_def sorted_append upto_rec2)
      moreover have "bfs_queue ?q" using less.prems(2) q by (simp add: bfs_queue_step)
      moreover have "\<forall>g \<in> set ?q. \<forall>i \<in> set (l @ [?i]). si_Depth i \<le> fr_depth g"
        using less.prems(2,5) q by (fastforce simp: bfs_queue_def)
      ultimately show ?thesis
        using less.hyps [of "step + 1" ?q out w1 "l @ [?i]"] True run less.prems(4) by simp
    qed
  next
    case False
    with less.prems len show ?thesis
      by (cases queue) (auto simp: runLoop.simps(2) split: option.splits if_splits)
  qed
qed

section \<open>Properties of the runner\<close>

text \<open>
  C25: a run returns without an error exactly when the abstract machine empties its queue within the
  step limit, and then with the machine's last output and world.
\<close>

theorem Run_refines_steps:
  "Run ctx nodes start seed d L policy onStep w = ((out, None), w') \<longleftrightarrow>
   (\<exists>k. int k \<le> default_limit L \<and>
      (graph_step ctx nodes d (default_policy policy) onStep ^^ k)
        ([\<lparr>fr_node = start, fr_input = seed, fr_depth = 0\<rparr>], None, 0, w) ([], out, int k, w'))"
  (is "?run \<longleftrightarrow> (\<exists>k. ?steps k)")
proof
  assume ?run
  from runLoop_sound [OF this [unfolded Run_def]] show "\<exists>k. ?steps k"
    by (fastforce simp: default_limit_def)
next
  assume "\<exists>k. ?steps k"
  then obtain k where "?steps k" by blast
  then show ?run unfolding Run_def by (intro runLoop_complete [where k = k]) auto
qed

text \<open>
  C26: a run executes nodes at most (step limit) times (attempts per step) times, counting every
  attempt of every node; the observer that counts does not change the run.
\<close>

theorem Run_executions_bounded:
  "\<exists>c \<le> nat (default_limit L) * nat (MaxAttempts (default_policy policy)).
     Run (on_fst ctx) (counted nodes) start seed d L policy (beside onStep) (w, 0) =
       (case Run ctx nodes start seed d L policy onStep w of (r, w') \<Rightarrow> (r, (w', c)))"
proof -
  obtain r w' where r: "Run ctx nodes start seed d L policy onStep w = (r, w')" by (metis surj_pair)
  from runLoop_counted [OF this [unfolded Run_def], of 0] r show ?thesis
    by (auto simp: Run_def)
qed

text \<open>
  the steps a run reports to \<open>onStep\<close> are numbered from 1 without a gap, and their depths never
  decrease: the graph is walked breadth first.
\<close>

theorem Run_reports_breadth_first:
  "case Run (on_fst ctx) (logged nodes) start seed d L policy (Some log_step) (w, []) of
     (r, (w', l)) \<Rightarrow> map si_Index l = [1..int (length l)] \<and> sorted (map si_Depth l)"
proof -
  obtain r w' l where r: "Run (on_fst ctx) (logged nodes) start seed d L policy (Some log_step) (w, []) = (r, (w', l))"
    by (metis prod.exhaust)
  from runLoop_bfs_log [OF this [unfolded Run_def]] r show ?thesis
    by (simp add: bfs_queue_def bfs_log_def)
qed

end
