(* ===== verification/Agent.thy ===== *)
theory Agent
  imports Graph Providers
begin

text \<open>
  \<^verbatim>\<open>pkg/agent\<close>: the \<open>AgentContext\<close> snapshot the graph nodes pass on (\<^verbatim>\<open>context.go\<close>) and the executor
  that runs one turn (\<^verbatim>\<open>executor.go\<close>), with the hooks of \<^verbatim>\<open>pkg/hooks\<close> it calls around the turn.
\<close>

section \<open>context.go\<close>

record AgentSettings =
  st_Model :: string
  st_Temperature :: rat
  st_MaxTokens :: int
  st_ContextSize :: int

record InvocationMeta =
  im_UserID :: string
  im_ConversationID :: string
  im_RequestID :: string
  im_Locale :: string
  im_TimeZone :: string
  im_ActiveSkillIDs :: "string list"

text \<open>
  The calls of the interface \<open>EventSink\<close> as values; a sink is what a call does to the world.
\<close>

datatype event =
    EmitDelta string
  | EmitToolCall string string
  | EmitToolResult string string bool
  | EmitError string string
  | Done

type_synonym 'w EventSink = "event \<Rightarrow> 'w \<Rightarrow> 'w"

definition NoopEventSink :: "'w EventSink" where
  "NoopEventSink e w = w"

record 'w AgentContext =
  ac_Input :: string
  ac_History :: "Message list"
  ac_ActiveTools :: "ToolDefinition list"
  ac_SystemPrompt :: string
  ac_Settings :: AgentSettings
  ac_InvocationMeta :: InvocationMeta
  ac_EventSink :: "'w EventSink option"

definition zero_Meta :: InvocationMeta where
  "zero_Meta =
     \<lparr>im_UserID = [], im_ConversationID = [], im_RequestID = [], im_Locale = [], im_TimeZone = [],
      im_ActiveSkillIDs = []\<rparr>"

definition zero_Settings :: AgentSettings where
  "zero_Settings = \<lparr>st_Model = [], st_Temperature = 0, st_MaxTokens = 0, st_ContextSize = 0\<rparr>"

definition zero_AgentContext :: "'w AgentContext" where
  "zero_AgentContext =
     \<lparr>ac_Input = [], ac_History = [], ac_ActiveTools = [], ac_SystemPrompt = [],
      ac_Settings = zero_Settings, ac_InvocationMeta = zero_Meta, ac_EventSink = None\<rparr>"

definition WithHistory :: "'w AgentContext \<Rightarrow> Message list \<Rightarrow> 'w AgentContext" where
  "WithHistory ctx msgs = ctx\<lparr>ac_History := ac_History ctx @ msgs\<rparr>"

definition WithTools :: "'w AgentContext \<Rightarrow> ToolDefinition list \<Rightarrow> 'w AgentContext" where
  "WithTools ctx ts = ctx\<lparr>ac_ActiveTools := ts\<rparr>"

definition WithSystemPrompt :: "'w AgentContext \<Rightarrow> string \<Rightarrow> 'w AgentContext" where
  "WithSystemPrompt ctx p = ctx\<lparr>ac_SystemPrompt := p\<rparr>"

text \<open>\<open>sink := in.EventSink; if sink == nil { sink = NoopEventSink{} }\<close>.\<close>

definition sink_of :: "'w AgentContext \<Rightarrow> 'w EventSink" where
  "sink_of ctx = (case ac_EventSink ctx of None \<Rightarrow> NoopEventSink | Some s \<Rightarrow> s)"

section \<open>hooks.go\<close>

record hooks_Config =
  TurnStartScript :: string
  TurnEndScript :: string

text \<open>
  \<open>Hooks.run\<close> starts the script in a goroutine of its own and only logs its failure, so its effect
  on the caller is the launch: \<open>launch script\<close> on the world. \<open>StartTurn\<close> returns the world and the
  \<open>end\<close> function, which carries the state of its \<open>sync.Once\<close>: whether it has run.
\<close>

definition hooks_run :: "(string \<Rightarrow> 'w \<Rightarrow> 'w) \<Rightarrow> string \<Rightarrow> 'w \<Rightarrow> 'w" where
  "hooks_run launch script w = (if script = [] then w else launch script w)"

definition StartTurn ::
  "(string \<Rightarrow> 'w \<Rightarrow> 'w) \<Rightarrow> hooks_Config \<Rightarrow> 'w \<Rightarrow> 'w \<times> (bool \<Rightarrow> 'w \<Rightarrow> bool \<times> 'w)"
where
  "StartTurn launch cfg w =
     (hooks_run launch (TurnStartScript cfg) w,
      (\<lambda>ran w. if ran then (True, w) else (True, hooks_run launch (TurnEndScript cfg) w)))"

section \<open>executor.go\<close>

record 'w TurnResult =
  tr_Output :: string
  tr_Context :: "'w AgentContext"

text \<open>The two backward scans of \<open>lastAssistantText\<close>.\<close>

definition lastAssistantText :: "Message list \<Rightarrow> string" where
  "lastAssistantText history =
     (case find (\<lambda>m. m_Role m = RoleAssistant \<and> m_Content m \<noteq> []) (rev history) of
        Some m \<Rightarrow> m_Content m
      | None \<Rightarrow>
          (case find (\<lambda>m. m_Role m = RoleAssistant) (rev history) of
             Some m \<Rightarrow> m_Content m
           | None \<Rightarrow> []))"

record ('n, 'w) Executor =
  ex_nodes :: "'n \<Rightarrow> ('w AgentContext, 'w) Node"
  ex_def :: "('n, 'w AgentContext) graph_def"
  ex_start :: 'n
  ex_policy :: "'n RetryPolicy"
  ex_stepLimit :: int
  ex_turnHooks :: "hooks_Config option"

text \<open>
  \<open>Execute\<close>: the end hook is deferred, so it runs on both returns. In a run that succeeds the last
  output is an \<open>AgentContext\<close>; when there is none (\<open>None\<close>, a nil \<open>any\<close>) the code falls back to the seed.
\<close>

definition Execute ::
  "('w \<Rightarrow> go_error option) \<Rightarrow> (string \<Rightarrow> 'w \<Rightarrow> 'w) \<Rightarrow> ('n, 'w) Executor \<Rightarrow> 'w AgentContext \<Rightarrow> 'w \<Rightarrow>
   'w TurnResult result \<times> 'w"
where
  "Execute ctx launch e seed w =
     (let (w1, done) = (case ex_turnHooks e of
                          None \<Rightarrow> (w, (\<lambda>w. w))
                        | Some cfg \<Rightarrow> (case StartTurn launch cfg w of (w1, end_fn) \<Rightarrow> (w1, \<lambda>w. snd (end_fn False w))));
          (r, w2) = Run ctx (ex_nodes e) (ex_start e) (Some seed) (ex_def e) (ex_stepLimit e) (ex_policy e) None w1
      in case r of
           (_, Some err) \<Rightarrow> (Inl (Wrap ''agent turn: '' err []), done w2)
         | (out, None) \<Rightarrow>
             (let ac = (case out of None \<Rightarrow> seed | Some ac \<Rightarrow> ac)
              in (Inr \<lparr>tr_Output = lastAssistantText (ac_History ac), tr_Context = ac\<rparr>, done w2)))"

section \<open>Facts on the last assistant text\<close>

lemma lastAssistantText_snoc:
  "m_Role m = RoleAssistant \<Longrightarrow> m_Content m \<noteq> [] \<Longrightarrow> lastAssistantText (h @ [m]) = m_Content m"
  by (simp add: lastAssistantText_def)

lemma lastAssistantText_skip:
  "m_Role m \<noteq> RoleAssistant \<Longrightarrow> lastAssistantText (h @ [m]) = lastAssistantText h"
  by (simp add: lastAssistantText_def cong: option.case_cong)

lemma find_rev_None: "find P (rev xs) = None \<longleftrightarrow> (\<forall>x \<in> set xs. \<not> P x)"
  by (auto simp: find_None_iff)

lemma lastAssistantText_spec:
  "(\<exists>m \<in> set h. m_Role m = RoleAssistant \<and> m_Content m \<noteq> []) \<Longrightarrow>
   lastAssistantText h \<noteq> [] \<and>
   (\<exists>a m b. h = a @ m # b \<and> m_Role m = RoleAssistant \<and> lastAssistantText h = m_Content m \<and>
      (\<forall>x \<in> set b. m_Role x = RoleAssistant \<longrightarrow> m_Content x = []))"
proof (induction h rule: rev_induct)
  case (snoc x h)
  show ?case
  proof (cases "m_Role x = RoleAssistant \<and> m_Content x \<noteq> []")
    case True
    then show ?thesis
      by (auto simp: lastAssistantText_snoc intro: exI [of _ h])
  next
    case False
    with snoc.prems have ex: "\<exists>m \<in> set h. m_Role m = RoleAssistant \<and> m_Content m \<noteq> []" by auto
    from ex obtain m where "find (\<lambda>m. m_Role m = RoleAssistant \<and> m_Content m \<noteq> []) (rev h) = Some m"
      by (metis (mono_tags, lifting) find_rev_None not_Some_eq)
    with False have eq: "lastAssistantText (h @ [x]) = lastAssistantText h"
      by (auto simp: lastAssistantText_def)
    from snoc.IH [OF ex] obtain a m b where
      "lastAssistantText h \<noteq> []" "h = a @ m # b" "m_Role m = RoleAssistant"
      "lastAssistantText h = m_Content m" "\<forall>x \<in> set b. m_Role x = RoleAssistant \<longrightarrow> m_Content x = []"
      by blast
    with False eq have "lastAssistantText (h @ [x]) \<noteq> []" "h @ [x] = a @ m # (b @ [x])"
      "m_Role m = RoleAssistant" "lastAssistantText (h @ [x]) = m_Content m"
      "\<forall>y \<in> set (b @ [x]). m_Role y = RoleAssistant \<longrightarrow> m_Content y = []"
      by auto
    then show ?thesis by blast
  qed
qed simp

section \<open>Properties\<close>

text \<open>
  When the history has an assistant message with text, the turn's output is the text of the last
  such message: every assistant message after it is empty.
\<close>

theorem output_is_last_text:
  "(\<exists>m \<in> set h. m_Role m = RoleAssistant \<and> m_Content m \<noteq> []) \<Longrightarrow>
   \<exists>a m b. h = a @ m # b \<and> m_Role m = RoleAssistant \<and> m_Content m \<noteq> [] \<and> lastAssistantText h = m_Content m \<and>
      (\<forall>x \<in> set b. m_Role x = RoleAssistant \<longrightarrow> m_Content x = [])"
  using lastAssistantText_spec [of h] by metis

theorem output_is_last_text_witness:
  "\<exists>a m b. [zero_Message\<lparr>m_Role := RoleAssistant, m_Content := ''hi''\<rparr>, zero_Message\<lparr>m_Role := RoleAssistant\<rparr>] =
      a @ m # b \<and> m_Role m = RoleAssistant \<and> m_Content m \<noteq> [] \<and>
      lastAssistantText [zero_Message\<lparr>m_Role := RoleAssistant, m_Content := ''hi''\<rparr>,
        zero_Message\<lparr>m_Role := RoleAssistant\<rparr>] = m_Content m \<and>
      (\<forall>x \<in> set b. m_Role x = RoleAssistant \<longrightarrow> m_Content x = [])"
  by (rule output_is_last_text) simp

end
