(* ===== verification/Session.thy ===== *)
theory Session
  imports Storage Agent "HOL-Library.Word"
begin

text \<open>
  What the two front ends of the program share, the HTTP server (\<^verbatim>\<open>pkg/http\<close>) and the inbound loop of
  \<^verbatim>\<open>cmd/souz-agent/main.go\<close>: the world their handlers run in, and the identifiers of messages, requests and
  chats. The world holds the file system, the readings of the clock, the draws of the random source and the
  faults of the file writes to come; it is extended by each front end, and by what the executor acts on.
\<close>

unbundle bit_operations_syntax

section \<open>The world\<close>

record session_world =
  sw_fs :: fs
  sw_clock :: "nat \<Rightarrow> time"
  sw_ticks :: nat
  sw_random :: "nat \<Rightarrow> 8 word list"
  sw_draws :: nat
  sw_faults :: "nat \<Rightarrow> write_fault"
  sw_saves :: nat

definition time_Now :: "'w session_world_scheme \<Rightarrow> time \<times> 'w session_world_scheme" where
  "time_Now w = (sw_clock w (sw_ticks w), w\<lparr>sw_ticks := sw_ticks w + 1\<rparr>)"

definition store_Save ::
  "path \<Rightarrow> ChatState \<Rightarrow> 'w session_world_scheme \<Rightarrow> (unit result \<times> ChatState) \<times> 'w session_world_scheme" where
  "store_Save rt cs w =
     (let (now, w1) = time_Now w;
          (r, cs', fs) = storage_Save (sw_faults w1 (sw_saves w1)) now rt cs (sw_fs w1)
      in ((r, cs'), w1\<lparr>sw_fs := fs, sw_saves := sw_saves w1 + 1\<rparr>))"

section \<open>Identifiers\<close>

definition word_hex :: "8 word \<Rightarrow> string" where
  "word_hex b = [hex_digit (unat b div 16), hex_digit (unat b mod 16)]"

definition words_hex :: "8 word list \<Rightarrow> string" where
  "words_hex bs = concat (map word_hex bs)"

text \<open>The 16 bytes drawn, with the version and the variant set.\<close>

definition uuid_bytes :: "8 word list \<Rightarrow> 8 word list" where
  "uuid_bytes b = b[6 := (b ! 6 AND 0x0f) OR 0x40, 8 := (b ! 8 AND 0x3f) OR 0x80]"

definition newID :: "8 word list \<Rightarrow> string" where
  "newID b =
     (let u = uuid_bytes b
      in words_hex (take 4 u) @ ''-'' @ words_hex (take 2 (drop 4 u)) @ ''-'' @ words_hex (take 2 (drop 6 u)) @ ''-'' @
         words_hex (take 2 (drop 8 u)) @ ''-'' @ words_hex (drop 10 u))"

definition draw_ID :: "'w session_world_scheme \<Rightarrow> string \<times> 'w session_world_scheme" where
  "draw_ID w = (newID (sw_random w (sw_draws w)), w\<lparr>sw_draws := sw_draws w + 1\<rparr>)"

subsection \<open>Their form\<close>

lemma hex_digit_id: "i < 16 \<Longrightarrow> id_char (hex_digit i)"
  using hex_digit_code [of i] by (auto simp: id_char_def Let_def)

lemma byte_halves: "unat (b :: 8 word) div 16 < 16" "unat b mod 16 < 16"
  using unsigned_less [of b, where 'a = nat] by (simp_all add: less_mult_imp_div_less)

lemma word_hex_inj: "word_hex b = word_hex c \<longleftrightarrow> b = c"
proof
  assume "word_hex b = word_hex c"
  then have "unat b div 16 = unat c div 16" "unat b mod 16 = unat c mod 16"
    by (auto simp: word_hex_def byte_halves intro: hex_digit_inj)
  then have "unat b = unat c" by (metis div_mult_mod_eq)
  then show "b = c" by (simp add: word_eq_iff_unsigned [where 'a = nat])
qed simp

lemma length_words_hex [simp]: "length (words_hex bs) = 2 * length bs"
  by (induction bs) (simp_all add: words_hex_def word_hex_def)

lemma words_hex_inj: "length bs = length cs \<Longrightarrow> words_hex bs = words_hex cs \<longleftrightarrow> bs = cs"
proof (induction bs cs rule: list_induct2)
  case (Cons b bs c cs)
  have "length (word_hex b) = length (word_hex c)" by (simp add: word_hex_def)
  then show ?case using Cons by (simp add: words_hex_def word_hex_inj)
qed simp

lemma words_hex_id: "list_all id_char (words_hex bs)"
  by (induction bs) (simp_all add: words_hex_def word_hex_def hex_digit_id byte_halves)

lemma length_uuid_bytes [simp]: "length (uuid_bytes b) = length b"
  by (simp add: uuid_bytes_def)

lemma hyphen_id: "id_char (CHR ''-'')"
  by (simp add: id_char_def)

lemma newID_id: "length b = 16 \<Longrightarrow> validChatID (newID b)"
  by (simp add: validChatID_def newID_def Let_def words_hex_id hyphen_id)

lemma newID_eq:
  assumes "length b = 16" "length c = 16"
  shows "newID b = newID c \<longleftrightarrow> uuid_bytes b = uuid_bytes c"
proof
  assume "newID b = newID c"
  then have "take 4 (uuid_bytes b) = take 4 (uuid_bytes c)" "take 2 (drop 4 (uuid_bytes b)) = take 2 (drop 4 (uuid_bytes c))"
    "take 2 (drop 6 (uuid_bytes b)) = take 2 (drop 6 (uuid_bytes c))" "take 2 (drop 8 (uuid_bytes b)) = take 2 (drop 8 (uuid_bytes c))"
    "drop 10 (uuid_bytes b) = drop 10 (uuid_bytes c)"
    using assms by (simp_all add: newID_def Let_def words_hex_inj)
  moreover have "u = take 4 u @ take 2 (drop 4 u) @ take 2 (drop 6 u) @ take 2 (drop 8 u) @ drop 10 u" for u :: "8 word list"
    using append_take_drop_id [of 4 u] append_take_drop_id [of 2 "drop 4 u"] append_take_drop_id [of 2 "drop 6 u"]
      append_take_drop_id [of 2 "drop 8 u"] by simp
  ultimately show "uuid_bytes b = uuid_bytes c" by metis
qed (simp add: newID_def)

text \<open>The two digits the standard fixes: the version, and the two upper bits of the variant.\<close>

lemma unat_high: "unat b div 16 = unat (drop_bit 4 b)" for b :: "8 word"
  using unat_drop_bit_eq [of 4 b] drop_bit_eq_div [of 4 "unat b"] by simp

lemma uuid_version: "word_hex ((x AND 0x0f) OR 0x40) ! 0 = CHR ''4''" for x :: "8 word"
proof -
  have "drop_bit 4 ((x AND 0x0f) OR 0x40) = 4" by (simp add: drop_bit_and drop_bit_or)
  moreover have "hex_digit 4 = CHR ''4''" by code_simp
  ultimately show ?thesis by (simp add: word_hex_def unat_high)
qed

lemma uuid_variant: "word_hex ((x AND 0x3f) OR 0x80) ! 0 \<in> {CHR ''8'', CHR ''9'', CHR ''a'', CHR ''b''}" for x :: "8 word"
proof -
  let ?y = "drop_bit 4 x"
  have "drop_bit 4 ((x AND 0x3f) OR 0x80) = (?y AND 3) OR 8" by (simp add: drop_bit_and drop_bit_or)
  then have hi: "unat (drop_bit 4 ((x AND 0x3f) OR 0x80)) = (unat ?y AND 3) OR 8" by (simp add: unsigned_or_eq unsigned_and_eq)
  have low: "unat ?y AND 3 = unat ?y mod 4" using take_bit_eq_mask [of 2 "unat ?y"] by (simp add: take_bit_eq_mod mask_eq_exp_minus_1)
  have hex: "hex_digit 8 = CHR ''8''" "hex_digit 9 = CHR ''9''" "hex_digit 10 = CHR ''a''" "hex_digit 11 = CHR ''b''"
    by code_simp+
  consider "unat ?y mod 4 = 0" | "unat ?y mod 4 = 1" | "unat ?y mod 4 = 2" | "unat ?y mod 4 = 3" by linarith
  then show ?thesis by cases (use hi low hex in \<open>simp_all add: word_hex_def unat_high\<close>)
qed

lemmas uuid_digits = uuid_version uuid_variant

text \<open>
  C36: An identifier is a version 4 UUID: 36 characters with hyphens after the 8th, 12th, 16th and 20th digit,
  the version digit 4, one of the four variant digits; it is a valid chat id; and two draws give the same one
  exactly when they agree on the 122 bits that are not fixed.
\<close>

theorem newID_uuid:
  assumes "length b = 16" "length c = 16"
  shows "length (newID b) = 36 \<and> map (nth (newID b)) [8, 13, 18, 23] = ''----'' \<and> newID b ! 14 = CHR ''4'' \<and>
    newID b ! 19 \<in> {CHR ''8'', CHR ''9'', CHR ''a'', CHR ''b''} \<and> validChatID (newID b) \<and>
    (newID b = newID c \<longleftrightarrow> uuid_bytes b = uuid_bytes c)"
proof -
  let ?u = "uuid_bytes b"
  have 6: "take 2 (drop 6 ?u) = [(b ! 6 AND 0x0f) OR 0x40, ?u ! 7]" and 8: "take 2 (drop 8 ?u) = [(b ! 8 AND 0x3f) OR 0x80, ?u ! 9]"
    using assms by (simp_all add: uuid_bytes_def list_eq_iff_nth_eq nth_list_update less_Suc_eq numeral_2_eq_2)
  have v: "newID b ! 14 = word_hex ((b ! 6 AND 0x0f) OR 0x40) ! 0" "newID b ! 19 = word_hex ((b ! 8 AND 0x3f) OR 0x80) ! 0"
    using assms(1) by (simp_all add: newID_def Let_def nth_append 6 8, simp_all add: words_hex_def word_hex_def)
  have "length (newID b) = 36" "map (nth (newID b)) [8, 13, 18, 23] = ''----''"
    using assms(1) by (simp_all add: newID_def Let_def nth_append)
  then show ?thesis using v uuid_digits newID_id [OF assms(1)] newID_eq [OF assms] by simp
qed

theorem newID_uuid_witness:
  "newID (replicate 16 255) = ''ffffffff-ffff-4fff-bfff-ffffffffffff'' \<and> length (newID (replicate 16 255)) = 36 \<and>
   newID (replicate 16 255) \<noteq> newID (replicate 15 255 @ [0])"
proof -
  have "newID (replicate 16 255) = ''ffffffff-ffff-4fff-bfff-ffffffffffff''" by code_simp
  moreover have "uuid_bytes (replicate 16 255) \<noteq> uuid_bytes (replicate 15 255 @ [0])" by code_simp
  ultimately show ?thesis using newID_uuid [of "replicate 16 255" "replicate 15 255 @ [0]"] by simp
qed

section \<open>A save in the world\<close>

definition world_now :: "'w session_world_scheme \<Rightarrow> time" where
  "world_now w = sw_clock w (sw_ticks w)"

lemma read_saved: "chat_ok cs \<Longrightarrow> read_state i (Some (EFile (MarshalIndent (enc_ChatState cs)))) = Inr (Some (compact_state cs))"
  using unmarshal_saved [of cs] by (simp add: read_state_def)

lemma store_Save_world:
  assumes "store_ok rt (sw_fs w)" "chat_ok (stamp (world_now w) cs)"
    and "store_Save rt cs w = ((r, cs'), w')"
  shows "store_ok rt (sw_fs w') \<and> cs' = stamp (world_now w) cs \<and>
    (\<forall>i. validChatID i \<longrightarrow> storage_Get rt i (sw_fs w') =
       (if r = Inr () \<and> i = cs_ChatID cs then Inr (Some (compact_state (stamp (world_now w) cs)))
        else storage_Get rt i (sw_fs w)))"
proof -
  let ?now = "world_now w" and ?p = "rt @ [cs_ChatID cs @ ''.json'']"
  obtain fs' where s: "storage_Save (sw_faults w (sw_saves w)) ?now rt cs (sw_fs w) = (r, cs', fs')" and fs': "sw_fs w' = fs'"
    using assms(3) by (auto simp: store_Save_def time_Now_def world_now_def Let_def split: prod.splits)
  note c = storage_Save_cases [OF assms(1,2) s]
  have cs': "cs' = stamp ?now cs" by (rule c(1))
  from c(2) show ?thesis
  proof
    assume a: "r = Inr () \<and> node fs' = (node (sw_fs w))(?p \<mapsto> EFile (MarshalIndent (enc_ChatState (stamp ?now cs))))"
    have "store_ok rt fs'" by (rule store_ok_update [OF assms(1) conjunct2 [OF a]]) blast
    then show ?thesis
      using a cs' fs' read_saved [OF assms(2)] assms(1) by (simp add: storage_Get_node)
  next
    assume a: "r \<noteq> Inr () \<and> node fs' = node (sw_fs w)"
    have "store_ok rt fs'"
      using assms(1) a is_dir_same_nodes [of "sw_fs w" rt fs'] by (auto simp: store_ok_def file_or_free_def)
    then show ?thesis using a cs' fs' assms(1) by (simp add: storage_Get_node)
  qed
qed

section \<open>A sample executor\<close>

text \<open>It answers every turn with "yes".\<close>

definition yes_message :: Message where
  "yes_message = zero_Message\<lparr>m_Role := RoleAssistant, m_Content := ''yes''\<rparr>"

definition yes_executor :: "(unit, 'w) Executor" where
  "yes_executor =
     \<lparr>ex_nodes = (\<lambda>_. \<lparr>nd_Name = ''yes'', nd_exec = (\<lambda>inp w. (Inr (map_option (\<lambda>ac. WithHistory ac [yes_message]) inp), w))\<rparr>),
      ex_def = NewDefinition, ex_start = (), ex_policy = zero_policy, ex_stepLimit = 0, ex_turnHooks = None\<rparr>"

lemma yes_Execute:
  "Execute ctx launch yes_executor seed w =
     (case ctx w of
        Some e \<Rightarrow> (Inl (Wrap ''agent turn: '' e []), w)
      | None \<Rightarrow> (Inr \<lparr>tr_Output = ''yes'', tr_Context = WithHistory seed [yes_message]\<rparr>, w))"
  by (simp add: Execute_def yes_executor_def Run_def default_limit_def default_policy_def zero_policy_def runLoop.simps
      executeWithRetry_def Node_Execute_def call_onStep_def NextNodes_def NewDefinition_def WithHistory_def yes_message_def
      lastAssistantText_def numeral_eq_Suc split: option.split)

lemma yes_ok: "message_ok yes_message" "utf8_Valid ''yes''"
proof -
  have "utf8_Valid ''yes''" "utf8_Valid RoleAssistant" "utf8_Valid []" by code_simp+
  then show "message_ok yes_message" "utf8_Valid ''yes''" by (simp_all add: message_ok_def yes_message_def zero_Message_def)
qed

end
