(* ===== verification/Sse.thy ===== *)
theory Sse
  imports Prelude
begin

text \<open>
  Server-Sent Events as the program reads and writes them. Four loops read lines with a \<open>bufio.Scanner\<close>:
  the streams of the three model providers and the event stream of an MCP server. The scanner is modelled here,
  with the writer of \<^verbatim>\<open>pkg/http/sse.go\<close>, and the contract the readers of frames share as a locale: a frame fed
  line by line is delivered once.
\<close>

section \<open>bufio.Scanner\<close>

definition cr :: string where
  "cr = [char_of (13::nat)]"

text \<open>\<open>ScanLines\<close>: what follows the last line feed is a line when it is not empty.\<close>

definition raw_lines :: "string \<Rightarrow> string list" where
  "raw_lines s = (let ps = Split s (char_of (10::nat)) in if last ps = [] then butlast ps else ps)"

text \<open>
  The lines of a body, and whether the scanner stopped at a line that does not fit into its buffer of \<open>limit\<close>
  bytes; \<open>Scanner.Err\<close> is then \<open>ErrTooLong\<close>, and the reader's error otherwise.
\<close>

definition scan_lines :: "nat \<Rightarrow> string \<Rightarrow> string list \<times> bool" where
  "scan_lines limit s =
     (let ls = raw_lines s; fit = takeWhile (\<lambda>l. length l < limit) ls
      in (map (\<lambda>l. TrimSuffix l cr) fit, length fit < length ls))"

definition scanner_Err :: "bool \<Rightarrow> go_error option \<Rightarrow> go_error option" where
  "scanner_Err too_long read_err = (if too_long then Some (Err ''bufio.Scanner: token too long'') else read_err)"

section \<open>Frames\<close>

text \<open>\<open>fmt.Fprintf(w, "event: %s\ndata: %s\n\n", ...)\<close> of \<open>handleEvents\<close>, and its three lines.\<close>

definition frame_text :: "string \<times> string \<Rightarrow> string" where
  "frame_text e = ''event: '' @ fst e @ nl @ ''data: '' @ snd e @ nl @ nl"

definition frame_lines :: "string \<times> string \<Rightarrow> string list" where
  "frame_lines e = [''event: '' @ fst e, ''data: '' @ snd e, []]"

text \<open>\<open>strings.TrimPrefix(strings.TrimPrefix(line, "data:"), " ")\<close>.\<close>

definition data_of :: "string \<Rightarrow> string" where
  "data_of line = TrimPrefix (TrimPrefix line ''data:'') '' ''"

definition event_of :: "string \<Rightarrow> string" where
  "event_of line = TrimSpace (TrimPrefix line ''event:'')"

text \<open>A text that stays on its line: no line break, and no space at its ends for the event type.\<close>

definition one_line :: "string \<Rightarrow> bool" where
  "one_line s \<longleftrightarrow> char_of (10::nat) \<notin> set s \<and> char_of (13::nat) \<notin> set s"

definition frame_ok :: "nat \<Rightarrow> string \<times> string \<Rightarrow> bool" where
  "frame_ok limit e \<longleftrightarrow> one_line (fst e) \<and> one_line (snd e) \<and> TrimSpace ('' '' @ fst e) = fst e \<and>
     length (fst e) + 7 < limit \<and> length (snd e) + 6 < limit"

lemma frames_fit: "list_all (frame_ok n) es \<Longrightarrow> n \<le> limit \<Longrightarrow> list_all (frame_ok limit) es"
  by (auto simp: list_all_iff frame_ok_def)

lemma Split_no_char: "c \<notin> set s \<Longrightarrow> Split s c = [s]"
  by (induction s) auto

lemma Split_append: "c \<notin> set a \<Longrightarrow> Split (a @ c # b) c = a # Split b c"
  by (induction a) auto

lemma raw_lines_Nil [simp]: "raw_lines [] = []"
  by (simp add: raw_lines_def)

lemma raw_lines_line: "char_of (10::nat) \<notin> set a \<Longrightarrow> raw_lines (a @ nl @ b) = a # raw_lines b"
  by (simp add: raw_lines_def nl_def Split_append Let_def)

lemma field_names: "one_line ''event: ''" "one_line ''data: ''"
  by (simp_all add: one_line_def, code_simp+)

lemma one_line_append: "one_line (a @ b) \<longleftrightarrow> one_line a \<and> one_line b"
  by (auto simp: one_line_def)

lemma one_line_Nil: "one_line []"
  by (simp add: one_line_def)

lemma one_lineD: "one_line s \<Longrightarrow> char_of (10::nat) \<notin> set s" "one_line s \<Longrightarrow> char_of (13::nat) \<notin> set s"
  by (simp_all add: one_line_def)

lemma frame_lines_one:
  "one_line (fst e) \<Longrightarrow> one_line (snd e) \<Longrightarrow> l \<in> set (frame_lines e) \<Longrightarrow> one_line l"
proof -
  assume e: "one_line (fst e)" "one_line (snd e)" and l: "l \<in> set (frame_lines e)"
  from l have "l = ''event: '' @ fst e \<or> l = ''data: '' @ snd e \<or> l = []" by (simp add: frame_lines_def)
  then show "one_line l" using e field_names one_line_append one_line_Nil by metis
qed

lemma frame_raw_lines:
  assumes "one_line (fst e)" "one_line (snd e)"
  shows "raw_lines (frame_text e @ s) = frame_lines e @ raw_lines s"
proof -
  have "char_of (10::nat) \<notin> set (''event: '' @ fst e)" "char_of (10::nat) \<notin> set (''data: '' @ snd e)"
    using assms field_names one_line_append one_lineD(1) by blast+
  note lines = raw_lines_line [OF this(1)] raw_lines_line [OF this(2)] raw_lines_line [of "[]" s, simplified]
  have "frame_text e @ s = (''event: '' @ fst e) @ nl @ (''data: '' @ snd e) @ nl @ nl @ s" by (simp add: frame_text_def)
  then show ?thesis by (simp only: lines) (simp add: frame_lines_def)
qed

lemma TrimSuffix_cr: "char_of (13::nat) \<notin> set l \<Longrightarrow> TrimSuffix l cr = l"
  by (cases "rev l") (auto simp: TrimSuffix_def HasSuffix_def HasPrefix_def cr_def)

text \<open>The scanner gives the lines of a body of frames back.\<close>

lemma scan_frames:
  assumes "list_all (frame_ok limit) es"
  shows "scan_lines limit (concat (map frame_text es)) = (concat (map frame_lines es), False)"
proof -
  have raw: "raw_lines (concat (map frame_text es)) = concat (map frame_lines es)"
    using assms by (induction es) (simp_all add: frame_raw_lines frame_ok_def)
  have fit: "length l < limit \<and> TrimSuffix l cr = l" if "l \<in> set (concat (map frame_lines es))" for l
  proof -
    from that obtain e where e: "e \<in> set es" "l \<in> set (frame_lines e)" by auto
    then have "frame_ok limit e" using assms by (simp add: list_all_iff)
    then have "one_line l" "length l < limit"
      using e(2) frame_lines_one [of e l] by (simp_all add: frame_ok_def) (auto simp: frame_lines_def)
    then show ?thesis using TrimSuffix_cr one_lineD(2) by blast
  qed
  then have "takeWhile (\<lambda>l. length l < limit) (concat (map frame_lines es)) = concat (map frame_lines es)" by simp
  moreover have "map (\<lambda>l. TrimSuffix l cr) (concat (map frame_lines es)) = concat (map frame_lines es)"
    using fit by (intro map_idI) blast
  ultimately show ?thesis by (simp only: scan_lines_def raw Let_def) simp
qed

lemma data_line [simp]:
  "HasPrefix (''data: '' @ d) ''data:''" "\<not> HasPrefix (''data: '' @ d) ''event:''" "data_of (''data: '' @ d) = d"
  by (simp_all add: HasPrefix_def data_of_def TrimPrefix_def)

lemma event_line [simp]:
  "HasPrefix (''event: '' @ t) ''event:''" "\<not> HasPrefix (''event: '' @ t) ''data:''"
  "event_of (''event: '' @ t) = TrimSpace ('' '' @ t)"
  by (simp_all add: HasPrefix_def event_of_def TrimPrefix_def)

text \<open>Frames of printable characters are fine.\<close>

lemma one_line_plain: "list_all (\<lambda>c. (32::nat) \<le> of_char c) s \<Longrightarrow> one_line s"
  by (induction s) (auto simp: one_line_def)

lemma strip_space: "graphic (hd t) \<Longrightarrow> TrimLeftSpace ('' '' @ t) = TrimLeftSpace t"
proof -
  have space_char: "CHR '' '' = char_of n \<longleftrightarrow> n mod 256 = 32" for n :: nat
  proof -
    have "CHR '' '' = char_of n \<longleftrightarrow> (of_char (CHR '' '') :: nat) = of_char (char_of n)" by (metis char_of_char)
    then show ?thesis by auto
  qed
  have "find (\<lambda>q. HasPrefix (CHR '' '' # t) q) space_seqs = Some ('' '')"
    by (simp add: space_seqs_def bytes_def HasPrefix_def space_char space_char [of 32, simplified, symmetric])
  moreover assume "graphic (hd t)"
  then have "t \<noteq> [] \<Longrightarrow> find (\<lambda>q. HasPrefix t q) space_seqs = None"
    using space_seqs_ends by (cases t) (auto simp: find_None_iff list_all_iff dest: HasPrefix_Cons)
  ultimately show ?thesis
    by (cases "t = []") (simp_all add: TrimLeftSpace_def strip_fuel_id)
qed

lemma TrimSpace_space: "graphic (hd t) \<Longrightarrow> graphic (last t) \<Longrightarrow> TrimSpace ('' '' @ t) = t"
  unfolding TrimSpace_def strip_space by (simp add: TrimLeftSpace_id TrimRightSpace_id)

lemma frame_ok_plain:
  "list_all (\<lambda>c. (32::nat) \<le> of_char c) (fst e) \<Longrightarrow> list_all (\<lambda>c. (32::nat) \<le> of_char c) (snd e) \<Longrightarrow>
   graphic (hd (fst e)) \<Longrightarrow> graphic (last (fst e)) \<Longrightarrow> length (fst e) + 7 < limit \<Longrightarrow> length (snd e) + 6 < limit \<Longrightarrow>
   frame_ok limit e"
  unfolding frame_ok_def using one_line_plain TrimSpace_space by blast

section \<open>The contract of a reader of frames\<close>

text \<open>
  \<open>feed\<close> is the reader's action on one line, \<open>deliver\<close> what a whole frame does; a reader is \<open>idle\<close> between
  two frames. Then it handles a body of frames as it would the list of the frames.
\<close>

locale frame_reader =
  fixes limit :: nat
    and feed :: "string \<Rightarrow> 's \<Rightarrow> 's"
    and deliver :: "string \<times> string \<Rightarrow> 's \<Rightarrow> 's"
    and idle :: "'s \<Rightarrow> bool"
  assumes feed_frame: "idle s \<Longrightarrow> frame_ok limit e \<Longrightarrow> fold feed (frame_lines e) s = deliver e s"
    and deliver_idle: "idle s \<Longrightarrow> frame_ok limit e \<Longrightarrow> idle (deliver e s)"
begin

lemma delivers_idle: "idle s \<Longrightarrow> list_all (frame_ok limit) es \<Longrightarrow> idle (fold deliver es s)"
  by (induction es arbitrary: s) (simp_all add: deliver_idle)

lemma feed_frames: "idle s \<Longrightarrow> list_all (frame_ok limit) es \<Longrightarrow> fold feed (concat (map frame_lines es)) s = fold deliver es s"
  by (induction es arbitrary: s) (simp_all add: feed_frame deliver_idle)

lemma reads_frames:
  assumes "idle s" "list_all (frame_ok limit) es"
  shows "fold feed (fst (scan_lines limit (concat (map frame_text es)))) s = fold deliver es s"
    "snd (scan_lines limit (concat (map frame_text es))) = False"
  using scan_frames [OF assms(2)] feed_frames [OF assms] by simp_all

end

end
