(* ===== verification/Http.thy ===== *)
theory Http
  imports Session Sse
begin

text \<open>
  The HTTP server (\<^verbatim>\<open>pkg/http\<close>): the chats and their messages, one turn per chat at a time, its cancellation, and
  the event streams. The world is the one of the sessions with the broadcasters and the active turns. A handler is
  a function from the request and the world to the reply and the world; the one that runs a turn is the composition
  of its steps, so that two requests can be interleaved.
\<close>

section \<open>sse.go\<close>

record sseEvent =
  ev_type :: string
  ev_payload :: json

record chatBroadcaster =
  bd_subs :: "(nat \<times> sseEvent list) list"

definition newChatBroadcaster :: chatBroadcaster where
  "newChatBroadcaster = \<lparr>bd_subs = []\<rparr>"

definition subscriberBufferSize :: nat where
  "subscriberBufferSize = 64"

text \<open>A subscriber is the number of its channel.\<close>

definition bd_subscribe :: "nat \<Rightarrow> chatBroadcaster \<Rightarrow> chatBroadcaster" where
  "bd_subscribe ch b = b\<lparr>bd_subs := put ch [] (bd_subs b)\<rparr>"

definition bd_unsubscribe :: "nat \<Rightarrow> chatBroadcaster \<Rightarrow> chatBroadcaster" where
  "bd_unsubscribe ch b = b\<lparr>bd_subs := del ch (bd_subs b)\<rparr>"

definition bd_publish :: "sseEvent \<Rightarrow> chatBroadcaster \<Rightarrow> chatBroadcaster" where
  "bd_publish evt b =
     b\<lparr>bd_subs := map (\<lambda>(ch, q). (ch, if length q < subscriberBufferSize then q @ [evt] else q)) (bd_subs b)\<rparr>"

record http_world = session_world +
  hw_broadcasters :: "(string \<times> chatBroadcaster) list"
  hw_active :: "(string \<times> nat) list"
  hw_cancelled :: "nat list"
  hw_next :: nat

definition broadcasterFor :: "string \<Rightarrow> 'w http_world_scheme \<Rightarrow> chatBroadcaster \<times> 'w http_world_scheme" where
  "broadcasterFor chatID w =
     (case map_of (hw_broadcasters w) chatID of
        Some b \<Rightarrow> (b, w)
      | None \<Rightarrow> (newChatBroadcaster, w\<lparr>hw_broadcasters := put chatID newChatBroadcaster (hw_broadcasters w)\<rparr>))"

definition publish_to :: "string \<Rightarrow> sseEvent \<Rightarrow> 'w http_world_scheme \<Rightarrow> 'w http_world_scheme" where
  "publish_to chatID evt w =
     (case map_of (hw_broadcasters w) chatID of
        None \<Rightarrow> w
      | Some b \<Rightarrow> w\<lparr>hw_broadcasters := put chatID (bd_publish evt b) (hw_broadcasters w)\<rparr>)"

text \<open>A map is written with its keys in order.\<close>

fun sink_event :: "event \<Rightarrow> sseEvent" where
  "sink_event (EmitDelta delta) = \<lparr>ev_type = ''message.delta'', ev_payload = JObj [(''delta'', JStr delta)]\<rparr>"
| "sink_event (EmitToolCall name args) =
     \<lparr>ev_type = ''tool.call.started'', ev_payload = JObj [(''argumentsPreview'', JStr args), (''name'', JStr name)]\<rparr>"
| "sink_event (EmitToolResult name res isError) =
     \<lparr>ev_type = (if isError then ''tool.call.failed'' else ''tool.call.finished''),
      ev_payload = JObj [(''isError'', JBool isError), (''name'', JStr name), (''resultPreview'', JStr res)]\<rparr>"
| "sink_event (EmitError code message) =
     \<lparr>ev_type = ''execution.failed'', ev_payload = JObj [(''errorCode'', JStr code), (''errorMessage'', JStr message)]\<rparr>"
| "sink_event Done = \<lparr>ev_type = ''execution.finished'', ev_payload = JObj []\<rparr>"

definition sseEventSink :: "string \<Rightarrow> 'w http_world_scheme EventSink" where
  "sseEventSink chatID e w = publish_to chatID (sink_event e) w"

section \<open>http.go\<close>

record ('n, 'w) Server =
  sv_Executor :: "('n, 'w http_world_scheme) Executor"
  sv_Store :: path
  sv_Settings :: AgentSettings
  sv_SystemPrompt :: string
  sv_launch :: "string \<Rightarrow> 'w http_world_scheme \<Rightarrow> 'w http_world_scheme"

record http_reply =
  hr_Status :: int
  hr_Body :: json

definition writeJSON :: "int \<Rightarrow> json \<Rightarrow> http_reply" where
  "writeJSON status v = \<lparr>hr_Status = status, hr_Body = v\<rparr>"

definition writeError :: "int \<Rightarrow> string \<Rightarrow> string \<Rightarrow> http_reply" where
  "writeError status code message =
     writeJSON status (JObj [(''error'', JObj [(''code'', JStr code), (''message'', JStr message)])])"

text \<open>\<open>Decoder.Decode\<close> reads the first value of the body; an empty body is no error. \<open>None\<close> is malformed JSON.\<close>

definition decodeJSON :: "'a \<Rightarrow> 'a decoder \<Rightarrow> string \<Rightarrow> 'a option" where
  "decodeJSON z d body =
     (if skip_ws body = [] then Some z
      else Option.bind (parse_json (2 * length body + 2) PValue body) (\<lambda>(v, rest). d z v))"

fun rfc3339 :: "time \<Rightarrow> string" where
  "rfc3339 (Time y mo d h mi s ns) = format_time (Time y mo d h mi s 0)"

definition toChatDTO :: "ChatState \<Rightarrow> json" where
  "toChatDTO cs = JObj (
     fld ''id'' (JStr (cs_ChatID cs)) @
     opt_fld ''title'' (cs_Title cs \<noteq> []) (JStr (cs_Title cs)) @
     fld ''archived'' (JBool (cs_Archived cs)) @
     fld ''createdAt'' (JStr (rfc3339 (cs_CreatedAt cs))) @
     fld ''updatedAt'' (JStr (rfc3339 (cs_UpdatedAt cs))))"

definition toMessageDTO :: "string \<Rightarrow> chat_message \<Rightarrow> json" where
  "toMessageDTO chatID m = JObj (
     fld ''id'' (JStr (sm_ID m)) @
     fld ''chatId'' (JStr chatID) @
     fld ''role'' (JStr (sm_Role m)) @
     fld ''content'' (JStr (sm_Content m)) @
     fld ''createdAt'' (JStr (rfc3339 (sm_CreatedAt m))))"

definition handleHealth :: http_reply where
  "handleHealth = writeJSON 200 (JObj [(''status'', JStr ''ok'')])"

definition handleListChats :: "('n, 'w) Server \<Rightarrow> 'w http_world_scheme \<Rightarrow> http_reply" where
  "handleListChats s w =
     (case storage_List (sv_Store s) (sw_fs w) of
        Inl e \<Rightarrow> writeError 500 ''internal_error'' (error_text e)
      | Inr list \<Rightarrow> writeJSON 200 (JObj [(''items'', JArr (map toChatDTO list))]))"

definition handleCreateChat :: "('n, 'w) Server \<Rightarrow> string \<Rightarrow> 'w http_world_scheme \<Rightarrow> http_reply \<times> 'w http_world_scheme" where
  "handleCreateChat s body w =
     (case decodeJSON [] (\<lambda>cur j. Option.bind (members j) (dec_field ''title'' dec_string cur)) body of
        None \<Rightarrow> (writeError 400 ''invalid_request'' ''invalid JSON body'', w)
      | Some title \<Rightarrow>
          (let (i, w1) = draw_ID w;
               ((r, cs), w2) = store_Save (sv_Store s) (zero_ChatState\<lparr>cs_ChatID := i, cs_Title := title\<rparr>) w1
           in case r of
                Inl e \<Rightarrow> (writeError 500 ''internal_error'' (error_text e), w2)
              | Inr _ \<Rightarrow> (writeJSON 201 (JObj [(''chat'', toChatDTO cs)]), w2)))"

definition chat_not_found :: "string \<Rightarrow> http_reply" where
  "chat_not_found chatID = writeError 404 ''chat_not_found'' (''chat '' @ quote chatID @ '' not found'')"

definition handleListMessages :: "('n, 'w) Server \<Rightarrow> string \<Rightarrow> 'w http_world_scheme \<Rightarrow> http_reply" where
  "handleListMessages s chatID w =
     (case storage_Get (sv_Store s) chatID (sw_fs w) of
        Inl e \<Rightarrow> writeError 400 ''invalid_request'' (error_text e)
      | Inr None \<Rightarrow> chat_not_found chatID
      | Inr (Some cs) \<Rightarrow> writeJSON 200 (JObj [(''items'', JArr (map (toMessageDTO chatID) (cs_Messages cs)))]))"

subsection \<open>One turn at a time\<close>

definition tryBeginExecution :: "string \<Rightarrow> nat \<Rightarrow> 'w http_world_scheme \<Rightarrow> bool \<times> 'w http_world_scheme" where
  "tryBeginExecution chatID cancel w =
     (if map_of (hw_active w) chatID \<noteq> None then (False, w)
      else (True, w\<lparr>hw_active := put chatID cancel (hw_active w)\<rparr>))"

definition endExecution :: "string \<Rightarrow> 'w http_world_scheme \<Rightarrow> 'w http_world_scheme" where
  "endExecution chatID w = w\<lparr>hw_active := del chatID (hw_active w)\<rparr>"

definition cancel_ctx :: "nat \<Rightarrow> 'w http_world_scheme \<Rightarrow> 'w http_world_scheme" where
  "cancel_ctx n w = w\<lparr>hw_cancelled := n # hw_cancelled w\<rparr>"

definition cancelActive :: "string \<Rightarrow> 'w http_world_scheme \<Rightarrow> bool \<times> 'w http_world_scheme" where
  "cancelActive chatID w =
     (case map_of (hw_active w) chatID of None \<Rightarrow> (False, w) | Some n \<Rightarrow> (True, cancel_ctx n w))"

definition handleCancelActive :: "string \<Rightarrow> 'w http_world_scheme \<Rightarrow> http_reply \<times> 'w http_world_scheme" where
  "handleCancelActive chatID w =
     (case cancelActive chatID w of
        (False, w1) \<Rightarrow> (writeError 404 ''execution_not_found'' ''no active execution for this chat'', w1)
      | (True, w1) \<Rightarrow> (writeJSON 200 (JObj [(''status'', JStr ''cancelling'')]), w1))"

text \<open>\<open>context.WithCancel(r.Context())\<close>: \<open>rctx\<close> is the context of the request.\<close>

definition turn_ctx ::
  "('w http_world_scheme \<Rightarrow> go_error option) \<Rightarrow> nat \<Rightarrow> 'w http_world_scheme \<Rightarrow> go_error option" where
  "turn_ctx rctx n w = (if n \<in> set (hw_cancelled w) then Some Canceled else rctx w)"

subsection \<open>A message\<close>

text \<open>Up to the read of the chat state.\<close>

definition send_read ::
  "('n, 'w) Server \<Rightarrow> string \<Rightarrow> string \<Rightarrow> 'w http_world_scheme \<Rightarrow> http_reply + string \<times> ChatState" where
  "send_read s chatID body w =
     (case decodeJSON [] (\<lambda>cur j. Option.bind (members j) (dec_field ''content'' dec_string cur)) body of
        None \<Rightarrow> Inl (writeError 400 ''invalid_request'' ''invalid JSON body'')
      | Some text \<Rightarrow>
          (let content = TrimSpace text in
           if content = [] then Inl (writeError 400 ''invalid_request'' ''content must not be empty'')
           else (case storage_Get (sv_Store s) chatID (sw_fs w) of
                   Inl e \<Rightarrow> Inl (writeError 400 ''invalid_request'' (error_text e))
                 | Inr None \<Rightarrow> Inr (content, zero_ChatState\<lparr>cs_ChatID := chatID\<rparr>)
                 | Inr (Some cs) \<Rightarrow> Inr (content, cs))))"

text \<open>Up to the call of the executor: the user's message and the seed.\<close>

definition send_start ::
  "('n, 'w) Server \<Rightarrow> string \<Rightarrow> string \<Rightarrow> ChatState \<Rightarrow> 'w http_world_scheme \<Rightarrow>
   (chat_message \<times> 'w http_world_scheme AgentContext) \<times> 'w http_world_scheme" where
  "send_start s chatID content cs w =
     (let (i, w1) = draw_ID w;
          (now, w2) = time_Now w1;
          userMsg = \<lparr>sm_ID = i, sm_Role = ''user'', sm_Content = content, sm_CreatedAt = now\<rparr>;
          w3 = snd (broadcasterFor chatID w2);
          w4 = publish_to chatID \<lparr>ev_type = ''execution.started'', ev_payload = JObj [(''model'', JStr (st_Model (sv_Settings s)))]\<rparr> w3;
          (rid, w5) = draw_ID w4
      in ((userMsg,
           zero_AgentContext\<lparr>ac_Input := content, ac_History := cs_History cs, ac_SystemPrompt := sv_SystemPrompt s,
             ac_Settings := sv_Settings s,
             ac_InvocationMeta := zero_Meta\<lparr>im_UserID := ''default'', im_ConversationID := chatID, im_RequestID := rid\<rparr>,
             ac_EventSink := Some (sseEventSink chatID)\<rparr>), w5))"

text \<open>After the executor.\<close>

definition send_finish ::
  "('n, 'w) Server \<Rightarrow> string \<Rightarrow> ChatState \<Rightarrow> chat_message \<Rightarrow> 'w http_world_scheme TurnResult result \<Rightarrow>
   'w http_world_scheme \<Rightarrow> http_reply \<times> 'w http_world_scheme" where
  "send_finish s chatID cs userMsg res w =
     (let cs1 = cs\<lparr>cs_Messages := cs_Messages cs @ [userMsg]\<rparr> in
      case res of
        Inl execErr \<Rightarrow>
          (let w1 = snd (store_Save (sv_Store s) cs1 w);
               (status, code) = (if errors_Is execErr Canceled then (409, ''agent_execution_cancelled'')
                                 else (500, ''agent_execution_failed''));
               w2 = sseEventSink chatID (EmitError code (error_text execErr)) w1
           in (writeError status code (error_text execErr), w2))
      | Inr turn \<Rightarrow>
          (let (i, w1) = draw_ID w;
               (now, w2) = time_Now w1;
               assistantMsg = \<lparr>sm_ID = i, sm_Role = ''assistant'', sm_Content = tr_Output turn, sm_CreatedAt = now\<rparr>;
               cs2 = cs1\<lparr>cs_Messages := cs_Messages cs1 @ [assistantMsg], cs_History := ac_History (tr_Context turn)\<rparr>;
               ((r, _), w3) = store_Save (sv_Store s) cs2 w2
           in case r of
                Inl e \<Rightarrow> (writeError 500 ''internal_error'' (error_text e), w3)
              | Inr _ \<Rightarrow>
                  (writeJSON 200 (JObj (
                     fld ''message'' (toMessageDTO chatID userMsg) @
                     fld ''assistantMessage'' (toMessageDTO chatID assistantMsg) @
                     fld ''execution'' (JObj (fld ''status'' (JStr ''completed'') @
                       opt_fld ''model'' (st_Model (sv_Settings s) \<noteq> []) (JStr (st_Model (sv_Settings s))))))),
                   sseEventSink chatID Done w3)))"

text \<open>From the start of the turn to the two deferred calls.\<close>

definition send_turn ::
  "('n, 'w) Server \<Rightarrow> ('w http_world_scheme \<Rightarrow> go_error option) \<Rightarrow> string \<Rightarrow> string \<times> ChatState \<Rightarrow> 'w http_world_scheme \<Rightarrow>
   http_reply \<times> 'w http_world_scheme" where
  "send_turn s rctx chatID cc w =
     (let n = hw_next w; w0 = w\<lparr>hw_next := n + 1\<rparr> in
      case tryBeginExecution chatID n w0 of
        (False, w1) \<Rightarrow>
          (writeError 409 ''chat_already_has_active_execution'' ''this chat already has a turn in progress'', cancel_ctx n w1)
      | (True, w1) \<Rightarrow>
          (let ((userMsg, seed), w2) = send_start s chatID (fst cc) (snd cc) w1;
               (res, w3) = Execute (turn_ctx rctx n) (sv_launch s) (sv_Executor s) seed w2;
               (reply, w4) = send_finish s chatID (snd cc) userMsg res w3
           in (reply, endExecution chatID (cancel_ctx n w4))))"

definition handleSendMessage ::
  "('n, 'w) Server \<Rightarrow> ('w http_world_scheme \<Rightarrow> go_error option) \<Rightarrow> string \<Rightarrow> string \<Rightarrow> 'w http_world_scheme \<Rightarrow>
   http_reply \<times> 'w http_world_scheme" where
  "handleSendMessage s rctx chatID body w =
     (case send_read s chatID body w of
        Inl reply \<Rightarrow> (reply, w)
      | Inr cc \<Rightarrow> send_turn s rctx chatID cc w)"

subsection \<open>Events\<close>

text \<open>
  \<open>handleEvents\<close>: it subscribes, then writes each event as a frame until the request ends, and unsubscribes. The
  response writer can flush, as that of \<open>net/http\<close> does.
\<close>

definition events_start ::
  "('n, 'w) Server \<Rightarrow> string \<Rightarrow> 'w http_world_scheme \<Rightarrow> (http_reply + nat) \<times> 'w http_world_scheme" where
  "events_start s chatID w =
     (case storage_Get (sv_Store s) chatID (sw_fs w) of
        Inl e \<Rightarrow> (Inl (writeError 400 ''invalid_request'' (error_text e)), w)
      | Inr None \<Rightarrow> (Inl (chat_not_found chatID), w)
      | Inr (Some _) \<Rightarrow>
          (let ch = hw_next w; (b, w1) = broadcasterFor chatID (w\<lparr>hw_next := ch + 1\<rparr>)
           in (Inr ch, w1\<lparr>hw_broadcasters := put chatID (bd_subscribe ch b) (hw_broadcasters w1)\<rparr>)))"

definition sse_frame :: "sseEvent \<Rightarrow> string" where
  "sse_frame evt = frame_text (ev_type evt, json_print (ev_payload evt))"

definition events_next :: "string \<Rightarrow> nat \<Rightarrow> 'w http_world_scheme \<Rightarrow> (string \<times> 'w http_world_scheme) option" where
  "events_next chatID ch w =
     (case map_of (hw_broadcasters w) chatID of
        None \<Rightarrow> None
      | Some b \<Rightarrow>
          (case map_of (bd_subs b) ch of
             Some (evt # q) \<Rightarrow>
               Some (sse_frame evt, w\<lparr>hw_broadcasters := put chatID (b\<lparr>bd_subs := put ch q (bd_subs b)\<rparr>) (hw_broadcasters w)\<rparr>)
           | _ \<Rightarrow> None))"

definition events_end :: "string \<Rightarrow> nat \<Rightarrow> 'w http_world_scheme \<Rightarrow> 'w http_world_scheme" where
  "events_end chatID ch w =
     (case map_of (hw_broadcasters w) chatID of
        None \<Rightarrow> w
      | Some b \<Rightarrow> w\<lparr>hw_broadcasters := put chatID (bd_unsubscribe ch b) (hw_broadcasters w)\<rparr>)"

end
