(* ===== verification/Http_Turns.thy ===== *)
theory Http_Turns
  imports Http
begin

text \<open>
  The turns of the HTTP server: what a message leaves in the store, and the interleaving of many requests as a step
  relation. Requests run at the same time, each in its own goroutine; a turn takes the slot of its chat before it
  calls the executor and gives it back when it leaves.
\<close>

section \<open>What a turn saves\<close>

lemma time_Now_fields [simp]:
  "sw_fs (snd (time_Now w)) = sw_fs w" "hw_active (snd (time_Now w)) = hw_active w"
  "hw_broadcasters (snd (time_Now w)) = hw_broadcasters w" "hw_next (snd (time_Now w)) = hw_next w"
  "hw_cancelled (snd (time_Now w)) = hw_cancelled w"
  by (simp_all add: time_Now_def)

lemma draw_ID_fields [simp]:
  "sw_fs (snd (draw_ID w)) = sw_fs w" "hw_active (snd (draw_ID w)) = hw_active w"
  "hw_broadcasters (snd (draw_ID w)) = hw_broadcasters w" "hw_next (snd (draw_ID w)) = hw_next w"
  "hw_cancelled (snd (draw_ID w)) = hw_cancelled w"
  by (simp_all add: draw_ID_def)

lemma publish_to_fields [simp]:
  "sw_fs (publish_to c evt w) = sw_fs w" "hw_active (publish_to c evt w) = hw_active w"
  "hw_next (publish_to c evt w) = hw_next w" "hw_cancelled (publish_to c evt w) = hw_cancelled w"
  by (simp_all add: publish_to_def split: option.split)

lemma broadcasterFor_fields [simp]:
  "sw_fs (snd (broadcasterFor c w)) = sw_fs w" "hw_active (snd (broadcasterFor c w)) = hw_active w"
  "hw_next (snd (broadcasterFor c w)) = hw_next w" "hw_cancelled (snd (broadcasterFor c w)) = hw_cancelled w"
  by (simp_all add: broadcasterFor_def split: option.split)

lemma store_Save_fields [simp]:
  "hw_active (snd (store_Save rt cs w)) = hw_active w" "hw_next (snd (store_Save rt cs w)) = hw_next w"
  "hw_cancelled (snd (store_Save rt cs w)) = hw_cancelled w" "hw_broadcasters (snd (store_Save rt cs w)) = hw_broadcasters w"
  by (simp_all add: store_Save_def Let_def time_Now_def split: prod.split)

lemma turn_slot_fields [simp]:
  "sw_fs (endExecution c w) = sw_fs w" "hw_next (endExecution c w) = hw_next w" "hw_cancelled (endExecution c w) = hw_cancelled w"
  "sw_fs (cancel_ctx n w) = sw_fs w" "hw_active (cancel_ctx n w) = hw_active w" "hw_next (cancel_ctx n w) = hw_next w"
  "hw_active (endExecution c w) = del c (hw_active w)" "hw_cancelled (cancel_ctx n w) = n # hw_cancelled w"
  by (simp_all add: endExecution_def cancel_ctx_def)

lemma send_start_fields [simp]:
  "sw_fs (snd (send_start s c content cs w)) = sw_fs w" "hw_active (snd (send_start s c content cs w)) = hw_active w"
  "hw_next (snd (send_start s c content cs w)) = hw_next w" "hw_cancelled (snd (send_start s c content cs w)) = hw_cancelled w"
  by (simp_all add: send_start_def Let_def case_prod_beta)

lemma send_finish_fields [simp]:
  "hw_active (snd (send_finish s c cs um res w)) = hw_active w" "hw_next (snd (send_finish s c cs um res w)) = hw_next w"
  "hw_cancelled (snd (send_finish s c cs um res w)) = hw_cancelled w"
  by (simp_all add: send_finish_def sseEventSink_def Let_def case_prod_beta split: sum.split)

text \<open>The state a turn saves: the one read before it, with the new messages, and, when the executor returns, its history.\<close>

definition answer_of :: "'w http_world_scheme TurnResult \<Rightarrow> 'w http_world_scheme \<Rightarrow> chat_message" where
  "answer_of turn w =
     \<lparr>sm_ID = fst (draw_ID w), sm_Role = ''assistant'', sm_Content = tr_Output turn,
      sm_CreatedAt = fst (time_Now (snd (draw_ID w)))\<rparr>"

definition turn_state ::
  "ChatState \<Rightarrow> chat_message \<Rightarrow> 'w http_world_scheme TurnResult result \<Rightarrow> 'w http_world_scheme \<Rightarrow> ChatState" where
  "turn_state cs um res w =
     (case res of
        Inl e \<Rightarrow> cs\<lparr>cs_Messages := cs_Messages cs @ [um]\<rparr>
      | Inr turn \<Rightarrow> cs\<lparr>cs_Messages := cs_Messages cs @ [um, answer_of turn w], cs_History := ac_History (tr_Context turn)\<rparr>)"

definition save_time :: "'w http_world_scheme TurnResult result \<Rightarrow> 'w http_world_scheme \<Rightarrow> time" where
  "save_time res w = sw_clock w (if isl res then sw_ticks w else sw_ticks w + 1)"

lemma send_finish_saves:
  assumes "store_ok (sv_Store s) (sw_fs w)" "chat_ok (stamp (save_time res w) (turn_state cs um res w))"
    and "send_finish s c cs um res w = (reply, w')"
  shows "store_ok (sv_Store s) (sw_fs w') \<and>
    (\<exists>saved. (hr_Status reply = 200 \<longrightarrow> saved) \<and> (hr_Status reply = 200 \<longrightarrow> \<not> isl res) \<and>
       (\<forall>i. validChatID i \<longrightarrow> storage_Get (sv_Store s) i (sw_fs w') =
          (if saved \<and> i = cs_ChatID cs then Inr (Some (compact_state (stamp (save_time res w) (turn_state cs um res w))))
           else storage_Get (sv_Store s) i (sw_fs w))))"
proof (cases res)
  case (Inl e)
  let ?cs = "cs\<lparr>cs_Messages := cs_Messages cs @ [um]\<rparr>"
  obtain r cs' w1 where s: "store_Save (sv_Store s) ?cs w = ((r, cs'), w1)" by (metis prod.exhaust_sel)
  have "store_ok (sv_Store s) (sw_fs w1) \<and> cs' = stamp (world_now w) ?cs \<and>
    (\<forall>i. validChatID i \<longrightarrow> storage_Get (sv_Store s) i (sw_fs w1) =
       (if r = Inr () \<and> i = cs_ChatID cs then Inr (Some (compact_state (stamp (world_now w) ?cs)))
        else storage_Get (sv_Store s) i (sw_fs w)))"
    using store_Save_world [OF assms(1) _ s] assms(2) by (simp add: Inl turn_state_def save_time_def world_now_def)
  moreover have "sw_fs w' = sw_fs w1" "hr_Status reply \<noteq> 200"
    using assms(3) by (auto simp: send_finish_def Inl s sseEventSink_def writeError_def writeJSON_def split: if_splits)
  ultimately show ?thesis
    by (intro conjI exI [of _ "r = Inr ()"]) (simp_all add: Inl turn_state_def save_time_def world_now_def)
next
  case (Inr turn)
  let ?w = "snd (time_Now (snd (draw_ID w)))" and ?cs = "turn_state cs um res w"
  have now: "world_now ?w = save_time res w" by (simp add: world_now_def time_Now_def draw_ID_def save_time_def Inr)
  obtain r cs' w1 where s: "store_Save (sv_Store s) ?cs ?w = ((r, cs'), w1)" by (metis prod.exhaust_sel)
  have i: "cs_ChatID ?cs = cs_ChatID cs" by (simp add: turn_state_def Inr)
  have "store_ok (sv_Store s) (sw_fs w1) \<and> cs' = stamp (world_now ?w) ?cs \<and>
    (\<forall>i. validChatID i \<longrightarrow> storage_Get (sv_Store s) i (sw_fs w1) =
       (if r = Inr () \<and> i = cs_ChatID cs then Inr (Some (compact_state (stamp (world_now ?w) ?cs)))
        else storage_Get (sv_Store s) i (sw_fs w)))"
    using store_Save_world [OF _ _ s] assms(1,2) by (simp add: now i)
  moreover have "sw_fs w' = sw_fs w1" "hr_Status reply = 200 \<longrightarrow> r = Inr ()"
    using assms(3) s
    by (auto simp: send_finish_def Inr turn_state_def answer_of_def Let_def case_prod_beta sseEventSink_def writeError_def writeJSON_def split: sum.splits)
  ultimately show ?thesis
    by (intro conjI exI [of _ "r = Inr ()"]) (simp_all add: Inr now)
qed

section \<open>Requests in parallel\<close>

text \<open>
  The phases of \<open>handleSendMessage\<close>. One step is what happens between two points where another goroutine can
  be seen: the read of the store, the slot, the start, the executor, the save with the reply, the deferred calls.
\<close>

datatype 'w send_phase =
  Arrived
| HasRead "string \<times> ChatState"
| Running nat "string \<times> ChatState"
| Started nat ChatState chat_message "'w AgentContext"
| Executed nat ChatState chat_message "'w TurnResult result"
| Finishing nat http_reply
| Replied http_reply

record 'w send_req =
  rq_chat :: string
  rq_body :: string
  rq_ctx :: "'w \<Rightarrow> go_error option"

inductive send_step ::
  "('n, 'w) Server \<Rightarrow> 'w http_world_scheme send_req \<Rightarrow> 'w http_world_scheme \<times> 'w http_world_scheme send_phase \<Rightarrow>
   'w http_world_scheme \<times> 'w http_world_scheme send_phase \<Rightarrow> bool"
  for s r where
  read_refused: "send_read s (rq_chat r) (rq_body r) w = Inl reply \<Longrightarrow> send_step s r (w, Arrived) (w, Replied reply)"
| read_ok: "send_read s (rq_chat r) (rq_body r) w = Inr cc \<Longrightarrow> send_step s r (w, Arrived) (w, HasRead cc)"
| begin_busy: "tryBeginExecution (rq_chat r) (hw_next w) (w\<lparr>hw_next := hw_next w + 1\<rparr>) = (False, w1) \<Longrightarrow>
    send_step s r (w, HasRead cc) (cancel_ctx (hw_next w) w1,
      Replied (writeError 409 ''chat_already_has_active_execution'' ''this chat already has a turn in progress''))"
| begin_ok: "tryBeginExecution (rq_chat r) (hw_next w) (w\<lparr>hw_next := hw_next w + 1\<rparr>) = (True, w1) \<Longrightarrow>
    send_step s r (w, HasRead cc) (w1, Running (hw_next w) cc)"
| start: "send_start s (rq_chat r) (fst cc) (snd cc) w = ((um, seed), w1) \<Longrightarrow>
    send_step s r (w, Running n cc) (w1, Started n (snd cc) um seed)"
| execute: "Execute (turn_ctx (rq_ctx r) n) (sv_launch s) (sv_Executor s) seed w = (res, w1) \<Longrightarrow>
    send_step s r (w, Started n cs um seed) (w1, Executed n cs um res)"
| finish: "send_finish s (rq_chat r) cs um res w = (reply, w1) \<Longrightarrow>
    send_step s r (w, Executed n cs um res) (w1, Finishing n reply)"
| leave: "send_step s r (w, Finishing n reply) (endExecution (rq_chat r) (cancel_ctx n w), Replied reply)"

inductive_cases read_stepE: "send_step s r (w, Arrived) x"
inductive_cases begin_stepE: "send_step s r (w, HasRead cc) x"
inductive_cases start_stepE: "send_step s r (w, Running n cc) x"
inductive_cases execute_stepE: "send_step s r (w, Started n cs um seed) x"
inductive_cases finish_stepE: "send_step s r (w, Executed n cs um res) x"
inductive_cases leave_stepE: "send_step s r (w, Finishing n reply) x"
inductive_cases replied_stepE: "send_step s r (w, Replied reply) x"

lemmas send_stepEs = read_stepE begin_stepE start_stepE execute_stepE finish_stepE leave_stepE replied_stepE

text \<open>A request alone: its steps are the handler.\<close>

lemma send_turn_steps:
  assumes "send_turn s (rq_ctx r) (rq_chat r) cc w = (reply, w')"
  shows "(send_step s r)\<^sup>*\<^sup>* (w, HasRead cc) (w', Replied reply)"
proof (cases "tryBeginExecution (rq_chat r) (hw_next w) (w\<lparr>hw_next := hw_next w + 1\<rparr>)")
  case Pair: (Pair ok w1)
  show ?thesis
  proof (cases ok)
    case False
    then show ?thesis
      using assms Pair by (auto simp: send_turn_def Let_def intro!: r_into_rtranclp begin_busy)
  next
    case True
    with Pair have ok: "tryBeginExecution (rq_chat r) (hw_next w) (w\<lparr>hw_next := hw_next w + 1\<rparr>) = (True, w1)" by simp
    obtain um seed w2 where a: "send_start s (rq_chat r) (fst cc) (snd cc) w1 = ((um, seed), w2)" by (metis prod.exhaust)
    obtain res w3 where b: "Execute (turn_ctx (rq_ctx r) (hw_next w)) (sv_launch s) (sv_Executor s) seed w2 = (res, w3)"
      by fastforce
    obtain reply' w4 where c: "send_finish s (rq_chat r) (snd cc) um res w3 = (reply', w4)" by fastforce
    have "reply = reply'" "w' = endExecution (rq_chat r) (cancel_ctx (hw_next w) w4)"
      using assms ok a b c by (simp_all add: send_turn_def Let_def)
    then show ?thesis
      using begin_ok [OF ok, of s cc] start [OF a, of "hw_next w"] execute [OF b] finish [OF c] leave
      by (meson rtranclp.rtrancl_into_rtrancl rtranclp.rtrancl_refl)
  qed
qed

lemma handleSendMessage_steps:
  assumes "handleSendMessage s (rq_ctx r) (rq_chat r) (rq_body r) w = (reply, w')"
  shows "(send_step s r)\<^sup>*\<^sup>* (w, Arrived) (w', Replied reply)"
proof (cases "send_read s (rq_chat r) (rq_body r) w")
  case (Inl e)
  then show ?thesis using assms by (auto simp: handleSendMessage_def intro!: r_into_rtranclp read_refused)
next
  case (Inr cc)
  then have "send_turn s (rq_ctx r) (rq_chat r) cc w = (reply, w')" using assms by (simp add: handleSendMessage_def)
  then show ?thesis using read_ok [of s r w cc, OF Inr] send_turn_steps converse_rtranclp_into_rtranclp by metis
qed

lemma send_step_det: "send_step s r x y \<Longrightarrow> send_step s r x z \<Longrightarrow> y = z"
proof (induction rule: send_step.induct)
  case (read_refused w reply) then show ?case by (elim read_stepE) simp_all
next
  case (read_ok w cc) then show ?case by (elim read_stepE) simp_all
next
  case (begin_busy w w1 cc) then show ?case by (elim begin_stepE) simp_all
next
  case (begin_ok w w1 cc) then show ?case by (elim begin_stepE) simp_all
next
  case (start cc w um seed w1 n) then show ?case by (elim start_stepE) simp
next
  case (execute n seed w res w1 cs um) then show ?case by (elim execute_stepE) simp
next
  case (finish cs um res w reply w1 n) then show ?case by (elim finish_stepE) simp
next
  case (leave w n reply) then show ?case by (elim leave_stepE) simp
qed

lemma no_step_replied: "\<not> send_step s r (w, Replied reply) y"
  by (rule notI) (erule replied_stepE)

lemma replied_final: "(send_step s r)\<^sup>*\<^sup>* (w, Replied reply) y \<Longrightarrow> y = (w, Replied reply)"
  by (erule converse_rtranclpE) (simp_all add: no_step_replied)

lemma deterministic_run:
  assumes "R\<^sup>*\<^sup>* x y" "R\<^sup>*\<^sup>* x z" "\<And>x y z. R x y \<Longrightarrow> R x z \<Longrightarrow> y = z" "\<And>u. R\<^sup>*\<^sup>* y u \<Longrightarrow> u = y"
  shows "R\<^sup>*\<^sup>* z y"
  using assms(1,2)
proof (induction arbitrary: z rule: converse_rtranclp_induct)
  case base then show ?case using assms(4) by blast
next
  case (step x x')
  show ?case
  proof (cases "x = z")
    case True with step.hyps show ?thesis by auto
  next
    case False
    with step.prems obtain x'' where "R x x''" "R\<^sup>*\<^sup>* x'' z" by (cases rule: converse_rtranclpE) auto
    moreover from this(1) step.hyps(1) have "x'' = x'" by (rule assms(3))
    ultimately show ?thesis using step.IH by simp
  qed
qed

text \<open>
  a request that runs alone ends, with the reply and the world the handler computes, and every partial run of
  its steps can only be continued to that end.
\<close>

theorem send_steps_refine_handler:
  "(send_step s r)\<^sup>*\<^sup>* (w, Arrived) (w', Replied reply) \<longleftrightarrow>
   handleSendMessage s (rq_ctx r) (rq_chat r) (rq_body r) w = (reply, w')"
proof
  assume run: "(send_step s r)\<^sup>*\<^sup>* (w, Arrived) (w', Replied reply)"
  obtain reply' w'' where h: "handleSendMessage s (rq_ctx r) (rq_chat r) (rq_body r) w = (reply', w'')" by fastforce
  have "(send_step s r)\<^sup>*\<^sup>* (w', Replied reply) (w'', Replied reply')"
    by (rule deterministic_run [OF handleSendMessage_steps [OF h] run]) (auto dest: send_step_det replied_final)
  from replied_final [OF this] h show "handleSendMessage s (rq_ctx r) (rq_chat r) (rq_body r) w = (reply, w')" by simp
qed (rule handleSendMessage_steps)

subsection \<open>The server\<close>

text \<open>
  Every request is in its own phase; between its steps the other handlers, the clients and the executors of other
  turns change the world, but the slots are only taken and given back by the requests.
\<close>

record 'w server_state =
  hs_world :: 'w
  hs_phase :: "nat \<Rightarrow> 'w send_phase"

inductive server_step ::
  "('n, 'w) Server \<Rightarrow> (nat \<Rightarrow> 'w http_world_scheme send_req) \<Rightarrow> 'w http_world_scheme server_state \<Rightarrow>
   'w http_world_scheme server_state \<Rightarrow> bool"
  for s rq where
  request: "send_step s (rq i) (hs_world st, hs_phase st i) (w', ph') \<Longrightarrow>
    server_step s rq st \<lparr>hs_world = w', hs_phase = (hs_phase st)(i := ph')\<rparr>"
| other: "hw_active w' = hw_active (hs_world st) \<Longrightarrow> hw_next (hs_world st) \<le> hw_next w' \<Longrightarrow>
    server_step s rq st (st\<lparr>hs_world := w'\<rparr>)"

definition server_start :: "'w http_world_scheme \<Rightarrow> 'w http_world_scheme server_state" where
  "server_start w = \<lparr>hs_world = w\<lparr>hw_active := []\<rparr>, hs_phase = (\<lambda>_. Arrived)\<rparr>"

inductive served ::
  "('n, 'w) Server \<Rightarrow> (nat \<Rightarrow> 'w http_world_scheme send_req) \<Rightarrow> 'w http_world_scheme server_state \<Rightarrow> bool"
  for s rq where
  served_start: "served s rq (server_start w)"
| served_step: "served s rq st \<Longrightarrow> server_step s rq st st' \<Longrightarrow> served s rq st'"

text \<open>The slot a request holds.\<close>

fun slot_of :: "'w send_phase \<Rightarrow> nat option" where
  "slot_of (Running n _) = Some n"
| "slot_of (Started n _ _ _) = Some n"
| "slot_of (Executed n _ _ _) = Some n"
| "slot_of (Finishing n _) = Some n"
| "slot_of _ = None"

text \<open>The executor of a turn touches no slot.\<close>

definition executor_keeps_slots :: "('n, 'w) Server \<Rightarrow> bool" where
  "executor_keeps_slots s \<longleftrightarrow>
     (\<forall>ctx seed w. hw_active (snd (Execute ctx (sv_launch s) (sv_Executor s) seed w)) = hw_active w \<and>
        hw_next w \<le> hw_next (snd (Execute ctx (sv_launch s) (sv_Executor s) seed w)))"

lemma executor_slots:
  "executor_keeps_slots s \<Longrightarrow> Execute ctx (sv_launch s) (sv_Executor s) seed w = (res, w1) \<Longrightarrow>
   hw_active w1 = hw_active w \<and> hw_next w \<le> hw_next w1"
  by (metis executor_keeps_slots_def snd_conv)

text \<open>What a step does to the slots: it takes a free one under a fresh number, gives its own back, or leaves them.\<close>

lemma send_step_slots:
  assumes "executor_keeps_slots s" "send_step s r (w, ph) (w', ph')"
  shows "hw_next w \<le> hw_next w' \<and>
    (slot_of ph = None \<and> slot_of ph' = Some (hw_next w) \<and> hw_next w < hw_next w' \<and> map_of (hw_active w) (rq_chat r) = None \<and>
       hw_active w' = put (rq_chat r) (hw_next w) (hw_active w) \<or>
     slot_of ph \<noteq> None \<and> slot_of ph' = None \<and> hw_active w' = del (rq_chat r) (hw_active w) \<or>
     slot_of ph' = slot_of ph \<and> hw_active w' = hw_active w)"
  using assms(2)
proof (cases rule: send_step.cases)
  case (begin_busy w1 cc) then show ?thesis by (auto simp: tryBeginExecution_def split: if_splits)
next
  case (begin_ok cc) then show ?thesis by (auto simp: tryBeginExecution_def split: if_splits)
next
  case (start cc um seed n)
  then show ?thesis using send_start_fields [of s "rq_chat r" "fst cc" "snd cc" w] by simp
next
  case (execute n seed res cs um)
  then show ?thesis using executor_slots [OF assms(1)] by simp
next
  case (finish cs um res reply n)
  then show ?thesis using send_finish_fields [of s "rq_chat r" cs um res w] by simp
qed simp_all

text \<open>
  The invariant: the table of the active turns is the table of the slots held, by distinct numbers below the next one.
\<close>

definition slots_ok :: "(nat \<Rightarrow> string) \<Rightarrow> (nat \<Rightarrow> nat option) \<Rightarrow> (string \<rightharpoonup> nat) \<Rightarrow> nat \<Rightarrow> bool" where
  "slots_ok chat sl A N \<longleftrightarrow>
     (\<forall>c n. A c = Some n \<longleftrightarrow> (\<exists>i. chat i = c \<and> sl i = Some n)) \<and>
     (\<forall>i n. sl i = Some n \<longrightarrow> n < N) \<and>
     (\<forall>i j n. sl i = Some n \<longrightarrow> sl j = Some n \<longrightarrow> i = j)"

lemma slots_okD:
  assumes "slots_ok chat sl A N"
  shows "A c = Some n \<longleftrightarrow> (\<exists>i. chat i = c \<and> sl i = Some n)" "sl i = Some n \<Longrightarrow> n < N"
    "sl i = Some n \<Longrightarrow> sl j = Some n \<Longrightarrow> i = j"
  using assms by (auto simp: slots_ok_def)

lemma slots_grow: "slots_ok chat sl A N \<Longrightarrow> N \<le> N' \<Longrightarrow> slots_ok chat sl A N'"
  unfolding slots_ok_def by (meson less_le_trans)

lemma slots_active: "slots_ok chat sl A N \<Longrightarrow> sl i = Some n \<Longrightarrow> A (chat i) = Some n"
  by (auto simp: slots_okD(1))

lemma slots_one:
  assumes "slots_ok chat sl A N" "sl i = Some m" "sl j = Some n" "chat i = chat j"
  shows "i = j"
  using slots_active [OF assms(1,2)] slots_active [OF assms(1,3)] slots_okD(3) [OF assms(1,2)] assms(3,4) by simp

lemma slots_take:
  assumes ok: "slots_ok chat sl A N" and "sl i = None" "A (chat i) = None"
  shows "slots_ok chat (sl(i := Some N)) (A(chat i \<mapsto> N)) (Suc N)"
proof -
  have none: "chat j \<noteq> chat i" if "sl j = Some n" for j n 
    using slots_active [OF ok that] assms(3) by auto
  have "N \<noteq> n" if "sl j = Some n" for j n using slots_okD(2) [OF ok that] by simp
  moreover have "(A(chat i \<mapsto> N)) c = Some n \<longleftrightarrow> (\<exists>k. chat k = c \<and> (sl(i := Some N)) k = Some n)" for c n
  proof (cases "c = chat i")
    case True then show ?thesis using none by (auto intro: exI [of _ i])
  next
    case False then show ?thesis using slots_okD(1) [OF ok, of c n] by auto
  qed
  ultimately show ?thesis
    using slots_okD(2,3) [OF ok] by (fastforce simp: slots_ok_def less_Suc_eq)
qed

lemma slots_give:
  assumes ok: "slots_ok chat sl A N" and "sl i = Some m"
  shows "slots_ok chat (sl(i := None)) (A(chat i := None)) N"
proof -
  have "(A(chat i := None)) c = Some n \<longleftrightarrow> (\<exists>k. chat k = c \<and> (sl(i := None)) k = Some n)" for c n
  proof (cases "c = chat i")
    case True then show ?thesis using slots_one [OF ok _ assms(2)] by auto
  next
    case False then show ?thesis using slots_okD(1) [OF ok, of c n] by auto
  qed
  then show ?thesis using slots_okD(2,3) [OF ok] by (auto simp: slots_ok_def)
qed

definition slots_inv :: "(nat \<Rightarrow> 'w http_world_scheme send_req) \<Rightarrow> 'w http_world_scheme server_state \<Rightarrow> bool" where
  "slots_inv rq st \<longleftrightarrow>
     slots_ok (\<lambda>i. rq_chat (rq i)) (\<lambda>i. slot_of (hs_phase st i)) (map_of (hw_active (hs_world st))) (hw_next (hs_world st))"

lemma slots_inv_step:
  assumes "executor_keeps_slots s" "slots_inv rq st" "server_step s rq st st'"
  shows "slots_inv rq st'"
  using assms(3)
proof (cases rule: server_step.cases)
  case (other w')
  then show ?thesis using assms(2) by (simp add: slots_inv_def slots_grow)
next
  case (request i w' ph')
  let ?w = "hs_world st" and ?sl = "\<lambda>i. slot_of (hs_phase st i)"
  note ok = assms(2) [unfolded slots_inv_def]
  have st': "slots_inv rq st' \<longleftrightarrow>
      slots_ok (\<lambda>i. rq_chat (rq i)) (?sl(i := slot_of ph')) (map_of (hw_active w')) (hw_next w')"
    unfolding request(1) slots_inv_def by (simp add: fun_upd_def if_distrib [of slot_of])
  from send_step_slots [OF assms(1) request(2)] have le: "hw_next ?w \<le> hw_next w'" by blast
  from send_step_slots [OF assms(1) request(2)] consider
      (take) "?sl i = None" "slot_of ph' = Some (hw_next ?w)" "hw_next ?w < hw_next w'"
        "map_of (hw_active ?w) (rq_chat (rq i)) = None" "hw_active w' = put (rq_chat (rq i)) (hw_next ?w) (hw_active ?w)"
    | (give) m where "?sl i = Some m" "slot_of ph' = None" "hw_active w' = del (rq_chat (rq i)) (hw_active ?w)"
    | (same) "slot_of ph' = ?sl i" "hw_active w' = hw_active ?w"
    by (elim conjE disjE) auto
  then show ?thesis
  proof cases
    case take
    from slots_grow [OF slots_take [OF ok take(1,4)]] take(3) show ?thesis by (simp add: st' take(2,5))
  next
    case give
    from slots_grow [OF slots_give [OF ok give(1)] le] show ?thesis by (simp add: st' give(2,3))
  next
    case same
    have "?sl(i := ?sl i) = ?sl" by auto
    with slots_grow [OF ok le] show ?thesis by (simp add: st' same)
  qed
qed

lemma served_slots: "served s rq st \<Longrightarrow> executor_keeps_slots s \<Longrightarrow> slots_inv rq st"
proof (induction rule: served.induct)
  case (served_start w)
  show ?case by (simp add: slots_inv_def slots_ok_def server_start_def)
next
  case (served_step st st')
  then show ?case using slots_inv_step by blast
qed

text \<open>A server whose executor answers "yes", and two requests of the chat "a".\<close>

definition demo_server :: "(unit, unit) Server" where
  "demo_server =
     \<lparr>sv_Executor = yes_executor,
      sv_Store = [''s''], sv_Settings = zero_Settings, sv_SystemPrompt = [], sv_launch = (\<lambda>_ w. w)\<rparr>"

definition demo_world :: "unit http_world_scheme" where
  "demo_world = \<lparr>sw_fs = demo_store, sw_clock = (\<lambda>_. demo_now), sw_ticks = 0, sw_random = (\<lambda>_. replicate 16 255), sw_draws = 0,
     sw_faults = (\<lambda>_. NoFault), sw_saves = 0, hw_broadcasters = [], hw_active = [], hw_cancelled = [], hw_next = 0\<rparr>"

definition demo_req :: "unit http_world_scheme send_req" where
  "demo_req = \<lparr>rq_chat = ''a'', rq_body = ''{\"content\": \" hi \"}'', rq_ctx = (\<lambda>_. None)\<rparr>"

lemma demo_Execute:
  "Execute ctx (sv_launch demo_server) (sv_Executor demo_server) seed w =
     (case ctx w of
        Some e \<Rightarrow> (Inl (Wrap ''agent turn: '' e []), w)
      | None \<Rightarrow> (Inr \<lparr>tr_Output = ''yes'', tr_Context = WithHistory seed [yes_message]\<rparr>, w))"
  by (simp add: demo_server_def yes_Execute)

lemma demo_keeps_slots: "executor_keeps_slots demo_server"
  by (simp add: executor_keeps_slots_def demo_Execute split: option.split)

lemma demo_read: "send_read demo_server ''a'' (rq_body demo_req) demo_world = Inr (''hi'', zero_ChatState\<lparr>cs_ChatID := ''a''\<rparr>)"
  by code_simp

section \<open>Properties\<close>

text \<open>
  C34: however the requests, the executors and the other handlers are interleaved, two requests of one chat are
  never in a turn together; a cancel answers that there is a turn exactly when a request of the chat is in one; it
  cancels the context of that request and of no other.
\<close>

theorem one_turn_per_chat:
  assumes "served s rq st" "executor_keeps_slots s"
  shows "(\<forall>i j m n. slot_of (hs_phase st i) = Some m \<longrightarrow> slot_of (hs_phase st j) = Some n \<longrightarrow>
            rq_chat (rq i) = rq_chat (rq j) \<longrightarrow> i = j) \<and>
    (\<forall>c. fst (cancelActive c (hs_world st)) \<longleftrightarrow> (\<exists>i n. rq_chat (rq i) = c \<and> slot_of (hs_phase st i) = Some n)) \<and>
    (\<forall>i n. slot_of (hs_phase st i) = Some n \<longrightarrow>
       (let w' = snd (cancelActive (rq_chat (rq i)) (hs_world st))
        in turn_ctx (rq_ctx (rq i)) n w' = Some Canceled \<and>
           (\<forall>j m. slot_of (hs_phase st j) = Some m \<longrightarrow> j \<noteq> i \<longrightarrow>
              (m \<in> set (hw_cancelled w') \<longleftrightarrow> m \<in> set (hw_cancelled (hs_world st))))))"
proof -
  note ok = served_slots [OF assms, unfolded slots_inv_def]
  have "fst (cancelActive c (hs_world st)) \<longleftrightarrow> (\<exists>n. map_of (hw_active (hs_world st)) c = Some n)" for c
    by (simp add: cancelActive_def split: option.split)
  then have "fst (cancelActive c (hs_world st)) \<longleftrightarrow> (\<exists>i n. rq_chat (rq i) = c \<and> slot_of (hs_phase st i) = Some n)" for c
    unfolding slots_okD(1) [OF ok] by blast
  moreover have "let w' = snd (cancelActive (rq_chat (rq i)) (hs_world st))
      in turn_ctx (rq_ctx (rq i)) n w' = Some Canceled \<and>
         (\<forall>j m. slot_of (hs_phase st j) = Some m \<longrightarrow> j \<noteq> i \<longrightarrow>
            (m \<in> set (hw_cancelled w') \<longleftrightarrow> m \<in> set (hw_cancelled (hs_world st))))"
    if i: "slot_of (hs_phase st i) = Some n" for i n
    using slots_active [OF ok i] slots_okD(3) [OF ok i] by (auto simp: cancelActive_def turn_ctx_def)
  ultimately show ?thesis using slots_one [OF ok] by blast
qed

theorem one_turn_per_chat_witness:
  "\<exists>st. served demo_server (\<lambda>_. demo_req) st \<and> slot_of (hs_phase st 0) = Some 0 \<and> slot_of (hs_phase st 1) = None \<and>
     turn_ctx (rq_ctx demo_req) 0 (snd (cancelActive ''a'' (hs_world st))) = Some Canceled"
proof -
  let ?cc = "(''hi'', zero_ChatState\<lparr>cs_ChatID := ''a''\<rparr>)" and ?w = "demo_world\<lparr>hw_active := []\<rparr>"
  let ?st1 = "\<lparr>hs_world = ?w, hs_phase = (\<lambda>_. Arrived)(1 := HasRead ?cc)\<rparr>"
  let ?st2 = "\<lparr>hs_world = ?w, hs_phase = (\<lambda>_. Arrived)(1 := HasRead ?cc, 0 := HasRead ?cc)\<rparr>"
  let ?w3 = "?w\<lparr>hw_next := 1, hw_active := [(''a'', 0)]\<rparr>"
  let ?st3 = "\<lparr>hs_world = ?w3, hs_phase = (\<lambda>_. Arrived)(1 := HasRead ?cc, 0 := Running 0 ?cc)\<rparr>"
  have world: "?w = demo_world" by (simp add: demo_world_def)
  have rd: "send_step demo_server demo_req (?w, Arrived) (?w, HasRead ?cc)"
    using demo_read by (intro read_ok) (simp add: world demo_req_def)
  have bg: "send_step demo_server demo_req (?w, HasRead ?cc) (?w3, Running 0 ?cc)"
    using begin_ok [of demo_req ?w ?w3 demo_server ?cc] by (simp add: tryBeginExecution_def demo_world_def demo_req_def)
  have a: "server_step demo_server (\<lambda>_. demo_req) (server_start ?w) ?st1"
    using request [of demo_server "\<lambda>_. demo_req" 1 "server_start ?w" ?w "HasRead ?cc"] rd by (simp add: server_start_def)
  have b: "server_step demo_server (\<lambda>_. demo_req) ?st1 ?st2"
    using request [of demo_server "\<lambda>_. demo_req" 0 ?st1 ?w "HasRead ?cc"] rd by simp
  have c: "server_step demo_server (\<lambda>_. demo_req) ?st2 ?st3"
    using request [of demo_server "\<lambda>_. demo_req" 0 ?st2 ?w3 "Running 0 ?cc"] bg by simp
  have st3: "served demo_server (\<lambda>_. demo_req) ?st3" by (rule served_step [OF served_step [OF served_step [OF served_start a] b] c])
  have "slot_of (hs_phase ?st3 0) = Some 0" by simp
  note conjunct2 [OF conjunct2 [OF one_turn_per_chat [OF st3 demo_keeps_slots]], rule_format, OF this, unfolded Let_def]
  then have "turn_ctx (rq_ctx demo_req) 0 (snd (cancelActive (rq_chat demo_req) ?w3)) = Some Canceled"
    by (elim conjE) simp
  with st3 show ?thesis by (intro exI [of _ ?st3]) (simp add: demo_req_def)
qed



end
