(* ===== verification/Frames.thy ===== *)
theory Frames
  imports Sse JsonText
begin

text \<open>
  JSON on the wire. A printed JSON text has no control characters, so it stays on one line: it can be the data of
  one Server-Sent Event, or one line of a stream of lines.
\<close>

text \<open>The first element that fails a test splits a list.\<close>

lemma takeWhile_split: "takeWhile P s = s \<or> (\<exists>e r. s = takeWhile P s @ e # r \<and> \<not> P e \<and> r = drop (Suc (length (takeWhile P s))) s)"
  by (induction s) auto

definition printable :: "string \<Rightarrow> bool" where
  "printable s \<longleftrightarrow> list_all (\<lambda>c. (32::nat) \<le> of_char c) s"

lemma printable_simps [simp]:
  "printable []" "printable (c # s) \<longleftrightarrow> (32::nat) \<le> of_char c \<and> printable s" "printable (a @ b) \<longleftrightarrow> printable a \<and> printable b"
  by (auto simp: printable_def)

lemma printable_Join: "printable sep \<Longrightarrow> list_all printable xs \<Longrightarrow> printable (Join xs sep)"
proof (induction xs)
  case (Cons x xs)
  then show ?case by (cases xs) simp_all
qed simp

lemma hex_digit_printable: "n < 16 \<Longrightarrow> (32::nat) \<le> of_char (hex_digit n)"
  using hex_digit_code [of n] by auto

lemma u_escape_printable: "n < 65536 \<Longrightarrow> printable (u_escape n)"
  by (simp add: u_escape_def hex_digit_printable less_mult_imp_div_less)

lemma escape_byte_printable: "printable (escape_byte c)"
proof -
  have "printable (u_escape (of_char c))"
    using nat_of_char_less_256 [of c] by (intro u_escape_printable) linarith
  then show ?thesis by (auto simp: escape_byte_def Let_def)
qed

lemma cont_high: "cont c \<Longrightarrow> (128::nat) \<le> of_char c"
  by (simp add: cont_def in_range_def)

lemma rune_len_first: "\<not> in_range a 0 0x7F \<Longrightarrow> (128::nat) \<le> of_char a"
  by (simp add: in_range_def)

lemma second_high:
  "in_range a 0xE0 0xE0 \<and> in_range b 0xA0 0xBF \<or> in_range a 0xE1 0xEC \<and> cont b \<or>
   in_range a 0xED 0xED \<and> in_range b 0x80 0x9F \<or> in_range a 0xEE 0xEF \<and> cont b \<Longrightarrow> (128::nat) \<le> of_char b"
  "in_range a 0xF0 0xF0 \<and> in_range b 0x90 0xBF \<or> in_range a 0xF1 0xF3 \<and> cont b \<or>
   in_range a 0xF4 0xF4 \<and> in_range b 0x80 0x8F \<Longrightarrow> (128::nat) \<le> of_char b"
  by (auto simp: in_range_def cont_def)

lemma rune_bytes_high:
  assumes "rune_len s = k" "k > 1"
  shows "list_all (\<lambda>c. (128::nat) \<le> of_char c) (take k s)"
proof (cases s)
  case (Cons a s1)
  then have a: "(128::nat) \<le> of_char a" using assms rune_len_first [of a] by (auto simp: rune_len.simps split: if_split_asm)
  have na: "\<not> in_range a 0 0x7F" using assms Cons by (auto simp: rune_len.simps split: if_split_asm)
  show ?thesis
  proof (cases s1)
    case Nil with assms Cons na show ?thesis by (simp add: rune_len.simps)
  next
    case s2: (Cons b s2)
    show ?thesis
    proof (cases "in_range a 0xC2 0xDF \<and> cont b")
      case True
      then have "k = 2" using assms(1) Cons s2 na by (simp add: rune_len.simps)
      with True a Cons s2 cont_high [of b] show ?thesis by (simp add: numeral_2_eq_2)
    next
      case n2: False
      show ?thesis
      proof (cases s2)
        case Nil with assms Cons s2 na n2 show ?thesis by (simp add: rune_len.simps)
      next
        case s3: (Cons c s3)
        show ?thesis
        proof (cases "cont c \<and> (in_range a 0xE0 0xE0 \<and> in_range b 0xA0 0xBF \<or> in_range a 0xE1 0xEC \<and> cont b \<or>
            in_range a 0xED 0xED \<and> in_range b 0x80 0x9F \<or> in_range a 0xEE 0xEF \<and> cont b)")
          case True
          then have "k = 3" using assms(1) unfolding Cons s2 s3 rune_len.simps if_not_P [OF na] list.case if_not_P [OF n2] by simp
          with True a Cons s2 s3 cont_high [of c] second_high(1) [of a b] show ?thesis by (simp add: numeral_3_eq_3)
        next
          case n3: False
          show ?thesis
          proof (cases s3)
            case Nil
            with assms show ?thesis
              unfolding Cons s2 s3 rune_len.simps if_not_P [OF na] list.case if_not_P [OF n2] if_not_P [OF n3] by simp
          next
            case s4: (Cons d s4)
            have "cont c \<and> cont d \<and> (in_range a 0xF0 0xF0 \<and> in_range b 0x90 0xBF \<or> in_range a 0xF1 0xF3 \<and> cont b \<or>
                in_range a 0xF4 0xF4 \<and> in_range b 0x80 0x8F) \<and> k = 4"
              using assms
              unfolding Cons s2 s3 s4 rune_len.simps if_not_P [OF na] list.case if_not_P [OF n2] if_not_P [OF n3]
              by (simp split: if_split_asm)
            with a Cons s2 s3 s4 cont_high [of c] cont_high [of d] second_high(2) [of a b]
            show ?thesis by (simp add: eval_nat_numeral)
          qed
        qed
      qed
    qed
  qed
qed (use assms in \<open>simp add: rune_len.simps\<close>)

lemma rune_bytes: "rune_len s = k \<Longrightarrow> k > 1 \<Longrightarrow> printable (take k s)"
  using rune_bytes_high [of s k] by (auto simp: printable_def list_all_iff)

lemma escape_printable: "printable (escape_fuel n s)"
proof (induction n s rule: escape_fuel.induct)
  case (3 n c s)
  let ?k = "rune_len (c # s)"
  consider "?k = 0" | "?k = 1" | "?k > 1" by linarith
  then show ?case
  proof cases
    case 3
    then have "?k \<noteq> 0" "?k \<noteq> 1" by auto
    with 3 rune_bytes [OF refl 3] "3.IH" show ?thesis by (simp add: Let_def u_escape_printable)
  qed (use "3.IH" in \<open>simp_all add: Let_def u_escape_printable escape_byte_printable\<close>)
qed simp_all

lemma print_string_printable: "printable (print_string s)"
  by (simp add: print_string_def escape_printable)

definition num_char :: "char \<Rightarrow> bool" where
  "num_char c \<longleftrightarrow> is_digit c \<or> c \<in> {CHR ''-'', CHR ''+'', CHR ''.'', CHR ''e'', CHR ''E''}"

lemma num_char_printable: "list_all num_char s \<Longrightarrow> printable s"
  by (induction s) (auto simp: num_char_def is_digit_def)

lemma digits_num: "list_all num_char (takeWhile is_digit s)"
  by (induction s) (auto simp: num_char_def)

lemma take_prefix_char: "HasPrefix s [c] \<Longrightarrow> take (Suc 0) s = [c]"
  by (cases s) (auto simp: HasPrefix_def)

lemma exponent_chars:
  assumes "(if HasPrefix s2 ''e'' \<or> HasPrefix s2 ''E'' then
      (let sg = (if HasPrefix (drop 1 s2) ''+'' \<or> HasPrefix (drop 1 s2) ''-'' then take 1 (drop 1 s2) else []);
           (d, r) = take_digits (drop (1 + length sg) s2)
       in if d = [] then (''!'', r) else (take 1 s2 @ sg @ d, r))
    else ([], s2)) = (ep, s3)" "ep \<noteq> ''!''"
  shows "list_all num_char ep"
proof (cases "HasPrefix s2 ''e'' \<or> HasPrefix s2 ''E''")
  case True
  define sg where "sg = (if HasPrefix (drop 1 s2) ''+'' \<or> HasPrefix (drop 1 s2) ''-'' then take 1 (drop 1 s2) else [])"
  have sg: "list_all num_char sg" by (auto simp: sg_def take_prefix_char num_char_def)
  have "list_all num_char (take 1 s2)" using True by (auto simp: take_prefix_char num_char_def)
  moreover have "ep = take 1 s2 @ sg @ takeWhile is_digit (drop (1 + length sg) s2)"
    using assms True unfolding sg_def [symmetric] Let_def take_digits_def by (simp split: if_split_asm)
  ultimately show ?thesis using sg digits_num by simp
qed (use assms in simp)

lemma number_lexeme_chars:
  assumes "number_lexeme s = Some (l, r)"
  shows "list_all num_char l"
proof -
  define sign where "sign = (if HasPrefix s ''-'' then ''-'' else [])"
  obtain ip s1 where ip: "take_digits (drop (length sign) s) = (ip, s1)" by fastforce
  obtain fp s2 where fp: "(if HasPrefix s1 ''.'' then (case take_digits (drop 1 s1) of (d, r) \<Rightarrow> (''.'' @ d, r)) else ([], s1)) = (fp, s2)"
    by fastforce
  obtain ep s3 where ep: "(if HasPrefix s2 ''e'' \<or> HasPrefix s2 ''E'' then
      (let sg = (if HasPrefix (drop 1 s2) ''+'' \<or> HasPrefix (drop 1 s2) ''-'' then take 1 (drop 1 s2) else []);
           (d, r) = take_digits (drop (1 + length sg) s2)
       in if d = [] then (''!'', r) else (take 1 s2 @ sg @ d, r))
    else ([], s2)) = (ep, s3)" by fastforce
  have l: "l = sign @ ip @ fp @ ep \<and> ep \<noteq> ''!''"
    using assms unfolding number_lexeme_def Let_def sign_def [symmetric] ip prod.case fp ep [unfolded Let_def]
    by (simp split: if_split_asm)
  have "list_all num_char sign" by (simp add: sign_def num_char_def)
  moreover have "list_all num_char ip" using ip digits_num by (auto simp: take_digits_def)
  moreover have "list_all num_char fp" using fp digits_num by (auto simp: take_digits_def num_char_def split: if_split_asm)
  ultimately show ?thesis using l exponent_chars [OF ep] by simp
qed

lemma json_print_printable: "json_ok j \<Longrightarrow> printable (json_print j)"
proof (induction j)
  case (JNum l)
  then show ?case using number_lexeme_chars num_char_printable by (auto simp: num_ok_def)
next
  case (JArr vs)
  then show ?case by (auto simp: list_all_iff intro!: printable_Join)
next
  case (JObj ms)
  then show ?case by (fastforce simp: list_all_iff print_string_printable intro!: printable_Join)
qed (auto simp: print_string_printable)

lemma printable_one_line: "printable s \<Longrightarrow> one_line s"
  unfolding printable_def by (rule one_line_plain)

text \<open>A frame with a JSON text as its data is well formed when it fits.\<close>

lemma frame_ok_json:
  "printable t \<Longrightarrow> graphic (hd t) \<Longrightarrow> graphic (last t) \<Longrightarrow> json_ok j \<Longrightarrow> length t + 7 < limit \<Longrightarrow>
   length (json_print j) + 6 < limit \<Longrightarrow> frame_ok limit (t, json_print j)"
  using TrimSpace_space [of t] by (simp add: frame_ok_def printable_one_line json_print_printable)

text \<open>An object begins and ends with its braces: trimming leaves it alone.\<close>

lemma object_trimmed: "TrimSpace (json_print (JObj ms)) = json_print (JObj ms)"
  by (rule TrimSpace_id) (simp_all add: graphic_def)

text \<open>The lines of a stream of lines.\<close>

lemma scan_text_lines:
  assumes "list_all one_line ls" "list_all (\<lambda>l. length l < limit) ls"
  shows "scan_lines limit (concat (map (\<lambda>l. l @ nl) ls)) = (ls, False)"
proof -
  have raw: "raw_lines (concat (map (\<lambda>l. l @ nl) ls)) = ls"
    using assms(1) by (induction ls) (simp_all add: raw_lines_line one_lineD)
  have "map (\<lambda>l. TrimSuffix l cr) ls = ls"
    using assms(1) by (induction ls) (simp_all add: TrimSuffix_cr one_lineD)
  moreover have "takeWhile (\<lambda>l. length l < limit) ls = ls"
    using assms(2) by (induction ls) simp_all
  ultimately show ?thesis unfolding scan_lines_def raw Let_def by (simp only:) simp
qed

end
