(* ===== verification/Http_Client.thy ===== *)
theory Http_Client
  imports Prelude
begin

text \<open>
  The client side of \<^verbatim>\<open>net/http\<close>, which the model providers, the MCP transport and the web tools call: a
  parameter of the model. A response is a status, a body, and the error that reading the body ends with, if any.
\<close>

record http_request =
  hq_Method :: string
  hq_URL :: string
  hq_Header :: "(string \<times> string) list"
  hq_Body :: string

record http_response =
  hp_Status :: int
  hp_Body :: string
  hp_ReadErr :: "go_error option"

text \<open>\<open>hc_NewRequest\<close> is the error of \<open>http.NewRequestWithContext\<close> for a URL it rejects, \<open>hc_Do\<close> sends.\<close>

record 'w http_client =
  hc_NewRequest :: "string \<Rightarrow> string \<Rightarrow> go_error option"
  hc_Do :: "http_request \<Rightarrow> 'w \<Rightarrow> http_response result \<times> 'w"

text \<open>\<open>io.ReadAll(resp.Body)\<close>.\<close>

definition ReadAll :: "http_response \<Rightarrow> string result" where
  "ReadAll resp = (case hp_ReadErr resp of None \<Rightarrow> Inr (hp_Body resp) | Some e \<Rightarrow> Inl e)"

end
