(* ===== verification/Tools.thy ===== *)
theory Tools
  imports Agent Json
begin

text \<open>
  \<^verbatim>\<open>pkg/tools/tool.go\<close>: the tool interface, the name-keyed registry and its definitions for the
  model, and the argument readers every tool uses. Arguments arrive as a map from key to JSON value.
\<close>

record 'w Tool =
  tl_Name :: string
  tl_Description :: string
  tl_Schema :: string
  tl_Execute :: "(string \<times> json) list \<Rightarrow> InvocationMeta \<Rightarrow> 'w \<Rightarrow> string result \<times> 'w"

definition ToDefinition :: "'w Tool \<Rightarrow> ToolDefinition" where
  "ToDefinition t =
     \<lparr>td_Name = tl_Name t, td_Description = tl_Description t, td_InputSchema = tl_Schema t\<rparr>"

text \<open>The names are sorted, then looked up again; every name comes from the map's own keys.\<close>

definition ToDefinitions :: "(string \<times> 'w Tool) list \<Rightarrow> ToolDefinition list" where
  "ToDefinitions registry =
     map (\<lambda>name. case map_of registry name of
                   Some t \<Rightarrow> ToDefinition t
                 | None \<Rightarrow> \<lparr>td_Name = [], td_Description = [], td_InputSchema = []\<rparr>)
       (sort (map fst registry))"

definition NewRegistry :: "'w Tool list list \<Rightarrow> (string \<times> 'w Tool) list" where
  "NewRegistry tss = foldl (\<lambda>reg ts. foldl (\<lambda>reg t. put (tl_Name t) t reg) reg ts) [] tss"

text \<open>The error of \<open>json.Unmarshal\<close> on a value of the wrong kind.\<close>

fun json_kind :: "json \<Rightarrow> string" where
  "json_kind JNull = ''null''"
| "json_kind (JBool _) = ''bool''"
| "json_kind (JNum _) = ''number''"
| "json_kind (JStr _) = ''string''"
| "json_kind (JArr _) = ''array''"
| "json_kind (JObj _) = ''object''"

definition mismatch :: "string \<Rightarrow> string \<Rightarrow> go_error" where
  "mismatch kind ty = Err (''json: cannot unmarshal '' @ kind @ '' into Go value of type '' @ ty)"

definition invalid_argument :: "string \<Rightarrow> go_error \<Rightarrow> go_error" where
  "invalid_argument key e = Wrap (''invalid '' @ quote key @ '' argument: '') e []"

definition ArgString :: "(string \<times> json) list \<Rightarrow> string \<Rightarrow> string \<Rightarrow> string result" where
  "ArgString args key d =
     (case map_of args key of
        None \<Rightarrow> Inr d
      | Some raw \<Rightarrow>
          (case dec_string [] raw of
             Some v \<Rightarrow> Inr v
           | None \<Rightarrow> Inl (invalid_argument key (mismatch (json_kind raw) ''string''))))"

definition ArgInt :: "(string \<times> json) list \<Rightarrow> string \<Rightarrow> int \<Rightarrow> int result" where
  "ArgInt args key d =
     (case map_of args key of
        None \<Rightarrow> Inr d
      | Some raw \<Rightarrow>
          (case dec_int 0 raw of
             Some v \<Rightarrow> Inr v
           | None \<Rightarrow>
               Inl (invalid_argument key
                 (mismatch (case raw of JNum l \<Rightarrow> ''number '' @ l | _ \<Rightarrow> json_kind raw) ''int''))))"

definition ArgBool :: "(string \<times> json) list \<Rightarrow> string \<Rightarrow> bool \<Rightarrow> bool result" where
  "ArgBool args key d =
     (case map_of args key of
        None \<Rightarrow> Inr d
      | Some raw \<Rightarrow>
          (case dec_bool False raw of
             Some v \<Rightarrow> Inr v
           | None \<Rightarrow> Inl (invalid_argument key (mismatch (json_kind raw) ''bool''))))"

section \<open>Facts\<close>

lemma NewRegistry_concat:
  "foldl (\<lambda>reg ts. foldl (\<lambda>reg t. put (tl_Name t) t reg) reg ts) reg tss =
   foldl (\<lambda>reg t. put (tl_Name t) t reg) reg (concat tss)"
  by (induction tss arbitrary: reg) auto

lemma NewRegistry_lookup:
  "map_of (NewRegistry tss) n = find (\<lambda>t. tl_Name t = n) (rev (concat tss))"
  by (simp only: NewRegistry_def NewRegistry_concat map_of_foldl_put) (simp split: option.splits)

lemma NewRegistry_distinct [simp]: "distinct (map fst (NewRegistry tss))"
proof -
  have "distinct (map fst reg) \<Longrightarrow> distinct (map fst (foldl (\<lambda>reg t. put (tl_Name t) t reg) reg ts))"
    for ts :: "'a Tool list" and reg
    by (induction ts arbitrary: reg) (auto simp del: distinct_map)
  then show ?thesis by (simp add: NewRegistry_def NewRegistry_concat)
qed

lemma NewRegistry_names: "(n, t) \<in> set (NewRegistry tss) \<Longrightarrow> tl_Name t = n"
  using NewRegistry_lookup [of tss n] map_of_is_SomeI [of "NewRegistry tss" n t]
  by (auto simp: find_Some_iff2)

lemma ToDefinitions_names: "map td_Name (ToDefinitions (NewRegistry tss)) = sort (map fst (NewRegistry tss))"
proof -
  have "(td_Name (case map_of (NewRegistry tss) n of
            Some t \<Rightarrow> ToDefinition t
          | None \<Rightarrow> \<lparr>td_Name = [], td_Description = [], td_InputSchema = []\<rparr>)) = n"
    if "n \<in> set (map fst (NewRegistry tss))" for n
  proof -
    from that obtain t where "map_of (NewRegistry tss) n = Some t"
      by (metis map_of_eq_None_iff list.set_map not_Some_eq)
    then show ?thesis by (auto simp: ToDefinition_def dest: map_of_SomeD NewRegistry_names)
  qed
  then show ?thesis by (auto simp: ToDefinitions_def comp_def intro: map_idI)
qed

section \<open>Properties\<close>

text \<open>
  In a registry built from several lists the last tool of a name wins, the definitions shown to
  the model are sorted by name without duplicates, and they name exactly the registered tools.
\<close>

theorem registry_of_tools:
  "map_of (NewRegistry tss) n = find (\<lambda>t. tl_Name t = n) (rev (concat tss)) \<and>
   sorted (map td_Name (ToDefinitions (NewRegistry tss))) \<and>
   distinct (map td_Name (ToDefinitions (NewRegistry tss))) \<and>
   set (map td_Name (ToDefinitions (NewRegistry tss))) = dom (map_of (NewRegistry tss))"
  by (simp only: NewRegistry_lookup ToDefinitions_names sorted_sort distinct_sort NewRegistry_distinct
      set_sort dom_map_of_conv_image_fst set_map simp_thms)

end
