(* ===== verification/Float64.thy ===== *)
theory Float64
  imports Prelude Complex_Main
begin

text \<open>
  Go's \<open>float64\<close>, exactly: a finite value is a sign and a magnitude, a rational; the arithmetic
  operations round the exact result to the nearest binary64 value, ties to even, as IEEE 754 and
  the Go specification demand. \<open>ParseFloat\<close> reads a decimal literal with correct rounding.
\<close>

datatype float64 = Fin bool rat | Inf bool | NaN

definition pow2 :: "int \<Rightarrow> rat" where
  "pow2 e = (if 0 \<le> e then 2 ^ nat e else 1 / 2 ^ nat (- e))"

fun bitlen :: "int \<Rightarrow> int" where
  "bitlen n = (if n \<le> 0 then 0 else 1 + bitlen (n div 2))"

declare bitlen.simps [simp del]

definition round_half_even :: "rat \<Rightarrow> int" where
  "round_half_even x =
     (let f = \<lfloor>x\<rfloor>; d = x - of_int f
      in if d < 1 / 2 then f else if d > 1 / 2 then f + 1 else if even f then f else f + 1)"

text \<open>The exponent of the last place: the unit of the 53-bit significand, at least \<open>2^-1074\<close>.\<close>

definition ulp_exp :: "rat \<Rightarrow> int" where
  "ulp_exp m =
     (let (p, q) = quotient_of m;
          e = bitlen p - bitlen q - 53
      in max (- 1074) (if m \<ge> pow2 (e + 53) then e + 1 else e))"

definition significand :: "rat \<Rightarrow> int" where
  "significand m = round_half_even (m / pow2 (ulp_exp m))"

definition round_mag :: "rat \<Rightarrow> rat" where
  "round_mag m = (if m = 0 then 0 else of_int (significand m) * pow2 (ulp_exp m))"

text \<open>A value of \<open>2^1024\<close> or more after rounding is an infinity.\<close>

definition overflows :: "rat \<Rightarrow> bool" where
  "overflows m \<longleftrightarrow> m \<noteq> 0 \<and> (ulp_exp m > 971 \<or> ulp_exp m = 971 \<and> significand m = 2 ^ 53)"

definition mk_float :: "bool \<Rightarrow> rat \<Rightarrow> float64" where
  "mk_float neg m = (if overflows m then Inf neg else Fin neg (round_mag m))"

definition signed_val :: "bool \<Rightarrow> rat \<Rightarrow> rat" where
  "signed_val neg m = (if neg then - m else m)"

text \<open>Round an exact real-valued result; \<open>z\<close> is the sign of an exact zero.\<close>

definition of_exact :: "bool \<Rightarrow> rat \<Rightarrow> float64" where
  "of_exact z r = (if r = 0 then Fin z 0 else mk_float (r < 0) \<bar>r\<bar>)"

fun fadd :: "float64 \<Rightarrow> float64 \<Rightarrow> float64" where
  "fadd (Fin s a) (Fin t b) = of_exact (s \<and> t) (signed_val s a + signed_val t b)"
| "fadd (Inf s) (Inf t) = (if s = t then Inf s else NaN)"
| "fadd (Inf s) (Fin t b) = Inf s"
| "fadd (Fin s a) (Inf t) = Inf t"
| "fadd _ _ = NaN"

fun fneg :: "float64 \<Rightarrow> float64" where
  "fneg (Fin s a) = Fin (\<not> s) a"
| "fneg (Inf s) = Inf (\<not> s)"
| "fneg NaN = NaN"

definition fsub :: "float64 \<Rightarrow> float64 \<Rightarrow> float64" where
  "fsub x y = fadd x (fneg y)"

fun fmul :: "float64 \<Rightarrow> float64 \<Rightarrow> float64" where
  "fmul (Fin s a) (Fin t b) = (if a = 0 \<or> b = 0 then Fin (s \<noteq> t) 0 else mk_float (s \<noteq> t) (a * b))"
| "fmul (Inf s) (Inf t) = Inf (s \<noteq> t)"
| "fmul (Inf s) (Fin t b) = (if b = 0 then NaN else Inf (s \<noteq> t))"
| "fmul (Fin s a) (Inf t) = (if a = 0 then NaN else Inf (s \<noteq> t))"
| "fmul _ _ = NaN"

fun fdiv :: "float64 \<Rightarrow> float64 \<Rightarrow> float64" where
  "fdiv (Fin s a) (Fin t b) =
     (if b = 0 then (if a = 0 then NaN else Inf (s \<noteq> t))
      else if a = 0 then Fin (s \<noteq> t) 0 else mk_float (s \<noteq> t) (a / b))"
| "fdiv (Inf s) (Fin t b) = Inf (s \<noteq> t)"
| "fdiv (Fin s a) (Inf t) = Fin (s \<noteq> t) 0"
| "fdiv _ _ = NaN"

text \<open>\<open>x == y\<close> and \<open>x < y\<close>: false on NaN, and the two zeros are equal.\<close>

fun feq :: "float64 \<Rightarrow> float64 \<Rightarrow> bool" where
  "feq (Fin s a) (Fin t b) = (signed_val s a = signed_val t b)"
| "feq (Inf s) (Inf t) = (s = t)"
| "feq _ _ = False"

fun flt :: "float64 \<Rightarrow> float64 \<Rightarrow> bool" where
  "flt (Fin s a) (Fin t b) = (signed_val s a < signed_val t b)"
| "flt (Inf s) (Inf t) = (s \<and> \<not> t)"
| "flt (Inf s) (Fin t b) = s"
| "flt (Fin s a) (Inf t) = (\<not> t)"
| "flt _ _ = False"

definition fle :: "float64 \<Rightarrow> float64 \<Rightarrow> bool" where
  "fle x y \<longleftrightarrow> flt x y \<or> feq x y"

definition fzero :: float64 where "fzero = Fin False 0"

text \<open>\<open>x == math.Trunc(x)\<close>.\<close>

fun is_whole :: "float64 \<Rightarrow> bool" where
  "is_whole (Fin s a) = (of_int \<lfloor>a\<rfloor> = a)"
| "is_whole (Inf s) = True"
| "is_whole NaN = False"

fun is_inf :: "float64 \<Rightarrow> bool" where
  "is_inf (Inf s) = True"
| "is_inf _ = False"

text \<open>\<open>float64(n)\<close> for an integer, and \<open>int(math.Ceil(x))\<close> for a finite \<open>x\<close>.\<close>

definition float_of_int :: "int \<Rightarrow> float64" where
  "float_of_int n = of_exact False (of_int n)"

fun int_ceil :: "float64 \<Rightarrow> int" where
  "int_ceil (Fin s a) = \<lceil>signed_val s a\<rceil>"
| "int_ceil _ = - (2 ^ 63)"

text \<open>
  A decimal literal \<open>-? digits [. digits] [(e|E) [+-] digits]\<close> with at least one digit in the
  mantissa; \<open>ParseFloat\<close> fails on other texts and on overflow.
\<close>

definition ten_pow :: "int \<Rightarrow> rat" where
  "ten_pow e = (if 0 \<le> e then 10 ^ nat e else 1 / 10 ^ nat (- e))"

definition parse_exp :: "string \<Rightarrow> int option" where
  "parse_exp s =
     (if s = [] then Some 0
      else if hd s = CHR ''e'' \<or> hd s = CHR ''E'' then
        (let r = tl s; neg = HasPrefix r ''-'';
             ds = (if HasPrefix r ''-'' \<or> HasPrefix r ''+'' then drop 1 r else r)
         in if ds \<noteq> [] \<and> list_all is_digit ds
            then Some (if neg then - digits_val ds else digits_val ds) else None)
      else None)"

definition parse_decimal :: "string \<Rightarrow> (bool \<times> rat) option" where
  "parse_decimal s0 =
     (let neg = HasPrefix s0 ''-'';
          s = (if neg then drop 1 s0 else s0);
          ip = takeWhile is_digit s;
          s1 = dropWhile is_digit s;
          fp = (if HasPrefix s1 ''.'' then takeWhile is_digit (drop 1 s1) else []);
          s2 = (if HasPrefix s1 ''.'' then dropWhile is_digit (drop 1 s1) else s1)
      in if ip = [] \<and> fp = [] then None
         else (case parse_exp s2 of
                 None \<Rightarrow> None
               | Some e \<Rightarrow> Some (neg, of_int (digits_val (ip @ fp)) * ten_pow (e - int (length fp)))))"

definition ParseFloat :: "string \<Rightarrow> float64 option" where
  "ParseFloat s =
     (case parse_decimal s of
        None \<Rightarrow> None
      | Some (neg, m) \<Rightarrow>
          (case mk_float neg m of Inf _ \<Rightarrow> None | f \<Rightarrow> Some f))"

end
