(* ===== verification/Nodes.thy ===== *)
theory Nodes
  imports Agent Tools Float64
begin

text \<open>
  The graph nodes of \<^verbatim>\<open>pkg/agent/nodes\<close> other than "skills": \<^verbatim>\<open>classify.go\<close>, \<^verbatim>\<open>mcp.go\<close>, \<^verbatim>\<open>enrich.go\<close>,
  \<^verbatim>\<open>llm.go\<close>, \<^verbatim>\<open>toolloop.go\<close> and \<^verbatim>\<open>summarize.go\<close>, each as the function a node wraps. An MCP client is
  the record of the two operations the nodes call.
\<close>

type_synonym 'w node_fn = "'w AgentContext \<Rightarrow> 'w \<Rightarrow> 'w AgentContext result \<times> 'w"

record ToolInfo =
  ti_Name :: string
  ti_Description :: string
  ti_InputSchema :: string

record 'w mcp_client =
  mc_ListTools :: "'w \<Rightarrow> ToolInfo list result \<times> 'w"
  mc_CallTool :: "string \<Rightarrow> string \<Rightarrow> 'w \<Rightarrow> (string \<times> bool) result \<times> 'w"

section \<open>classify.go\<close>

definition classify_fn :: "(string \<times> 'w Tool) list \<Rightarrow> 'w node_fn" where
  "classify_fn registry ac w = (Inr (WithTools ac (ToDefinitions registry)), w)"

section \<open>mcp.go\<close>

definition mcpToolName :: "string \<Rightarrow> string \<Rightarrow> string" where
  "mcpToolName serverName toolName = serverName @ ''.'' @ toolName"

definition mcp_defs :: "string \<Rightarrow> ToolInfo list \<Rightarrow> ToolDefinition list" where
  "mcp_defs name infos =
     map (\<lambda>ti. \<lparr>td_Name = mcpToolName name (ti_Name ti), td_Description = ti_Description ti,
               td_InputSchema = ti_InputSchema ti\<rparr>) infos"

text \<open>The loop over the sorted server names; the names are keys of the map.\<close>

fun list_loop ::
  "(string \<times> 'w mcp_client) list \<Rightarrow> string list \<Rightarrow> ToolDefinition list \<Rightarrow> 'w \<Rightarrow> ToolDefinition list \<times> 'w"
where
  "list_loop clients [] defs w = (defs, w)"
| "list_loop clients (name # names) defs w =
     (case map_of clients name of
        None \<Rightarrow> list_loop clients names defs w
      | Some c \<Rightarrow>
          (case mc_ListTools c w of
             (Inl err, w') \<Rightarrow> list_loop clients names defs w'
           | (Inr infos, w') \<Rightarrow> list_loop clients names (defs @ mcp_defs name infos) w'))"

definition mcp_fn :: "(string \<times> 'w mcp_client) list \<Rightarrow> 'w node_fn" where
  "mcp_fn clients ac w =
     (if clients = [] then (Inr ac, w)
      else (case list_loop clients (sort (map fst clients)) [] w of
              (defs, w') \<Rightarrow>
                (if defs = [] then (Inr ac, w')
                 else (Inr (WithTools ac (ac_ActiveTools ac @ defs)), w'))))"

section \<open>enrich.go\<close>

definition contextMarker :: string where "contextMarker = ''<context>''"

definition stripContextMessages :: "Message list \<Rightarrow> Message list" where
  "stripContextMessages msgs =
     filter (\<lambda>m. \<not> (m_Role m = RoleUser \<and> Contains (m_Content m) contextMarker)) msgs"

text \<open>
  The clock and the standard library's time zones: \<open>cl_LoadLocation\<close> says whether a zone name is
  known, \<open>cl_Format t loc\<close> is the time in the layout of \<open>buildContextMessage\<close>.
\<close>

record 'w clock =
  cl_now :: "'w \<Rightarrow> int"
  cl_LoadLocation :: "string \<Rightarrow> bool"
  cl_Format :: "int \<Rightarrow> string \<Rightarrow> string"

definition buildContextMessage :: "'w clock \<Rightarrow> int \<Rightarrow> InvocationMeta \<Rightarrow> Message" where
  "buildContextMessage cl now meta =
     (let loc = (if im_TimeZone meta \<noteq> [] \<and> cl_LoadLocation cl (im_TimeZone meta)
                 then im_TimeZone meta else ''UTC'')
      in zero_Message\<lparr>m_Role := RoleUser, m_Content :=
           contextMarker @ nl @
           ''Background information. Use ONLY if strictly relevant to the user query; otherwise ignore. Do not reference this block in your reply.'' @ nl @
           ''---'' @ nl @
           ''- Current date and time: '' @ cl_Format cl now loc @ nl @
           (if im_Locale meta \<noteq> [] then ''- Locale: '' @ im_Locale meta @ nl else []) @
           ''</context>''\<rparr>)"

definition enrich_fn :: "'w clock \<Rightarrow> 'w node_fn" where
  "enrich_fn cl ac w =
     (let history = stripContextMessages (ac_History ac);
          history' = (if ac_Input ac \<noteq> [] then
                        history @ [buildContextMessage cl (cl_now cl w) (ac_InvocationMeta ac)] @
                        [zero_Message\<lparr>m_Role := RoleUser, m_Content := ac_Input ac\<rparr>]
                      else history)
      in (Inr (ac\<lparr>ac_History := history'\<rparr>), w))"

section \<open>llm.go\<close>

definition buildChatRequest :: "'w AgentContext \<Rightarrow> ChatRequest" where
  "buildChatRequest ac =
     (let messages = ac_History ac;
          size = st_ContextSize (ac_Settings ac);
          messages' = (if size > 0 \<and> int (length messages) > size
                       then drop (length messages - nat size) messages else messages)
      in \<lparr>rq_Model = st_Model (ac_Settings ac), rq_Messages = messages', rq_Tools = ac_ActiveTools ac,
          rq_SystemPrompt = ac_SystemPrompt ac, rq_Temperature = st_Temperature (ac_Settings ac),
          rq_MaxTokens = st_MaxTokens (ac_Settings ac)\<rparr>)"

definition llm_fn :: "'w LLMProvider \<Rightarrow> 'w node_fn" where
  "llm_fn provider ac w =
     (case ChatStream provider (buildChatRequest ac) (\<lambda>s. sink_of ac (EmitDelta s)) w of
        (Inl err, w') \<Rightarrow> (Inl (Wrap ''llm node: '' err []), w')
      | (Inr resp, w') \<Rightarrow>
          (Inr (WithHistory ac [zero_Message\<lparr>m_Role := RoleAssistant, m_Content := rs_Content resp,
                                            m_ToolCalls := rs_ToolCalls resp\<rparr>]), w'))"

section \<open>toolloop.go\<close>

definition lastToolCalls :: "Message list \<Rightarrow> ToolCall list" where
  "lastToolCalls history =
     (case find (\<lambda>m. m_Role m = RoleAssistant) (rev history) of
        Some m \<Rightarrow> m_ToolCalls m
      | None \<Rightarrow> [])"

definition splitMCPToolName :: "string \<Rightarrow> (string \<times> string) option" where
  "splitMCPToolName name =
     (case IndexByte name (CHR ''.'') of
        None \<Rightarrow> None
      | Some idx \<Rightarrow> (if idx = 0 \<or> idx = length name - 1 then None else Some (take idx name, drop (idx + 1) name)))"

text \<open>
  \<open>json.Unmarshal\<close> into \<open>map[string]json.RawMessage\<close>; \<open>jerr raw\<close> is the decoder's error on \<open>raw\<close>.
\<close>

definition parseToolArgs :: "(string \<Rightarrow> go_error) \<Rightarrow> string \<Rightarrow> (string \<times> json) list result" where
  "parseToolArgs jerr raw =
     (if raw = [] then Inr []
      else (case json_parse raw of
              None \<Rightarrow> Inl (jerr raw)
            | Some j \<Rightarrow> (case dec_map JNull dec_raw [] j of None \<Rightarrow> Inl (jerr raw) | Some m \<Rightarrow> Inr m)))"

definition executeLocalTool ::
  "(string \<Rightarrow> go_error) \<Rightarrow> 'w Tool \<Rightarrow> ToolCall \<Rightarrow> InvocationMeta \<Rightarrow> 'w EventSink \<Rightarrow> 'w \<Rightarrow> string \<times> 'w"
where
  "executeLocalTool jerr tool call meta sink w =
     (case parseToolArgs jerr (tc_Args call) of
        Inl err \<Rightarrow>
          (let msg = ''invalid arguments: '' @ error_text err
           in (msg, sink (EmitToolResult (tc_Name call) msg True) w))
      | Inr args \<Rightarrow>
          (case tl_Execute tool args meta w of
             (Inl err, w') \<Rightarrow> (error_text err, sink (EmitToolResult (tc_Name call) (error_text err) True) w')
           | (Inr res, w') \<Rightarrow> (res, sink (EmitToolResult (tc_Name call) res False) w')))"

definition executeMCPTool ::
  "'w mcp_client \<Rightarrow> string \<Rightarrow> ToolCall \<Rightarrow> 'w EventSink \<Rightarrow> 'w \<Rightarrow> string \<times> 'w"
where
  "executeMCPTool client toolName call sink w =
     (case mc_CallTool client toolName (tc_Args call) w of
        (Inl err, w') \<Rightarrow> (error_text err, sink (EmitToolResult (tc_Name call) (error_text err) True) w')
      | (Inr (text, isError), w') \<Rightarrow> (text, sink (EmitToolResult (tc_Name call) text isError) w'))"

text \<open>Where a call goes: a local tool first, then the server the name selects.\<close>

datatype 'w target = Local "'w Tool" | Remote "'w mcp_client" string | NoTool

definition dispatch ::
  "(string \<times> 'w Tool) list \<Rightarrow> (string \<times> 'w mcp_client) list \<Rightarrow> string \<Rightarrow> 'w target"
where
  "dispatch registry clients name =
     (case map_of registry name of
        Some tool \<Rightarrow> Local tool
      | None \<Rightarrow>
          (case splitMCPToolName name of
             None \<Rightarrow> NoTool
           | Some (serverName, toolName) \<Rightarrow>
               (case map_of clients serverName of None \<Rightarrow> NoTool | Some c \<Rightarrow> Remote c toolName)))"

definition executeTool ::
  "(string \<Rightarrow> go_error) \<Rightarrow> (string \<times> 'w Tool) list \<Rightarrow> (string \<times> 'w mcp_client) list \<Rightarrow> ToolCall \<Rightarrow>
   InvocationMeta \<Rightarrow> 'w EventSink \<Rightarrow> 'w \<Rightarrow> string \<times> 'w"
where
  "executeTool jerr registry clients call meta sink w =
     (let w = sink (EmitToolCall (tc_Name call) (tc_Args call)) w in
      case dispatch registry clients (tc_Name call) of
        Local tool \<Rightarrow> executeLocalTool jerr tool call meta sink w
      | Remote c toolName \<Rightarrow> executeMCPTool c toolName call sink w
      | NoTool \<Rightarrow>
          (let msg = ''no such tool: '' @ tc_Name call
           in (msg, sink (EmitToolResult (tc_Name call) msg True) w)))"

definition tool_result :: "ToolCall \<Rightarrow> string \<Rightarrow> Message" where
  "tool_result call content =
     zero_Message\<lparr>m_Role := RoleTool, m_Content := content, m_ToolCallID := tc_ID call, m_Name := tc_Name call\<rparr>"

text \<open>The loop over the calls, over \<open>exec\<close>, which executes one.\<close>

fun results_loop :: "(ToolCall \<Rightarrow> 'w \<Rightarrow> string \<times> 'w) \<Rightarrow> ToolCall list \<Rightarrow> 'w \<Rightarrow> Message list \<times> 'w" where
  "results_loop exec [] w = ([], w)"
| "results_loop exec (call # calls) w =
     (let (content, w') = exec call w; (rs, w'') = results_loop exec calls w'
      in (tool_result call content # rs, w''))"

definition toolloop_fn ::
  "(string \<Rightarrow> go_error) \<Rightarrow> (string \<times> 'w Tool) list \<Rightarrow> (string \<times> 'w mcp_client) list \<Rightarrow> 'w node_fn"
where
  "toolloop_fn jerr registry clients ac w =
     (let calls = lastToolCalls (ac_History ac) in
      if calls = [] then (Inr ac, w)
      else (let (results, w') =
              results_loop (\<lambda>call. executeTool jerr registry clients call (ac_InvocationMeta ac) (sink_of ac)) calls w
            in (Inr (WithHistory ac results), w')))"

section \<open>summarize.go\<close>

definition estimateTokens :: "string \<Rightarrow> int" where
  "estimateTokens s = int_ceil (fdiv (float_of_int (int (length s))) (Fin False 4))"

definition summarizeThreshold :: float64 where
  "summarizeThreshold = mk_float False (8 / 10)"

definition historyIsTooBig :: "'w AgentContext \<Rightarrow> bool" where
  "historyIsTooBig ac =
     (if st_ContextSize (ac_Settings ac) \<le> 0 then False
      else (let estimated = estimateTokens (ac_SystemPrompt ac) +
                  sum_list (map (\<lambda>m. estimateTokens (m_Content m)) (ac_History ac))
            in fle (fmul (float_of_int (st_ContextSize (ac_Settings ac))) summarizeThreshold)
                   (float_of_int estimated)))"

definition summarizationPrefix :: string where
  "summarizationPrefix = ''Previous session was compacted. Resume from this memory dump:''"

text \<open>The summarization prompt is a constant text; it is an argument.\<close>

definition summarize_request :: "string \<Rightarrow> 'w AgentContext \<Rightarrow> ChatRequest" where
  "summarize_request prompt ac =
     \<lparr>rq_Model = st_Model (ac_Settings ac),
      rq_Messages = ac_History ac @ [zero_Message\<lparr>m_Role := RoleUser, m_Content := prompt\<rparr>],
      rq_Tools = [], rq_SystemPrompt = ac_SystemPrompt ac,
      rq_Temperature = st_Temperature (ac_Settings ac), rq_MaxTokens = st_MaxTokens (ac_Settings ac)\<rparr>"

definition summarize_fn :: "string \<Rightarrow> 'w LLMProvider \<Rightarrow> 'w node_fn" where
  "summarize_fn prompt provider ac w =
     (if \<not> historyIsTooBig ac then (Inr ac, w)
      else (case Chat provider (summarize_request prompt ac) w of
              (Inl err, w') \<Rightarrow> (Inl (Wrap ''summarize node: '' err []), w')
            | (Inr resp, w') \<Rightarrow>
                (let summaryMsg = zero_Message\<lparr>m_Role := RoleAssistant,
                       m_Content := summarizationPrefix @ nl @ nl @ rs_Content resp\<rparr>
                 in (Inr (ac\<lparr>ac_History :=
                       (if ac_History ac \<noteq> [] then [summaryMsg, last (ac_History ac)] else [summaryMsg])\<rparr>), w'))))"

section \<open>Tool names\<close>

lemma splitMCPToolName_mcpToolName:
  "splitMCPToolName (mcpToolName s t) = Some (s, t) \<longleftrightarrow> CHR ''.'' \<notin> set s \<and> s \<noteq> [] \<and> t \<noteq> []"
proof (cases "CHR ''.'' \<in> set s")
  case True
  then obtain i where i: "IndexByte (s @ CHR ''.'' # t) (CHR ''.'') = Some i"
    using IndexByte_None [of "s @ CHR ''.'' # t"] by fastforce
  have "CHR ''.'' \<notin> set (take i (s @ CHR ''.'' # t))" using IndexByte_Some [OF i] by simp
  with True have "take i (s @ CHR ''.'' # t) \<noteq> s" by metis
  with i True show ?thesis by (auto simp: splitMCPToolName_def mcpToolName_def)
next
  case False
  then show ?thesis
    by (auto simp: splitMCPToolName_def mcpToolName_def IndexByte_append)
qed

lemma splitMCPToolName_Some:
  "splitMCPToolName n = Some (s, t) \<Longrightarrow> n = mcpToolName s t \<and> CHR ''.'' \<notin> set s \<and> s \<noteq> [] \<and> t \<noteq> []"
  by (auto simp: splitMCPToolName_def mcpToolName_def split: option.splits if_splits
      dest!: IndexByte_Some) (metis Cons_nth_drop_Suc append_take_drop_id)

text \<open>What the model is offered for a server reaches that server, unless a local tool has the name.\<close>

lemma dispatch_advertised:
  assumes "CHR ''.'' \<notin> set s" "s \<noteq> []" "t \<noteq> []" "map_of clients s = Some c" "map_of registry (mcpToolName s t) = None"
  shows "dispatch registry clients (mcpToolName s t) = Remote c t"
  using assms splitMCPToolName_mcpToolName [of s t] by (simp add: dispatch_def)

lemma dispatch_dotted_server:
  assumes "CHR ''.'' \<in> set s" "map_of registry (mcpToolName s t) = None"
    and "\<forall>n \<in> fst ` set clients. CHR ''.'' \<in> set n"
  shows "dispatch registry clients (mcpToolName s t) = NoTool"
proof -
  have "map_of clients a = None" if "splitMCPToolName (mcpToolName s t) = Some (a, b)" for a b
    using splitMCPToolName_Some [OF that] assms(3) by (auto simp: map_of_eq_None_iff)
  with assms(2) show ?thesis by (auto simp: dispatch_def split: option.splits)
qed

section \<open>Tool results\<close>

text \<open>
  A history is answered when every assistant message with tool calls is followed at once by one tool
  result for each of its calls, in the order of the calls: the shape every provider's API demands.
\<close>

definition calls_of :: "Message \<Rightarrow> ToolCall list" where
  "calls_of m = (if m_Role m = RoleAssistant then m_ToolCalls m else [])"

definition answers :: "ToolCall list \<Rightarrow> Message list \<Rightarrow> bool" where
  "answers calls ms \<longleftrightarrow>
     map (\<lambda>m. (m_Role m, m_ToolCallID m, m_Name m)) ms = map (\<lambda>c. (RoleTool, tc_ID c, tc_Name c)) calls"

function answered :: "Message list \<Rightarrow> bool" where
  "answered [] = True"
| "answered (m # ms) =
     (answers (calls_of m) (take (length (calls_of m)) ms) \<and> answered (drop (length (calls_of m)) ms))"
  by pat_completeness auto
termination by (relation "measure length") auto

lemma answers_Nil [simp]: "answers [] ms \<longleftrightarrow> ms = []"
  by (simp add: answers_def)

lemma answers_length: "answers cs ms \<Longrightarrow> length ms = length cs"
  unfolding answers_def by (drule arg_cong [where f = length]) (simp only: length_map)

lemma answers_tool: "answers cs ms \<Longrightarrow> m \<in> set ms \<Longrightarrow> m_Role m = RoleTool"
proof -
  assume a: "answers cs ms" and m: "m \<in> set ms"
  from m have "(m_Role m, m_ToolCallID m, m_Name m) \<in> set (map (\<lambda>m. (m_Role m, m_ToolCallID m, m_Name m)) ms)"
    by auto
  also have "\<dots> = set (map (\<lambda>c. (RoleTool, tc_ID c, tc_Name c)) cs)" using a by (simp only: answers_def)
  finally show "m_Role m = RoleTool" by auto
qed

lemma results_loop_answers: "results_loop exec calls w = (rs, w') \<Longrightarrow> answers calls rs"
  by (induction calls arbitrary: w rs) (auto simp: answers_def tool_result_def split: prod.splits)

lemma answers_append: "answers cs ms \<Longrightarrow> take (length cs) (ms @ rest) = ms \<and> drop (length cs) (ms @ rest) = rest"
  by (simp add: answers_length)

lemma answered_append: "answered xs \<Longrightarrow> answered ys \<Longrightarrow> answered (xs @ ys)"
proof (induction xs rule: answered.induct)
  case (2 m ms)
  have "length (take (length (calls_of m)) ms) = length (calls_of m)"
    using "2.prems"(1) answers_length [of "calls_of m" "take (length (calls_of m)) ms"]
    by (simp only: answered.simps)
  then have "length (calls_of m) \<le> length ms" by simp
  with 2 show ?case by simp
qed simp

lemma answered_plain: "\<forall>m \<in> set ms. calls_of m = [] \<Longrightarrow> answered ms"
  by (induction ms) auto

lemma answered_round:
  "answered h \<Longrightarrow> m_Role m = RoleAssistant \<Longrightarrow> answers (m_ToolCalls m) rs \<Longrightarrow> answered (h @ m # rs)"
  using answers_append [of "m_ToolCalls m" rs "[]"]
  by (intro answered_append) (auto simp: calls_of_def)

lemma calls_of_tool: "m_Role m = RoleTool \<Longrightarrow> calls_of m = []"
  by (simp add: calls_of_def)

lemma answered_filter:
  assumes "\<And>m. \<not> P m \<Longrightarrow> m_Role m \<noteq> RoleTool \<and> calls_of m = []"
  shows "answered ms \<Longrightarrow> answered (filter P ms)"
proof (induction ms rule: answered.induct)
  case (2 m ms)
  let ?n = "length (calls_of m)"
  from "2.prems" have a: "answers (calls_of m) (take ?n ms)" and r: "answered (filter P (drop ?n ms))"
    using 2 by auto
  have "filter P (take ?n ms) = take ?n ms"
    using answers_tool [OF a] assms by (intro filter_True) blast
  then have ms: "filter P ms = take ?n ms @ filter P (drop ?n ms)"
    by (metis append_take_drop_id filter_append)
  show ?case
  proof (cases "P m")
    case True
    with a r answers_append [OF a, of "filter P (drop ?n ms)"] show ?thesis
      by (simp only: filter.simps if_True answered.simps ms)
  next
    case False
    with assms have "calls_of m = []" by blast
    with r False show ?thesis by simp
  qed
qed simp

lemma answered_strip: "answered ms \<Longrightarrow> answered (stripContextMessages ms)"
  unfolding stripContextMessages_def by (rule answered_filter) (auto simp: calls_of_def)

section \<open>What each node does to the history\<close>

lemma classify_history: "classify_fn reg ac w = (Inr ac', w') \<Longrightarrow> ac_History ac' = ac_History ac"
  by (auto simp: classify_fn_def WithTools_def)

lemma mcp_history: "mcp_fn cs ac w = (Inr ac', w') \<Longrightarrow> ac_History ac' = ac_History ac"
  by (auto simp: mcp_fn_def WithTools_def split: if_splits prod.splits)

lemma mcp_succeeds: "\<exists>ac' w'. mcp_fn cs ac w = (Inr ac', w')"
  by (auto simp: mcp_fn_def split: prod.splits)

lemma enrich_answered:
  "enrich_fn cl ac w = (Inr ac', w') \<Longrightarrow> answered (ac_History ac) \<Longrightarrow> answered (ac_History ac')"
  by (auto simp: enrich_fn_def Let_def buildContextMessage_def calls_of_def intro!: answered_append answered_strip)

lemma llm_history:
  assumes "llm_fn p ac w = (Inr ac', w')"
  obtains m where "ac_History ac' = ac_History ac @ [m]" "m_Role m = RoleAssistant"
    "ac_InvocationMeta ac' = ac_InvocationMeta ac" "ac_ActiveTools ac' = ac_ActiveTools ac"
  using assms that by (fastforce simp: llm_fn_def WithHistory_def split: prod.splits sum.splits)

lemma lastToolCalls_snoc [simp]: "m_Role m = RoleAssistant \<Longrightarrow> lastToolCalls (h @ [m]) = m_ToolCalls m"
  by (simp add: lastToolCalls_def)

lemma toolloop_history:
  assumes "toolloop_fn jerr reg cs ac w = (Inr ac', w')" "ac_History ac = h @ [m]" "m_Role m = RoleAssistant"
  obtains rs where "ac_History ac' = ac_History ac @ rs" "answers (m_ToolCalls m) rs"
    "ac_InvocationMeta ac' = ac_InvocationMeta ac"
proof (cases "m_ToolCalls m = []")
  case True
  with assms that [of "[]"] show ?thesis by (auto simp: toolloop_fn_def)
next
  case False
  obtain rs w1 where r: "results_loop (\<lambda>call. executeTool jerr reg cs call (ac_InvocationMeta ac) (sink_of ac))
      (m_ToolCalls m) w = (rs, w1)" by force
  with assms False have "ac' = WithHistory ac rs" by (simp add: toolloop_fn_def)
  moreover have "answers (m_ToolCalls m) rs"
    using results_loop_answers [OF r] .
  ultimately show ?thesis using that by (simp add: WithHistory_def)
qed

lemma toolloop_succeeds: "\<exists>ac' w'. toolloop_fn jerr reg cs ac w = (Inr ac', w')"
  by (cases "lastToolCalls (ac_History ac) = []"; cases "results_loop
      (\<lambda>call. executeTool jerr reg cs call (ac_InvocationMeta ac) (sink_of ac)) (lastToolCalls (ac_History ac)) w")
    (auto simp: toolloop_fn_def)

lemma summarize_answered:
  assumes "summarize_fn prompt p ac w = (Inr ac', w')" "answered (ac_History ac)"
    and "ac_History ac \<noteq> []" "calls_of (last (ac_History ac)) = []"
  shows "answered (ac_History ac')"
  using assms by (auto simp: summarize_fn_def Let_def calls_of_def zero_Message_def split: if_splits prod.splits sum.splits)

section \<open>Properties\<close>

text \<open>
  the name under which a server's tool is advertised splits back into server and tool exactly
  when neither is empty and the server's name has no dot.
\<close>

theorem tool_name_roundtrip:
  "splitMCPToolName (mcpToolName s t) = Some (s, t) \<longleftrightarrow> CHR ''.'' \<notin> set s \<and> s \<noteq> [] \<and> t \<noteq> []"
  by (rule splitMCPToolName_mcpToolName)

text \<open>
  when every configured server has a dot in its name, no call to any of its advertised tools is
  ever dispatched to a server: the advertised names cannot be routed back.
\<close>

theorem dotted_servers_unreachable:
  assumes "CHR ''.'' \<in> set s" "map_of registry (mcpToolName s t) = None"
    and "\<forall>n \<in> fst ` set clients. CHR ''.'' \<in> set n"
  shows "dispatch registry clients (mcpToolName s t) = NoTool"
  using assms by (rule dispatch_dotted_server)

theorem dotted_servers_unreachable_witness:
  "dispatch [] [(''my.server'', \<lparr>mc_ListTools = (\<lambda>w. (Inr [], w)),
     mc_CallTool = (\<lambda>_ _ w. (Inr ([], False), w))\<rparr>)] (mcpToolName ''my.server'' ''run'') = NoTool"
  by (rule dotted_servers_unreachable) simp_all

text \<open>
  the message window of a request cuts by message count: from an answered history it can drop an
  assistant message and keep the tool results that answer it.
\<close>

theorem window_orphans_tool_results:
  "\<exists>ac :: 'w AgentContext. answered (ac_History ac) \<and>
     map m_Role (rq_Messages (buildChatRequest ac)) = [RoleTool]"
proof -
  let ?call = "\<lparr>tc_ID = ''1'', tc_Name = ''t'', tc_Args = []\<rparr>"
  let ?ac = "(zero_AgentContext :: 'w AgentContext)
    \<lparr>ac_History := [zero_Message\<lparr>m_Role := RoleAssistant, m_ToolCalls := [?call]\<rparr>, tool_result ?call ''x''],
     ac_Settings := zero_Settings\<lparr>st_ContextSize := 1\<rparr>\<rparr>"
  have "answered (ac_History ?ac)"
    by (simp add: zero_AgentContext_def calls_of_def answers_def tool_result_def)
  moreover have "map m_Role (rq_Messages (buildChatRequest ?ac)) = [RoleTool]"
    by (simp add: buildChatRequest_def zero_AgentContext_def zero_Settings_def tool_result_def)
  ultimately show ?thesis by (intro exI [of _ ?ac] conjI)
qed

end
