(* ===== verification/Mcp.thy ===== *)
theory Mcp
  imports Frames Codec Http_Client Nodes
begin

text \<open>
  The MCP client (\<^verbatim>\<open>pkg/mcp\<close>): the JSON-RPC messages (\<^verbatim>\<open>rpc.go\<close>), the requests and the results of
  \<^verbatim>\<open>client.go\<close>, and the two transports: lines of a subprocess (\<^verbatim>\<open>stdio.go\<close>) and Server-Sent Events with
  POST requests (\<^verbatim>\<open>sse.go\<close>). A raw message is its text. How a reply finds its caller is in the theory
  \<^verbatim>\<open>Mcp_Client\<close>.
\<close>

declare json_ok.simps(4) [simp del]

section \<open>rpc.go\<close>

record rpcError =
  er_Code :: int
  er_Message :: string
  er_Data :: string

record rpcMessage =
  rm_JSONRPC :: string
  rm_ID :: string
  rm_Method :: string
  rm_Params :: string
  rm_Result :: string
  rm_Error :: "rpcError option"

definition zero_rpcError :: rpcError where
  "zero_rpcError = \<lparr>er_Code = 0, er_Message = [], er_Data = []\<rparr>"

definition zero_rpcMessage :: rpcMessage where
  "zero_rpcMessage = \<lparr>rm_JSONRPC = [], rm_ID = [], rm_Method = [], rm_Params = [], rm_Result = [], rm_Error = None\<rparr>"

definition dec_rpcError :: "rpcError decoder" where
  "dec_rpcError cur j =
     Option.bind (members j) (\<lambda>ms.
     Option.bind (dec_field ''code'' dec_int (er_Code cur) ms) (\<lambda>c.
     Option.bind (dec_field ''message'' dec_string (er_Message cur) ms) (\<lambda>m.
     Option.bind (dec_field ''data'' dec_raw_text (er_Data cur) ms) (\<lambda>d.
       Some \<lparr>er_Code = c, er_Message = m, er_Data = d\<rparr>))))"

definition dec_rpcMessage :: "rpcMessage decoder" where
  "dec_rpcMessage cur j =
     Option.bind (members j) (\<lambda>ms.
     Option.bind (dec_field ''jsonrpc'' dec_string (rm_JSONRPC cur) ms) (\<lambda>v.
     Option.bind (dec_field ''id'' dec_raw_text (rm_ID cur) ms) (\<lambda>i.
     Option.bind (dec_field ''method'' dec_string (rm_Method cur) ms) (\<lambda>m.
     Option.bind (dec_field ''params'' dec_raw_text (rm_Params cur) ms) (\<lambda>p.
     Option.bind (dec_field ''result'' dec_raw_text (rm_Result cur) ms) (\<lambda>r.
     Option.bind (dec_field ''error'' (dec_ptr zero_rpcError dec_rpcError) (rm_Error cur) ms) (\<lambda>e.
       Some \<lparr>rm_JSONRPC = v, rm_ID = i, rm_Method = m, rm_Params = p, rm_Result = r, rm_Error = e\<rparr>)))))))"

text \<open>A raw field that is given is never empty: its text is a JSON value, \<open>null\<close> included.\<close>

definition isResponse :: "rpcMessage \<Rightarrow> bool" where
  "isResponse m \<longleftrightarrow> rm_Method m = [] \<and> rm_ID m \<noteq> [] \<and> (rm_Result m \<noteq> [] \<or> rm_Error m \<noteq> None)"

text \<open>
  The parameters of a call: nil, or a value \<open>Marshal\<close> turns into JSON or rejects.
\<close>

type_synonym rpc_params = "json result option"

definition marshalParams :: "rpc_params \<Rightarrow> json option result" where
  "marshalParams p = (case p of None \<Rightarrow> Inr None | Some (Inl e) \<Rightarrow> Inl e | Some (Inr j) \<Rightarrow> Inr (Some j))"

definition opt_params :: "json option \<Rightarrow> (string \<times> json) list" where
  "opt_params p = (case p of None \<Rightarrow> [] | Some j \<Rightarrow> fld ''params'' j)"

definition request_json :: "int \<Rightarrow> string \<Rightarrow> json option \<Rightarrow> json" where
  "request_json i method p = JObj (
     fld ''jsonrpc'' (JStr ''2.0'') @ fld ''id'' (JNum (Itoa i)) @ fld ''method'' (JStr method) @ opt_params p)"

definition newRequest :: "int \<Rightarrow> string \<Rightarrow> rpc_params \<Rightarrow> string result" where
  "newRequest i method params = map_sum id (\<lambda>p. json_print (request_json i method p)) (marshalParams params)"

definition newNotification :: "string \<Rightarrow> rpc_params \<Rightarrow> string result" where
  "newNotification method params =
     map_sum id (\<lambda>p. json_print (JObj (fld ''jsonrpc'' (JStr ''2.0'') @ fld ''method'' (JStr method) @ opt_params p)))
       (marshalParams params)"

section \<open>client.go\<close>

text \<open>What \<open>pump\<close> makes of a raw message: the id and the response, or nothing.\<close>

definition pump_message :: "string \<Rightarrow> (int \<times> rpcMessage) option" where
  "pump_message raw =
     Option.bind (unmarshal zero_rpcMessage dec_rpcMessage raw) (\<lambda>msg.
       if \<not> isResponse msg then None
       else map_option (\<lambda>i. (i, msg)) (unmarshal 0 dec_int (rm_ID msg)))"

text \<open>The end of \<open>call\<close>: \<open>None\<close> is the closed channel. The result is decoded by the caller.\<close>

definition closed_error :: "string \<Rightarrow> go_error" where
  "closed_error method = Err (''mcp: '' @ method @ '': connection closed before a response arrived'')"

definition call_reply :: "string \<Rightarrow> rpcMessage option \<Rightarrow> string result" where
  "call_reply method reply =
     (case reply of
        None \<Rightarrow> Inl (closed_error method)
      | Some msg \<Rightarrow>
          (case rm_Error msg of
             Some e \<Rightarrow> Inl (Wrap (''mcp: '' @ method @ '': '') (Err (er_Message e)) ('' (code '' @ Itoa (er_Code e) @ '')''))
           | None \<Rightarrow> Inr (rm_Result msg)))"

definition decode_result :: "string \<Rightarrow> 'a \<Rightarrow> 'a decoder \<Rightarrow> string result \<Rightarrow> 'a result" where
  "decode_result method z d r =
     bind_result r (\<lambda>raw.
       case unmarshal z d raw of
         None \<Rightarrow> Inl (Wrap (''mcp: '' @ method @ '': decode result: '') (Err ''invalid JSON'') [])
       | Some x \<Rightarrow> Inr x)"

text \<open>
  The three requests: \<open>cl_call\<close> is \<open>call\<close> up to the raw result, \<open>cl_notify\<close> is \<open>Transport.Send\<close> of a
  notification.
\<close>

record 'w mcp_calls =
  cl_call :: "string \<Rightarrow> rpc_params \<Rightarrow> 'w \<Rightarrow> string result \<times> 'w"
  cl_send :: "string \<Rightarrow> 'w \<Rightarrow> go_error option \<times> 'w"

definition notify :: "'w mcp_calls \<Rightarrow> string \<Rightarrow> rpc_params \<Rightarrow> 'w \<Rightarrow> go_error option \<times> 'w" where
  "notify c method params w =
     (case newNotification method params of
        Inl e \<Rightarrow> (Some (Wrap (''mcp: encode '' @ method @ '' notification: '') e []), w)
      | Inr payload \<Rightarrow> cl_send c payload w)"

definition protocolVersion :: string where
  "protocolVersion = ''2024-11-05''"

record InitializeResult =
  in_ProtocolVersion :: string
  in_Name :: string
  in_Version :: string
  in_Capabilities :: string

definition dec_ServerInfo :: "(string \<times> string) decoder" where
  "dec_ServerInfo cur j =
     Option.bind (members j) (\<lambda>ms.
     Option.bind (dec_field ''name'' dec_string (fst cur) ms) (\<lambda>n.
     Option.bind (dec_field ''version'' dec_string (snd cur) ms) (\<lambda>v. Some (n, v))))"

definition dec_InitializeResult :: "InitializeResult decoder" where
  "dec_InitializeResult cur j =
     Option.bind (members j) (\<lambda>ms.
     Option.bind (dec_field ''protocolVersion'' dec_string (in_ProtocolVersion cur) ms) (\<lambda>p.
     Option.bind (dec_field ''serverInfo'' dec_ServerInfo (in_Name cur, in_Version cur) ms) (\<lambda>(n, v).
     Option.bind (dec_field ''capabilities'' dec_raw_text (in_Capabilities cur) ms) (\<lambda>c.
       Some \<lparr>in_ProtocolVersion = p, in_Name = n, in_Version = v, in_Capabilities = c\<rparr>))))"

text \<open>Maps are printed with their keys in order.\<close>

definition initialize_params :: "string \<Rightarrow> string \<Rightarrow> json" where
  "initialize_params clientName clientVersion = JObj [
     (''capabilities'', JObj []),
     (''clientInfo'', JObj [(''name'', JStr clientName), (''version'', JStr clientVersion)]),
     (''protocolVersion'', JStr protocolVersion)]"

definition Initialize :: "'w mcp_calls \<Rightarrow> string \<Rightarrow> string \<Rightarrow> 'w \<Rightarrow> InitializeResult result \<times> 'w" where
  "Initialize c clientName clientVersion w =
     (let (r, w1) = cl_call c ''initialize'' (Some (Inr (initialize_params clientName clientVersion))) w
      in case decode_result ''initialize'' \<lparr>in_ProtocolVersion = [], in_Name = [], in_Version = [], in_Capabilities = []\<rparr>
                dec_InitializeResult r of
           Inl e \<Rightarrow> (Inl e, w1)
         | Inr result \<Rightarrow>
             (case notify c ''notifications/initialized'' None w1 of
                (Some e, w2) \<Rightarrow> (Inl (Wrap ''mcp: send initialized notification: '' e []), w2)
              | (None, w2) \<Rightarrow> (Inr result, w2)))"

definition zero_ToolInfo :: ToolInfo where
  "zero_ToolInfo = \<lparr>ti_Name = [], ti_Description = [], ti_InputSchema = []\<rparr>"

definition dec_ToolInfo :: "ToolInfo decoder" where
  "dec_ToolInfo cur j =
     Option.bind (members j) (\<lambda>ms.
     Option.bind (dec_field ''name'' dec_string (ti_Name cur) ms) (\<lambda>n.
     Option.bind (dec_field ''description'' dec_string (ti_Description cur) ms) (\<lambda>d.
     Option.bind (dec_field ''inputSchema'' dec_raw_text (ti_InputSchema cur) ms) (\<lambda>s.
       Some \<lparr>ti_Name = n, ti_Description = d, ti_InputSchema = s\<rparr>))))"

definition dec_tools :: "ToolInfo list decoder" where
  "dec_tools cur j =
     Option.bind (members j) (dec_field ''tools'' (dec_list zero_ToolInfo dec_ToolInfo) cur)"

definition ListTools :: "'w mcp_calls \<Rightarrow> 'w \<Rightarrow> ToolInfo list result \<times> 'w" where
  "ListTools c w =
     (let (r, w1) = cl_call c ''tools/list'' (Some (Inr (JObj []))) w
      in (decode_result ''tools/list'' [] dec_tools r, w1))"

record contentBlock =
  cb_Type :: string
  cb_Text :: string

definition zero_contentBlock :: contentBlock where
  "zero_contentBlock = \<lparr>cb_Type = [], cb_Text = []\<rparr>"

definition dec_contentBlock :: "contentBlock decoder" where
  "dec_contentBlock cur j =
     Option.bind (members j) (\<lambda>ms.
     Option.bind (dec_field ''type'' dec_string (cb_Type cur) ms) (\<lambda>ty.
     Option.bind (dec_field ''text'' dec_string (cb_Text cur) ms) (\<lambda>tx.
       Some \<lparr>cb_Type = ty, cb_Text = tx\<rparr>)))"

definition dec_tool_result :: "(contentBlock list \<times> bool) decoder" where
  "dec_tool_result cur j =
     Option.bind (members j) (\<lambda>ms.
     Option.bind (dec_field ''content'' (dec_list zero_contentBlock dec_contentBlock) (fst cur) ms) (\<lambda>cs.
     Option.bind (dec_field ''isError'' dec_bool (snd cur) ms) (\<lambda>e. Some (cs, e))))"

text \<open>The arguments are a raw message: \<open>Marshal\<close> fails when they are not JSON.\<close>

definition call_params :: "string \<Rightarrow> string \<Rightarrow> json result" where
  "call_params name arguments =
     (case json_parse (if arguments = [] then ''{}'' else arguments) of
        None \<Rightarrow> Inl (Err ''json: error calling MarshalJSON for type json.RawMessage'')
      | Some j \<Rightarrow> Inr (JObj [(''arguments'', j), (''name'', JStr name)]))"

definition CallTool :: "'w mcp_calls \<Rightarrow> string \<Rightarrow> string \<Rightarrow> 'w \<Rightarrow> (string \<times> bool) result \<times> 'w" where
  "CallTool c name arguments w =
     (let (r, w1) = cl_call c ''tools/call'' (Some (call_params name arguments)) w
      in case decode_result ''tools/call'' ([], False) dec_tool_result r of
           Inl e \<Rightarrow> (Inl e, w1)
         | Inr (content, isError) \<Rightarrow> (Inr (concat (map cb_Text (filter (\<lambda>b. cb_Type b = ''text'') content)), isError), w1))"

text \<open>The client as the graph nodes see it.\<close>

definition calls_client :: "'w mcp_calls \<Rightarrow> 'w mcp_client" where
  "calls_client c = \<lparr>mc_ListTools = ListTools c, mc_CallTool = CallTool c\<rparr>"

section \<open>stdio.go\<close>

definition maxLineBytes :: nat where
  "maxLineBytes = 10 * 2 ^ 20"

text \<open>\<open>Send\<close> writes the message and a line feed to the input of the subprocess; \<open>stdio_Send\<close> is what is written.\<close>

definition stdio_Send :: "string \<Rightarrow> string" where
  "stdio_Send msg = msg @ nl"

definition stdio_readLoop :: "string \<Rightarrow> string list" where
  "stdio_readLoop stdout = filter (\<lambda>l. l \<noteq> []) (map TrimSpace (fst (scan_lines maxLineBytes stdout)))"

section \<open>sse.go\<close>

text \<open>\<open>tr_resolve\<close> resolves a reference against the base URL, as \<^verbatim>\<open>net/url\<close> does; \<open>None\<close> when one does not parse.\<close>

record sse_transport =
  tr_URL :: string
  tr_resolve :: "string \<Rightarrow> string option"

record sse_reader =
  sr_event :: string
  sr_data :: "string list"
  sr_recv :: "string list"
  sr_postURL :: string
  sr_ready :: nat

definition sse_reader_start :: sse_reader where
  "sse_reader_start = \<lparr>sr_event = [], sr_data = [], sr_recv = [], sr_postURL = [], sr_ready = 0\<rparr>"

text \<open>\<open>Start\<close> up to the read loop: the body of the event stream.\<close>

definition sse_connect :: "'w http_client \<Rightarrow> sse_transport \<Rightarrow> 'w \<Rightarrow> http_response result \<times> 'w" where
  "sse_connect hc t w =
     (case hc_NewRequest hc ''GET'' (tr_URL t) of
        Some e \<Rightarrow> (Inl (Wrap ''mcp: build sse request: '' e []), w)
      | None \<Rightarrow>
          (case hc_Do hc \<lparr>hq_Method = ''GET'', hq_URL = tr_URL t, hq_Header = [(''Accept'', ''text/event-stream'')], hq_Body = []\<rparr> w of
             (Inl e, w1) \<Rightarrow> (Inl (Wrap ''mcp: connect sse: '' e []), w1)
           | (Inr resp, w1) \<Rightarrow>
               (if hp_Status resp \<ge> 300 then (Inl (Err (''mcp: connect sse: status '' @ Itoa (hp_Status resp))), w1)
                else (Inr resp, w1))))"

text \<open>\<open>sr_ready\<close> counts how often the channel \<open>ready\<close> is closed.\<close>

definition setPostURL :: "sse_transport \<Rightarrow> string \<Rightarrow> sse_reader \<Rightarrow> sse_reader" where
  "setPostURL t raw s =
     (let resolved = (case tr_resolve t raw of Some u \<Rightarrow> u | None \<Rightarrow> raw);
          alreadySet = (sr_postURL s \<noteq> [])
      in s\<lparr>sr_postURL := resolved, sr_ready := (if alreadySet then sr_ready s else sr_ready s + 1)\<rparr>)"

definition mcp_event :: "sse_transport \<Rightarrow> string \<Rightarrow> string \<Rightarrow> sse_reader \<Rightarrow> sse_reader" where
  "mcp_event t ty data s =
     (if ty = ''endpoint'' then setPostURL t data s
      else if ty = ''message'' \<or> ty = [] then s\<lparr>sr_recv := sr_recv s @ [data]\<rparr>
      else s)"

definition mcp_flush :: "sse_transport \<Rightarrow> sse_reader \<Rightarrow> sse_reader" where
  "mcp_flush t s =
     (if sr_data s = [] then s\<lparr>sr_event := []\<rparr>
      else (mcp_event t (sr_event s) (Join (sr_data s) nl) (s\<lparr>sr_data := []\<rparr>))\<lparr>sr_event := []\<rparr>)"

definition mcp_line :: "sse_transport \<Rightarrow> string \<Rightarrow> sse_reader \<Rightarrow> sse_reader" where
  "mcp_line t line s =
     (if line = [] then mcp_flush t s
      else if HasPrefix line ''event:'' then s\<lparr>sr_event := event_of line\<rparr>
      else if HasPrefix line ''data:'' then s\<lparr>sr_data := sr_data s @ [data_of line]\<rparr>
      else s)"

definition sse_readLoop :: "sse_transport \<Rightarrow> string \<Rightarrow> sse_reader" where
  "sse_readLoop t body = mcp_flush t (fold (mcp_line t) (fst (scan_lines maxLineBytes body)) sse_reader_start)"

definition sse_Send :: "'w http_client \<Rightarrow> string \<Rightarrow> string \<Rightarrow> 'w \<Rightarrow> go_error option \<times> 'w" where
  "sse_Send hc postURL msg w =
     (if postURL = [] then (Some (Err ''mcp: transport not ready: no endpoint from the server yet''), w)
      else (case hc_NewRequest hc ''POST'' postURL of
              Some e \<Rightarrow> (Some (Wrap ''mcp: build post request: '' e []), w)
            | None \<Rightarrow>
                (case hc_Do hc \<lparr>hq_Method = ''POST'', hq_URL = postURL, hq_Header = [(''Content-Type'', ''application/json'')],
                        hq_Body = msg\<rparr> w of
                   (Inl e, w1) \<Rightarrow> (Some (Wrap ''mcp: post message: '' e []), w1)
                 | (Inr resp, w1) \<Rightarrow>
                     (if hp_Status resp \<ge> 300
                      then (Some (Err (''mcp: post message: status '' @ Itoa (hp_Status resp) @ '': '' @ hp_Body resp)), w1)
                      else (None, w1)))))"

section \<open>Messages over the transports\<close>

interpretation mcp: frame_reader maxLineBytes "mcp_line t" "\<lambda>e. mcp_event t (fst e) (snd e)"
  "\<lambda>s. sr_data s = [] \<and> sr_event s = []" for t
proof
  fix s :: sse_reader and e
  assume idle: "sr_data s = [] \<and> sr_event s = []" and ok: "frame_ok maxLineBytes e"
  have ty: "event_of (''event: '' @ fst e) = fst e" using ok by (simp only: event_line frame_ok_def)
  have keep: "sr_data (mcp_event t ty d s') = sr_data s'" "sr_event (mcp_event t ty d s') = sr_event s'"
    "(mcp_event t ty d (s'\<lparr>sr_event := x\<rparr>)) = (mcp_event t ty d s')\<lparr>sr_event := x\<rparr>" for ty d s' x
    by (simp_all add: mcp_event_def setPostURL_def Let_def)
  have reset: "s\<lparr>sr_event := x, sr_data := []\<rparr> = s\<lparr>sr_event := x\<rparr>" "(mcp_event t ty d s)\<lparr>sr_event := []\<rparr> = mcp_event t ty d s" for x ty d
    using idle keep(3) [of ty d "[]" s] by (cases s; simp)+
  have 1: "mcp_line t (''event: '' @ fst e) s = s\<lparr>sr_event := fst e\<rparr>"
    unfolding mcp_line_def using event_line(1) ty by simp
  have 2: "mcp_line t (''data: '' @ snd e) s' = s'\<lparr>sr_data := sr_data s' @ [snd e]\<rparr>" for s'
    by (simp add: mcp_line_def HasPrefix_def data_of_def TrimPrefix_def)
  have 3: "mcp_line t [] s' = mcp_flush t s'" for s' by (simp add: mcp_line_def)
  have "fold (mcp_line t) (frame_lines e) s = mcp_flush t (s\<lparr>sr_event := fst e, sr_data := [snd e]\<rparr>)"
    using 1 2 3 idle by (simp only: frame_lines_def fold.simps comp_def id_def) simp
  also have "\<dots> = mcp_event t (fst e) (snd e) s"
    using reset by (simp add: mcp_flush_def keep(3))
  finally show "fold (mcp_line t) (frame_lines e) s = mcp_event t (fst e) (snd e) s" .
  show "sr_data (mcp_event t (fst e) (snd e) s) = [] \<and> sr_event (mcp_event t (fst e) (snd e) s) = []"
    using idle keep by simp
qed

text \<open>A message: a JSON object that fits into a line.\<close>

definition wire_object :: "(string \<times> json) list \<Rightarrow> bool" where
  "wire_object ms \<longleftrightarrow> json_ok (JObj ms) \<and> length (json_print (JObj ms)) + 6 < maxLineBytes"

definition object_text :: "(string \<times> json) list \<Rightarrow> string" where
  "object_text ms = json_print (JObj ms)"

lemma stdio_reads:
  assumes "list_all wire_object mss"
  shows "stdio_readLoop (concat (map (\<lambda>ms. stdio_Send (object_text ms)) mss)) = map object_text mss"
proof -
  have "list_all one_line (map object_text mss)" "list_all (\<lambda>l. length l < maxLineBytes) (map object_text mss)"
    using assms json_print_printable printable_one_line
    by (auto simp: list_all_iff wire_object_def object_text_def simp del: json_print.simps)
  note scan_text_lines [OF this]
  moreover have "concat (map (\<lambda>ms. stdio_Send (object_text ms)) mss) = concat (map (\<lambda>l. l @ nl) (map object_text mss))"
    by (simp add: stdio_Send_def comp_def)
  moreover have "map TrimSpace (map object_text mss) = map object_text mss"
    by (simp add: object_text_def object_trimmed del: json_print.simps)
  moreover have "object_text ms \<noteq> []" for ms by (simp add: object_text_def)
  ultimately show ?thesis by (simp add: stdio_readLoop_def filter_id_conv)
qed

lemma mcp_flush_idle: "sr_data s = [] \<Longrightarrow> sr_event s = [] \<Longrightarrow> mcp_flush t s = s"
  by (simp add: mcp_flush_def)

lemma deliver_messages:
  "sr_recv (fold (\<lambda>e. mcp_event t (fst e) (snd e)) (map (\<lambda>m. (''message'', m)) ms) s) = sr_recv s @ ms"
  "sr_postURL (fold (\<lambda>e. mcp_event t (fst e) (snd e)) (map (\<lambda>m. (''message'', m)) ms) s) = sr_postURL s"
  "sr_ready (fold (\<lambda>e. mcp_event t (fst e) (snd e)) (map (\<lambda>m. (''message'', m)) ms) s) = sr_ready s"
  by (induction ms arbitrary: s) (simp_all add: mcp_event_def)

text \<open>The keys of the messages.\<close>

lemma rpc_keys [simp]:
  "ToLower ''jsonrpc'' = ''jsonrpc''" "ToLower ''method'' = ''method''" "ToLower ''params'' = ''params''"
  "ToLower ''result'' = ''result''" "ToLower ''error'' = ''error''" "ToLower ''code'' = ''code''"
  "ToLower ''message'' = ''message''" "ToLower ''data'' = ''data''"
  "utf8_Valid ''jsonrpc''" "utf8_Valid ''method''" "utf8_Valid ''params''" "utf8_Valid ''result''" "utf8_Valid ''error''"
  "utf8_Valid ''code''" "utf8_Valid ''message''" "utf8_Valid ''2.0''"
  by code_simp+

lemma json_ok_params [simp]: "members_ok (opt_params p) \<longleftrightarrow> (case p of None \<Rightarrow> True | Some j \<Rightarrow> json_ok j)"
  by (simp add: opt_params_def split: option.split)

lemma members_ok_append_params [simp]: "members_ok (fld k v @ opt_params p) \<longleftrightarrow> utf8_Valid k \<and> json_ok v \<and> members_ok (opt_params p)"
  by (simp del: json_ok_params)

lemma request_json_ok: "utf8_Valid method \<Longrightarrow> (case p of None \<Rightarrow> True | Some j \<Rightarrow> json_ok j) \<Longrightarrow> json_ok (request_json i method p)"
  by (simp add: request_json_def)

text \<open>A server's reply to the call with id \<open>i\<close>, and its refusal.\<close>

definition reply_json :: "int \<Rightarrow> json \<Rightarrow> json" where
  "reply_json i j = JObj (fld ''jsonrpc'' (JStr ''2.0'') @ fld ''id'' (JNum (Itoa i)) @ fld ''result'' j)"

definition refusal_json :: "int \<Rightarrow> int \<Rightarrow> string \<Rightarrow> json" where
  "refusal_json i code message = JObj (fld ''jsonrpc'' (JStr ''2.0'') @ fld ''id'' (JNum (Itoa i)) @
     fld ''error'' (JObj (fld ''code'' (JNum (Itoa code)) @ fld ''message'' (JStr message))))"

lemma unmarshal_print: "json_ok j \<Longrightarrow> unmarshal z d (json_print j) = d z j"
  by (simp add: unmarshal_def)

lemma print_nonempty: "json_ok j \<Longrightarrow> json_print j \<noteq> []"
  using json_pp_nonempty by (metis json_print_pp)

lemma id_read: "int64 i \<Longrightarrow> unmarshal 0 dec_int (Itoa i) = Some i"
  using unmarshal_print [of "JNum (Itoa i)" 0 dec_int] by simp

lemma Itoa_nonempty: "Itoa i \<noteq> []"
  using print_nonempty [of "JNum (Itoa i)"] by simp

lemma reply_decoded:
  assumes "int64 i" "json_ok j"
  shows "pump_message (json_print (reply_json i j)) =
    Some (i, zero_rpcMessage\<lparr>rm_JSONRPC := ''2.0'', rm_ID := Itoa i, rm_Result := json_print j\<rparr>)"
proof -
  have "json_ok (reply_json i j)" using assms by (simp add: reply_json_def)
  moreover have "dec_rpcMessage zero_rpcMessage (reply_json i j) =
      Some (zero_rpcMessage\<lparr>rm_JSONRPC := ''2.0'', rm_ID := Itoa i, rm_Result := json_print j\<rparr>)"
    by (simp add: dec_rpcMessage_def reply_json_def same_key_def dec_raw_text_def zero_rpcMessage_def)
  ultimately show ?thesis
    using assms by (simp add: pump_message_def unmarshal_print isResponse_def print_nonempty Itoa_nonempty id_read zero_rpcMessage_def)
qed

lemma refusal_decoded:
  assumes "int64 i" "int64 code" "utf8_Valid message"
  shows "pump_message (json_print (refusal_json i code message)) =
    Some (i, zero_rpcMessage\<lparr>rm_JSONRPC := ''2.0'', rm_ID := Itoa i,
      rm_Error := Some \<lparr>er_Code = code, er_Message = message, er_Data = []\<rparr>\<rparr>)"
proof -
  have "json_ok (refusal_json i code message)" using assms by (simp add: refusal_json_def)
  moreover have "dec_rpcMessage zero_rpcMessage (refusal_json i code message) =
      Some (zero_rpcMessage\<lparr>rm_JSONRPC := ''2.0'', rm_ID := Itoa i,
        rm_Error := Some \<lparr>er_Code = code, er_Message = message, er_Data = []\<rparr>\<rparr>)"
    using assms by (simp add: dec_rpcMessage_def refusal_json_def same_key_def dec_raw_text_def zero_rpcMessage_def dec_rpcError_def
        zero_rpcError_def)
  ultimately show ?thesis
    using assms by (simp add: pump_message_def unmarshal_print isResponse_def print_nonempty Itoa_nonempty id_read zero_rpcMessage_def)
qed

text \<open>A request is no response: a server that echoes is ignored.\<close>

lemma request_ignored:
  assumes "utf8_Valid method" "case p of None \<Rightarrow> True | Some j \<Rightarrow> json_ok j" "method \<noteq> []"
  shows "pump_message (json_print (request_json i method p)) = None"
proof -
  have "dec_rpcMessage zero_rpcMessage (request_json i method p) =
      Some (zero_rpcMessage\<lparr>rm_JSONRPC := ''2.0'', rm_ID := Itoa i, rm_Method := method,
        rm_Params := (case p of None \<Rightarrow> [] | Some j \<Rightarrow> json_print j)\<rparr>)"
    by (cases p) (simp_all add: dec_rpcMessage_def request_json_def opt_params_def same_key_def dec_raw_text_def zero_rpcMessage_def)
  then show ?thesis
    using request_json_ok [OF assms(1,2)] assms(3) by (simp add: pump_message_def unmarshal_print isResponse_def)
qed

section \<open>Properties\<close>



end
