(* ===== verification/Mcp_Client.thy ===== *)
theory Mcp_Client
  imports Mcp
begin

text \<open>
  The MCP client as a step relation (\<^verbatim>\<open>pkg/mcp/client.go\<close>): any number of callers in \<open>call\<close>, the goroutine
  of \<open>pump\<close> and any number of calls of \<open>Close\<close> share the table of pending calls. A call makes a channel of
  capacity one for its id, so the id names the channel. Closing a closed channel, and sending on one, panics.
\<close>

section \<open>State\<close>

datatype call_phase =
  Calling
| Encoded int string
| Registered int string
| Waiting int
| Answered int rpcMessage
| Failed go_error

datatype pump_phase = Reading | Holding int rpcMessage | Closing int | Ended

record call_chan =
  ch_msg :: "rpcMessage option"
  ch_closed :: bool

record client_state =
  cl_nextID :: int
  cl_pending :: "int set"
  cl_closed :: bool
  cl_chan :: "int \<Rightarrow> call_chan"
  cl_phase :: "nat \<Rightarrow> call_phase"
  cl_pump :: pump_phase
  cl_sent :: "string list"
  cl_received :: "string list"
  cl_panic :: bool

definition fresh_chan :: call_chan where
  "fresh_chan = \<lparr>ch_msg = None, ch_closed = False\<rparr>"

definition NewClient :: client_state where
  "NewClient = \<lparr>cl_nextID = 0, cl_pending = {}, cl_closed = False, cl_chan = (\<lambda>_. fresh_chan), cl_phase = (\<lambda>_. Calling),
     cl_pump = Reading, cl_sent = [], cl_received = [], cl_panic = False\<rparr>"

definition set_phase :: "nat \<Rightarrow> call_phase \<Rightarrow> client_state \<Rightarrow> client_state" where
  "set_phase p ph s = s\<lparr>cl_phase := (cl_phase s)(p := ph)\<rparr>"

text \<open>The loop that closes the channel of every pending call and empties the table.\<close>

definition close_pending :: "client_state \<Rightarrow> client_state" where
  "close_pending s = s\<lparr>
     cl_panic := cl_panic s \<or> (\<exists>i \<in> cl_pending s. ch_closed (cl_chan s i)),
     cl_chan := (\<lambda>i. if i \<in> cl_pending s then (cl_chan s i)\<lparr>ch_closed := True\<rparr> else cl_chan s i),
     cl_pending := {}\<rparr>"

section \<open>Steps\<close>

text \<open>
  \<open>call\<close>, with method and parameters of caller \<open>p\<close> given by \<open>rq\<close>. The transport takes a message or fails, and
  the context of a caller may end at any time.
\<close>

inductive call_step :: "(nat \<Rightarrow> string \<times> rpc_params) \<Rightarrow> nat \<Rightarrow> client_state \<Rightarrow> client_state \<Rightarrow> bool" for rq p where
  encode_fails: "cl_phase s p = Calling \<Longrightarrow> newRequest (cl_nextID s + 1) (fst (rq p)) (snd (rq p)) = Inl e \<Longrightarrow>
    call_step rq p s (set_phase p (Failed (Wrap (''mcp: encode '' @ fst (rq p) @ '' request: '') e [])) (s\<lparr>cl_nextID := cl_nextID s + 1\<rparr>))"
| encode: "cl_phase s p = Calling \<Longrightarrow> newRequest (cl_nextID s + 1) (fst (rq p)) (snd (rq p)) = Inr payload \<Longrightarrow>
    call_step rq p s (set_phase p (Encoded (cl_nextID s + 1) payload) (s\<lparr>cl_nextID := cl_nextID s + 1\<rparr>))"
| register_closed: "cl_phase s p = Encoded i payload \<Longrightarrow> cl_closed s \<Longrightarrow>
    call_step rq p s (set_phase p (Failed (Err ''mcp: client is closed'')) s)"
| register: "cl_phase s p = Encoded i payload \<Longrightarrow> \<not> cl_closed s \<Longrightarrow>
    call_step rq p s (set_phase p (Registered i payload) (s\<lparr>cl_pending := insert i (cl_pending s)\<rparr>))"
| send_ok: "cl_phase s p = Registered i payload \<Longrightarrow>
    call_step rq p s (set_phase p (Waiting i) (s\<lparr>cl_sent := cl_sent s @ [payload]\<rparr>))"
| send_fails: "cl_phase s p = Registered i payload \<Longrightarrow>
    call_step rq p s (set_phase p (Failed (Wrap (''mcp: send '' @ fst (rq p) @ '' request: '') e []))
      (s\<lparr>cl_pending := cl_pending s - {i}\<rparr>))"
| receive: "cl_phase s p = Waiting i \<Longrightarrow> ch_msg (cl_chan s i) = Some msg \<Longrightarrow>
    call_step rq p s (set_phase p (Answered i msg) (s\<lparr>cl_chan := (cl_chan s)(i := (cl_chan s i)\<lparr>ch_msg := None\<rparr>)\<rparr>))"
| closed: "cl_phase s p = Waiting i \<Longrightarrow> ch_msg (cl_chan s i) = None \<Longrightarrow> ch_closed (cl_chan s i) \<Longrightarrow>
    call_step rq p s (set_phase p (Failed (closed_error (fst (rq p)))) s)"
| ctx_done: "cl_phase s p = Waiting i \<Longrightarrow> call_step rq p s (set_phase p (Failed e) s)"

text \<open>What an answered call returns.\<close>

definition call_result :: "(nat \<Rightarrow> string \<times> rpc_params) \<Rightarrow> nat \<Rightarrow> client_state \<Rightarrow> string result option" where
  "call_result rq p s =
     (case cl_phase s p of
        Answered i msg \<Rightarrow> Some (call_reply (fst (rq p)) (Some msg))
      | Failed e \<Rightarrow> Some (Inl e)
      | _ \<Rightarrow> None)"

inductive pump_step :: "client_state \<Rightarrow> client_state \<Rightarrow> bool" where
  ignore: "cl_pump s = Reading \<Longrightarrow> pump_message raw = None \<Longrightarrow> pump_step s (s\<lparr>cl_received := cl_received s @ [raw]\<rparr>)"
| unknown: "cl_pump s = Reading \<Longrightarrow> pump_message raw = Some (i, msg) \<Longrightarrow> i \<notin> cl_pending s \<Longrightarrow>
    pump_step s (s\<lparr>cl_received := cl_received s @ [raw]\<rparr>)"
| take: "cl_pump s = Reading \<Longrightarrow> pump_message raw = Some (i, msg) \<Longrightarrow> i \<in> cl_pending s \<Longrightarrow>
    pump_step s (s\<lparr>cl_received := cl_received s @ [raw], cl_pending := cl_pending s - {i}, cl_pump := Holding i msg\<rparr>)"
| deliver: "cl_pump s = Holding i msg \<Longrightarrow> ch_msg (cl_chan s i) = None \<Longrightarrow>
    pump_step s (s\<lparr>cl_panic := cl_panic s \<or> ch_closed (cl_chan s i),
      cl_chan := (cl_chan s)(i := (cl_chan s i)\<lparr>ch_msg := Some msg\<rparr>), cl_pump := Closing i\<rparr>)"
| close_chan: "cl_pump s = Closing i \<Longrightarrow>
    pump_step s (s\<lparr>cl_panic := cl_panic s \<or> ch_closed (cl_chan s i),
      cl_chan := (cl_chan s)(i := (cl_chan s i)\<lparr>ch_closed := True\<rparr>), cl_pump := Reading\<rparr>)"
| pump_ends: "cl_pump s = Reading \<Longrightarrow> pump_step s (close_pending s\<lparr>cl_pump := Ended\<rparr>)"

definition client_Close :: "client_state \<Rightarrow> client_state" where
  "client_Close s = close_pending (s\<lparr>cl_closed := True\<rparr>)"

inductive client_step :: "(nat \<Rightarrow> string \<times> rpc_params) \<Rightarrow> client_state \<Rightarrow> client_state \<Rightarrow> bool" for rq where
  caller: "call_step rq p s s' \<Longrightarrow> client_step rq s s'"
| pump: "pump_step s s' \<Longrightarrow> client_step rq s s'"
| closer: "client_step rq s (client_Close s)"

inductive client_run :: "(nat \<Rightarrow> string \<times> rpc_params) \<Rightarrow> client_state \<Rightarrow> bool" for rq where
  client_new: "client_run rq NewClient"
| client_next: "client_run rq s \<Longrightarrow> client_step rq s s' \<Longrightarrow> client_run rq s'"

inductive_cases call_stepE: "call_step rq p s s'"
inductive_cases pump_stepE: "pump_step s s'"

section \<open>The invariant\<close>

fun id_of :: "call_phase \<Rightarrow> int option" where
  "id_of (Encoded i _) = Some i"
| "id_of (Registered i _) = Some i"
| "id_of (Waiting i) = Some i"
| "id_of (Answered i _) = Some i"
| "id_of _ = None"

fun pump_id :: "pump_phase \<Rightarrow> int option" where
  "pump_id (Holding i _) = Some i"
| "pump_id (Closing i) = Some i"
| "pump_id _ = None"

text \<open>\<open>msg\<close> came from the server, as the response with id \<open>i\<close>.\<close>

definition came :: "client_state \<Rightarrow> int \<Rightarrow> rpcMessage \<Rightarrow> bool" where
  "came s i msg \<longleftrightarrow> (\<exists>raw \<in> set (cl_received s). pump_message raw = Some (i, msg))"

text \<open>
  A channel is in the hands of one: before it is registered nobody uses it; then the table holds it, open and empty;
  then the pump holds it, and has sent or not; then it is closed for good.
\<close>

definition untouched :: "client_state \<Rightarrow> int \<Rightarrow> bool" where
  "untouched s i \<longleftrightarrow> i \<notin> cl_pending s \<and> pump_id (cl_pump s) \<noteq> Some i \<and> cl_chan s i = fresh_chan"

definition owned :: "client_state \<Rightarrow> int \<Rightarrow> bool" where
  "owned s i \<longleftrightarrow> i \<in> cl_pending s \<or> pump_id (cl_pump s) = Some i \<or> ch_closed (cl_chan s i)"

definition chan_ok :: "client_state \<Rightarrow> int \<Rightarrow> bool" where
  "chan_ok s i \<longleftrightarrow>
     (i \<in> cl_pending s \<longrightarrow> cl_chan s i = fresh_chan \<and> pump_id (cl_pump s) \<noteq> Some i) \<and>
     (\<forall>msg. cl_pump s = Holding i msg \<longrightarrow> cl_chan s i = fresh_chan \<and> came s i msg) \<and>
     (cl_pump s = Closing i \<longrightarrow> \<not> ch_closed (cl_chan s i)) \<and>
     (\<forall>msg. ch_msg (cl_chan s i) = Some msg \<longrightarrow> came s i msg)"

definition phase_ok :: "client_state \<Rightarrow> call_phase \<Rightarrow> bool" where
  "phase_ok s ph \<longleftrightarrow>
     (case ph of
        Encoded i _ \<Rightarrow> i \<le> cl_nextID s \<and> untouched s i
      | Registered i _ \<Rightarrow> i \<le> cl_nextID s \<and> owned s i
      | Waiting i \<Rightarrow> i \<le> cl_nextID s \<and> owned s i
      | Answered i msg \<Rightarrow> i \<le> cl_nextID s \<and> came s i msg
      | _ \<Rightarrow> True)"

definition client_inv :: "client_state \<Rightarrow> bool" where
  "client_inv s \<longleftrightarrow>
     (\<forall>p. phase_ok s (cl_phase s p)) \<and>
     (\<forall>p q i. id_of (cl_phase s p) = Some i \<longrightarrow> id_of (cl_phase s q) = Some i \<longrightarrow> p = q) \<and>
     (\<forall>i > cl_nextID s. untouched s i) \<and>
     (\<forall>i. chan_ok s i) \<and>
     (cl_closed s \<longrightarrow> cl_pending s = {}) \<and>
     \<not> cl_panic s"

lemma client_invD:
  assumes "client_inv s"
  shows "phase_ok s (cl_phase s p)" "id_of (cl_phase s p) = Some i \<Longrightarrow> id_of (cl_phase s q) = Some i \<Longrightarrow> p = q"
    "i > cl_nextID s \<Longrightarrow> untouched s i" "chan_ok s i" "cl_closed s \<Longrightarrow> cl_pending s = {}" "\<not> cl_panic s"
  using assms by (auto simp: client_inv_def)

lemma fresh_chan_fields [simp]: "ch_msg fresh_chan = None" "\<not> ch_closed fresh_chan"
  by (simp_all add: fresh_chan_def)

lemma inv_start: "client_inv NewClient"
  by (simp add: client_inv_def NewClient_def untouched_def phase_ok_def chan_ok_def)

subsection \<open>A step about one id\<close>

definition same_but :: "int \<Rightarrow> client_state \<Rightarrow> client_state \<Rightarrow> bool" where
  "same_but i s s' \<longleftrightarrow>
     (\<forall>j. j \<noteq> i \<longrightarrow> (j \<in> cl_pending s' \<longleftrightarrow> j \<in> cl_pending s) \<and> cl_chan s' j = cl_chan s j \<and>
        (pump_id (cl_pump s') = Some j \<longleftrightarrow> pump_id (cl_pump s) = Some j) \<and>
        (\<forall>m. cl_pump s' = Holding j m \<longrightarrow> cl_pump s = Holding j m) \<and> (cl_pump s' = Closing j \<longrightarrow> cl_pump s = Closing j)) \<and>
     cl_nextID s \<le> cl_nextID s' \<and> set (cl_received s) \<subseteq> set (cl_received s')"

lemma same_butD:
  assumes "same_but i s s'"
  shows "j \<noteq> i \<Longrightarrow> j \<in> cl_pending s' \<longleftrightarrow> j \<in> cl_pending s" "j \<noteq> i \<Longrightarrow> cl_chan s' j = cl_chan s j"
    "j \<noteq> i \<Longrightarrow> pump_id (cl_pump s') = Some j \<longleftrightarrow> pump_id (cl_pump s) = Some j"
    "j \<noteq> i \<Longrightarrow> cl_pump s' = Holding j m \<Longrightarrow> cl_pump s = Holding j m"
    "j \<noteq> i \<Longrightarrow> cl_pump s' = Closing j \<Longrightarrow> cl_pump s = Closing j"
    "cl_nextID s \<le> cl_nextID s'" "came s j msg \<Longrightarrow> came s' j msg"
  using assms by (auto simp: same_but_def came_def)

lemma untouched_frame: "same_but i s s' \<Longrightarrow> j \<noteq> i \<Longrightarrow> untouched s j \<Longrightarrow> untouched s' j"
  by (simp add: untouched_def same_butD)

lemma owned_frame: "same_but i s s' \<Longrightarrow> j \<noteq> i \<Longrightarrow> owned s j \<Longrightarrow> owned s' j"
  by (simp add: owned_def same_butD)

lemma chan_ok_frame:
  assumes "same_but i s s'" "j \<noteq> i" "chan_ok s j"
  shows "chan_ok s' j"
  using assms(3) same_butD(4,5) [OF assms(1,2)] same_butD(7) [OF assms(1)]
  unfolding chan_ok_def same_butD(1-3) [OF assms(1,2)] by blast

lemma phase_ok_frame:
  assumes "same_but i s s'" "id_of ph \<noteq> Some i" "phase_ok s ph"
  shows "phase_ok s' ph"
  using assms same_butD(6) [OF assms(1)]
  by (cases ph) (auto simp: phase_ok_def intro: untouched_frame owned_frame same_butD(7))

lemma inv_frame:
  assumes inv: "client_inv s" and frame: "same_but i s s'" and le: "i \<le> cl_nextID s'"
    and phases: "\<And>q. q \<noteq> p \<Longrightarrow> cl_phase s' q = cl_phase s q" "\<And>q. q \<noteq> p \<Longrightarrow> id_of (cl_phase s q) \<noteq> Some i"
      "id_of (cl_phase s' p) = None \<or> id_of (cl_phase s' p) = Some i \<or> cl_phase s' p = cl_phase s p"
    and ok: "phase_ok s' (cl_phase s' p)" "chan_ok s' i" "cl_closed s' \<Longrightarrow> cl_pending s' = {}" "\<not> cl_panic s'"
  shows "client_inv s'"
proof -
  note inv' = client_invD [OF inv]
  have "phase_ok s' (cl_phase s' q)" for q
    using ok(1) phase_ok_frame [OF frame phases(2) inv'(1)] phases(1) by (cases "q = p") auto
  moreover have "a = b" if "id_of (cl_phase s' a) = Some j" "id_of (cl_phase s' b) = Some j" for a b j
    using that phases inv'(2) [of a j b] by (cases "a = p"; cases "b = p") auto
  moreover have "untouched s' j" if "j > cl_nextID s'" for j
    using untouched_frame [OF frame _ inv'(3)] that le same_butD(6) [OF frame] by simp
  moreover have "chan_ok s' j" for j
    using ok(2) chan_ok_frame [OF frame _ inv'(4)] by (cases "j = i") auto
  ultimately show ?thesis using ok(3,4) by (auto simp: client_inv_def)
qed

text \<open>The owner of an id, if it has one.\<close>

lemma owner:
  assumes "client_inv s"
  obtains p where "\<And>q. q \<noteq> p \<Longrightarrow> id_of (cl_phase s q) \<noteq> Some i"
  using client_invD(2) [OF assms] by metis

lemma inv_call_step:
  assumes inv: "client_inv s" and step: "call_step rq p s s'"
  shows "client_inv s'"
proof -
  note inv' = client_invD [OF inv]
  have others: "id_of (cl_phase s q) \<noteq> Some i" if "q \<noteq> p" "id_of (cl_phase s p) = Some i" for q i
    using inv'(2) that by metis
  have past: "id_of (cl_phase s q) \<noteq> Some (cl_nextID s + 1)" for q
    using inv'(1) [of q] by (cases "cl_phase s q") (auto simp: phase_ok_def)
  note defs = same_but_def phase_ok_def chan_ok_def untouched_def owned_def set_phase_def came_def
  from step show ?thesis
  proof (cases rule: call_step.cases)
    case (encode_fails e)
    then show ?thesis
      by (intro inv_frame [OF inv, where i = "cl_nextID s + 1" and p = p])
        (use past inv'(3-6) in \<open>auto simp: defs\<close>)
  next
    case (encode payload)
    then show ?thesis
      by (intro inv_frame [OF inv, where i = "cl_nextID s + 1" and p = p])
        (use past inv'(3-6) in \<open>auto simp: defs\<close>)
  next
    case (register_closed i payload)
    then show ?thesis using others inv'(1) [of p]
      by (intro inv_frame [OF inv, where i = i and p = p]) (use inv'(4-6) in \<open>auto simp: defs\<close>)
  next
    case (register i payload)
    then show ?thesis using others inv'(1) [of p]
      by (intro inv_frame [OF inv, where i = i and p = p]) (use inv'(4-6) in \<open>auto simp: defs\<close>)
  next
    case (send_ok i payload)
    then show ?thesis using others inv'(1) [of p]
      by (intro inv_frame [OF inv, where i = i and p = p]) (use inv'(4-6) in \<open>auto simp: defs\<close>)
  next
    case (send_fails i payload e)
    then show ?thesis using others inv'(1) [of p]
      by (intro inv_frame [OF inv, where i = i and p = p]) (use inv'(4-6) in \<open>auto simp: defs\<close>)
  next
    case (receive i msg)
    then show ?thesis using others inv'(1) [of p]
      by (intro inv_frame [OF inv, where i = i and p = p]) (use inv'(4) [of i] inv'(5,6) in \<open>auto simp: defs fresh_chan_def\<close>)
  next
    case (closed i)
    then show ?thesis using others inv'(1) [of p]
      by (intro inv_frame [OF inv, where i = i and p = p]) (use inv'(4-6) in \<open>auto simp: defs\<close>)
  next
    case (ctx_done i e)
    then show ?thesis using others inv'(1) [of p]
      by (intro inv_frame [OF inv, where i = i and p = p]) (use inv'(4-6) in \<open>auto simp: defs\<close>)
  qed
qed

text \<open>A step that keeps the phases and what is known of every id.\<close>

lemma inv_global:
  assumes inv: "client_inv s" and same: "cl_phase s' = cl_phase s" "cl_nextID s' = cl_nextID s"
    and mono: "\<And>i. untouched s i \<Longrightarrow> untouched s' i" "\<And>i. owned s i \<Longrightarrow> owned s' i" "\<And>i msg. came s i msg \<Longrightarrow> came s' i msg"
    and ok: "\<And>i. chan_ok s' i" "cl_closed s' \<Longrightarrow> cl_pending s' = {}" "\<not> cl_panic s'"
  shows "client_inv s'"
proof -
  note inv' = client_invD [OF inv]
  have "phase_ok s' (cl_phase s p)" for p
    using inv'(1) [of p] mono same(2) by (cases "cl_phase s p") (auto simp: phase_ok_def)
  then show ?thesis
    unfolding client_inv_def same using inv'(2,3) mono(1) ok by blast
qed

lemma chan_ok_close: "chan_ok s i \<Longrightarrow> chan_ok (close_pending s) i"
  by (cases "i \<in> cl_pending s") (auto simp: chan_ok_def close_pending_def came_def)

lemma inv_close_pending:
  assumes "client_inv s"
  shows "client_inv (close_pending s)"
proof (rule inv_global [OF assms])
  show "chan_ok (close_pending s) i" for i using client_invD(4) [OF assms] by (rule chan_ok_close)
qed (use client_invD(4,6) [OF assms] in \<open>auto simp: untouched_def owned_def chan_ok_def came_def close_pending_def\<close>)

lemma inv_pump_step:
  assumes inv: "client_inv s" and step: "pump_step s s'"
  shows "client_inv s'"
proof -
  note inv' = client_invD [OF inv]
  note defs = same_but_def phase_ok_def chan_ok_def untouched_def owned_def came_def
  have past: "\<not> cl_nextID s < i" if "i \<in> cl_pending s \<or> pump_id (cl_pump s) = Some i" for i
    using that inv'(3) [of i] by (auto simp: untouched_def)
  have at: "client_inv s'"
    if i: "i \<in> cl_pending s \<or> pump_id (cl_pump s) = Some i" and "same_but i s s'" "cl_phase s' = cl_phase s" "cl_closed s' = cl_closed s"
      "\<And>ph. id_of ph = Some i \<Longrightarrow> phase_ok s ph \<Longrightarrow> phase_ok s' ph" "chan_ok s' i" "cl_pending s' \<subseteq> cl_pending s" "\<not> cl_panic s'" for i
  proof -
    obtain p where p: "\<And>q. q \<noteq> p \<Longrightarrow> id_of (cl_phase s q) \<noteq> Some i" using owner [OF inv, of i] by metis
    have "phase_ok s' (cl_phase s p)"
      using that(2,5) inv'(1) [of p] phase_ok_frame [OF that(2), of "cl_phase s p"] by (cases "id_of (cl_phase s p) = Some i") auto
    moreover have "i \<le> cl_nextID s'" using past [OF i] same_butD(6) [OF that(2)] by linarith
    ultimately show ?thesis
      using that inv'(5) by (intro inv_frame [OF inv that(2) _ _ p]) auto
  qed
  from step show ?thesis
  proof (cases rule: pump_step.cases)
    case (ignore raw)
    show ?thesis by (rule inv_global [OF inv]) (use ignore inv'(4-6) in \<open>auto simp: defs\<close>)
  next
    case (unknown raw i msg)
    show ?thesis by (rule inv_global [OF inv]) (use unknown inv'(4-6) in \<open>auto simp: defs\<close>)
  next
    case (take raw i msg)
    show ?thesis
      by (rule at [of i]) (use take inv'(4) [of i] inv'(6) in \<open>auto simp: defs split: call_phase.splits\<close>)
  next
    case (deliver i msg)
    show ?thesis
      by (rule at [of i]) (use deliver inv'(4) [of i] inv'(6) in \<open>auto simp: defs split: call_phase.splits\<close>)
  next
    case (close_chan i)
    show ?thesis
      by (rule at [of i]) (use close_chan inv'(4) [of i] inv'(6) in \<open>auto simp: defs split: call_phase.splits\<close>)
  next
    case pump_ends
    then have read: "cl_pump (close_pending s) = Reading" by (simp add: close_pending_def)
    note inv_close = inv_close_pending [OF inv]
    show ?thesis
      unfolding pump_ends(1)
      by (rule inv_global [OF inv_close]) (use read client_invD(4-6) [OF inv_close] in \<open>auto simp: defs\<close>)
  qed
qed

lemma inv_Close:
  assumes "client_inv s"
  shows "client_inv (client_Close s)"
proof (rule inv_global [OF inv_close_pending [OF assms]])
  show "chan_ok (client_Close s) i" for i
    unfolding client_Close_def using client_invD(4) [OF assms, of i] by (intro chan_ok_close) (simp add: chan_ok_def came_def)
qed (use client_invD(4,6) [OF assms] in \<open>auto simp: client_Close_def untouched_def owned_def chan_ok_def came_def close_pending_def\<close>)

lemma run_inv: "client_run rq s \<Longrightarrow> client_inv s"
proof (induction rule: client_run.induct)
  case client_new show ?case by (rule inv_start)
next
  case (client_next s s')
  from client_next(2,3) show ?case
    by (cases rule: client_step.cases) (auto intro: inv_call_step inv_pump_step inv_Close)
qed

text \<open>What a call has sent: its own request, under its id.\<close>

definition request_of :: "(nat \<Rightarrow> string \<times> rpc_params) \<Rightarrow> nat \<Rightarrow> int \<Rightarrow> string result" where
  "request_of rq p i = newRequest i (fst (rq p)) (snd (rq p))"

definition sent_ok :: "(nat \<Rightarrow> string \<times> rpc_params) \<Rightarrow> string list \<Rightarrow> nat \<Rightarrow> call_phase \<Rightarrow> bool" where
  "sent_ok rq sent p ph \<longleftrightarrow>
     (case ph of
        Encoded i m \<Rightarrow> request_of rq p i = Inr m
      | Registered i m \<Rightarrow> request_of rq p i = Inr m
      | Waiting i \<Rightarrow> \<exists>m \<in> set sent. request_of rq p i = Inr m
      | Answered i _ \<Rightarrow> \<exists>m \<in> set sent. request_of rq p i = Inr m
      | _ \<Rightarrow> True)"

lemma sent_ok_more: "sent_ok rq sent p ph \<Longrightarrow> set sent \<subseteq> set sent' \<Longrightarrow> sent_ok rq sent' p ph"
  by (cases ph) (auto simp: sent_ok_def)

lemma sent_ok_step:
  assumes "call_step rq p s s'" "sent_ok rq (cl_sent s) p (cl_phase s p)"
  shows "sent_ok rq (cl_sent s') p (cl_phase s' p) \<and> set (cl_sent s) \<subseteq> set (cl_sent s') \<and>
    (\<forall>q. q \<noteq> p \<longrightarrow> cl_phase s' q = cl_phase s q)"
  using assms by (cases rule: call_step.cases) (auto simp: sent_ok_def set_phase_def request_of_def)

lemma run_sent: "client_run rq s \<Longrightarrow> sent_ok rq (cl_sent s) q (cl_phase s q)"
proof (induction arbitrary: q rule: client_run.induct)
  case client_new show ?case by (simp add: sent_ok_def NewClient_def)
next
  case (client_next s s')
  from client_next(2) show ?case
  proof (cases rule: client_step.cases)
    case (caller p)
    then show ?thesis
      using sent_ok_step [OF caller client_next(3)] sent_ok_more [OF client_next(3) [of q]] by (cases "q = p") auto
  next
    case pump
    then have "cl_phase s' = cl_phase s \<and> cl_sent s' = cl_sent s"
      by (cases rule: pump_step.cases) (simp_all add: close_pending_def)
    then show ?thesis using client_next(3) by simp
  next
    case closer
    then show ?thesis using client_next(3) by (simp add: client_Close_def close_pending_def)
  qed
qed

section \<open>Properties\<close>

text \<open>
  C11: however callers, the pump and Close are interleaved, and whatever the server sends: no channel is closed
  twice or sent on after it is closed, so the client never panics; a call that gets an answer has sent its own
  request under its id and gets a message the server sent as the response with that id; and no two calls share
  an id, so an answer is given to one caller only.
\<close>

theorem mcp_answers_matched:
  assumes "client_run rq s"
  shows "\<not> cl_panic s \<and>
    (\<forall>p i msg. cl_phase s p = Answered i msg \<longrightarrow>
       (\<exists>m \<in> set (cl_sent s). newRequest i (fst (rq p)) (snd (rq p)) = Inr m) \<and>
       (\<exists>raw \<in> set (cl_received s). pump_message raw = Some (i, msg)) \<and>
       (\<forall>q. q \<noteq> p \<longrightarrow> id_of (cl_phase s q) \<noteq> Some i))"
proof -
  note inv = client_invD [OF run_inv [OF assms]]
  have "(\<exists>m \<in> set (cl_sent s). newRequest i (fst (rq p)) (snd (rq p)) = Inr m) \<and> came s i msg \<and>
      (\<forall>q. q \<noteq> p \<longrightarrow> id_of (cl_phase s q) \<noteq> Some i)" if a: "cl_phase s p = Answered i msg" for p i msg
    using a run_sent [OF assms, of p] inv(1) [of p] inv(2) [of p i]
    by (auto simp: sent_ok_def phase_ok_def request_of_def)
  then show ?thesis using inv(6) unfolding came_def by blast
qed

definition demo_rq :: "nat \<Rightarrow> string \<times> rpc_params" where
  "demo_rq p = (''tools/list'', Some (Inr (JObj [])))"

lemma demo_call:
  assumes "client_run demo_rq s" "cl_phase s p = Calling" "\<not> cl_closed s"
  shows "\<exists>m. client_run demo_rq (s\<lparr>cl_nextID := cl_nextID s + 1, cl_pending := insert (cl_nextID s + 1) (cl_pending s),
      cl_sent := cl_sent s @ [m], cl_phase := (cl_phase s)(p := Waiting (cl_nextID s + 1))\<rparr>)"
proof -
  let ?i = "cl_nextID s + 1"
  obtain m where m: "newRequest ?i (fst (demo_rq p)) (snd (demo_rq p)) = Inr m"
    by (simp add: newRequest_def demo_rq_def marshalParams_def)
  let ?s1 = "set_phase p (Encoded ?i m) (s\<lparr>cl_nextID := ?i\<rparr>)"
  let ?s2 = "set_phase p (Registered ?i m) (?s1\<lparr>cl_pending := insert ?i (cl_pending ?s1)\<rparr>)"
  let ?s3 = "set_phase p (Waiting ?i) (?s2\<lparr>cl_sent := cl_sent ?s2 @ [m]\<rparr>)"
  have "call_step demo_rq p s ?s1" using encode [where rq = demo_rq, OF assms(2) m] .
  moreover have "call_step demo_rq p ?s1 ?s2" by (rule register) (simp_all add: set_phase_def assms(3))
  moreover have "call_step demo_rq p ?s2 ?s3" by (rule send_ok) (simp add: set_phase_def)
  ultimately have "client_run demo_rq ?s3" using assms(1) client_next caller by metis
  moreover have "?s3 = s\<lparr>cl_nextID := ?i, cl_pending := insert ?i (cl_pending s), cl_sent := cl_sent s @ [m],
      cl_phase := (cl_phase s)(p := Waiting ?i)\<rparr>" by (simp add: set_phase_def)
  ultimately show ?thesis by auto
qed

theorem mcp_answers_matched_witness:
  "\<exists>s msg. client_run demo_rq s \<and> cl_phase s 7 = Answered 1 msg \<and> \<not> cl_panic s \<and>
     (\<exists>m \<in> set (cl_sent s). newRequest 1 (fst (demo_rq 7)) (snd (demo_rq 7)) = Inr m)"
proof -
  obtain m where 1: "client_run demo_rq (NewClient\<lparr>cl_nextID := 1, cl_pending := {1}, cl_sent := [m],
      cl_phase := (\<lambda>_. Calling)(7 := Waiting 1)\<rparr>)" (is "client_run _ ?s1")
    using demo_call [OF client_new, of 7] by (auto simp: NewClient_def)
  let ?raw = "json_print (reply_json 1 JNull)"
  let ?msg = "zero_rpcMessage\<lparr>rm_JSONRPC := ''2.0'', rm_ID := Itoa 1, rm_Result := json_print JNull\<rparr>"
  have raw: "pump_message ?raw = Some (1, ?msg)" by (rule reply_decoded) (simp_all add: int64_def)
  let ?s2 = "?s1\<lparr>cl_received := [?raw], cl_pending := {}, cl_pump := Holding 1 ?msg\<rparr>"
  have "pump_step ?s1 ?s2" using take [OF _ raw, of ?s1] by (simp add: NewClient_def)
  then have 2: "client_run demo_rq ?s2" by (intro client_next [OF 1] pump)
  let ?s3 = "?s2\<lparr>cl_chan := (\<lambda>_. fresh_chan)(1 := fresh_chan\<lparr>ch_msg := Some ?msg\<rparr>), cl_pump := Closing 1\<rparr>"
  have "pump_step ?s2 ?s3" using deliver [of ?s2 1 ?msg] by (simp add: NewClient_def)
  then have 3: "client_run demo_rq ?s3" by (intro client_next [OF 2] pump)
  let ?s4 = "set_phase 7 (Answered 1 ?msg) (?s3\<lparr>cl_chan := (cl_chan ?s3)(1 := (cl_chan ?s3 1)\<lparr>ch_msg := None\<rparr>)\<rparr>)"
  have "call_step demo_rq 7 ?s3 ?s4" by (rule receive) simp_all
  then have 4: "client_run demo_rq ?s4" by (intro client_next [OF 3] caller)
  have "cl_phase ?s4 7 = Answered 1 ?msg" by (simp add: set_phase_def)
  with conjunct2 [OF mcp_answers_matched [OF 4], rule_format, OF this] conjunct1 [OF mcp_answers_matched [OF 4]] 4
  show ?thesis by (intro exI [of _ ?s4] exI [of _ ?msg]) blast
qed

text \<open>
  C12: after Close no call waits for the server: for every waiting call the pump, with what it has already
  received, reaches a state where the channel of the call has its answer or is closed, so that the call returns.
\<close>

theorem mcp_close_releases:
  assumes "client_run rq s" "cl_closed s" "cl_phase s p = Waiting i"
  shows "\<exists>s'. pump_step\<^sup>*\<^sup>* s s' \<and> cl_received s' = cl_received s \<and> cl_phase s' p = Waiting i \<and>
    (ch_msg (cl_chan s' i) \<noteq> None \<or> ch_closed (cl_chan s' i))"
proof -
  note inv = client_invD [OF run_inv [OF assms(1)]]
  have "i \<in> cl_pending s \<or> pump_id (cl_pump s) = Some i \<or> ch_closed (cl_chan s i)"
    using inv(1) [of p] assms(3) by (simp add: phase_ok_def owned_def)
  with inv(5) [OF assms(2)] consider (hold) msg where "cl_pump s = Holding i msg" | (closing) "cl_pump s = Closing i"
    | (closed) "ch_closed (cl_chan s i)" by (cases "cl_pump s") auto
  then show ?thesis
  proof cases
    case hold
    then have "ch_msg (cl_chan s i) = None" using inv(4) [of i] by (simp add: chan_ok_def)
    note step = r_into_rtranclp [of pump_step, OF deliver [OF hold this]]
    show ?thesis by (rule exI, rule conjI [OF step]) (simp add: assms(3))
  next
    case closing
    note step = r_into_rtranclp [of pump_step, OF close_chan [OF closing]]
    show ?thesis by (rule exI, rule conjI [OF step]) (simp add: assms(3))
  next
    case closed
    then show ?thesis using assms(3) by (intro exI [of _ s]) simp
  qed
qed

theorem mcp_close_releases_witness:
  "\<exists>s s'. client_run demo_rq s \<and> cl_closed s \<and> cl_phase s 3 = Waiting 1 \<and> pump_step\<^sup>*\<^sup>* s s' \<and>
     (ch_msg (cl_chan s' 1) \<noteq> None \<or> ch_closed (cl_chan s' 1))"
proof -
  obtain m where 1: "client_run demo_rq (NewClient\<lparr>cl_nextID := 1, cl_pending := {1}, cl_sent := [m],
      cl_phase := (\<lambda>_. Calling)(3 := Waiting 1)\<rparr>)" (is "client_run _ ?s1")
    using demo_call [OF client_new, of 3] by (auto simp: NewClient_def)
  have 2: "client_run demo_rq (client_Close ?s1)" by (rule client_next [OF 1 closer])
  have "cl_closed (client_Close ?s1)" "cl_phase (client_Close ?s1) 3 = Waiting 1"
    by (simp_all add: client_Close_def close_pending_def)
  with mcp_close_releases [OF 2 this] 2 show ?thesis by blast
qed

text \<open>
  The end of the transport does not close the client: a call made after the pump has ended is registered and waits,
  nobody will ever answer it, and only its context ends it.
\<close>

lemma late_call_waits:
  "\<exists>s i. client_run demo_rq s \<and> cl_pump s = Ended \<and> cl_phase s 0 = Waiting i \<and> \<not> cl_closed s \<and>
     (\<forall>s'. \<not> pump_step s s') \<and> ch_msg (cl_chan s i) = None \<and> \<not> ch_closed (cl_chan s i)"
proof -
  have "pump_step NewClient (NewClient\<lparr>cl_pump := Ended\<rparr>)"
    using pump_ends [of NewClient] by (simp add: close_pending_def NewClient_def)
  then have 1: "client_run demo_rq (NewClient\<lparr>cl_pump := Ended\<rparr>)" using client_new client_next pump by metis
  obtain m where "client_run demo_rq (NewClient\<lparr>cl_pump := Ended, cl_nextID := 1, cl_pending := {1}, cl_sent := [m],
      cl_phase := (\<lambda>_. Calling)(0 := Waiting 1)\<rparr>)" (is "client_run _ ?s")
    using demo_call [OF 1, of 0] by (auto simp: NewClient_def)
  moreover have "\<not> pump_step ?s s'" for s' by (auto elim!: pump_stepE)
  ultimately show ?thesis by (intro exI [of _ ?s] exI [of _ 1]) (auto simp: NewClient_def)
qed

end
