(* ===== verification/Bundle.thy ===== *)
theory Bundle
  imports Prelude
begin

text \<open>
  \<^verbatim>\<open>pkg/skills/bundle\<close>, the pure part: the \<open>SKILL.md\<close> frontmatter parser (\<^verbatim>\<open>frontmatter.go\<close>) and
  the bundle built from its files, with its content hash, slug and path checks (\<^verbatim>\<open>bundle.go\<close>). SHA-256
  is a parameter.
\<close>

section \<open>frontmatter.go\<close>

record Manifest =
  mf_Name :: string
  mf_Description :: string
  mf_Author :: string
  mf_Version :: string
  mf_Metadata :: "(string \<times> string) list"

definition zero_Manifest :: Manifest where
  "zero_Manifest = \<lparr>mf_Name = [], mf_Description = [], mf_Author = [], mf_Version = [], mf_Metadata = []\<rparr>"

definition dquote :: char where "dquote = char_of (34::nat)"
definition squote :: char where "squote = char_of (39::nat)"

definition unquote :: "string \<Rightarrow> string" where
  "unquote s =
     (if length s \<ge> 2 \<and> (hd s = dquote \<and> last s = dquote \<or> hd s = squote \<and> last s = squote)
      then butlast (tl s) else s)"

definition splitKeyValue :: "string \<Rightarrow> (string \<times> string) option" where
  "splitKeyValue line =
     (case IndexByte line (CHR '':'') of
        None \<Rightarrow> None
      | Some idx \<Rightarrow>
          (let key = TrimSpace (take idx line);
               value = unquote (TrimSpace (drop (idx + 1) line))
           in if key = [] then None else Some (key, value)))"

definition indent_chars :: string where "indent_chars = [CHR '' '', char_of (9::nat)]"

definition is_indented :: "string \<Rightarrow> bool" where
  "is_indented line \<longleftrightarrow> line \<noteq> TrimLeft line indent_chars"

text \<open>The loop of \<open>parseMetadataBlock\<close>: the map read so far and the lines consumed.\<close>

fun metadata_loop :: "string list \<Rightarrow> (string \<times> string) list \<Rightarrow> nat \<Rightarrow> (string \<times> string) list \<times> nat" where
  "metadata_loop [] meta consumed = (meta, consumed)"
| "metadata_loop (line # lines) meta consumed =
     (if TrimSpace line = [] then (meta, consumed)
      else if \<not> is_indented line then (meta, consumed)
      else metadata_loop lines
             (case splitKeyValue (TrimLeft line indent_chars) of
                None \<Rightarrow> meta
              | Some (k, v) \<Rightarrow> put k v meta)
             (consumed + 1))"

definition parseMetadataBlock :: "string list \<Rightarrow> (string \<times> string) list \<times> nat" where
  "parseMetadataBlock lines = metadata_loop lines [] 0"

definition set_key :: "string \<Rightarrow> string \<Rightarrow> Manifest \<Rightarrow> Manifest" where
  "set_key key value m =
     (if key = ''name'' then m\<lparr>mf_Name := value\<rparr>
      else if key = ''description'' then m\<lparr>mf_Description := value\<rparr>
      else if key = ''author'' then m\<lparr>mf_Author := value\<rparr>
      else if key = ''version'' then m\<lparr>mf_Version := value\<rparr>
      else m)"

function manifest_loop :: "string list \<Rightarrow> Manifest \<Rightarrow> Manifest" where
  "manifest_loop [] m = m"
| "manifest_loop (line # lines) m =
     (if TrimSpace line = [] then manifest_loop lines m
      else if is_indented line then manifest_loop lines m
      else (case splitKeyValue line of
              None \<Rightarrow> manifest_loop lines m
            | Some (key, value) \<Rightarrow>
                if key = ''metadata'' then
                  manifest_loop (drop (snd (parseMetadataBlock lines)) lines)
                    (m\<lparr>mf_Metadata := fst (parseMetadataBlock lines)\<rparr>)
                else manifest_loop lines (set_key key value m)))"
  by pat_completeness auto
termination
  by (relation "measure (\<lambda>(lines, m). length lines)") auto

definition parseManifestLines :: "string list \<Rightarrow> Manifest result" where
  "parseManifestLines lines =
     (let m = manifest_loop lines zero_Manifest in
      if TrimSpace (mf_Name m) = [] then
        Inl (Err (''SKILL.md frontmatter: '' @ quote ''name'' @ '' is required''))
      else if TrimSpace (mf_Description m) = [] then
        Inl (Err (''SKILL.md frontmatter: '' @ quote ''description'' @ '' is required''))
      else Inr m)"

definition dashes :: string where "dashes = ''---''"

text \<open>The first line at or after the second one that is the closing delimiter.\<close>

definition closing_index :: "string list \<Rightarrow> nat option" where
  "closing_index ls =
     (case filter (\<lambda>i. TrimSpace (ls ! i) = dashes) [1..<length ls] of [] \<Rightarrow> None | i # _ \<Rightarrow> Some i)"

definition parseFrontmatter :: "string \<Rightarrow> (Manifest \<times> string \<times> string) result" where
  "parseFrontmatter content =
     (let ls = Split (ReplaceAll content (char_of (13::nat) # nl) nl) (char_of (10::nat)) in
      if ls = [] \<or> TrimSpace (hd ls) \<noteq> dashes then
        Inl (Err (''SKILL.md must start with a '' @ quote dashes @ '' frontmatter delimiter''))
      else (case closing_index ls of
              None \<Rightarrow> Inl (Err (''SKILL.md frontmatter has no closing '' @ quote dashes))
            | Some e \<Rightarrow>
                (let fl = take (e - 1) (drop 1 ls);
                     raw = Join fl nl;
                     body = TrimSpace (Join (drop (e + 1) ls) nl)
                 in case parseManifestLines fl of
                      Inl err \<Rightarrow> Inl err
                    | Inr m \<Rightarrow> Inr (m, raw, body))))"

section \<open>bundle.go\<close>

definition SkillMDPath :: string where "SkillMDPath = ''SKILL.md''"

record File =
  f_Path :: string
  f_Content :: string

record SkillBundle =
  b_SkillID :: string
  b_Manifest :: Manifest
  b_Files :: "File list"
  b_Body :: string
  b_RawFrontmatter :: string

text \<open>\<open>[^a-z0-9]+\<close> replaced by one dash; the regexp works on runes, all bytes of a non-ASCII rune are outside the class.\<close>

definition slug_char :: "char \<Rightarrow> bool" where
  "slug_char c \<longleftrightarrow> (let n = of_char c :: nat in 97 \<le> n \<and> n \<le> 122 \<or> 48 \<le> n \<and> n \<le> 57)"

fun replace_invalid :: "string \<Rightarrow> string" where
  "replace_invalid [] = []"
| "replace_invalid (c # s) =
     (if slug_char c then c # replace_invalid s
      else CHR ''-'' # replace_invalid (dropWhile (\<lambda>d. \<not> slug_char d) s))"

definition Slug :: "string \<Rightarrow> string" where
  "Slug name = TrimChars (replace_invalid (ToLower (TrimSpace name))) ''-''"

definition bundle_error :: "string \<Rightarrow> go_error" where
  "bundle_error s = Err (''skill bundle: '' @ s)"

text \<open>The check loop of \<open>FromFiles\<close>: paths seen, and the last file called \<open>SKILL.md\<close>.\<close>

fun check_files :: "File list \<Rightarrow> string list \<Rightarrow> File option \<Rightarrow> File option result" where
  "check_files [] seen md = Inr md"
| "check_files (f # fs) seen md =
     (if f_Path f = [] then Inl (bundle_error ''empty file path'')
      else if f_Path f \<in> set seen then Inl (bundle_error (''duplicate path '' @ quote (f_Path f)))
      else check_files fs (f_Path f # seen) (if f_Path f = SkillMDPath then Some f else md))"

definition FromFiles :: "File list \<Rightarrow> SkillBundle result" where
  "FromFiles files =
     (case check_files files [] None of
        Inl e \<Rightarrow> Inl e
      | Inr None \<Rightarrow> Inl (bundle_error (''missing required '' @ SkillMDPath))
      | Inr (Some md) \<Rightarrow>
          (case parseFrontmatter (f_Content md) of
             Inl e \<Rightarrow> Inl (Wrap ''skill bundle: '' e [])
           | Inr (manifest, raw, body) \<Rightarrow>
               Inr \<lparr>b_SkillID = Slug (mf_Name manifest), b_Manifest = manifest,
                    b_Files = sort_key f_Path files, b_Body = body, b_RawFrontmatter = raw\<rparr>))"

text \<open>\<open>hex.EncodeToString\<close>.\<close>

definition hex_byte :: "char \<Rightarrow> string" where
  "hex_byte c = (let n = of_char c :: nat in [hex_digit (n div 16), hex_digit (n mod 16)])"

definition hex :: "string \<Rightarrow> string" where
  "hex s = concat (map hex_byte s)"

definition hash_line :: "(string \<Rightarrow> string) \<Rightarrow> File \<Rightarrow> string" where
  "hash_line sha256 f = f_Path f @ nl @ hex (sha256 (f_Content f)) @ nl"

definition Hash :: "(string \<Rightarrow> string) \<Rightarrow> SkillBundle \<Rightarrow> string" where
  "Hash sha256 b = hex (sha256 (concat (map (hash_line sha256) (b_Files b))))"

definition NormalizePath :: "string \<Rightarrow> string result" where
  "NormalizePath p =
     (if p = [] then Inl (Err ''empty path'')
      else if char_of (0::nat) \<in> set p then Inl (Err (''path '' @ quote p @ '' contains a NUL byte''))
      else if char_of (92::nat) \<in> set p then Inl (Err (''path '' @ quote p @ '' contains a backslash''))
      else if HasPrefix p ''/'' then Inl (Err (''path '' @ quote p @ '' must be relative''))
      else (let segments = Split p (CHR ''/'') in
            case find (\<lambda>seg. seg = [] \<or> seg = ''.'' \<or> seg = ''..'') segments of
              Some seg \<Rightarrow> Inl (Err (''path '' @ quote p @ '' contains an invalid segment '' @ quote seg))
            | None \<Rightarrow> Inr (Join segments ''/'')))"

section \<open>Paths\<close>

definition forbidden_segments :: "string list" where
  "forbidden_segments = [[], ''.'', ''..'']"

lemma HasPrefix_slash_Split: "HasPrefix p ''/'' \<Longrightarrow> [] \<in> set (Split p (CHR ''/''))"
  by (cases p) (auto simp: HasPrefix_def)

lemma NormalizePath_iff:
  "NormalizePath p = Inr q \<longleftrightarrow>
     q = p \<and> char_of (0::nat) \<notin> set p \<and> char_of (92::nat) \<notin> set p \<and>
     set (Split p (CHR ''/'')) \<inter> set forbidden_segments = {}"
proof (cases "p = []")
  case False
  have "find (\<lambda>seg. seg = [] \<or> seg = ''.'' \<or> seg = ''..'') (Split p (CHR ''/'')) = None \<longleftrightarrow>
      set (Split p (CHR ''/'')) \<inter> set forbidden_segments = {}"
    by (auto simp: find_None_iff forbidden_segments_def)
  with False show ?thesis
    using HasPrefix_slash_Split [of p]
    by (auto simp: NormalizePath_def Let_def Join_Split forbidden_segments_def split: option.splits)
qed (simp add: NormalizePath_def forbidden_segments_def)

section \<open>Bundles from files\<close>

lemma check_files_Inr:
  "check_files fs seen md = Inr r \<Longrightarrow>
     distinct (map f_Path fs) \<and> set (map f_Path fs) \<inter> set seen = {} \<and> [] \<notin> f_Path ` set fs \<and>
     r = (case find (\<lambda>f. f_Path f = SkillMDPath) (rev fs) of Some f \<Rightarrow> Some f | None \<Rightarrow> md)"
proof (induction fs seen md rule: check_files.induct)
  case (2 f fs seen md)
  then show ?case
    by (auto split: if_splits option.splits simp: find_append_case)
qed simp

lemma check_files_ok:
  "distinct (map f_Path fs) \<Longrightarrow> set (map f_Path fs) \<inter> set seen = {} \<Longrightarrow> [] \<notin> f_Path ` set fs \<Longrightarrow>
   \<exists>r. check_files fs seen md = Inr r"
  by (induction fs seen md rule: check_files.induct) auto

lemma FromFiles_Inr:
  assumes "FromFiles fs = Inr b"
  obtains md where "distinct (map f_Path fs)" "[] \<notin> f_Path ` set fs" "md \<in> set fs" "f_Path md = SkillMDPath"
    "parseFrontmatter (f_Content md) = Inr (b_Manifest b, b_RawFrontmatter b, b_Body b)"
    "b_Files b = sort_key f_Path fs" "b_SkillID b = Slug (mf_Name (b_Manifest b))"
proof -
  from assms obtain md where c: "check_files fs [] None = Inr (Some md)"
    and p: "parseFrontmatter (f_Content md) = Inr (b_Manifest b, b_RawFrontmatter b, b_Body b)"
      "b_Files b = sort_key f_Path fs" "b_SkillID b = Slug (mf_Name (b_Manifest b))"
    by (auto simp: FromFiles_def split: sum.splits option.splits prod.splits)
  from check_files_Inr [OF c] have "distinct (map f_Path fs)" "[] \<notin> f_Path ` set fs"
    "md \<in> set fs" "f_Path md = SkillMDPath"
    by (auto split: option.splits dest: find_rev_Some)
  with p that show ?thesis by blast
qed

lemma FromFiles_intro:
  assumes "distinct (map f_Path fs)" "[] \<notin> f_Path ` set fs" "md \<in> set fs" "f_Path md = SkillMDPath"
    "parseFrontmatter (f_Content md) = Inr (m, raw, body)"
  shows "FromFiles fs = Inr \<lparr>b_SkillID = Slug (mf_Name m), b_Manifest = m, b_Files = sort_key f_Path fs,
           b_Body = body, b_RawFrontmatter = raw\<rparr>"
proof -
  obtain r where r: "check_files fs [] None = Inr r"
    using check_files_ok [OF assms(1), of "[]" None] assms(2) by auto
  have "r = Some md"
  proof -
    obtain f where f: "find (\<lambda>f. f_Path f = SkillMDPath) (rev fs) = Some f"
      using assms(3,4) by (metis (mono_tags, lifting) find_None_iff not_Some_eq set_rev)
    then have "f \<in> set fs" "f_Path f = SkillMDPath"
      by (auto dest: find_rev_Some)
    with assms have "f = md" by (metis distinct_map inj_onD)
    with check_files_Inr [OF r] f show ?thesis by simp
  qed
  with r assms(5) show ?thesis by (simp add: FromFiles_def)
qed

lemma sort_key_unique:
  assumes "distinct (map f xs)" "mset xs = mset ys"
  shows "sort_key f xs = sort_key (f :: 'a \<Rightarrow> 'b :: linorder) ys"
proof -
  have set_eq: "set xs = set ys" using assms(2) by (metis set_mset_mset)
  have inj: "inj_on f (set xs)" using assms(1) by (simp add: distinct_map)
  have "distinct (map f ys)"
    using assms by (metis distinct_map mset_eq_imp_distinct_iff set_eq)
  then show ?thesis
    using assms(1) inj set_eq by (intro map_sorted_distinct_set_unique [of f]) (auto simp: distinct_map)
qed

section \<open>Slugs\<close>

fun no_double_dash :: "string \<Rightarrow> bool" where
  "no_double_dash (a # b # s) = (\<not> (a = CHR ''-'' \<and> b = CHR ''-'') \<and> no_double_dash (b # s))"
| "no_double_dash _ = True"

definition slug_form :: "string \<Rightarrow> bool" where
  "slug_form s \<longleftrightarrow>
     list_all (\<lambda>c. slug_char c \<or> c = CHR ''-'') s \<and> no_double_dash s \<and>
     (s \<noteq> [] \<longrightarrow> hd s \<noteq> CHR ''-'' \<and> last s \<noteq> CHR ''-'')"

lemma dash_not_slug [simp]: "\<not> slug_char (CHR ''-'')"
  by (simp add: slug_char_def)

lemma replace_invalid_chars: "c \<in> set (replace_invalid s) \<Longrightarrow> slug_char c \<or> c = CHR ''-''"
  by (induction s rule: replace_invalid.induct) (auto split: if_splits)

lemma replace_invalid_hd: "slug_char (hd s) \<Longrightarrow> s \<noteq> [] \<Longrightarrow> \<exists>t. replace_invalid s = hd s # t"
  by (cases s) auto

lemma replace_invalid_no_double: "no_double_dash (replace_invalid s)"
proof (induction s rule: replace_invalid.induct)
  case (2 c s)
  show ?case
  proof (cases "slug_char c")
    case True
    with 2 show ?thesis by (cases "replace_invalid s") auto
  next
    case False
    let ?r = "dropWhile (\<lambda>d. \<not> slug_char d) s"
    show ?thesis
    proof (cases "?r = []")
      case False
      then have "slug_char (hd ?r)" by (metis hd_dropWhile)
      with False obtain t where "replace_invalid ?r = hd ?r # t" using replace_invalid_hd by blast
      with 2 \<open>\<not> slug_char c\<close> \<open>slug_char (hd ?r)\<close> show ?thesis by auto
    next
      case True
      with \<open>\<not> slug_char c\<close> show ?thesis by (simp del: dropWhile_eq_Nil_conv)
    qed
  qed
qed simp

lemma no_double_dash_append: "no_double_dash (a @ b) \<Longrightarrow> no_double_dash a \<and> no_double_dash b"
proof (induction a)
  case (Cons x a)
  then show ?case by (cases a; cases b) auto
qed simp

lemma TrimChars_split: "\<exists>a b. s = a @ TrimChars s cs @ b"
proof -
  let ?l = "TrimLeft s cs"
  have "s = takeWhile (\<lambda>c. c \<in> set cs) s @ ?l" by (simp add: TrimLeft_def)
  moreover have "?l = TrimChars s cs @ rev (takeWhile (\<lambda>c. c \<in> set cs) (rev ?l))"
    unfolding TrimChars_def TrimLeft_def by (metis rev_append rev_rev_ident takeWhile_dropWhile_id)
  ultimately show ?thesis by metis
qed

lemma TrimChars_ends:
  assumes "TrimChars s cs \<noteq> []"
  shows "hd (TrimChars s cs) \<notin> set cs" "last (TrimChars s cs) \<notin> set cs"
proof -
  let ?l = "TrimLeft s cs"
  from assms have r: "dropWhile (\<lambda>c. c \<in> set cs) (rev ?l) \<noteq> []" by (simp add: TrimChars_def TrimLeft_def)
  then have "hd (dropWhile (\<lambda>c. c \<in> set cs) (rev ?l)) \<notin> set cs" by (metis hd_dropWhile)
  then show "last (TrimChars s cs) \<notin> set cs" by (simp add: TrimChars_def TrimLeft_def last_rev)
  have l: "?l = TrimChars s cs @ rev (takeWhile (\<lambda>c. c \<in> set cs) (rev ?l))"
    unfolding TrimChars_def TrimLeft_def by (metis rev_append rev_rev_ident takeWhile_dropWhile_id)
  with assms have "?l \<noteq> []" "hd ?l = hd (TrimChars s cs)" by (auto, metis hd_append2)
  then show "hd (TrimChars s cs) \<notin> set cs" unfolding TrimLeft_def by (metis hd_dropWhile)
qed

lemma Slug_form: "slug_form (Slug name)"
proof -
  let ?r = "replace_invalid (ToLower (TrimSpace name))"
  obtain a b where ab: "?r = a @ Slug name @ b"
    using TrimChars_split [of ?r "''-''"] by (auto simp: Slug_def)
  have "list_all (\<lambda>c. slug_char c \<or> c = CHR ''-'') (Slug name)"
    unfolding list_all_iff using replace_invalid_chars [of _ "ToLower (TrimSpace name)"] ab by auto
  moreover have "no_double_dash (Slug name)"
    using replace_invalid_no_double [of "ToLower (TrimSpace name)"] ab by (metis no_double_dash_append)
  moreover have "Slug name \<noteq> [] \<longrightarrow> hd (Slug name) \<noteq> CHR ''-'' \<and> last (Slug name) \<noteq> CHR ''-''"
    using TrimChars_ends [of ?r "''-''"] by (auto simp: Slug_def)
  ultimately show ?thesis by (simp add: slug_form_def)
qed

lemma slug_char_props: "slug_char c \<Longrightarrow> graphic c \<and> of_char c < (128::nat) \<and> lower_byte c = c"
  by (auto simp: slug_char_def graphic_def lower_byte_def Let_def)

lemma dash_props: "graphic (CHR ''-'') \<and> of_char (CHR ''-'') < (128::nat) \<and> lower_byte (CHR ''-'') = CHR ''-''"
  by (simp add: graphic_def lower_byte_def)

lemma replace_invalid_form:
  "list_all (\<lambda>c. slug_char c \<or> c = CHR ''-'') s \<Longrightarrow> no_double_dash s \<Longrightarrow> last s \<noteq> CHR ''-'' \<Longrightarrow> replace_invalid s = s"
proof (induction s rule: replace_invalid.induct)
  case (2 c s)
  show ?case
  proof (cases "slug_char c")
    case False
    with 2 have "s \<noteq> []" "c = CHR ''-''" by auto
    with 2 have "slug_char (hd s)" "no_double_dash s" "last s \<noteq> CHR ''-''" by (cases s; auto)+
    moreover from this \<open>s \<noteq> []\<close> have "dropWhile (\<lambda>d. \<not> slug_char d) s = s" by (cases s) auto
    ultimately show ?thesis using 2 False \<open>c = CHR ''-''\<close> by simp
  next
    case True
    with 2 show ?thesis by (cases s) auto
  qed
qed simp

lemma TrimChars_id: "hd s \<notin> set cs \<Longrightarrow> last s \<notin> set cs \<Longrightarrow> TrimChars s cs = s"
proof (cases "s = []")
  case False
  moreover assume a: "hd s \<notin> set cs" and b: "last s \<notin> set cs"
  ultimately have "TrimLeft s cs = s" by (cases s) (auto simp: TrimLeft_def)
  moreover from False b have "TrimLeft (rev s) cs = rev s" by (cases s rule: rev_cases) (auto simp: TrimLeft_def)
  ultimately show ?thesis by (simp add: TrimChars_def)
qed (simp add: TrimChars_def TrimLeft_def)

lemma Slug_id: "slug_form s \<Longrightarrow> Slug s = s"
proof (cases "s = []")
  case False
  assume s: "slug_form s"
  have c: "\<forall>c \<in> set s. graphic c \<and> of_char c < (128::nat) \<and> lower_byte c = c"
  proof
    fix c assume "c \<in> set s"
    with s have "slug_char c \<or> c = CHR ''-''" by (simp add: slug_form_def list_all_iff)
    then show "graphic c \<and> of_char c < (128::nat) \<and> lower_byte c = c"
      by (elim disjE) (rule slug_char_props, assumption, simp only: dash_props)
  qed
  with False have "TrimSpace s = s" by (intro TrimSpace_id) auto
  moreover from c have "ToLower s = s" by (intro ToLower_id) blast
  moreover from s False have "replace_invalid s = s" by (intro replace_invalid_form) (auto simp: slug_form_def)
  moreover from s False have "TrimChars s ''-'' = s" by (intro TrimChars_id) (auto simp: slug_form_def)
  ultimately show ?thesis by (simp add: Slug_def)
qed (simp add: Slug_def ToLower_def ReplaceAll_def TrimChars_def TrimLeft_def)

lemma Slug_no_letters: "\<forall>c \<in> set (ToLower (TrimSpace name)). \<not> slug_char c \<Longrightarrow> Slug name = []"
proof (cases "ToLower (TrimSpace name)")
  case (Cons c s)
  moreover assume "\<forall>c \<in> set (ToLower (TrimSpace name)). \<not> slug_char c"
  ultimately have "\<not> slug_char c" "dropWhile (\<lambda>d. \<not> slug_char d) s = []" by simp_all
  with Cons have "replace_invalid (ToLower (TrimSpace name)) = ''-''" by (simp del: dropWhile_eq_Nil_conv)
  then show ?thesis by (simp add: Slug_def TrimChars_def TrimLeft_def)
qed (simp add: Slug_def TrimChars_def TrimLeft_def)

section \<open>Frontmatter, printed and parsed back\<close>

definition quoted_line :: "string \<Rightarrow> string \<Rightarrow> string" where
  "quoted_line key value = key @ '': '' @ [dquote] @ value @ [dquote]"

definition render_lines :: "Manifest \<Rightarrow> string list" where
  "render_lines m =
     [quoted_line ''name'' (mf_Name m), quoted_line ''description'' (mf_Description m),
      quoted_line ''author'' (mf_Author m), quoted_line ''version'' (mf_Version m)]"

text \<open>A \<open>SKILL.md\<close> with the four fields in double quotes and the given body.\<close>

definition render_skill_md :: "Manifest \<Rightarrow> string \<Rightarrow> string" where
  "render_skill_md m body = Join ([dashes] @ render_lines m @ [dashes]) nl @ nl @ body"

lemma unquote_quoted: "unquote (dquote # v @ [dquote]) = v"
  by (simp add: unquote_def)

lemma graphic_dquote [simp]: "graphic dquote"
  by (simp add: graphic_def dquote_def)

lemma splitKeyValue_quoted:
  assumes "CHR '':'' \<notin> set key" "key \<noteq> []" "graphic (hd key)" "graphic (last key)"
  shows "splitKeyValue (quoted_line key v) = Some (key, v)"
proof -
  have "IndexByte (quoted_line key v) (CHR '':'') = Some (length key)"
    using IndexByte_append [OF assms(1)] by (simp add: quoted_line_def)
  moreover have "TrimSpace (CHR '' '' # dquote # v @ [dquote]) = dquote # v @ [dquote]"
    by (intro TrimSpace_blank) auto
  ultimately show ?thesis
    using assms by (simp add: splitKeyValue_def quoted_line_def TrimSpace_id unquote_quoted)
qed

lemma quoted_line_TrimSpace:
  "key \<noteq> [] \<Longrightarrow> graphic (hd key) \<Longrightarrow> TrimSpace (quoted_line key v) = quoted_line key v"
  by (intro TrimSpace_id) (auto simp: quoted_line_def)

lemma quoted_line_plain:
  "key \<noteq> [] \<Longrightarrow> graphic (hd key) \<Longrightarrow>
   quoted_line key v \<noteq> [] \<and> \<not> is_indented (quoted_line key v)"
proof (cases key)
  case (Cons c s)
  moreover assume "graphic (hd key)"
  ultimately have "c \<notin> set indent_chars" by (auto simp: indent_chars_def graphic_def)
  with Cons show ?thesis by (auto simp: is_indented_def quoted_line_def TrimLeft_def)
qed simp

lemma manifest_loop_quoted:
  assumes "CHR '':'' \<notin> set key" "key \<noteq> []" "graphic (hd key)" "graphic (last key)" "key \<noteq> ''metadata''"
  shows "manifest_loop (quoted_line key v # ls) m = manifest_loop ls (set_key key v m)"
  using assms by (simp add: quoted_line_TrimSpace quoted_line_plain splitKeyValue_quoted)

lemma manifest_loop_render:
  "manifest_loop (render_lines m) zero_Manifest = m\<lparr>mf_Metadata := []\<rparr>"
  by (simp add: render_lines_def manifest_loop_quoted graphic_def set_key_def zero_Manifest_def
      del: manifest_loop.simps(2))

lemma TrimSpace_dashes: "TrimSpace dashes = dashes"
  by (intro TrimSpace_id) (simp_all add: dashes_def graphic_def)

lemma render_line_not_dashes: "l \<in> set (render_lines m) \<Longrightarrow> TrimSpace l \<noteq> dashes"
  by (auto simp: render_lines_def quoted_line_TrimSpace graphic_def)
    (simp_all add: quoted_line_def dashes_def)

lemma render_lines_chars:
  "c \<notin> set (mf_Name m) \<Longrightarrow> c \<notin> set (mf_Description m) \<Longrightarrow> c \<notin> set (mf_Author m) \<Longrightarrow> c \<notin> set (mf_Version m) \<Longrightarrow>
   \<not> graphic c \<Longrightarrow> c \<noteq> CHR '' '' \<Longrightarrow> l \<in> set (render_lines m) \<Longrightarrow> c \<notin> set l"
  by (auto simp: render_lines_def quoted_line_def graphic_def dquote_def)

lemma Split_lines:
  "(\<forall>l \<in> set ls. c \<notin> set l) \<Longrightarrow> ls \<noteq> [] \<Longrightarrow> Split (Join ls [c] @ c # b) c = ls @ Split b c"
  by (induction ls "[c]" rule: Join.induct) (auto simp: Split_append_sep)

lemma filter_upt_first: "P k \<Longrightarrow> i \<le> k \<Longrightarrow> k < n \<Longrightarrow> (\<forall>j. i \<le> j \<and> j < k \<longrightarrow> \<not> P j) \<Longrightarrow>
  \<exists>r. filter P [i..<n] = k # r"
proof -
  assume a: "P k" "i \<le> k" "k < n" "\<forall>j. i \<le> j \<and> j < k \<longrightarrow> \<not> P j"
  then have "[i..<n] = [i..<k] @ k # [Suc k..<n]"
    using upt_add_eq_append [of i k "n - k"] by (simp add: upt_conv_Cons)
  moreover from a have "filter P [i..<k] = []" by (simp add: filter_empty_conv)
  ultimately show ?thesis using a by simp
qed

lemma parseFrontmatter_render:
  assumes chars: "\<forall>c \<in> {char_of (10::nat), char_of (13::nat)}. c \<notin> set (mf_Name m) \<and> c \<notin> set (mf_Description m) \<and>
      c \<notin> set (mf_Author m) \<and> c \<notin> set (mf_Version m)"
    and body: "char_of (13::nat) \<notin> set body"
    and req: "TrimSpace (mf_Name m) \<noteq> []" "TrimSpace (mf_Description m) \<noteq> []"
  shows "parseFrontmatter (render_skill_md m body) =
    Inr (m\<lparr>mf_Metadata := []\<rparr>, Join (render_lines m) nl, TrimSpace body)"
proof -
  let ?nl = "char_of (10::nat) :: char" and ?cr = "char_of (13::nat) :: char"
  let ?hd = "dashes # render_lines m @ [dashes]"
  let ?ls = "?hd @ Split body ?nl"
  have ng: "\<not> graphic ?nl" "?nl \<noteq> CHR '' ''" "\<not> graphic ?cr" "?cr \<noteq> CHR '' ''"
    by (simp_all add: graphic_def char_of_eq_iff)
  have d: "c \<notin> set dashes" if "\<not> graphic c" for c
    using that by (auto simp: dashes_def graphic_def)
  have no: "\<forall>l \<in> set ?hd. ?nl \<notin> set l" "\<forall>l \<in> set ?hd. ?cr \<notin> set l"
    using render_lines_chars [of ?nl m] render_lines_chars [of ?cr m] chars ng d by auto
  have "?cr \<notin> set (render_skill_md m body)"
  proof -
    have "set (Join ls [c]) \<subseteq> insert c (\<Union>l \<in> set ls. set l)" for ls and c :: char
      by (induction ls "[c]" rule: Join.induct) auto
    from this [of ?hd ?nl] no(2) body ng show ?thesis
      by (auto simp: render_skill_md_def nl_def char_of_eq_iff)
  qed
  then have "Split (ReplaceAll (render_skill_md m body) (?cr # nl) nl) ?nl = ?ls"
    using Split_lines [OF no(1), of body] by (simp add: ReplaceAll_id render_skill_md_def nl_def)
  moreover have "closing_index ?ls = Some 5"
  proof -
    have "\<exists>r. filter (\<lambda>i. TrimSpace (?ls ! i) = dashes) [1..<length ?ls] = 5 # r"
    proof (rule filter_upt_first)
      show "TrimSpace (?ls ! 5) = dashes" by (simp add: render_lines_def TrimSpace_dashes)
      show "5 < length ?ls" by (simp add: render_lines_def)
      show "\<forall>j. 1 \<le> j \<and> j < 5 \<longrightarrow> TrimSpace (?ls ! j) \<noteq> dashes"
      proof (intro allI impI)
        fix j :: nat assume j: "1 \<le> j \<and> j < 5"
        then have "?ls ! j = render_lines m ! (j - 1)" "j - 1 < length (render_lines m)"
          by (auto simp: nth_append render_lines_def nth_Cons')
        with render_line_not_dashes [of "?ls ! j" m] show "TrimSpace (?ls ! j) \<noteq> dashes"
          by (metis nth_mem)
      qed
    qed simp
    then obtain r where "filter (\<lambda>i. TrimSpace (?ls ! i) = dashes) [1..<length ?ls] = 5 # r" by blast
    then show ?thesis by (simp only: closing_index_def list.case)
  qed
  moreover have "Join (Split body ?nl) nl = body" by (simp add: nl_def Join_Split)
  moreover have "take 4 (render_lines m @ dashes # Split body ?nl) = render_lines m"
    "drop 6 ?ls = Split body ?nl" by (simp_all add: render_lines_def)
  ultimately show ?thesis
    using req by (simp add: parseFrontmatter_def Let_def TrimSpace_dashes parseManifestLines_def manifest_loop_render)
qed

section \<open>The content hash\<close>

lemma hex_byte_inj: "hex_byte a = hex_byte b \<Longrightarrow> a = b"
proof -
  assume "hex_byte a = hex_byte b"
  then have "of_char a div 16 = (of_char b div 16 :: nat)" "of_char a mod 16 = (of_char b mod 16 :: nat)"
    by (auto simp: hex_byte_def Let_def less_mult_imp_div_less intro!: hex_digit_inj)
  then have "(of_char a :: nat) = of_char b" by (metis div_mult_mod_eq)
  then show "a = b" by simp
qed

lemma hex_inj: "hex s = hex t \<Longrightarrow> s = t"
proof (induction s arbitrary: t)
  case (Cons c s)
  then show ?case
    by (cases t) (auto simp: hex_def hex_byte_def Let_def intro: hex_byte_inj)
next
  case Nil
  then show ?case by (cases t) (auto simp: hex_def hex_byte_def Let_def)
qed

lemma hex_chars: "c \<in> set (hex s) \<Longrightarrow> \<exists>d < 16. c = hex_digit d"
proof -
  assume "c \<in> set (hex s)"
  then obtain x where "c = hex_digit (of_char x div 16) \<or> c = hex_digit (of_char x mod 16)"
    by (auto simp: hex_def hex_byte_def Let_def)
  moreover have "(of_char x :: nat) div 16 < 16" "(of_char x :: nat) mod 16 < 16"
    by (simp_all add: less_mult_imp_div_less)
  ultimately show ?thesis by blast
qed

lemma hex_digit_graphic: "d < 16 \<Longrightarrow> (48::nat) \<le> of_char (hex_digit d) \<and> of_char (hex_digit d) \<le> (102::nat) \<and>
    of_char (hex_digit d) \<noteq> (92::nat)"
  by (auto simp: hex_digit_def)

lemma hex_no: "(of_char c :: nat) < 48 \<or> of_char c = (92::nat) \<Longrightarrow> c \<notin> set (hex s)"
  using hex_chars hex_digit_graphic by (metis not_less)

lemma append_sep_inject:
  "c \<notin> set a \<Longrightarrow> c \<notin> set b \<Longrightarrow> a @ c # x = b @ c # y \<longleftrightarrow> a = b \<and> x = y"
  by (induction a arbitrary: b; case_tac b) auto

lemma hash_lines_inj:
  assumes inj: "\<And>x y. sha256 x = sha256 y \<Longrightarrow> x = y"
  shows "\<forall>f \<in> set fs. char_of (10::nat) \<notin> set (f_Path f) \<Longrightarrow>
   \<forall>f \<in> set gs. char_of (10::nat) \<notin> set (f_Path f) \<Longrightarrow>
   concat (map (hash_line sha256) fs) = concat (map (hash_line sha256) gs) \<Longrightarrow> fs = gs"
proof (induction fs arbitrary: gs)
  case Nil
  then show ?case by (cases gs) (auto simp: hash_line_def nl_def)
next
  case (Cons f fs)
  then obtain g gs' where gs: "gs = g # gs'" by (cases gs) (auto simp: hash_line_def nl_def)
  let ?n = "char_of (10::nat) :: char"
  have hx: "?n \<notin> set (hex s)" for s by (rule hex_no) simp
  from Cons.prems gs have "f_Path f @ ?n # (hex (sha256 (f_Content f)) @ ?n # concat (map (hash_line sha256) fs)) =
      f_Path g @ ?n # (hex (sha256 (f_Content g)) @ ?n # concat (map (hash_line sha256) gs'))"
    by (simp add: hash_line_def [of sha256 f] hash_line_def [of sha256 g] nl_def)
  moreover have "?n \<notin> set (f_Path f)" "?n \<notin> set (f_Path g)" using Cons.prems gs by simp_all
  ultimately have path: "f_Path f = f_Path g"
    and "hex (sha256 (f_Content f)) @ ?n # concat (map (hash_line sha256) fs) =
     hex (sha256 (f_Content g)) @ ?n # concat (map (hash_line sha256) gs')"
    by (simp_all add: append_sep_inject)
  from this(2) have "hex (sha256 (f_Content f)) = hex (sha256 (f_Content g))"
    and rest: "concat (map (hash_line sha256) fs) = concat (map (hash_line sha256) gs')"
    by (simp_all add: append_sep_inject hx)
  from inj [OF hex_inj [OF this(1)]] path have "f = g" by simp
  with Cons.IH [OF _ _ rest] Cons.prems gs show ?case by simp
qed

lemma Hash_inj:
  assumes "\<And>x y. sha256 x = sha256 y \<Longrightarrow> x = y" "Hash sha256 b = Hash sha256 b'"
    and "\<forall>f \<in> set (b_Files b) \<union> set (b_Files b'). char_of (10::nat) \<notin> set (f_Path f)"
  shows "b_Files b = b_Files b'"
proof -
  have "concat (map (hash_line sha256) (b_Files b)) = concat (map (hash_line sha256) (b_Files b'))"
    using assms(1) [OF hex_inj [OF assms(2) [unfolded Hash_def]]] .
  with hash_lines_inj [of sha256, OF assms(1)] assms(3) show ?thesis by blast
qed

section \<open>Properties\<close>

text \<open>
  C32: \<open>NormalizePath\<close> accepts a path exactly when it has no NUL byte, no backslash and no empty,
  "." or ".." segment (so it is relative and stays below its root), and then returns it unchanged.
\<close>

theorem NormalizePath_safe:
  "NormalizePath p = Inr q \<longleftrightarrow>
     q = p \<and> char_of (0::nat) \<notin> set p \<and> char_of (92::nat) \<notin> set p \<and>
     set (Split p (CHR ''/'')) \<inter> {[], ''.'', ''..''} = {}"
  using NormalizePath_iff [of p q] by (simp add: forbidden_segments_def)

text \<open>
  C31: a bundle built from files has the same files, in strictly increasing order of their paths,
  with a \<open>SKILL.md\<close> among them, and the slug of its name as id; and the bundle does not depend on the
  order in which the files were found.
\<close>

theorem FromFiles_canonical:
  assumes "FromFiles fs = Inr b" "mset fs = mset gs"
  shows "mset (b_Files b) = mset fs \<and> sorted_wrt (<) (map f_Path (b_Files b)) \<and>
    SkillMDPath \<in> f_Path ` set (b_Files b) \<and> b_SkillID b = Slug (mf_Name (b_Manifest b)) \<and>
    FromFiles gs = Inr b"
proof -
  from assms(1) obtain md where md: "distinct (map f_Path fs)" "[] \<notin> f_Path ` set fs" "md \<in> set fs"
    "f_Path md = SkillMDPath" "parseFrontmatter (f_Content md) = Inr (b_Manifest b, b_RawFrontmatter b, b_Body b)"
    "b_Files b = sort_key f_Path fs" "b_SkillID b = Slug (mf_Name (b_Manifest b))"
    by (rule FromFiles_Inr)
  have set_eq: "set gs = set fs" using assms(2) by (metis set_mset_mset)
  have "distinct (map f_Path gs)"
    using md(1) assms(2) set_eq by (metis distinct_map mset_eq_imp_distinct_iff)
  from FromFiles_intro [OF this _ _ md(4,5)] md(2,3) set_eq
  have "FromFiles gs = Inr \<lparr>b_SkillID = Slug (mf_Name (b_Manifest b)), b_Manifest = b_Manifest b,
      b_Files = sort_key f_Path gs, b_Body = b_Body b, b_RawFrontmatter = b_RawFrontmatter b\<rparr>" by simp
  also have "\<dots> = Inr b" using md(6,7) sort_key_unique [OF md(1) assms(2)] by simp
  finally have "FromFiles gs = Inr b" .
  moreover have "sorted_wrt (<) (map f_Path (b_Files b))"
    using md(1) unfolding md(6) strict_sorted_iff by (simp add: distinct_map)
  moreover have "SkillMDPath \<in> f_Path ` set (b_Files b)" using md(3,4,6) by force
  ultimately show ?thesis using md(6,7) by simp
qed

definition demo_manifest :: Manifest where
  "demo_manifest = \<lparr>mf_Name = ''Demo'', mf_Description = ''d'', mf_Author = [], mf_Version = [], mf_Metadata = []\<rparr>"

definition demo_files :: "File list" where
  "demo_files =
     [\<lparr>f_Path = ''run.sh'', f_Content = ''ls''\<rparr>,
      \<lparr>f_Path = ''SKILL.md'', f_Content = render_skill_md demo_manifest ''Do it.''\<rparr>]"

definition demo_bundle :: SkillBundle where
  "demo_bundle =
     \<lparr>b_SkillID = ''demo'', b_Manifest = demo_manifest, b_Files = rev demo_files, b_Body = ''Do it.'',
      b_RawFrontmatter = Join (render_lines demo_manifest) nl\<rparr>"

lemma Slug_Demo: "Slug ''Demo'' = ''demo''"
  by code_simp

lemma demo_parse: "parseFrontmatter (render_skill_md demo_manifest ''Do it.'') =
    Inr (demo_manifest, Join (render_lines demo_manifest) nl, ''Do it.'')"
  using parseFrontmatter_render [of demo_manifest "''Do it.''"]
  by (simp add: demo_manifest_def char_of_eq_iff TrimSpace_id graphic_def)

lemma demo_sorted: "sort_key f_Path demo_files = rev demo_files"
  by (simp add: demo_files_def less_char_def less_eq_char_def)

lemma FromFiles_demo: "FromFiles demo_files = Inr demo_bundle"
  using FromFiles_intro [of demo_files "\<lparr>f_Path = ''SKILL.md'', f_Content = render_skill_md demo_manifest ''Do it.''\<rparr>"
      demo_manifest "Join (render_lines demo_manifest) nl" "''Do it.''"] demo_parse demo_sorted Slug_Demo
  by (simp add: demo_files_def demo_bundle_def SkillMDPath_def demo_manifest_def)

theorem FromFiles_canonical_witness:
  "sorted_wrt (<) (map f_Path (b_Files demo_bundle)) \<and> FromFiles (rev demo_files) = Inr demo_bundle"
  using FromFiles_canonical [OF FromFiles_demo, of "rev demo_files"] by simp

text \<open>
  a slug consists of lower-case letters, digits and single inner dashes, and taking the slug
  again changes nothing.
\<close>

theorem Slug_canonical: "slug_form (Slug name) \<and> Slug (Slug name) = Slug name"
  using Slug_form Slug_id by blast




definition one_file :: "string \<Rightarrow> SkillBundle" where
  "one_file c = \<lparr>b_SkillID = [], b_Manifest = zero_Manifest, b_Files = [\<lparr>f_Path = ''SKILL.md'', f_Content = c\<rparr>],
     b_Body = c, b_RawFrontmatter = []\<rparr>"


text \<open>
  Without the restriction on paths the hash is ambiguous: a path with line breaks, which
  \<open>NormalizePath\<close> accepts, can swallow the digest of another file, so that two different bundles have
  the same hash.
\<close>

theorem Hash_ambiguous:
  "\<exists>fs gs p. fs \<noteq> gs \<and> NormalizePath p = Inr p \<and> p \<in> f_Path ` set gs \<and>
     Hash sha256 (b\<lparr>b_Files := fs\<rparr>) = Hash sha256 (b\<lparr>b_Files := gs\<rparr>)"
proof -
  let ?p = "''a'' @ nl @ hex (sha256 ''x'') @ nl @ ''b''"
  let ?fs = "[\<lparr>f_Path = ''a'', f_Content = ''x''\<rparr>, \<lparr>f_Path = ''b'', f_Content = ''y''\<rparr>]"
  let ?gs = "[\<lparr>f_Path = ?p, f_Content = ''y''\<rparr>]"
  have "c \<notin> set ?p" if "c = char_of (0::nat) \<or> c = char_of (92::nat) \<or> c = CHR ''/''" for c
  proof -
    have "c \<notin> set (hex (sha256 ''x''))" using that by (intro hex_no) auto
    moreover have "c \<notin> set nl" "c \<noteq> CHR ''a''" "c \<noteq> CHR ''b''"
      using that by (auto simp: nl_def char_of_eq_iff eq_commute [of _ "char_of _"])
    ultimately show ?thesis by simp
  qed
  moreover from this have "Split ?p (CHR ''/'') = [?p]" by (intro Split_no_sep_id) simp
  ultimately have "NormalizePath ?p = Inr ?p" by (simp add: NormalizePath_iff forbidden_segments_def)
  moreover have "Hash sha256 (b\<lparr>b_Files := ?fs\<rparr>) = Hash sha256 (b\<lparr>b_Files := ?gs\<rparr>)"
    by (simp add: Hash_def hash_line_def)
  moreover have "?fs \<noteq> ?gs" "?p \<in> f_Path ` set ?gs" by simp_all
  ultimately show ?thesis by blast
qed

end
