(* ===== verification/Bundle_Dir.thy ===== *)
theory Bundle_Dir
  imports Fs Bundle
begin

text \<open>
  \<^verbatim>\<open>pkg/skills/bundle/bundle.go\<close>, the part that reads a bundle from a directory: the policy, the walk of
  \<open>collectFiles\<close> with its refusals and limits, and \<open>Load\<close>.
\<close>

record bundle_Policy =
  bp_MaxFiles :: int
  bp_MaxFileBytes :: int
  bp_MaxBundleBytes :: int
  bp_AllowedExt :: "string list"

definition bundle_DefaultPolicy :: bundle_Policy where
  "bundle_DefaultPolicy =
     \<lparr>bp_MaxFiles = 64, bp_MaxFileBytes = 128 * 1024, bp_MaxBundleBytes = 512 * 1024,
      bp_AllowedExt = [''cjs'', ''css'', ''csv'', ''html'', ''js'', ''json'', ''jsx'', ''md'', ''mjs'',
        ''py'', ''sh'', ''sql'', ''text'', ''toml'', ''ts'', ''tsx'', ''txt'', ''xml'', ''yaml'', ''yml'', ''zsh'']\<rparr>"

definition TrimPrefix_dot :: "string \<Rightarrow> string" where
  "TrimPrefix_dot s = (if HasPrefix s ''.'' then drop 1 s else s)"

definition ext_of :: "string \<Rightarrow> string" where
  "ext_of path = ToLower (TrimPrefix_dot (filepath_Ext path))"

text \<open>The callback of the walk: the files so far, and their size. A size is a length.\<close>

definition collect_visit :: "path \<Rightarrow> bundle_Policy \<Rightarrow> fs \<Rightarrow> (File list \<times> int) walk_fn" where
  "collect_visit rt policy fs p d st =
     (case st of (files, totalBytes) \<Rightarrow>
        (case d of
           Inl e \<Rightarrow> (WErr e, st)
         | Inr x \<Rightarrow>
             (if p = rt then (WNext, st)
              else (case x of
                      ELink _ \<Rightarrow> (WErr (bundle_error (quote (Rel rt p) @ '' is a symlink, which is not allowed'')), st)
                    | EDir \<Rightarrow> (WNext, st)
                    | EFile data \<Rightarrow>
                        (case NormalizePath (Rel rt p) of
                           Inl e \<Rightarrow> (WErr (Wrap ''skill bundle: '' e []), st)
                         | Inr normalized \<Rightarrow>
                             (if ext_of normalized \<notin> set (bp_AllowedExt policy)
                              then (WErr (bundle_error (quote normalized @ '' has a disallowed extension'')), st)
                              else if int (length files) \<ge> bp_MaxFiles policy
                              then (WErr (bundle_error (''exceeds the '' @ Itoa (bp_MaxFiles policy) @ '' file limit'')), st)
                              else if int (length data) > bp_MaxFileBytes policy
                              then (WErr (bundle_error (quote normalized @ '' exceeds the '' @
                                      Itoa (bp_MaxFileBytes policy) @ '' byte per-file limit'')), st)
                              else (let total = totalBytes + int (length data) in
                                    if total > bp_MaxBundleBytes policy
                                    then (WErr (bundle_error (''exceeds the '' @ Itoa (bp_MaxBundleBytes policy) @
                                            '' byte bundle size limit'')), (files, total))
                                    else (case os_ReadFile fs p of
                                            Inl e \<Rightarrow> (WErr e, (files, total))
                                          | Inr content \<Rightarrow>
                                              (WNext, (files @ [\<lparr>f_Path = normalized, f_Content = content\<rparr>],
                                                 total))))))))))"

definition collectFiles :: "path \<Rightarrow> bundle_Policy \<Rightarrow> fs \<Rightarrow> File list result" where
  "collectFiles rt policy fs =
     (case os_Lstat fs rt of
        Inl e \<Rightarrow> Inl (Wrap ''skill bundle: '' e [])
      | Inr x \<Rightarrow>
          (if x \<noteq> EDir then Inl (bundle_error (quote (abs_str rt) @ '' is not a directory''))
           else (case WalkDir fs rt (collect_visit rt policy fs) ([], 0) of
                   (Inl e, _) \<Rightarrow> Inl e
                 | (Inr _, files, _) \<Rightarrow> Inr files)))"

definition bundle_Load :: "path \<Rightarrow> bundle_Policy \<Rightarrow> fs \<Rightarrow> SkillBundle result" where
  "bundle_Load rt policy fs =
     (case collectFiles rt policy fs of Inl e \<Rightarrow> Inl e | Inr entries \<Rightarrow> FromFiles entries)"

section \<open>What is loaded\<close>

definition file_at :: "fs \<Rightarrow> path \<Rightarrow> bool" where
  "file_at fs p \<longleftrightarrow> (\<exists>s. node fs p = Some (EFile s))"

definition content_at :: "fs \<Rightarrow> path \<Rightarrow> string" where
  "content_at fs p = (case node fs p of Some (EFile s) \<Rightarrow> s | _ \<Rightarrow> [])"

definition bundle_file :: "fs \<Rightarrow> path \<Rightarrow> path \<Rightarrow> File" where
  "bundle_file fs rt p = \<lparr>f_Path = Rel rt p, f_Content = content_at fs p\<rparr>"

text \<open>What the policy allows at a path below the root: a directory, or a file of an allowed kind and size.\<close>

definition admissible :: "bundle_Policy \<Rightarrow> fs \<Rightarrow> path \<Rightarrow> path \<Rightarrow> bool" where
  "admissible policy fs rt p \<longleftrightarrow>
     node fs p = Some EDir \<or>
     file_at fs p \<and> NormalizePath (Rel rt p) = Inr (Rel rt p) \<and> ext_of (Rel rt p) \<in> set (bp_AllowedExt policy) \<and>
       int (length (content_at fs p)) \<le> bp_MaxFileBytes policy"

definition total_bytes :: "fs \<Rightarrow> path list \<Rightarrow> int" where
  "total_bytes fs ps = (\<Sum>p \<leftarrow> ps. int (length (content_at fs p)))"

lemma collect_never_skips: "never_skips (collect_visit rt policy fs)"
  unfolding never_skips_def
  by (auto simp: collect_visit_def Let_def split: prod.split sum.split entry.split)

lemma NormalizePath_same: "NormalizePath p = Inr q \<Longrightarrow> q = p"
  by (simp add: NormalizePath_iff)

lemma tree_ok_dir:
  assumes "tree_ok fs" "node fs p = Some EDir"
  shows "is_dir fs p"
proof -
  have "node fs (take k p) = Some EDir" if "k \<le> length p" for k
  proof (cases "k = length p")
    case False
    with that have "take k p = butlast (take (Suc k) p)" by (simp add: butlast_take)
    moreover have "node fs (take (Suc k) p) \<noteq> None"
      using tree_ok_none [OF assms(1), of "take (Suc k) p" "drop (Suc k) p"] assms(2) by auto
    ultimately show ?thesis using tree_ok_iff [THEN iffD1, OF assms(1)] by auto
  qed (use assms in simp)
  moreover have "list_all plain p" using tree_ok_plain assms by auto
  ultimately show ?thesis by (simp add: is_dir_def)
qed

lemma tree_ok_ReadFile:
  assumes "tree_ok fs" "node fs p = Some (EFile s)"
  shows "os_ReadFile fs p = Inr s"
proof -
  have ne: "p \<noteq> []" using assms(2) by auto
  then have p: "p = butlast p @ [last p]" by simp
  have "is_dir fs (butlast p)" using assms tree_ok_iff by (intro tree_ok_dir) auto
  moreover have "plain (last p)" using tree_ok_plain [OF assms(1), of p] assms(2) ne by (cases p rule: rev_cases) auto
  ultimately show ?thesis using assms(2) os_ReadFile_file [of fs "butlast p" "last p" s] ne by simp
qed

text \<open>One visit goes on exactly when the policy allows it.\<close>

lemma collect_step:
  assumes "tree_ok fs" "node fs p \<noteq> None" "p \<noteq> rt"
  shows "collect_visit rt policy fs p (Inr (entry_at fs p)) (files, tot) = (WNext, st) \<longleftrightarrow>
    admissible policy fs rt p \<and>
    (if file_at fs p then int (length files) < bp_MaxFiles policy \<and>
         tot + int (length (content_at fs p)) \<le> bp_MaxBundleBytes policy \<and>
         st = (files @ [bundle_file fs rt p], tot + int (length (content_at fs p)))
     else st = (files, tot))"
proof (cases "node fs p")
  case (Some x)
  note x = this
  show ?thesis
  proof (cases x)
    case (EFile s)
    with x have s: "node fs p = Some (EFile s)" by simp
    have rd: "os_ReadFile fs p = Inr s" using tree_ok_ReadFile [OF assms(1) s] .
    show ?thesis
    proof (cases "NormalizePath (Rel rt p)")
      case (Inl e)
      then show ?thesis using s assms(3)
        by (simp add: collect_visit_def entry_at_def admissible_def file_at_def)
    next
      case (Inr q)
      then have "q = Rel rt p" by (rule NormalizePath_same)
      with Inr show ?thesis using s rd assms(3)
        by (auto simp: collect_visit_def entry_at_def admissible_def file_at_def content_at_def bundle_file_def Let_def)
    qed
  next
    case EDir
    with x show ?thesis using assms(3)
      by (auto simp: collect_visit_def entry_at_def admissible_def file_at_def)
  next
    case (ELink t)
    with x show ?thesis using assms(3)
      by (auto simp: collect_visit_def entry_at_def admissible_def file_at_def)
  qed
qed (use assms in simp)

lemma collect_fold:
  assumes "tree_ok fs" "\<forall>p \<in> set ps. node fs p \<noteq> None \<and> p \<noteq> rt"
    "int (length files) \<le> bp_MaxFiles policy" "tot \<le> bp_MaxBundleBytes policy"
  shows "walk_fold fs (collect_visit rt policy fs) ps (files, tot) = (WNext, st) \<longleftrightarrow>
    list_all (admissible policy fs rt) ps \<and>
    int (length files + length (filter (file_at fs) ps)) \<le> bp_MaxFiles policy \<and>
    tot + total_bytes fs (filter (file_at fs) ps) \<le> bp_MaxBundleBytes policy \<and>
    st = (files @ map (bundle_file fs rt) (filter (file_at fs) ps), tot + total_bytes fs (filter (file_at fs) ps))"
  using assms(2-4)
proof (induction ps arbitrary: files tot)
  case Nil
  then show ?case by (auto simp: total_bytes_def)
next
  case (Cons p ps)
  let ?fn = "collect_visit rt policy fs"
  have pos: "0 \<le> total_bytes fs qs" for qs unfolding total_bytes_def by (rule sum_list_nonneg) auto
  have p: "node fs p \<noteq> None" "p \<noteq> rt" using Cons.prems by auto
  note step = collect_step [OF assms(1) p, of policy files tot]
  obtain a t where g: "?fn p (Inr (entry_at fs p)) (files, tot) = (a, t)" by (metis surj_pair)
  show ?case
  proof (cases "a = WNext")
    case False
    then have "walk_fold fs ?fn (p # ps) (files, tot) \<noteq> (WNext, st)" using g by (cases a) auto
    moreover have "\<not> (admissible policy fs rt p \<and> (file_at fs p \<longrightarrow> int (length files) < bp_MaxFiles policy \<and>
        tot + int (length (content_at fs p)) \<le> bp_MaxBundleBytes policy))"
      using g False step [of "(files, tot)"]
        step [of "(files @ [bundle_file fs rt p], tot + int (length (content_at fs p)))"]
      by (cases "file_at fs p") auto
    ultimately show ?thesis using pos [of "filter (file_at fs) ps"] by (auto simp: total_bytes_def)
  next
    case True
    have rest: "walk_fold fs ?fn (p # ps) (files, tot) = walk_fold fs ?fn ps t" using g True by simp
    show ?thesis
    proof (cases "file_at fs p")
      case isf: True
      then have t: "t = (files @ [bundle_file fs rt p], tot + int (length (content_at fs p)))"
        and ok: "admissible policy fs rt p" "int (length files) < bp_MaxFiles policy"
          "tot + int (length (content_at fs p)) \<le> bp_MaxBundleBytes policy"
        using step [of t] g True by auto
      have "\<forall>p \<in> set ps. node fs p \<noteq> None \<and> p \<noteq> rt" "int (length (files @ [bundle_file fs rt p])) \<le> bp_MaxFiles policy"
        using Cons.prems ok by auto
      from Cons.IH [OF this ok(3)] show ?thesis
        unfolding rest t using isf ok by (auto simp: total_bytes_def algebra_simps)
    next
      case notf: False
      then have t: "t = (files, tot)" and ok: "admissible policy fs rt p" using step [of t] g True by auto
      from Cons.IH [of files tot] Cons.prems show ?thesis unfolding rest t using notf ok by simp
    qed
  qed
qed

text \<open>The files and all entries below a directory, in the order of the walk.\<close>

definition entries_below :: "fs \<Rightarrow> path \<Rightarrow> path list" where
  "entries_below fs rt = tl (preorder fs (length fs + 2) rt)"

lemma entries_below:
  assumes "tree_ok fs" "is_dir fs rt"
  shows "distinct (entries_below fs rt)"
    and "set (entries_below fs rt) = {p. node fs p \<noteq> None \<and> (\<exists>x xs. p = rt @ x # xs)}"
    and "preorder fs (length fs + 2) rt = rt # entries_below fs rt"
  using preorder_distinct [of fs "length fs + 2" rt] preorder_below [OF assms(1), of rt] is_dir_node [OF assms(2)]
  by (simp_all add: entries_below_def distinct_tl)

lemma collectFiles_iff:
  assumes ok: "tree_ok fs" "is_dir fs rt" and lim: "0 \<le> bp_MaxFiles policy" "0 \<le> bp_MaxBundleBytes policy"
  shows "collectFiles rt policy fs = Inr files \<longleftrightarrow>
    list_all (admissible policy fs rt) (entries_below fs rt) \<and>
    int (length (filter (file_at fs) (entries_below fs rt))) \<le> bp_MaxFiles policy \<and>
    total_bytes fs (filter (file_at fs) (entries_below fs rt)) \<le> bp_MaxBundleBytes policy \<and>
    files = map (bundle_file fs rt) (filter (file_at fs) (entries_below fs rt))"
proof -
  let ?fn = "collect_visit rt policy fs" and ?ps = "entries_below fs rt"
  have below: "\<forall>p \<in> set ?ps. node fs p \<noteq> None \<and> p \<noteq> rt" using entries_below(2) [OF ok] by auto
  have "entry_at fs rt = EDir" using is_dir_node [OF ok(2)] by (simp add: entry_at_def)
  then have first: "?fn rt (Inr (entry_at fs rt)) ([], 0) = (WNext, ([], 0))" by (simp add: collect_visit_def)
  have lstat: "os_Lstat fs rt = Inr EDir" using ok(2) by (simp add: os_Lstat_def is_dir_node)
  have run: "WalkDir fs rt ?fn ([], 0) = (case walk_fold fs ?fn ?ps ([], 0) of
      (WErr e, s') \<Rightarrow> (Inl e, s') | (_, s') \<Rightarrow> (Inr (), s'))"
    unfolding WalkDir_walk_fold [OF ok(2) collect_never_skips] entries_below(3) [OF ok] by (simp add: first)
  have "collectFiles rt policy fs = Inr files \<longleftrightarrow> (\<exists>tot. walk_fold fs ?fn ?ps ([], 0) = (WNext, (files, tot)))"
  proof -
    obtain a t where w: "walk_fold fs ?fn ?ps ([], 0) = (a, t)" by (metis surj_pair)
    then have "a = WNext \<or> (\<exists>e. a = WErr e)"
      using walk_fold_acts [OF collect_never_skips [of rt policy fs], of fs ?ps "([], 0)"] by auto
    with w show ?thesis by (cases t) (auto simp: collectFiles_def lstat run)
  qed
  then show ?thesis
    using collect_fold [OF ok(1) below, of "[]" policy 0] lim by auto
qed

lemma Rel_below: "xs \<noteq> [] \<Longrightarrow> Rel rt (rt @ xs) = Join xs ''/''"
proof -
  have "takeWhile (\<lambda>(a, b). a = b) (zip rt (rt @ xs)) = zip rt rt"
    by (induction rt) auto
  then show "xs \<noteq> [] \<Longrightarrow> Rel rt (rt @ xs) = Join xs ''/''"
    by (simp add: Rel_def Let_def)
qed

text \<open>
  C8: a bundle loaded from a directory has exactly the regular files below that directory, each once, with
  their content and their paths relative to it; there is no symbolic link below the directory, every file
  has an allowed extension, and the number, the size of each and the total size of the files are within
  the limits of the policy.
\<close>

theorem loaded_bundle_exact:
  assumes "tree_ok fs" "is_dir fs dir" "0 \<le> bp_MaxFiles policy" "0 \<le> bp_MaxBundleBytes policy"
    and "bundle_Load dir policy fs = Inr b"
  shows "set (b_Files b) = {\<lparr>f_Path = Join xs ''/'', f_Content = s\<rparr> | xs s. xs \<noteq> [] \<and> node fs (dir @ xs) = Some (EFile s)} \<and>
    distinct (map f_Path (b_Files b)) \<and>
    (\<forall>xs t. xs \<noteq> [] \<longrightarrow> node fs (dir @ xs) \<noteq> Some (ELink t)) \<and>
    int (length (b_Files b)) \<le> bp_MaxFiles policy \<and>
    (\<Sum>f \<leftarrow> b_Files b. int (length (f_Content f))) \<le> bp_MaxBundleBytes policy \<and>
    (\<forall>f \<in> set (b_Files b). ext_of (f_Path f) \<in> set (bp_AllowedExt policy) \<and>
       int (length (f_Content f)) \<le> bp_MaxFileBytes policy)"
proof -
  let ?es = "entries_below fs dir"
  let ?ps = "filter (file_at fs) ?es"
  obtain files where c: "collectFiles dir policy fs = Inr files" and f: "FromFiles files = Inr b"
    using assms(5) by (auto simp: bundle_Load_def split: sum.splits)
  note parts = collectFiles_iff [OF assms(1-4), THEN iffD1, OF c]
  have files: "files = map (bundle_file fs dir) ?ps" using parts by blast
  from f obtain md where b: "distinct (map f_Path files)" "b_Files b = sort_key f_Path files"
    by (rule FromFiles_Inr)
  have mem: "p \<in> set ?es \<longleftrightarrow> node fs p \<noteq> None \<and> (\<exists>x xs. p = dir @ x # xs)" for p
    using entries_below(2) [OF assms(1,2)] by simp
  have adm: "admissible policy fs dir p" if "p \<in> set ?es" for p using parts that by (auto simp: list_all_iff)
  have "set (b_Files b) = bundle_file fs dir ` set ?ps" using b files by simp
  also have "\<dots> = {\<lparr>f_Path = Join xs ''/'', f_Content = s\<rparr> | xs s. xs \<noteq> [] \<and> node fs (dir @ xs) = Some (EFile s)}"
  proof (intro equalityI subsetI)
    fix g
    assume "g \<in> bundle_file fs dir ` set ?ps"
    then obtain p where p: "g = bundle_file fs dir p" "p \<in> set ?es" "file_at fs p" by auto
    then obtain x xs s where "p = dir @ x # xs" "node fs p = Some (EFile s)" using mem by (auto simp: file_at_def)
    with p show "g \<in> {\<lparr>f_Path = Join xs ''/'', f_Content = s\<rparr> | xs s. xs \<noteq> [] \<and> node fs (dir @ xs) = Some (EFile s)}"
      by (auto simp: bundle_file_def content_at_def Rel_below)
  next
    fix g
    assume "g \<in> {\<lparr>f_Path = Join xs ''/'', f_Content = s\<rparr> | xs s. xs \<noteq> [] \<and> node fs (dir @ xs) = Some (EFile s)}"
    then obtain xs s where g: "g = \<lparr>f_Path = Join xs ''/'', f_Content = s\<rparr>" "xs \<noteq> []" "node fs (dir @ xs) = Some (EFile s)"
      by auto
    then have "dir @ xs \<in> set ?ps" using mem by (auto simp: file_at_def neq_Nil_conv)
    moreover have "g = bundle_file fs dir (dir @ xs)" using g by (simp add: bundle_file_def content_at_def Rel_below)
    ultimately show "g \<in> bundle_file fs dir ` set ?ps" by blast
  qed
  finally have exact: "set (b_Files b) = {\<lparr>f_Path = Join xs ''/'', f_Content = s\<rparr> | xs s. xs \<noteq> [] \<and> node fs (dir @ xs) = Some (EFile s)}" .
  have links: "node fs (dir @ xs) \<noteq> Some (ELink t)" if "xs \<noteq> []" for xs t
    using adm [of "dir @ xs"] mem [of "dir @ xs"] that by (auto simp: admissible_def file_at_def neq_Nil_conv)
  have sum: "(\<Sum>f \<leftarrow> b_Files b. int (length (f_Content f))) = total_bytes fs ?ps"
  proof -
    let ?size = "\<lambda>f. int (length (f_Content f))"
    have "mset (map ?size (b_Files b)) = mset (map ?size files)" using b by simp
    then have "sum_mset (mset (map ?size (b_Files b))) = sum_mset (mset (map ?size files))" by (rule arg_cong)
    then have "sum_list (map ?size (b_Files b)) = sum_list (map ?size files)" unfolding sum_mset_sum_list .
    then show ?thesis by (simp add: files total_bytes_def bundle_file_def comp_def)
  qed
  have each: "ext_of (f_Path g) \<in> set (bp_AllowedExt policy) \<and> int (length (f_Content g)) \<le> bp_MaxFileBytes policy"
    if g: "g \<in> set (b_Files b)" for g
  proof -
    obtain p where p: "g = bundle_file fs dir p" "p \<in> set ?es" "file_at fs p" using g b files by auto
    from adm [OF p(2)] p show ?thesis by (auto simp: admissible_def bundle_file_def file_at_def)
  qed
  have "distinct (map f_Path (b_Files b))" using b by (metis distinct_map distinct_sort set_sort)
  moreover have "int (length (b_Files b)) \<le> bp_MaxFiles policy" using parts b files by simp
  moreover have "(\<Sum>f \<leftarrow> b_Files b. int (length (f_Content f))) \<le> bp_MaxBundleBytes policy" using parts sum by simp
  ultimately show ?thesis using exact links each by blast
qed

text \<open>A skill directory with two files.\<close>

definition demo_skill_md :: string where
  "demo_skill_md = render_skill_md demo_manifest ''Do it.''"

definition skill_fs :: fs where
  "skill_fs = [([''d''], EDir), ([''d'', ''run.sh''], EFile ''ls''), ([''d'', ''SKILL.md''], EFile demo_skill_md)]"

lemma skill_fs_ok: "tree_ok skill_fs" "is_dir skill_fs [''d'']"
  by (simp_all add: tree_ok_def is_dir_step skill_fs_def plain_def node_def)

lemma skill_fs_entries: "entries_below skill_fs [''d''] = [[''d'', ''SKILL.md''], [''d'', ''run.sh'']]"
proof -
  have "children skill_fs [''d''] = [''SKILL.md'', ''run.sh'']" "length skill_fs = 3"
    by (simp_all add: children_def skill_fs_def less_char_def)
  then show ?thesis by (simp add: entries_below_def numeral_eq_Suc entry_at_def skill_fs_def node_def)
qed

lemma skill_texts:
  "length demo_skill_md \<le> 1000" "ext_of ''SKILL.md'' = ''md''" "ext_of ''run.sh'' = ''sh''"
  "NormalizePath ''SKILL.md'' = Inr ''SKILL.md''" "NormalizePath ''run.sh'' = Inr ''run.sh''"
  by code_simp+

lemma skill_load: "bundle_Load [''d''] bundle_DefaultPolicy skill_fs = Inr demo_bundle"
proof -
  have nodes: "node skill_fs [''d'', ''SKILL.md''] = Some (EFile demo_skill_md)" "node skill_fs [''d'', ''run.sh''] = Some (EFile ''ls'')"
    by (simp_all add: skill_fs_def node_def)
  have rel: "Rel [''d''] [''d'', ''SKILL.md''] = ''SKILL.md''" "Rel [''d''] [''d'', ''run.sh''] = ''run.sh''"
    using Rel_below [of "[''SKILL.md'']" "[''d'']"] Rel_below [of "[''run.sh'']" "[''d'']"] by simp_all
  have "collectFiles [''d''] bundle_DefaultPolicy skill_fs = Inr (rev demo_files)"
    using skill_texts
    by (subst collectFiles_iff [OF skill_fs_ok])
      (simp_all add: skill_fs_entries admissible_def file_at_def content_at_def bundle_file_def nodes rel total_bytes_def
        bundle_DefaultPolicy_def demo_files_def demo_skill_md_def)
  moreover have "FromFiles (rev demo_files) = Inr demo_bundle"
    using FromFiles_intro [of "rev demo_files" "\<lparr>f_Path = ''SKILL.md'', f_Content = render_skill_md demo_manifest ''Do it.''\<rparr>"
        demo_manifest "Join (render_lines demo_manifest) nl" "''Do it.''"] demo_parse Slug_Demo
    by (simp add: demo_files_def demo_bundle_def SkillMDPath_def demo_manifest_def less_char_def less_eq_char_def)
  ultimately show ?thesis by (simp add: bundle_Load_def)
qed

theorem loaded_bundle_exact_witness:
  "bundle_Load [''d''] bundle_DefaultPolicy skill_fs = Inr demo_bundle \<and>
   set (b_Files demo_bundle) =
     {\<lparr>f_Path = Join xs ''/'', f_Content = s\<rparr> | xs s. xs \<noteq> [] \<and> node skill_fs ([''d''] @ xs) = Some (EFile s)}"
  using loaded_bundle_exact [OF skill_fs_ok _ _ skill_load] skill_load by (simp add: bundle_DefaultPolicy_def)

end
