(* ===== verification/Regex.thy ===== *)
theory Regex
  imports Json
begin

text \<open>
  What \<^verbatim>\<open>pkg/skills/validation/static.go\<close> uses of Go's package \<open>regexp\<close>: an executable matcher and
  the declarative meaning it computes. Its \<open>fold_matches\<close> serves the patterns of the web tools too.
\<close>

section \<open>The matcher\<close>

text \<open>
  Regular expressions, the part of RE2 the rules use, under the flag \<open>(?i)\<close>. A text is the list of its
  runes. \<open>Lit\<close> is one literal character, matched up to simple case folding: a letter matches its other
  case, and \<open>k\<close> and \<open>s\<close> also match U+212A and U+017F. \<open>Rep n r\<close> is \<open>r{0,n}\<close>, \<open>Star r\<close> is \<open>r*\<close>.
\<close>

datatype regex =
    Lit char
  | AnyRune
  | Space
  | WordB
  | Class string
  | Empty
  | Seq regex regex
  | Alt regex regex
  | Rep nat regex
  | Star regex

definition fold_matches :: "char \<Rightarrow> string \<Rightarrow> bool" where
  "fold_matches c r \<longleftrightarrow>
     r = [c] \<or> r = [lower_byte c] \<or> r = [upper_byte c] \<or>
     (lower_byte c = CHR ''k'' \<and> r = bytes [0xE2, 0x84, 0xAA]) \<or>
     (lower_byte c = CHR ''s'' \<and> r = bytes [0xC5, 0xBF])"

definition space_rune :: "string \<Rightarrow> bool" where
  "space_rune r \<longleftrightarrow> r \<in> set (map (\<lambda>n. bytes [n]) [9, 10, 12, 13, 32])"

definition word_rune :: "string \<Rightarrow> bool" where
  "word_rune r \<longleftrightarrow>
     (case r of [c] \<Rightarrow> (let n = of_char c :: nat in
        48 \<le> n \<and> n \<le> 57 \<or> 65 \<le> n \<and> n \<le> 90 \<or> n = 95 \<or> 97 \<le> n \<and> n \<le> 122) | _ \<Rightarrow> False)"

definition word_at :: "string list \<Rightarrow> nat \<Rightarrow> bool" where
  "word_at t i \<longleftrightarrow> i < length t \<and> word_rune (t ! i)"

definition at_boundary :: "string list \<Rightarrow> nat \<Rightarrow> bool" where
  "at_boundary t i \<longleftrightarrow> (0 < i \<and> word_at t (i - 1)) \<noteq> word_at t i"

primrec iterate :: "nat \<Rightarrow> (nat \<Rightarrow> nat list) \<Rightarrow> nat list \<Rightarrow> nat list" where
  "iterate 0 f ps = ps"
| "iterate (Suc n) f ps = remdups (ps @ iterate n f (remdups (concat (map f ps))))"

text \<open>The positions at which a match that starts at \<open>i\<close> may end.\<close>

primrec ends :: "regex \<Rightarrow> string list \<Rightarrow> nat \<Rightarrow> nat list" where
  "ends (Lit c) t i = (if i < length t \<and> fold_matches c (t ! i) then [i + 1] else [])"
| "ends AnyRune t i = (if i < length t \<and> t ! i \<noteq> nl then [i + 1] else [])"
| "ends Space t i = (if i < length t \<and> space_rune (t ! i) then [i + 1] else [])"
| "ends WordB t i = (if at_boundary t i then [i] else [])"
| "ends (Class cs) t i = (if i < length t \<and> list_ex (\<lambda>c. fold_matches c (t ! i)) cs then [i + 1] else [])"
| "ends Empty t i = [i]"
| "ends (Seq a b) t i = remdups (concat (map (ends b t) (ends a t i)))"
| "ends (Alt a b) t i = remdups (ends a t i @ ends b t i)"
| "ends (Rep n r) t i = iterate n (ends r t) [i]"
| "ends (Star r) t i = iterate (length t) (ends r t) [i]"

definition MatchString :: "regex \<Rightarrow> string \<Rightarrow> bool" where
  "MatchString r s = (let t = runes s in list_ex (\<lambda>i. ends r t i \<noteq> []) [0..<length t + 1])"

fun seqs :: "regex list \<Rightarrow> regex" where
  "seqs [] = Empty"
| "seqs [r] = r"
| "seqs (r # rs) = Seq r (seqs rs)"

fun alts :: "regex list \<Rightarrow> regex" where
  "alts [] = Class []"
| "alts [r] = r"
| "alts (r # rs) = Alt r (alts rs)"

definition lit :: "string \<Rightarrow> regex" where
  "lit s = seqs (map Lit s)"

definition words :: "string list \<Rightarrow> regex" where
  "words ws = alts (map lit ws)"

definition Opt :: "regex \<Rightarrow> regex" where "Opt r = Rep 1 r"
definition Plus :: "regex \<Rightarrow> regex" where "Plus r = Seq r (Star r)"

definition gap :: "nat \<Rightarrow> regex" where "gap n = Rep n AnyRune"

section \<open>What a regular expression matches\<close>

text \<open>The declarative reading: \<open>rx_match t r i j\<close> when \<open>r\<close> matches the runes of \<open>t\<close> from \<open>i\<close> to \<open>j\<close>.\<close>

inductive rx_match :: "string list \<Rightarrow> regex \<Rightarrow> nat \<Rightarrow> nat \<Rightarrow> bool" for t where
  rx_Lit: "i < length t \<Longrightarrow> fold_matches c (t ! i) \<Longrightarrow> rx_match t (Lit c) i (Suc i)"
| rx_Any: "i < length t \<Longrightarrow> t ! i \<noteq> nl \<Longrightarrow> rx_match t AnyRune i (Suc i)"
| rx_Space: "i < length t \<Longrightarrow> space_rune (t ! i) \<Longrightarrow> rx_match t Space i (Suc i)"
| rx_WordB: "at_boundary t i \<Longrightarrow> rx_match t WordB i i"
| rx_Class: "i < length t \<Longrightarrow> c \<in> set cs \<Longrightarrow> fold_matches c (t ! i) \<Longrightarrow> rx_match t (Class cs) i (Suc i)"
| rx_Empty: "rx_match t Empty i i"
| rx_Seq: "rx_match t a i j \<Longrightarrow> rx_match t b j k \<Longrightarrow> rx_match t (Seq a b) i k"
| rx_Alt1: "rx_match t a i j \<Longrightarrow> rx_match t (Alt a b) i j"
| rx_Alt2: "rx_match t b i j \<Longrightarrow> rx_match t (Alt a b) i j"
| rx_Rep0: "rx_match t (Rep n r) i i"
| rx_Rep: "rx_match t r i j \<Longrightarrow> rx_match t (Rep n r) j k \<Longrightarrow> rx_match t (Rep (Suc n) r) i k"
| rx_Star0: "rx_match t (Star r) i i"
| rx_Star: "rx_match t r i j \<Longrightarrow> rx_match t (Star r) j k \<Longrightarrow> rx_match t (Star r) i k"

inductive_cases rx_LitE: "rx_match t (Lit c) i j"
inductive_cases rx_AnyE: "rx_match t AnyRune i j"
inductive_cases rx_SpaceE: "rx_match t Space i j"
inductive_cases rx_WordBE: "rx_match t WordB i j"
inductive_cases rx_ClassE: "rx_match t (Class cs) i j"
inductive_cases rx_EmptyE: "rx_match t Empty i j"
inductive_cases rx_SeqE: "rx_match t (Seq a b) i j"
inductive_cases rx_AltE: "rx_match t (Alt a b) i j"
inductive_simps rx_Rep_simps: "rx_match t (Rep n r) i j"

text \<open>\<open>iterate n f [i]\<close> are the positions that at most \<open>n\<close> steps of \<open>f\<close> reach from \<open>i\<close>.\<close>

lemma set_iterate_union: "set (iterate n f ps) = (\<Union>i \<in> set ps. set (iterate n f [i]))"
proof (induction n arbitrary: ps)
  case (Suc n)
  have "set (iterate (Suc n) f ps) = set ps \<union> (\<Union>i \<in> set ps. \<Union>l \<in> set (f i). set (iterate n f [l]))"
    by (simp add: Suc.IH [of "remdups _"])
  moreover have "set (iterate (Suc n) f [i]) = {i} \<union> (\<Union>l \<in> set (f i). set (iterate n f [l]))" for i
    using Suc.IH [of "remdups (f i)"] by auto
  ultimately show ?case by (simp only: UN_Un_distrib) auto
qed simp

lemma set_iterate_Suc:
  "j \<in> set (iterate (Suc n) f [i]) \<longleftrightarrow> i = j \<or> (\<exists>l \<in> set (f i). j \<in> set (iterate n f [l]))"
  using set_iterate_union [of n f "remdups (f i)"] by auto

lemma set_iterate_0: "j \<in> set (iterate 0 f [i]) \<longleftrightarrow> i = j"
  by auto

lemmas iterate_simps = set_iterate_0 set_iterate_Suc

lemma iterate_range:
  assumes "\<And>i j. i \<le> L \<Longrightarrow> j \<in> set (f i) \<Longrightarrow> i \<le> j \<and> j \<le> (L :: nat)"
  shows "j \<in> set (iterate n f [i]) \<Longrightarrow> i \<le> L \<Longrightarrow> i \<le> j \<and> j \<le> L"
proof (induction n arbitrary: i)
  case (Suc n)
  from Suc.prems(1) consider "i = j" | l where "l \<in> set (f i)" "j \<in> set (iterate n f [l])"
    by (auto simp only: iterate_simps)
  then show ?case
  proof cases
    case 2
    with assms [OF Suc.prems(2) 2(1)] Suc.IH [OF 2(2)] show ?thesis by auto
  qed (use Suc.prems in auto)
qed auto

lemma ends_range: "j \<in> set (ends r t i) \<Longrightarrow> i \<le> length t \<Longrightarrow> i \<le> j \<and> j \<le> length t"
proof (induction r arbitrary: i j)
  case (Seq a b)
  then obtain l where l: "l \<in> set (ends a t i)" "j \<in> set (ends b t l)" by auto
  from Seq.IH(1) [OF l(1) Seq.prems(2)] Seq.IH(2) [OF l(2)] show ?case by auto
next
  case (Rep n r)
  from iterate_range [where f = "ends r t" and L = "length t", OF Rep.IH] Rep.prems show ?case by simp
next
  case (Star r)
  from iterate_range [where f = "ends r t" and L = "length t", OF Star.IH] Star.prems show ?case by simp
qed (auto split: if_splits)

lemma rx_Rep_Suc:
  "rx_match t (Rep (Suc n) r) i j \<longleftrightarrow> i = j \<or> (\<exists>l. rx_match t r i l \<and> rx_match t (Rep n r) l j)"
  by (subst rx_Rep_simps) auto

lemma rx_Rep_0: "rx_match t (Rep 0 r) i j \<longleftrightarrow> i = j"
  by (subst rx_Rep_simps) auto

lemma rep_iff:
  assumes "\<And>i j. i \<le> length t \<Longrightarrow> j \<in> set (f i) \<longleftrightarrow> rx_match t r i j"
    and "\<And>i j. i \<le> length t \<Longrightarrow> j \<in> set (f i) \<Longrightarrow> i \<le> j \<and> j \<le> length t"
  shows "i \<le> length t \<Longrightarrow> j \<in> set (iterate n f [i]) \<longleftrightarrow> rx_match t (Rep n r) i j"
proof (induction n arbitrary: i)
  case 0
  then show ?case by (simp add: rx_Rep_0 set_iterate_0 del: iterate.simps)
next
  case (Suc n)
  have "(\<exists>l \<in> set (f i). j \<in> set (iterate n f [l])) \<longleftrightarrow> (\<exists>l. rx_match t r i l \<and> rx_match t (Rep n r) l j)"
    using assms(1) [OF Suc.prems] assms(2) [OF Suc.prems] Suc.IH by metis
  then show ?case by (simp only: iterate_simps rx_Rep_Suc)
qed

text \<open>A step never goes back and never leaves the text, so \<open>length t\<close> steps reach all a star can.\<close>

lemma iterate_star:
  assumes "\<And>i j. i \<le> length t \<Longrightarrow> j \<in> set (f i) \<longleftrightarrow> rx_match t r i j"
    and "\<And>i j. i \<le> length t \<Longrightarrow> j \<in> set (f i) \<Longrightarrow> i \<le> j \<and> j \<le> length t"
  shows "j \<in> set (iterate n f [i]) \<Longrightarrow> i \<le> length t \<Longrightarrow> rx_match t (Star r) i j"
proof (induction n arbitrary: i)
  case 0
  then show ?case by (simp add: rx_Star0)
next
  case (Suc n)
  from Suc.prems(1) consider "i = j" | l where "l \<in> set (f i)" "j \<in> set (iterate n f [l])"
    by (auto simp only: iterate_simps)
  then show ?case
  proof cases
    case 2
    with assms [OF Suc.prems(2)] Suc.IH [OF 2(2)] show ?thesis by (blast intro: rx_Star)
  qed (simp add: rx_Star0)
qed

lemma star_iterate:
  assumes "\<And>i j. i \<le> length t \<Longrightarrow> j \<in> set (f i) \<longleftrightarrow> rx_match t r i j"
    and "\<And>i j. i \<le> length t \<Longrightarrow> j \<in> set (f i) \<Longrightarrow> i \<le> j \<and> j \<le> length t"
  shows "rx_match t (Star r) i j \<Longrightarrow> i \<le> length t \<Longrightarrow> length t - i \<le> n \<Longrightarrow> j \<in> set (iterate n f [i])"
proof (induction "Star r" i j arbitrary: n rule: rx_match.induct)
  case (rx_Star0 i)
  then show ?case by (cases n) (auto simp del: iterate.simps simp: iterate_simps)
next
  case (rx_Star i l k)
  then have l: "l \<in> set (f i)" "i \<le> l" "l \<le> length t" using assms by blast+
  show ?case
  proof (cases "l = i")
    case True
    with rx_Star show ?thesis by simp
  next
    case False
    with l rx_Star.prems obtain m where n: "n = Suc m" "length t - l \<le> m" by (cases n) auto
    with rx_Star l have "k \<in> set (iterate m f [l])" by simp
    with n l show ?thesis by (auto simp only: iterate_simps)
  qed
qed

lemma ends_iff: "i \<le> length t \<Longrightarrow> j \<in> set (ends r t i) \<longleftrightarrow> rx_match t r i j"
proof (induction r arbitrary: i j)
  case (Seq a b)
  have "j \<in> set (ends (Seq a b) t i) \<longleftrightarrow> (\<exists>l. l \<in> set (ends a t i) \<and> j \<in> set (ends b t l))" by auto
  also have "\<dots> \<longleftrightarrow> (\<exists>l. rx_match t a i l \<and> rx_match t b l j)"
    using Seq ends_range [of _ a t i] by meson
  also have "\<dots> \<longleftrightarrow> rx_match t (Seq a b) i j" by (blast intro: rx_Seq elim: rx_SeqE)
  finally show ?case .
next
  case (Alt a b)
  then show ?case by (auto intro: rx_Alt1 rx_Alt2 elim: rx_AltE)
next
  case (Rep n r)
  show ?case using rep_iff [where f = "ends r t" and r = r, OF Rep.IH ends_range] Rep.prems by simp
next
  case (Star r)
  show ?case
    using iterate_star [where f = "ends r t" and r = r, OF Star.IH ends_range]
      star_iterate [where f = "ends r t" and r = r, OF Star.IH ends_range] Star.prems
    by auto
qed (auto simp: list_ex_iff intro: rx_match.intros elim: rx_LitE rx_AnyE rx_SpaceE rx_WordBE rx_ClassE rx_EmptyE split: if_splits)

lemma MatchString_iff: "MatchString r s \<longleftrightarrow> (\<exists>i j. i \<le> length (runes s) \<and> rx_match (runes s) r i j)"
proof -
  have "MatchString r s \<longleftrightarrow> (\<exists>i \<in> set [0..<length (runes s) + 1]. ends r (runes s) i \<noteq> [])"
    by (simp only: MatchString_def Let_def list_ex_iff)
  also have "\<dots> \<longleftrightarrow> (\<exists>i. i \<le> length (runes s) \<and> (\<exists>j. j \<in> set (ends r (runes s) i)))"
    by (auto simp only: set_upt atLeastLessThan_iff ex_in_conv set_empty less_Suc_eq_le Suc_eq_plus1 [symmetric])
  finally show ?thesis by (simp add: ends_iff cong: conj_cong)
qed

end
