(* ===== verification/Validation.thy ===== *)
theory Validation
  imports Bundle Providers Regex Float64
begin

text \<open>
  \<^verbatim>\<open>pkg/skills/validation\<close>: the pipeline a skill bundle must pass before it is trusted. Structural
  checks (\<^verbatim>\<open>structural.go\<close>), the seven regular-expression rules (\<^verbatim>\<open>static.go\<close>), the model's
  verdict (\<^verbatim>\<open>llm.go\<close>) and their composition \<open>Validate\<close> (\<^verbatim>\<open>validation.go\<close>). The record store is in
  the theory of the file stores.
\<close>

section \<open>Records\<close>

datatype Status = StatusApproved | StatusRejected | StatusStale | StatusOther string

datatype Decision = DecisionApprove | DecisionReject

record Finding =
  fi_Stage :: string
  fi_File :: string
  fi_Message :: string

record Record =
  r_SkillID :: string
  r_BundleHash :: string
  r_PolicyVersion :: int
  r_Status :: Status
  r_Confidence :: float64
  r_Reasons :: "string list"
  r_Findings :: "Finding list"
  r_CreatedAt :: string

definition Approved :: "Record \<Rightarrow> bool" where
  "Approved r \<longleftrightarrow> r_Status r = StatusApproved"

record Policy =
  p_Version :: int
  p_MinApprovalConfidence :: float64
  p_ExcerptCharsPerFile :: int
  p_MaxSkillMarkdownChars :: int

definition DefaultPolicy :: Policy where
  "DefaultPolicy =
     \<lparr>p_Version = 1, p_MinApprovalConfidence = mk_float False (66 / 100),
      p_ExcerptCharsPerFile = 2000, p_MaxSkillMarkdownChars = 8000\<rparr>"

definition finding :: "string \<Rightarrow> string \<Rightarrow> string \<Rightarrow> Finding" where
  "finding stage file msg = \<lparr>fi_Stage = stage, fi_File = file, fi_Message = msg\<rparr>"

section \<open>structural.go\<close>

definition maxDescriptionChars :: nat where "maxDescriptionChars = 2000"

text \<open>The loop over the files: duplicates found so far, and whether \<open>SKILL.md\<close> was seen.\<close>

fun duplicate_findings :: "File list \<Rightarrow> string list \<Rightarrow> Finding list" where
  "duplicate_findings [] seen = []"
| "duplicate_findings (f # fs) seen =
     (if f_Path f \<in> set seen then [finding ''structural'' (f_Path f) ''duplicate file path''] else []) @
     duplicate_findings fs (f_Path f # seen)"

definition Structural :: "SkillBundle \<Rightarrow> Finding list" where
  "Structural b =
     (if TrimSpace (mf_Name (b_Manifest b)) = [] then [finding ''structural'' [] ''manifest name is empty''] else []) @
     (if TrimSpace (mf_Description (b_Manifest b)) = []
      then [finding ''structural'' [] ''manifest description is empty''] else []) @
     (if length (mf_Description (b_Manifest b)) > maxDescriptionChars
      then [finding ''structural'' [] ''description exceeds the maximum length''] else []) @
     duplicate_findings (b_Files b) [] @
     (if \<not> list_ex (\<lambda>f. f_Path f = SkillMDPath) (b_Files b)
      then [finding ''structural'' [] (''missing '' @ SkillMDPath)] else []) @
     (if TrimSpace (b_Body b) = []
      then [finding ''structural'' SkillMDPath ''SKILL.md has no instructions body''] else [])"

section \<open>static.go\<close>

definition staticRules :: "(string \<times> regex) list" where
  "staticRules =
    [(''possible prompt-injection phrasing'',
      seqs [lit ''ignore'', WordB, gap 80, WordB, words [''previous'', ''prior'', ''system'', ''developer''], WordB,
            gap 40, WordB, lit ''instruction'', Opt (Lit (CHR ''s'')), WordB]),
     (''possible credential exfiltration'',
      seqs [alts [seqs [lit ''api'', Opt (Class ''_ -''), lit ''key''], lit ''token'', lit ''secret'', lit ''password''],
            gap 80, words [''send'', ''upload'', ''exfiltrat'', ''post'', ''curl'', ''wget'']]),
     (''references a private key path'',
      words [''.ssh'', ''id_rsa'', ''id_ed25519'', ''known_hosts'']),
     (''possible environment-variable dumping'',
      alts [seqs [WordB, lit ''printenv'', WordB], seqs [WordB, lit ''env'', WordB],
            lit ''/proc/self/environ'', lit ''System.getenv'', lit ''process.env'']),
     (''destructive shell command'',
      alts [seqs [lit ''rm'', Plus Space, lit ''-rf''],
            seqs [lit ''chmod'', Plus Space, lit ''-R'', Plus Space, lit ''777''],
            seqs [lit ''mkfs'', WordB],
            seqs [lit ''dd'', Plus Space, lit ''if='', Star AnyRune, Plus Space, lit ''of=/dev/'']]),
     (''possible network exfiltration'',
      seqs [words [''curl'', ''wget''], gap 120,
            alts [lit ''--data'', lit ''--data-binary'', lit ''--upload-file'', seqs [lit ''-T'', Space],
                  seqs [WordB, lit ''-F'', WordB], lit ''--form'',
                  seqs [lit ''PUT'', Plus Space, lit ''http'', Opt (Lit (CHR ''s'')), lit ''://''],
                  seqs [lit ''POST'', Plus Space, lit ''http'', Opt (Lit (CHR ''s'')), lit ''://'']]]),
     (''obfuscated shell execution via decode/eval pipe'',
      seqs [alts [seqs [lit ''base64'', Plus Space, lit ''-d''], seqs [lit ''openssl'', Plus Space, lit ''enc''],
                  seqs [lit ''python'', Plus Space, lit ''-c'']],
            gap 120, lit ''|'', Star Space, words [''sh'', ''bash'', ''zsh'']])]"

definition Static :: "SkillBundle \<Rightarrow> Finding list" where
  "Static b =
     concat (map (\<lambda>f.
       concat (map (\<lambda>(msg, r). if MatchString r (f_Content f) then [finding ''static'' (f_Path f) msg] else [])
         staticRules)) (b_Files b))"

section \<open>llm.go\<close>

record LLMVerdict =
  v_Decision :: Decision
  v_Confidence :: float64
  v_RiskLevel :: string
  v_Reasons :: "string list"
  v_Findings :: "Finding list"

definition failClosed :: "string \<Rightarrow> LLMVerdict" where
  "failClosed reason =
     \<lparr>v_Decision = DecisionReject, v_Confidence = Fin False 1, v_RiskLevel = ''high'',
      v_Reasons = [reason], v_Findings = [finding ''llm'' [] reason]\<rparr>"

text \<open>
  \<open>extractJSONObject\<close>: \<open>brace_end s depth\<close> is the length of the text up to the brace that closes
  depth zero.
\<close>

fun brace_end :: "string \<Rightarrow> int \<Rightarrow> nat option" where
  "brace_end [] depth = None"
| "brace_end (c # s) depth =
     (if c = CHR ''{'' then map_option Suc (brace_end s (depth + 1))
      else if c = CHR ''}'' then
        (if depth - 1 = 0 then Some 1 else map_option Suc (brace_end s (depth - 1)))
      else map_option Suc (brace_end s depth))"

definition extractJSONObject :: "string \<Rightarrow> string" where
  "extractJSONObject s =
     (case IndexByte s (CHR ''{'') of
        None \<Rightarrow> []
      | Some start \<Rightarrow>
          (case brace_end (drop start s) 0 of
             None \<Rightarrow> []
           | Some n \<Rightarrow> take n (drop start s)))"

text \<open>
  A \<open>float64\<close> field. The texts of the decoder's errors and of \<open>%v\<close> on a float are the standard
  library's: the functions \<open>fmt_json_error\<close> and \<open>fmt_float\<close> of the record \<open>texts\<close>.
\<close>

fun dec_float :: "float64 decoder" where
  "dec_float cur (JNum l) = ParseFloat l"
| "dec_float cur JNull = Some cur"
| "dec_float cur _ = None"

record texts =
  fmt_json_error :: "string \<Rightarrow> go_error"
  fmt_float :: "float64 \<Rightarrow> string"

definition raw_verdict :: "string \<Rightarrow> (string \<times> float64 \<times> string \<times> string list) option" where
  "raw_verdict jsonText =
     (case json_parse jsonText of
        None \<Rightarrow> None
      | Some j \<Rightarrow>
          (case members j of
             None \<Rightarrow> None
           | Some ms \<Rightarrow>
               (case (dec_field ''decision'' dec_string [] ms, dec_field ''confidence'' dec_float fzero ms,
                      dec_field ''riskLevel'' dec_string [] ms,
                      dec_field ''reasons'' (dec_list [] dec_string) [] ms) of
                  (Some d, Some c, Some r, Some rs) \<Rightarrow> Some (d, c, r, rs)
                | _ \<Rightarrow> None)))"

definition parse_decision :: "string \<Rightarrow> Decision option" where
  "parse_decision s =
     (let d = ToUpper (TrimSpace s) in
      if d = ''APPROVE'' then Some DecisionApprove
      else if d = ''REJECT'' then Some DecisionReject else None)"

definition parseVerdict :: "texts \<Rightarrow> string \<Rightarrow> LLMVerdict result" where
  "parseVerdict tx content =
     (let jsonText = extractJSONObject content in
      if jsonText = [] then Inl (Err ''no JSON object found in response'')
      else (case raw_verdict jsonText of
              None \<Rightarrow> Inl (fmt_json_error tx jsonText)
            | Some (d, c, risk, reasons) \<Rightarrow>
                (case parse_decision d of
                   None \<Rightarrow> Inl (Err (''unrecognized decision '' @ quote d))
                 | Some decision \<Rightarrow>
                     if flt c fzero \<or> flt (Fin False 1) c then
                       Inl (Err (''confidence '' @ fmt_float tx c @ '' out of range [0,1]''))
                     else Inr \<lparr>v_Decision = decision, v_Confidence = c, v_RiskLevel = risk,
                               v_Reasons = reasons, v_Findings = []\<rparr>)))"

definition truncate :: "string \<Rightarrow> int \<Rightarrow> string" where
  "truncate s mx =
     (if mx \<le> 0 \<or> int (length s) \<le> mx then s
      else take (nat mx) s @ nl @ ''[truncated: '' @ Itoa (int (length s) - mx) @ '' more characters]'')"

definition buildReviewPrompt :: "SkillBundle \<Rightarrow> Policy \<Rightarrow> string" where
  "buildReviewPrompt b policy =
     ''Skill manifest:'' @ nl @ ''name: '' @ mf_Name (b_Manifest b) @ nl @
     ''description: '' @ mf_Description (b_Manifest b) @ nl @
     ''author: '' @ mf_Author (b_Manifest b) @ nl @
     ''version: '' @ mf_Version (b_Manifest b) @ nl @ nl @
     ''Files in this bundle:'' @ nl @
     concat (map (\<lambda>f. ''- '' @ f_Path f @ '' ('' @ Itoa (int (length (f_Content f))) @ '' bytes)'' @ nl) (b_Files b)) @
     nl @ ''SKILL.md (frontmatter + instructions, truncated):'' @ nl @ ''---'' @ nl @
     truncate (b_RawFrontmatter b @ nl @ b_Body b) (p_MaxSkillMarkdownChars policy) @
     nl @ ''---'' @ nl @
     concat (map (\<lambda>f.
       if f_Path f = SkillMDPath then []
       else nl @ ''Excerpt of '' @ f_Path f @ '':'' @ nl @ ''---'' @ nl @
            truncate (f_Content f) (p_ExcerptCharsPerFile policy) @ nl @ ''---'' @ nl) (b_Files b))"

text \<open>The system prompt is a constant text; it is an argument here.\<close>

definition review_request :: "string \<Rightarrow> SkillBundle \<Rightarrow> Policy \<Rightarrow> string \<Rightarrow> ChatRequest" where
  "review_request llmValidatorSystemPrompt b policy model =
     \<lparr>rq_Model = model,
      rq_Messages = [zero_Message\<lparr>m_Role := RoleUser, m_Content := buildReviewPrompt b policy\<rparr>],
      rq_Tools = [], rq_SystemPrompt = llmValidatorSystemPrompt, rq_Temperature = 0, rq_MaxTokens = 1024\<rparr>"

definition ValidateWithLLM ::
  "texts \<Rightarrow> string \<Rightarrow> 'w LLMProvider \<Rightarrow> SkillBundle \<Rightarrow> Policy \<Rightarrow> string \<Rightarrow> 'w \<Rightarrow> LLMVerdict \<times> 'w"
where
  "ValidateWithLLM tx prompt provider b policy model w =
     (let (resp, w') = Chat provider (review_request prompt b policy model) w in
      (case resp of
         Inl err \<Rightarrow> failClosed (''llm validator request failed: '' @ error_text err)
       | Inr resp \<Rightarrow>
           (case parseVerdict tx (rs_Content resp) of
              Inl err \<Rightarrow> failClosed (''llm validator returned unparseable output: '' @ error_text err)
            | Inr verdict \<Rightarrow> verdict), w'))"

section \<open>validation.go\<close>

definition Validate ::
  "('w \<Rightarrow> go_error option) \<Rightarrow> ('w \<Rightarrow> string) \<Rightarrow> (string \<Rightarrow> string) \<Rightarrow> texts \<Rightarrow> string \<Rightarrow>
   'w LLMProvider \<Rightarrow> SkillBundle \<Rightarrow> Policy \<Rightarrow> string \<Rightarrow> 'w \<Rightarrow> Record \<times> 'w"
where
  "Validate ctx now sha256 tx prompt provider b policy model w =
     (let rec = \<lparr>r_SkillID = b_SkillID b, r_BundleHash = Hash sha256 b, r_PolicyVersion = p_Version policy,
                 r_Status = StatusOther [], r_Confidence = fzero, r_Reasons = [], r_Findings = [],
                 r_CreatedAt = now w\<rparr>;
          findings = Structural b @ Static b
      in if findings \<noteq> [] then
           (rec\<lparr>r_Status := StatusRejected, r_Findings := findings,
                r_Reasons := [''structural/static checks failed'']\<rparr>, w)
         else (case ctx w of
           Some err \<Rightarrow>
             (rec\<lparr>r_Status := StatusRejected, r_Reasons := [''validation cancelled: '' @ error_text err]\<rparr>, w)
         | None \<Rightarrow>
             (let (verdict, w') = ValidateWithLLM tx prompt provider b policy model w in
              (rec\<lparr>r_Confidence := v_Confidence verdict, r_Reasons := v_Reasons verdict,
                   r_Findings := v_Findings verdict,
                   r_Status := (if v_Decision verdict = DecisionApprove \<and>
                                   fle (p_MinApprovalConfidence policy) (v_Confidence verdict)
                                then StatusApproved else StatusRejected)\<rparr>, w'))))"

section \<open>Facts\<close>

text \<open>The object \<open>extractJSONObject\<close> finds is the first balanced one.\<close>

definition depth_of :: "string \<Rightarrow> int" where
  "depth_of s = int (length (filter (\<lambda>c. c = CHR ''{'') s)) - int (length (filter (\<lambda>c. c = CHR ''}'') s))"

lemma depth_of_simps [simp]:
  "depth_of [] = 0"
  "depth_of (c # s) = (if c = CHR ''{'' then 1 else if c = CHR ''}'' then - 1 else 0) + depth_of s"
  by (simp_all add: depth_of_def)

lemma brace_end_Some:
  "brace_end s d = Some n \<Longrightarrow>
     0 < n \<and> n \<le> length s \<and> last (take n s) = CHR ''}'' \<and> d + depth_of (take n s) = 0"
proof (induction s d arbitrary: n rule: brace_end.induct)
  case (2 c s depth)
  then show ?case by (cases n) (auto split: if_splits simp: last_conv_nth)
qed simp

lemma brace_end_None: "brace_end s d = None \<Longrightarrow> 0 < d \<Longrightarrow> k \<le> length s \<Longrightarrow> 0 < d + depth_of (take k s)"
proof (induction s d arbitrary: k rule: brace_end.induct)
  case (2 c s depth)
  then show ?case by (cases k) (fastforce split: if_splits)+
qed simp

lemma brace_end_prefix:
  "brace_end s d = Some n \<Longrightarrow> 0 < d \<Longrightarrow> k < n \<Longrightarrow> 0 < d + depth_of (take k s)"
proof (induction s d arbitrary: k n rule: brace_end.induct)
  case (2 c s depth)
  then show ?case by (cases k) (fastforce split: if_splits)+
qed simp

lemma extractJSONObject_spec:
  assumes "extractJSONObject s = r" "r \<noteq> []"
  shows "\<exists>a b. s = a @ r @ b \<and> CHR ''{'' \<notin> set a \<and> hd r = CHR ''{'' \<and> last r = CHR ''}'' \<and>
           depth_of r = 0 \<and> (\<forall>k. 0 < k \<and> k < length r \<longrightarrow> 0 < depth_of (take k r))"
proof -
  from assms obtain st n where st: "IndexByte s (CHR ''{'') = Some st"
      and n: "brace_end (drop st s) 0 = Some n" and r: "r = take n (drop st s)"
    by (auto simp: extractJSONObject_def split: option.splits)
  from IndexByte_Some [OF st] have *: "st < length s" "s ! st = CHR ''{''" "CHR ''{'' \<notin> set (take st s)" by auto
  then obtain t where t: "drop st s = CHR ''{'' # t" by (metis Cons_nth_drop_Suc)
  from n t obtain m where m: "brace_end t 1 = Some m" "n = Suc m" by auto
  have "0 < depth_of (take k r)" if "0 < k" "k < length r" for k
  proof -
    from that obtain j where k: "k = Suc j" by (cases k) auto
    from that k m r t have "j < m" by auto
    with brace_end_prefix [OF m(1)] show ?thesis by (simp add: r t k m(2))
  qed
  moreover have "s = take st s @ r @ drop n (drop st s)"
    unfolding r by (simp only: append_take_drop_id)
  ultimately show ?thesis
    using brace_end_Some [OF n] * t m r by (intro exI [of _ "take st s"] exI [of _ "drop n (drop st s)"]) auto
qed

lemma fail_closed [simp]: "v_Decision (failClosed s) = DecisionReject"
  by (simp add: failClosed_def)

lemma parseVerdict_range:
  "parseVerdict tx c = Inr v \<Longrightarrow> \<not> flt (v_Confidence v) fzero \<and> \<not> flt (Fin False 1) (v_Confidence v)"
  by (auto simp: parseVerdict_def Let_def split: if_splits option.splits)

text \<open>Approval needs every stage: no finding, a live context, an answer that parses, its approval and confidence.\<close>

lemma Validate_approved_iff:
  "r_Status (fst (Validate ctx now sha256 tx prompt provider b policy model w)) = StatusApproved \<longleftrightarrow>
     Structural b = [] \<and> Static b = [] \<and> ctx w = None \<and>
     (\<exists>resp w' v. Chat provider (review_request prompt b policy model) w = (Inr resp, w') \<and>
        parseVerdict tx (rs_Content resp) = Inr v \<and> v_Decision v = DecisionApprove \<and>
        fle (p_MinApprovalConfidence policy) (v_Confidence v))"
  by (auto simp: Validate_def ValidateWithLLM_def Let_def split: option.split prod.split sum.split)

lemma Validate_identity:
  "r_SkillID (fst (Validate ctx now sha256 tx prompt provider b policy model w)) = b_SkillID b"
  "r_BundleHash (fst (Validate ctx now sha256 tx prompt provider b policy model w)) = Hash sha256 b"
  "r_PolicyVersion (fst (Validate ctx now sha256 tx prompt provider b policy model w)) = p_Version policy"
  by (auto simp: Validate_def Let_def split: option.split prod.split)

lemma Validate_no_call:
  "Structural b @ Static b \<noteq> [] \<Longrightarrow> snd (Validate ctx now sha256 tx prompt provider b policy model w) = w"
  by (simp add: Validate_def Let_def)

lemma duplicate_findings_Nil:
  "duplicate_findings fs seen = [] \<longleftrightarrow> distinct (map f_Path fs) \<and> set (map f_Path fs) \<inter> set seen = {}"
  by (induction fs arbitrary: seen) auto

lemma Structural_Nil:
  "Structural b = [] \<longleftrightarrow>
     TrimSpace (mf_Name (b_Manifest b)) \<noteq> [] \<and> TrimSpace (mf_Description (b_Manifest b)) \<noteq> [] \<and>
     length (mf_Description (b_Manifest b)) \<le> maxDescriptionChars \<and>
     distinct (map f_Path (b_Files b)) \<and> SkillMDPath \<in> f_Path ` set (b_Files b) \<and> TrimSpace (b_Body b) \<noteq> []"
  by (auto simp: Structural_def duplicate_findings_Nil list_ex_iff image_iff eq_commute [of SkillMDPath])

lemma Static_Nil:
  "Static b = [] \<longleftrightarrow>
     (\<forall>f \<in> set (b_Files b). \<forall>(msg, r) \<in> set staticRules.
        \<not> (\<exists>i j. i \<le> length (runes (f_Content f)) \<and> rx_match (runes (f_Content f)) r i j))"
  by (simp only: Static_def concat_eq_Nil_conv set_map ball_simps case_prod_beta MatchString_iff) (simp add: case_prod_beta)

section \<open>Properties\<close>

text \<open>
  C24: a bundle is approved exactly when it has no structural and no static finding, the context is
  alive, the model answers, the answer parses, its decision is APPROVE and its confidence reaches the
  policy's minimum; on any other path, errors included, the record is not an approval.
\<close>

theorem Validate_fails_closed:
  "Approved (fst (Validate ctx now sha256 tx prompt provider b policy model w)) \<longleftrightarrow>
     Structural b = [] \<and> Static b = [] \<and> ctx w = None \<and>
     (\<exists>resp w' v. Chat provider (review_request prompt b policy model) w = (Inr resp, w') \<and>
        parseVerdict tx (rs_Content resp) = Inr v \<and> v_Decision v = DecisionApprove \<and>
        fle (p_MinApprovalConfidence policy) (v_Confidence v))"
  unfolding Approved_def by (rule Validate_approved_iff)

text \<open>
  A bundle with a structural or static finding is rejected without a call to the model: the
  world is untouched, and the record carries the findings.
\<close>

theorem Validate_rejects_early:
  assumes "Structural b @ Static b \<noteq> []"
  shows "\<exists>r. Validate ctx now sha256 tx prompt provider b policy model w = (r, w) \<and>
     r_Status r = StatusRejected \<and> r_Findings r = Structural b @ Static b \<and> r_BundleHash r = Hash sha256 b"
  using assms by (simp add: Validate_def Let_def)

theorem Validate_rejects_early_witness:
  "\<exists>r. Validate (\<lambda>_. None) (\<lambda>_. []) (\<lambda>s. s) \<lparr>fmt_json_error = (\<lambda>_. Canceled), fmt_float = (\<lambda>_. [])\<rparr> []
       \<lparr>Chat = (\<lambda>_ w. (Inl Canceled, w + 1)), ChatStream = (\<lambda>_ _ w. (Inl Canceled, w + 1))\<rparr>
       (one_file []) DefaultPolicy [] (7 :: nat) = (r, 7) \<and>
     r_Status r = StatusRejected \<and> r_Findings r = Structural (one_file []) @ Static (one_file []) \<and>
     r_BundleHash r = Hash (\<lambda>s. s) (one_file [])"
  by (rule Validate_rejects_early) (simp add: Structural_def one_file_def)

text \<open>
  the JSON text taken from a model's answer is a part of the answer: it starts at the first
  opening brace, ends with a closing one, is balanced, and no shorter prefix of it is.
\<close>

theorem extractJSONObject_first_balanced:
  assumes "extractJSONObject s = r" "r \<noteq> []"
  shows "\<exists>a b. s = a @ r @ b \<and> CHR ''{'' \<notin> set a \<and> hd r = CHR ''{'' \<and> last r = CHR ''}'' \<and>
           depth_of r = 0 \<and> (\<forall>k. 0 < k \<and> k < length r \<longrightarrow> 0 < depth_of (take k r))"
  using assms by (rule extractJSONObject_spec)

theorem extractJSONObject_first_balanced_witness:
  "\<exists>a b. ''Sure: {a{b}c} ok'' = a @ ''{a{b}c}'' @ b \<and> CHR ''{'' \<notin> set a \<and> hd ''{a{b}c}'' = CHR ''{'' \<and>
     last ''{a{b}c}'' = CHR ''}'' \<and> depth_of ''{a{b}c}'' = 0 \<and>
     (\<forall>k. 0 < k \<and> k < length ''{a{b}c}'' \<longrightarrow> 0 < depth_of (take k ''{a{b}c}''))"
  by (rule extractJSONObject_first_balanced) (simp_all add: extractJSONObject_def)

text \<open>
  \<open>Static\<close> reports a rule for a path exactly when a file of that path has text the rule's
  regular expression matches somewhere, in the declarative reading of the expression.
\<close>

theorem Static_reports_matches:
  "finding ''static'' p msg \<in> set (Static b) \<longleftrightarrow>
     (\<exists>f r i j. f \<in> set (b_Files b) \<and> f_Path f = p \<and> (msg, r) \<in> set staticRules \<and>
        i \<le> length (runes (f_Content f)) \<and> rx_match (runes (f_Content f)) r i j)"
proof -
  have "finding ''static'' p msg \<in> set (Static b) \<longleftrightarrow>
      (\<exists>f \<in> set (b_Files b). \<exists>(m, r) \<in> set staticRules. MatchString r (f_Content f) \<and> f_Path f = p \<and> m = msg)"
    by (fastforce simp: Static_def finding_def split: if_splits)
  also have "\<dots> \<longleftrightarrow> (\<exists>f r. f \<in> set (b_Files b) \<and> f_Path f = p \<and> (msg, r) \<in> set staticRules \<and> MatchString r (f_Content f))"
    by auto
  finally show ?thesis by (simp only: MatchString_iff) blast
qed

text \<open>
  For a bundle that was just loaded the structural stage can only object to the length of the
  description or to an empty body: everything else it checks holds by construction.
\<close>

theorem Structural_after_FromFiles:
  assumes "FromFiles fs = Inr b"
  shows "Structural b = [] \<longleftrightarrow> length (mf_Description (b_Manifest b)) \<le> 2000 \<and> TrimSpace (b_Body b) \<noteq> []"
proof -
  from assms obtain md where md: "distinct (map f_Path fs)" "md \<in> set fs" "f_Path md = SkillMDPath"
    "parseFrontmatter (f_Content md) = Inr (b_Manifest b, b_RawFrontmatter b, b_Body b)"
    "b_Files b = sort_key f_Path fs"
    by (rule FromFiles_Inr)
  have "TrimSpace (mf_Name (b_Manifest b)) \<noteq> [] \<and> TrimSpace (mf_Description (b_Manifest b)) \<noteq> []"
    using md(4) by (auto simp: parseFrontmatter_def parseManifestLines_def Let_def split: if_splits option.splits sum.splits)
  moreover have "distinct (map f_Path (b_Files b))" using md(1) unfolding md(5) by (simp add: distinct_map)
  moreover have "SkillMDPath \<in> f_Path ` set (b_Files b)" using md(2,3,5) by force
  ultimately show ?thesis by (auto simp: Structural_Nil maxDescriptionChars_def)
qed

theorem Structural_after_FromFiles_witness:
  "Structural demo_bundle = [] \<longleftrightarrow>
     length (mf_Description (b_Manifest demo_bundle)) \<le> 2000 \<and> TrimSpace (b_Body demo_bundle) \<noteq> []"
  using FromFiles_demo by (rule Structural_after_FromFiles)

end
