(* ===== verification/Selection.thy ===== *)
theory Selection
  imports Validation
begin

text \<open>
  \<^verbatim>\<open>pkg/skills/selection/selection.go\<close>: one model call that picks the skills relevant to a message.
  The file has its own copy of \<open>extractJSONObject\<close>, the same text as the one of \<^verbatim>\<open>validation/llm.go\<close>.
\<close>

record Candidate =
  ca_SkillID :: string
  ca_Name :: string
  ca_Description :: string
  ca_Author :: string
  ca_Version :: string

record selection_Result =
  sr_SelectedSkillIDs :: "string list"
  sr_Rationale :: string

definition empty_Result :: selection_Result where
  "empty_Result = \<lparr>sr_SelectedSkillIDs = [], sr_Rationale = []\<rparr>"

definition parseSelectionResponse :: "string \<Rightarrow> selection_Result option" where
  "parseSelectionResponse content =
     (let jsonText = extractJSONObject content in
      if jsonText = [] then None
      else (case json_parse jsonText of
              None \<Rightarrow> None
            | Some j \<Rightarrow>
                (case members j of
                   None \<Rightarrow> None
                 | Some ms \<Rightarrow>
                     (case (dec_field ''selectedSkillIds'' (dec_list [] dec_string) [] ms,
                            dec_field ''rationale'' dec_string [] ms) of
                        (Some ids, Some r) \<Rightarrow> Some \<lparr>sr_SelectedSkillIDs = ids, sr_Rationale = r\<rparr>
                      | _ \<Rightarrow> None))))"

definition buildSelectionPrompt :: "string \<Rightarrow> Candidate list \<Rightarrow> string" where
  "buildSelectionPrompt userMessage candidates =
     ''User message (untrusted):'' @ nl @ ''---'' @ nl @ userMessage @ nl @ ''---'' @ nl @ nl @
     ''Available skills:'' @ nl @
     concat (map (\<lambda>c.
       ''- id: '' @ ca_SkillID c @ nl @ ''  name: '' @ ca_Name c @ nl @
       ''  description: '' @ ca_Description c @ nl @
       (if ca_Author c \<noteq> [] then ''  author: '' @ ca_Author c @ nl else []) @
       (if ca_Version c \<noteq> [] then ''  version: '' @ ca_Version c @ nl else [])) candidates)"

definition selection_request :: "string \<Rightarrow> string \<Rightarrow> string \<Rightarrow> Candidate list \<Rightarrow> ChatRequest" where
  "selection_request systemPrompt userMessage model candidates =
     \<lparr>rq_Model = model,
      rq_Messages = [zero_Message\<lparr>m_Role := RoleUser, m_Content := buildSelectionPrompt userMessage candidates\<rparr>],
      rq_Tools = [], rq_SystemPrompt = systemPrompt, rq_Temperature = 0, rq_MaxTokens = 512\<rparr>"

definition Select ::
  "string \<Rightarrow> 'w LLMProvider \<Rightarrow> string \<Rightarrow> string \<Rightarrow> Candidate list \<Rightarrow> 'w \<Rightarrow> selection_Result result \<times> 'w"
where
  "Select systemPrompt provider userMessage model candidates w =
     (if candidates = [] then (Inr empty_Result, w)
      else (case Chat provider (selection_request systemPrompt userMessage model candidates) w of
              (Inl err, w') \<Rightarrow> (Inl (Wrap ''skill selection: '' err []), w')
            | (Inr resp, w') \<Rightarrow>
                (case parseSelectionResponse (rs_Content resp) of
                   None \<Rightarrow> (Inr empty_Result, w')
                 | Some parsed \<Rightarrow>
                     (Inr \<lparr>sr_SelectedSkillIDs =
                             filter (\<lambda>i. i \<in> set (map ca_SkillID candidates)) (sr_SelectedSkillIDs parsed),
                           sr_Rationale = sr_Rationale parsed\<rparr>, w'))))"

lemma Select_known:
  "fst (Select sp provider um model cs w) = Inr r \<Longrightarrow> set (sr_SelectedSkillIDs r) \<subseteq> ca_SkillID ` set cs"
  by (auto simp: Select_def empty_Result_def split: if_splits prod.splits sum.splits option.splits)

lemma Select_error:
  "fst (Select sp provider um model cs w) = Inl e \<Longrightarrow>
     cs \<noteq> [] \<and> (\<exists>err. fst (Chat provider (selection_request sp um model cs) w) = Inl err \<and>
                     e = Wrap ''skill selection: '' err [])"
  by (auto simp: Select_def split: if_splits prod.splits sum.splits option.splits)

lemma Select_nothing_offered: "Select sp provider um model [] w = (Inr empty_Result, w)"
  by (simp add: Select_def)

section \<open>Properties\<close>

text \<open>
  the selector never returns an id the caller did not offer, keeps the order of the model's
  answer, and fails only when the provider does; an answer that does not parse selects nothing.
\<close>

theorem Select_offers_only_known:
  "case Select sp provider um model cs w of
     (Inr r, _) \<Rightarrow> set (sr_SelectedSkillIDs r) \<subseteq> ca_SkillID ` set cs
   | (Inl e, _) \<Rightarrow> \<exists>err w'. Chat provider (selection_request sp um model cs) w = (Inl err, w') \<and>
                   e = Wrap ''skill selection: '' err []"
  by (auto simp: Select_def empty_Result_def split: prod.split sum.split option.split)

end
