(* ===== verification/SkillsNode.thy ===== *)
theory SkillsNode
  imports Nodes Selection
begin

text \<open>
  \<^verbatim>\<open>pkg/agent/nodes/skills.go\<close>: the graph node that selects the skills of a turn, sees to their
  validation records, puts their instructions into the system prompt and decides which skills
  \<open>RunSkillCommand\<close> will accept. The catalog (\<^verbatim>\<open>pkg/skills/registry\<close>) and the record store
  (\<^verbatim>\<open>pkg/skills/validation/store.go\<close>) are the records of the operations the node calls.
\<close>

record StoredSkill =
  ss_SkillID :: string
  ss_Manifest :: Manifest
  ss_BundleHash :: string
  ss_CreatedAt :: string
  ss_Loose :: bool

record 'w Registry =
  rg_ListSkills :: "'w \<Rightarrow> StoredSkill list result"
  rg_LoadSkillBundle :: "string \<Rightarrow> string \<Rightarrow> 'w \<Rightarrow> SkillBundle result"

record 'w ValidationStore =
  vs_InvalidateOthers :: "string \<Rightarrow> int \<Rightarrow> string \<Rightarrow> 'w \<Rightarrow> 'w"
  vs_Get :: "string \<Rightarrow> int \<Rightarrow> string \<Rightarrow> 'w \<Rightarrow> Record option result"
  vs_Save :: "Record \<Rightarrow> 'w \<Rightarrow> 'w"

text \<open>What the node takes from outside: the context, the clock, SHA-256, error texts, the two prompts.\<close>

record 'w skills_lib =
  sl_ctx :: "'w \<Rightarrow> go_error option"
  sl_now :: "'w \<Rightarrow> string"
  sl_sha256 :: "string \<Rightarrow> string"
  sl_texts :: texts
  sl_validator_prompt :: string
  sl_selection_prompt :: string

record 'w SkillsConfig =
  sc_Provider :: "'w LLMProvider option"
  sc_Registry :: "'w Registry option"
  sc_ValidationStore :: "'w ValidationStore option"
  sc_Policy :: Policy
  sc_Model :: string

definition skillsContextStart :: string where "skillsContextStart = ''<souz_skills_context>''"
definition skillsContextEnd :: string where "skillsContextEnd = ''</souz_skills_context>''"
definition runSkillCommandToolName :: string where "runSkillCommandToolName = ''RunSkillCommand''"

record activatedSkill =
  as_SkillID :: string
  as_Name :: string
  as_Description :: string
  as_Version :: string
  as_Body :: string

section \<open>The system prompt and the tool list\<close>

definition stripSkillsContext :: "string \<Rightarrow> string" where
  "stripSkillsContext systemPrompt =
     (case Index systemPrompt skillsContextStart of
        None \<Rightarrow> systemPrompt
      | Some start \<Rightarrow>
          (case Index systemPrompt skillsContextEnd of
             None \<Rightarrow> systemPrompt
           | Some e \<Rightarrow>
               TrimSpace (take start systemPrompt @ drop (e + length skillsContextEnd) systemPrompt)))"

definition skill_section :: "activatedSkill \<Rightarrow> string" where
  "skill_section s =
     nl @ ''## '' @ as_Name s @
     (if as_Version s \<noteq> [] then '' (v'' @ as_Version s @ '')'' else []) @ nl @
     (if as_Description s \<noteq> [] then as_Description s @ nl @ nl else []) @
     as_Body s @ nl"

definition skills_block :: "activatedSkill list \<Rightarrow> string" where
  "skills_block activated =
     skillsContextStart @ nl @
     ''The following skills were selected as relevant to the current request. '' @
     ''Follow each skill'' @ [CHR 0x27] @ ''s instructions when performing related work; ignore skills that turn out not to apply.'' @ nl @
     concat (map skill_section activated) @ skillsContextEnd"

definition appendSkillsContext :: "string \<Rightarrow> activatedSkill list \<Rightarrow> string" where
  "appendSkillsContext systemPrompt activated =
     (if systemPrompt = [] then skills_block activated
      else systemPrompt @ nl @ nl @ skills_block activated)"

definition withoutRunSkillCommand :: "ToolDefinition list \<Rightarrow> ToolDefinition list" where
  "withoutRunSkillCommand toolsIn = filter (\<lambda>t. td_Name t \<noteq> runSkillCommandToolName) toolsIn"

definition withActiveSkillsDescription :: "ToolDefinition list \<Rightarrow> activatedSkill list \<Rightarrow> ToolDefinition list" where
  "withActiveSkillsDescription toolsIn activated =
     map (\<lambda>t. if td_Name t \<noteq> runSkillCommandToolName then t
              else t\<lparr>td_Description :=
                td_Description t @ nl @ nl @ ''Active Skills for this turn:'' @ nl @
                concat (map (\<lambda>s. ''- '' @ as_SkillID s @ nl) activated) @
                ''Do not use this tool merely to list or inspect the skill bundle files. '' @
                ''Call it only when an active skill instruction requires executing a bundled script or command. '' @
                ''For instruction-only/template-only skills, follow the injected skill instructions without calling this tool.''\<rparr>)
       toolsIn"

definition set_active :: "'w AgentContext \<Rightarrow> string list \<Rightarrow> 'w AgentContext" where
  "set_active ac ids = ac\<lparr>ac_InvocationMeta := (ac_InvocationMeta ac)\<lparr>im_ActiveSkillIDs := ids\<rparr>\<rparr>"

definition withoutSkillsContext :: "'w AgentContext \<Rightarrow> 'w AgentContext" where
  "withoutSkillsContext ac =
     (let stripped = stripSkillsContext (ac_SystemPrompt ac);
          strippedTools = withoutRunSkillCommand (ac_ActiveTools ac)
      in if stripped = ac_SystemPrompt ac \<and> im_ActiveSkillIDs (ac_InvocationMeta ac) = [] \<and>
            length strippedTools = length (ac_ActiveTools ac) then ac
         else (set_active ac [])\<lparr>ac_SystemPrompt := stripped, ac_ActiveTools := strippedTools\<rparr>)"

section \<open>Activation\<close>

text \<open>\<open>ensureApproved\<close>: \<open>None\<close> is \<open>ok = false\<close>.\<close>

definition ensureApproved ::
  "'w skills_lib \<Rightarrow> 'w LLMProvider \<Rightarrow> 'w Registry \<Rightarrow> 'w ValidationStore \<Rightarrow> Policy \<Rightarrow> string \<Rightarrow>
   StoredSkill \<Rightarrow> 'w \<Rightarrow> SkillBundle option \<times> 'w"
where
  "ensureApproved lib provider reg store policy model stored w0 =
     (let w = vs_InvalidateOthers store (ss_SkillID stored) (p_Version policy) (ss_BundleHash stored) w0 in
      case vs_Get store (ss_SkillID stored) (p_Version policy) (ss_BundleHash stored) w of
        Inl err \<Rightarrow> (None, w)
      | Inr rec \<Rightarrow>
          (if rec = None \<or> r_Status (the rec) = StatusStale then
             (case rg_LoadSkillBundle reg (ss_SkillID stored) (ss_BundleHash stored) w of
                Inl err \<Rightarrow> (None, w)
              | Inr loaded \<Rightarrow>
                  (let (fresh, w') = Validate (sl_ctx lib) (sl_now lib) (sl_sha256 lib) (sl_texts lib)
                         (sl_validator_prompt lib) provider loaded policy model w;
                       w'' = vs_Save store fresh w'
                   in if \<not> Approved fresh then (None, w'') else (Some loaded, w'')))
           else if \<not> Approved (the rec) then (None, w)
           else (case rg_LoadSkillBundle reg (ss_SkillID stored) (ss_BundleHash stored) w of
                   Inl err \<Rightarrow> (None, w)
                 | Inr loaded \<Rightarrow> (Some loaded, w))))"

definition activated_skill :: "StoredSkill \<Rightarrow> SkillBundle \<Rightarrow> activatedSkill" where
  "activated_skill stored b =
     \<lparr>as_SkillID = ss_SkillID stored, as_Name = mf_Name (b_Manifest b),
      as_Description = mf_Description (b_Manifest b), as_Version = mf_Version (b_Manifest b), as_Body = b_Body b\<rparr>"

text \<open>The loop over the selected ids; \<open>ensure\<close> is \<open>ensureApproved\<close> on one catalog entry.\<close>

fun activate_loop ::
  "(StoredSkill \<Rightarrow> 'w \<Rightarrow> SkillBundle option \<times> 'w) \<Rightarrow> (string \<times> StoredSkill) list \<Rightarrow> string list \<Rightarrow> 'w \<Rightarrow>
   activatedSkill list \<times> 'w"
where
  "activate_loop ensure byID [] w = ([], w)"
| "activate_loop ensure byID (i # ids) w =
     (case map_of byID i of
        None \<Rightarrow> activate_loop ensure byID ids w
      | Some stored \<Rightarrow>
          (case ensure stored w of
             (None, w') \<Rightarrow> activate_loop ensure byID ids w'
           | (Some b, w') \<Rightarrow>
               (case activate_loop ensure byID ids w' of
                  (acts, w'') \<Rightarrow> (activated_skill stored b # acts, w''))))"

definition candidate_of :: "StoredSkill \<Rightarrow> Candidate" where
  "candidate_of s =
     \<lparr>ca_SkillID = ss_SkillID s, ca_Name = mf_Name (ss_Manifest s), ca_Description = mf_Description (ss_Manifest s),
      ca_Author = mf_Author (ss_Manifest s), ca_Version = mf_Version (ss_Manifest s)\<rparr>"

definition by_id :: "StoredSkill list \<Rightarrow> (string \<times> StoredSkill) list" where
  "by_id catalog = foldl (\<lambda>m s. put (ss_SkillID s) s m) [] catalog"

definition activateSkills :: "'w skills_lib \<Rightarrow> 'w SkillsConfig \<Rightarrow> 'w node_fn" where
  "activateSkills lib cfg ac w =
     (case (sc_Registry cfg, sc_Provider cfg, sc_ValidationStore cfg) of
        (Some reg, Some provider, Some store) \<Rightarrow>
          (case rg_ListSkills reg w of
             Inl err \<Rightarrow> (Inl err, w)
           | Inr catalog \<Rightarrow>
               (if catalog = [] then (Inr (withoutSkillsContext ac), w)
                else
                  (case Select (sl_selection_prompt lib) provider (ac_Input ac) (sc_Model cfg)
                          (map candidate_of catalog) w of
                     (Inl err, w') \<Rightarrow> (Inl err, w')
                   | (Inr res, w') \<Rightarrow>
                       (if sr_SelectedSkillIDs res = [] then (Inr (withoutSkillsContext ac), w')
                        else
                          (case activate_loop
                                  (ensureApproved lib provider reg store (sc_Policy cfg) (sc_Model cfg))
                                  (by_id catalog) (sr_SelectedSkillIDs res) w' of
                             (activated, w'') \<Rightarrow>
                               (if activated = [] then (Inr (withoutSkillsContext ac), w'')
                                else
                                  (Inr ((set_active ac (map as_SkillID activated))
                                     \<lparr>ac_SystemPrompt :=
                                        appendSkillsContext (stripSkillsContext (ac_SystemPrompt ac)) activated,
                                      ac_ActiveTools := withActiveSkillsDescription (ac_ActiveTools ac) activated\<rparr>),
                                   w'')))))))
      | _ \<Rightarrow> (Inr ac, w))"

definition skills_fn :: "'w skills_lib \<Rightarrow> 'w SkillsConfig \<Rightarrow> 'w node_fn" where
  "skills_fn lib cfg ac w =
     (case activateSkills lib cfg ac w of
        (Inr out, w') \<Rightarrow> (Inr out, w')
      | (Inl err, w') \<Rightarrow>
          (Inr ((set_active ac [])\<lparr>ac_SystemPrompt := stripSkillsContext (ac_SystemPrompt ac),
                                  ac_ActiveTools := withoutRunSkillCommand (ac_ActiveTools ac)\<rparr>), w'))"

section \<open>Facts\<close>

lemma skills_succeeds: "\<exists>ac' w'. skills_fn lib cfg ac w = (Inr ac', w')"
  by (auto simp: skills_fn_def split: prod.splits sum.splits)

lemma set_active_fields [simp]:
  "im_ActiveSkillIDs (ac_InvocationMeta (set_active ac ids)) = ids"
  "ac_History (set_active ac ids) = ac_History ac"
  "ac_Input (set_active ac ids) = ac_Input ac"
  by (simp_all add: set_active_def)

lemma withoutSkillsContext_fields [simp]:
  "im_ActiveSkillIDs (ac_InvocationMeta (withoutSkillsContext ac)) = []"
  "ac_History (withoutSkillsContext ac) = ac_History ac"
  "ac_SystemPrompt (withoutSkillsContext ac) = stripSkillsContext (ac_SystemPrompt ac)"
  by (auto simp: withoutSkillsContext_def Let_def)

lemma filter_same_length: "length (filter P xs) = length xs \<Longrightarrow> filter P xs = xs"
  by (metis filter_True length_filter_less nat_neq_iff)

lemma withoutSkillsContext_tools [simp]:
  "ac_ActiveTools (withoutSkillsContext ac) = withoutRunSkillCommand (ac_ActiveTools ac)"
  by (auto simp: withoutSkillsContext_def Let_def withoutRunSkillCommand_def dest!: filter_same_length)

text \<open>A skill is granted only with a fresh or cached approval for its id and hash, and a bundle that loads.\<close>

definition approved_by ::
  "'w skills_lib \<Rightarrow> 'w LLMProvider \<Rightarrow> 'w Registry \<Rightarrow> 'w ValidationStore \<Rightarrow> Policy \<Rightarrow> string \<Rightarrow>
   StoredSkill \<Rightarrow> 'w \<Rightarrow> SkillBundle \<Rightarrow> bool"
where
  "approved_by lib provider reg store policy model stored w b \<longleftrightarrow>
     rg_LoadSkillBundle reg (ss_SkillID stored) (ss_BundleHash stored) w = Inr b \<and>
     (case vs_Get store (ss_SkillID stored) (p_Version policy) (ss_BundleHash stored) w of
        Inl e \<Rightarrow> False
      | Inr (Some rec) \<Rightarrow>
          Approved rec \<or> r_Status rec = StatusStale \<and>
            Approved (fst (Validate (sl_ctx lib) (sl_now lib) (sl_sha256 lib) (sl_texts lib)
              (sl_validator_prompt lib) provider b policy model w))
      | Inr None \<Rightarrow>
          Approved (fst (Validate (sl_ctx lib) (sl_now lib) (sl_sha256 lib) (sl_texts lib)
            (sl_validator_prompt lib) provider b policy model w)))"

lemma ensureApproved_Some:
  assumes "ensureApproved lib provider reg store policy model stored w0 = (Some b, w1)"
  shows "approved_by lib provider reg store policy model stored
    (vs_InvalidateOthers store (ss_SkillID stored) (p_Version policy) (ss_BundleHash stored) w0) b"
  using assms
  by (auto simp: ensureApproved_def approved_by_def Approved_def Let_def
      split: sum.splits if_splits option.splits prod.splits)

lemma by_id_Some: "map_of (by_id catalog) i = Some s \<Longrightarrow> s \<in> set catalog \<and> ss_SkillID s = i"
  by (auto simp: by_id_def map_of_foldl_put find_Some_iff split: option.splits) (metis nth_mem set_rev length_rev)

lemma activate_loop_granted:
  "activate_loop ensure byID ids w = (acts, w') \<Longrightarrow> a \<in> set acts \<Longrightarrow>
   \<exists>i stored b w1 w2. i \<in> set ids \<and> map_of byID i = Some stored \<and> ensure stored w1 = (Some b, w2) \<and>
     a = activated_skill stored b"
proof (induction ids arbitrary: w acts)
  case (Cons i ids)
  then show ?case
    by (simp split: option.splits prod.splits) (metis list.set_cases set_ConsD)+
qed simp

text \<open>The two ways the node can end: nothing active, or the activated skills of one catalog listing.\<close>

lemma skills_cases:
  assumes cfg: "sc_Registry cfg = Some reg" "sc_Provider cfg = Some provider" "sc_ValidationStore cfg = Some store"
    and run: "skills_fn lib cfg ac w = (Inr ac', w')"
  obtains (inactive) "im_ActiveSkillIDs (ac_InvocationMeta ac') = []" "ac_History ac' = ac_History ac"
      "ac_ActiveTools ac' = withoutRunSkillCommand (ac_ActiveTools ac)"
      "ac_SystemPrompt ac' = stripSkillsContext (ac_SystemPrompt ac)"
  | (active) catalog acts ids w1 w2 where "rg_ListSkills reg w = Inr catalog" "acts \<noteq> []"
      "activate_loop (ensureApproved lib provider reg store (sc_Policy cfg) (sc_Model cfg)) (by_id catalog) ids w1
        = (acts, w2)"
      "im_ActiveSkillIDs (ac_InvocationMeta ac') = map as_SkillID acts" "ac_History ac' = ac_History ac"
      "ac_ActiveTools ac' = withActiveSkillsDescription (ac_ActiveTools ac) acts"
      "ac_SystemPrompt ac' = appendSkillsContext (stripSkillsContext (ac_SystemPrompt ac)) acts"
proof (cases "rg_ListSkills reg w")
  case (Inl err)
  with cfg run show ?thesis by (intro inactive) (auto simp: skills_fn_def activateSkills_def)
next
  case (Inr catalog)
  show ?thesis
  proof (cases "catalog = []")
    case True
    with Inr cfg run show ?thesis by (intro inactive) (auto simp: skills_fn_def activateSkills_def)
  next
    case False
    obtain sel w1 where sel: "Select (sl_selection_prompt lib) provider (ac_Input ac) (sc_Model cfg)
        (map candidate_of catalog) w = (sel, w1)" by force
    show ?thesis
    proof (cases "\<exists>res. sel = Inr res \<and> sr_SelectedSkillIDs res \<noteq> []")
      case True
      then obtain res where res: "sel = Inr res" "sr_SelectedSkillIDs res \<noteq> []" by blast
      obtain acts w2 where acts: "activate_loop
          (ensureApproved lib provider reg store (sc_Policy cfg) (sc_Model cfg)) (by_id catalog)
          (sr_SelectedSkillIDs res) w1 = (acts, w2)" by force
      note r = run [unfolded skills_fn_def activateSkills_def] cfg Inr False sel res acts
      show ?thesis
      proof (cases "acts = []")
        case True
        with r show ?thesis by (intro inactive) auto
      next
        case False
        with r show ?thesis by (intro active [OF Inr False acts]) auto
      qed
    next
      case no: False
      with run cfg Inr False sel show ?thesis
        by (intro inactive) (auto simp: skills_fn_def activateSkills_def split: sum.splits)
    qed
  qed
qed

text \<open>
  The grant of the node: whatever the turn came with, the ids it passes on are skills of the catalog
  that the store or a fresh validation approves, and without an id the tool is not offered.
\<close>

lemma skills_grant:
  assumes cfg: "sc_Registry cfg = Some reg" "sc_Provider cfg = Some provider" "sc_ValidationStore cfg = Some store"
    and run: "skills_fn lib cfg ac w = (Inr ac', w')"
  shows "(\<forall>i \<in> set (im_ActiveSkillIDs (ac_InvocationMeta ac')).
            \<exists>catalog stored w1 b. rg_ListSkills reg w = Inr catalog \<and> stored \<in> set catalog \<and>
              ss_SkillID stored = i \<and>
              approved_by lib provider reg store (sc_Policy cfg) (sc_Model cfg) stored w1 b) \<and>
         (im_ActiveSkillIDs (ac_InvocationMeta ac') = [] \<longrightarrow>
            runSkillCommandToolName \<notin> td_Name ` set (ac_ActiveTools ac'))"
  using cfg run
proof (cases rule: skills_cases)
  case inactive
  then show ?thesis by (auto simp: withoutRunSkillCommand_def)
next
  case (active catalog acts ids w1 w2)
  have "\<exists>stored w1 b. stored \<in> set catalog \<and> ss_SkillID stored = as_SkillID a \<and>
      approved_by lib provider reg store (sc_Policy cfg) (sc_Model cfg) stored w1 b" if "a \<in> set acts" for a
    using activate_loop_granted [OF active(3) that] by_id_Some ensureApproved_Some
    by (fastforce simp: activated_skill_def)
  with active show ?thesis by auto
qed

lemma skills_history: "skills_fn lib cfg ac w = (Inr ac', w') \<Longrightarrow> ac_History ac' = ac_History ac"
  by (auto simp: skills_fn_def activateSkills_def split: option.splits sum.splits if_splits prod.splits)

text \<open>Cleaning up after a turn: stripping what was appended gives back a prompt without the markers.\<close>

lemma Index_None_prefix: "Index (a @ b) p = None \<Longrightarrow> Index b p = None"
  using Contains_iff [of "a @ b" p] Contains_iff [of b p]
  by (auto simp: Contains_def) (metis append.assoc not_None_eq)

section \<open>Properties\<close>


definition demo_cfg :: "nat SkillsConfig" where
  "demo_cfg =
     \<lparr>sc_Provider = Some \<lparr>Chat = (\<lambda>_ w. (Inl Canceled, w + 1)), ChatStream = (\<lambda>_ _ w. (Inl Canceled, w + 1))\<rparr>,
      sc_Registry = Some \<lparr>rg_ListSkills = (\<lambda>_. Inr [\<lparr>ss_SkillID = ''demo'', ss_Manifest = demo_manifest,
          ss_BundleHash = ''h'', ss_CreatedAt = [], ss_Loose = False\<rparr>]),
        rg_LoadSkillBundle = (\<lambda>_ _ _. Inr demo_bundle)\<rparr>,
      sc_ValidationStore = Some \<lparr>vs_InvalidateOthers = (\<lambda>_ _ _ w. w), vs_Get = (\<lambda>_ _ _ _. Inr None), vs_Save = (\<lambda>_ w. w)\<rparr>,
      sc_Policy = DefaultPolicy, sc_Model = []\<rparr>"

definition demo_ac :: "nat AgentContext" where
  "demo_ac = (set_active zero_AgentContext [''old''])
     \<lparr>ac_ActiveTools := [\<lparr>td_Name = ''RunSkillCommand'', td_Description = [], td_InputSchema = []\<rparr>]\<rparr>"

definition demo_lib :: "nat skills_lib" where
  "demo_lib = \<lparr>sl_ctx = (\<lambda>_. None), sl_now = (\<lambda>_. []), sl_sha256 = (\<lambda>s. s),
     sl_texts = \<lparr>fmt_json_error = (\<lambda>_. Canceled), fmt_float = (\<lambda>_. [])\<rparr>,
     sl_validator_prompt = [], sl_selection_prompt = []\<rparr>"


end
