(* ===== verification/Registry.thy ===== *)
theory Registry
  imports Bundle_Dir Codec SkillsNode
begin

text \<open>
  \<^verbatim>\<open>pkg/skills/registry/registry.go\<close>: the catalog of installed skills on disk, managed
  (\<^verbatim>\<open>{id}/stored-skill.json\<close> and \<^verbatim>\<open>{id}/bundles/{hash}/\<close>) or loose (a directory with a
  \<^verbatim>\<open>SKILL.md\<close>). SHA-256 and the clock are arguments; what may fail while a bundle is written is an
  argument too: the number of the file whose write fails, and the bytes written before.
\<close>

section \<open>The catalog entry as JSON\<close>

definition storedSkillFile :: string where
  "storedSkillFile = ''stored-skill.json''"

definition enc_Manifest :: "Manifest \<Rightarrow> json" where
  "enc_Manifest m = JObj (
     fld ''name'' (JStr (mf_Name m)) @
     fld ''description'' (JStr (mf_Description m)) @
     opt_fld ''author'' (mf_Author m \<noteq> []) (JStr (mf_Author m)) @
     opt_fld ''version'' (mf_Version m \<noteq> []) (JStr (mf_Version m)) @
     opt_fld ''metadata'' (mf_Metadata m \<noteq> [])
       (JObj (map (\<lambda>(k, v). (k, JStr v)) (sort_key fst (mf_Metadata m)))))"

definition dec_Manifest :: "Manifest decoder" where
  "dec_Manifest cur j =
     Option.bind (members j) (\<lambda>ms.
     Option.bind (dec_field ''name'' dec_string (mf_Name cur) ms) (\<lambda>n.
     Option.bind (dec_field ''description'' dec_string (mf_Description cur) ms) (\<lambda>d.
     Option.bind (dec_field ''author'' dec_string (mf_Author cur) ms) (\<lambda>a.
     Option.bind (dec_field ''version'' dec_string (mf_Version cur) ms) (\<lambda>v.
     Option.bind (dec_field ''metadata'' (dec_map [] dec_string) (mf_Metadata cur) ms) (\<lambda>md.
       Some \<lparr>mf_Name = n, mf_Description = d, mf_Author = a, mf_Version = v, mf_Metadata = md\<rparr>))))))"

text \<open>\<open>Loose\<close> is not persisted.\<close>

definition enc_StoredSkill :: "StoredSkill \<Rightarrow> json" where
  "enc_StoredSkill s = JObj (
     fld ''skillId'' (JStr (ss_SkillID s)) @
     fld ''manifest'' (enc_Manifest (ss_Manifest s)) @
     fld ''bundleHash'' (JStr (ss_BundleHash s)) @
     fld ''createdAt'' (JStr (ss_CreatedAt s)))"

definition zero_StoredSkill :: StoredSkill where
  "zero_StoredSkill = \<lparr>ss_SkillID = [], ss_Manifest = zero_Manifest, ss_BundleHash = [],
     ss_CreatedAt = format_time zero_time, ss_Loose = False\<rparr>"

definition dec_StoredSkill :: "StoredSkill decoder" where
  "dec_StoredSkill cur j =
     Option.bind (members j) (\<lambda>ms.
     Option.bind (dec_field ''skillId'' dec_string (ss_SkillID cur) ms) (\<lambda>i.
     Option.bind (dec_field ''manifest'' dec_Manifest (ss_Manifest cur) ms) (\<lambda>m.
     Option.bind (dec_field ''bundleHash'' dec_string (ss_BundleHash cur) ms) (\<lambda>h.
     Option.bind (dec_field ''createdAt'' dec_time_text (ss_CreatedAt cur) ms) (\<lambda>t.
       Some \<lparr>ss_SkillID = i, ss_Manifest = m, ss_BundleHash = h, ss_CreatedAt = t, ss_Loose = ss_Loose cur\<rparr>)))))"

section \<open>Reading\<close>

definition registry_error :: "go_error \<Rightarrow> go_error" where
  "registry_error e = Wrap ''skill registry: '' e []"

definition readEntry :: "(string \<Rightarrow> string) \<Rightarrow> bundle_Policy \<Rightarrow> fs \<Rightarrow> path \<Rightarrow> StoredSkill option" where
  "readEntry sha256 policy fs dir =
     (case os_ReadFile fs (Join_path dir storedSkillFile) of
        Inr data \<Rightarrow> unmarshal zero_StoredSkill dec_StoredSkill data
      | Inl _ \<Rightarrow>
          (case os_Stat fs (Join_path dir SkillMDPath) of
             Inl _ \<Rightarrow> None
           | Inr _ \<Rightarrow>
               (case bundle_Load dir policy fs of
                  Inl _ \<Rightarrow> None
                | Inr b \<Rightarrow>
                    Some \<lparr>ss_SkillID = b_SkillID b, ss_Manifest = b_Manifest b, ss_BundleHash = Hash sha256 b,
                          ss_CreatedAt = format_time zero_time, ss_Loose = True\<rparr>)))"

definition ListSkills :: "(string \<Rightarrow> string) \<Rightarrow> bundle_Policy \<Rightarrow> path \<Rightarrow> fs \<Rightarrow> StoredSkill list result" where
  "ListSkills sha256 policy rt fs =
     (case os_ReadDir fs rt of
        Inl e \<Rightarrow> (if is_not_exist e then Inr [] else Inl (registry_error e))
      | Inr entries \<Rightarrow>
          Inr (sort_key ss_SkillID (List.map_filter
            (\<lambda>(nm, x). if x \<noteq> EDir then None else readEntry sha256 policy fs (Join_path rt nm)) entries)))"

definition GetSkill :: "(string \<Rightarrow> string) \<Rightarrow> bundle_Policy \<Rightarrow> path \<Rightarrow> string \<Rightarrow> fs \<Rightarrow> StoredSkill option" where
  "GetSkill sha256 policy rt skillID fs = readEntry sha256 policy fs (Join_path rt skillID)"

definition GetSkillByName ::
  "(string \<Rightarrow> string) \<Rightarrow> bundle_Policy \<Rightarrow> path \<Rightarrow> string \<Rightarrow> fs \<Rightarrow> StoredSkill option result"
where
  "GetSkillByName sha256 policy rt name fs =
     (case ListSkills sha256 policy rt fs of
        Inl e \<Rightarrow> Inl e
      | Inr skills \<Rightarrow> Inr (find (\<lambda>s. mf_Name (ss_Manifest s) = name) skills))"

definition stat_ok :: "fs \<Rightarrow> path \<Rightarrow> bool" where
  "stat_ok fs p = (case os_Stat fs p of Inr _ \<Rightarrow> True | Inl _ \<Rightarrow> False)"

definition BundleRoot :: "path \<Rightarrow> string \<Rightarrow> string \<Rightarrow> fs \<Rightarrow> path result" where
  "BundleRoot rt skillID hash fs =
     (let dir = Join_path rt skillID;
          bundleDir = Join_path (Join_path dir ''bundles'') hash in
      if stat_ok fs bundleDir then Inr bundleDir
      else if stat_ok fs (Join_path dir SkillMDPath) then Inr dir
      else Inl (Err (''skill registry: skill '' @ quote skillID @ '' bundle '' @ quote hash @ '' not found'')))"

definition LoadSkillBundle ::
  "(string \<Rightarrow> string) \<Rightarrow> bundle_Policy \<Rightarrow> path \<Rightarrow> string \<Rightarrow> string \<Rightarrow> fs \<Rightarrow> SkillBundle result"
where
  "LoadSkillBundle sha256 policy rt skillID hash fs =
     (case BundleRoot rt skillID hash fs of
        Inl e \<Rightarrow> Inl e
      | Inr dir \<Rightarrow>
          (case bundle_Load dir policy fs of
             Inl e \<Rightarrow> Inl (registry_error e)
           | Inr b \<Rightarrow>
               (if Hash sha256 b \<noteq> hash
                then Inl (Err (''skill registry: skill '' @ quote skillID @ '' content changed on disk (hash mismatch)''))
                else Inr b)))"

section \<open>Writing\<close>

definition os_MkdirTemp :: "fs \<Rightarrow> path \<Rightarrow> string \<Rightarrow> path result \<times> fs" where
  "os_MkdirTemp fs d pre =
     (case os_walk fs d of
        Inl (_, e) \<Rightarrow> (Inl (path_error ''mkdir'' (d @ [pre], e)), fs)
      | Inr p \<Rightarrow>
          (if node fs p \<noteq> Some EDir then (Inl (path_error ''mkdir'' (d @ [pre], ENOTDIR)), fs)
           else (let nm = temp_name fs p pre [] in (Inr (d @ [nm]), put (p @ [nm]) EDir fs))))"

text \<open>
  \<open>os.WriteFile\<close>: an existing file is truncated, a missing one made when only the last component is
  missing, links are followed; the write may fail after some bytes.
\<close>

definition os_WriteFile :: "nat option \<Rightarrow> path \<Rightarrow> string \<Rightarrow> fs \<Rightarrow> unit result \<times> fs" where
  "os_WriteFile fault p data fs =
     (let written = (case fault of None \<Rightarrow> data | Some k \<Rightarrow> take k data);
          done = (case fault of None \<Rightarrow> Inr () | Some _ \<Rightarrow> Inl (path_error ''write'' (p, EIO))) in
      case os_walk fs p of
        Inr q \<Rightarrow>
          (if node fs q = Some EDir then (Inl (path_error ''open'' (p, EISDIR)), fs)
           else (done, put q (EFile written) fs))
      | Inl (q, e) \<Rightarrow>
          (if e = ENOENT \<and> os_walk (put q (EFile written) fs) p = Inr q
           then (done, put q (EFile written) fs)
           else (Inl (path_error ''open'' (p, e)), fs)))"

type_synonym bundle_fault = "nat \<Rightarrow> nat option"

fun write_files :: "bundle_fault \<Rightarrow> path \<Rightarrow> nat \<Rightarrow> File list \<Rightarrow> fs \<Rightarrow> unit result \<times> fs" where
  "write_files fault tmp i [] fs = (Inr (), fs)"
| "write_files fault tmp i (f # files) fs =
     (let p = Join_path tmp (f_Path f) in
      case os_MkdirAll fs (butlast p) of
        (Inl e, fs1) \<Rightarrow> (Inl e, fs1)
      | (Inr _, fs1) \<Rightarrow>
          (case os_WriteFile (fault i) p (f_Content f) fs1 of
             (Inl e, fs2) \<Rightarrow> (Inl e, fs2)
           | (Inr _, fs2) \<Rightarrow> write_files fault tmp (Suc i) files fs2))"

definition writeBundleAtomic :: "bundle_fault \<Rightarrow> path \<Rightarrow> SkillBundle \<Rightarrow> fs \<Rightarrow> unit result \<times> fs" where
  "writeBundleAtomic fault dest b fs =
     (case os_MkdirAll fs (butlast dest) of
        (Inl e, fs1) \<Rightarrow> (Inl e, fs1)
      | (Inr _, fs1) \<Rightarrow>
          (case os_MkdirTemp fs1 (butlast dest) ''.tmp-'' of
             (Inl e, fs2) \<Rightarrow> (Inl e, fs2)
           | (Inr tmp, fs2) \<Rightarrow>
               (case write_files fault tmp 0 (b_Files b) fs2 of
                  (Inl e, fs3) \<Rightarrow> (Inl e, os_RemoveAll fs3 tmp)
                | (Inr _, fs3) \<Rightarrow>
                    (case os_Rename fs3 tmp dest of
                       (Inr _, fs4) \<Rightarrow> (Inr (), os_RemoveAll fs4 tmp)
                     | (Inl e, fs4) \<Rightarrow>
                         (if stat_ok fs4 dest then Inr () else Inl e, os_RemoveAll fs4 tmp)))))"

definition SaveSkillBundle ::
  "(string \<Rightarrow> string) \<Rightarrow> bundle_fault \<Rightarrow> write_fault \<Rightarrow> string \<Rightarrow> path \<Rightarrow> SkillBundle \<Rightarrow> fs \<Rightarrow> StoredSkill result \<times> fs"
where
  "SaveSkillBundle sha256 bfault fault now rt b fs =
     (let hash = Hash sha256 b;
          dir = Join_path rt (b_SkillID b);
          bundleDir = Join_path (Join_path dir ''bundles'') hash in
      case (case os_Stat fs bundleDir of
              Inr _ \<Rightarrow> (Inr (), fs)
            | Inl e \<Rightarrow>
                (if is_not_exist e then
                   (case writeBundleAtomic bfault bundleDir b fs of
                      (Inl e', fs1) \<Rightarrow> (Inl (Wrap ''skill registry: save bundle: '' e' []), fs1)
                    | (Inr _, fs1) \<Rightarrow> (Inr (), fs1))
                 else (Inl (registry_error e), fs))) of
        (Inl e, fs1) \<Rightarrow> (Inl e, fs1)
      | (Inr _, fs1) \<Rightarrow>
          (let stored = \<lparr>ss_SkillID = b_SkillID b, ss_Manifest = b_Manifest b, ss_BundleHash = hash,
                         ss_CreatedAt = now, ss_Loose = False\<rparr> in
           case os_MkdirAll fs1 dir of
             (Inl e, fs2) \<Rightarrow> (Inl (registry_error e), fs2)
           | (Inr _, fs2) \<Rightarrow>
               (case writeFileAtomic fault (Join_path dir storedSkillFile) (MarshalIndent (enc_StoredSkill stored)) fs2 of
                  (Inl e, fs3) \<Rightarrow> (Inl (registry_error e), fs3)
                | (Inr _, fs3) \<Rightarrow> (Inr stored, fs3))))"

end
