(* ===== verification/Bus.thy ===== *)
theory Bus
  imports Prelude
begin

text \<open>
  \<^verbatim>\<open>pkg/bus\<close> and \<^verbatim>\<open>pkg/channels/channel.go\<close>: the message bus as a step relation. A state holds the two
  buffered Go channels, the \<open>done\<close> channel, the \<open>closed\<close> flag, the wait group, the place every call of a
  \<open>Publish\<close> method has reached, and the place \<open>Close\<close> has reached; a step is one atomic action of one
  goroutine, so the runs are the interleavings. What was accepted and what was taken out is logged.
\<close>

record InboundMessage =
  in_Channel :: string
  in_ChatID :: string
  in_SenderID :: string
  in_Text :: string
  in_MessageID :: string
  in_Metadata :: "(string \<times> string) list"

record OutboundMessage =
  ou_Channel :: string
  ou_ChatID :: string
  ou_Text :: string
  ou_ReplyToMessageID :: string

definition defaultBufferSize :: nat where
  "defaultBufferSize = 64"

section \<open>State\<close>

datatype side = Inbound | Outbound

datatype message = MIn InboundMessage | MOut OutboundMessage

datatype publish_result = Published | BusClosed | CtxDone

text \<open>
  The places of a \<open>Publish\<close> call: before it, past the \<open>closed\<close> flag, past the first \<open>select\<close>, counted in
  the wait group and at the second \<open>select\<close>, about to leave the wait group, returned, panicked.
\<close>

datatype publisher =
    Idle
  | Entered side message
  | Ready side message
  | Sending side message
  | Leaving side message publish_result
  | Returned side message publish_result
  | Panicked side message

text \<open>The places of \<open>Close\<close>, named by the last action done.\<close>

datatype closer = Open | DoneClosed | FlagSet | Waited | InClosed | OutClosed | InDrained | Closed

record bus =
  bs_queue :: "side \<Rightarrow> message list"
  bs_chan_closed :: "side \<Rightarrow> bool"
  bs_done :: bool
  bs_closed :: bool
  bs_wg :: nat
  bs_closer :: closer
  bs_pub :: "nat \<Rightarrow> publisher"
  bs_ctx :: "nat \<Rightarrow> bool"
  bs_accepted :: "side \<Rightarrow> message list"
  bs_taken :: "side \<Rightarrow> (message \<times> bool) list"

definition bus_New :: bus where
  "bus_New = \<lparr>bs_queue = (\<lambda>_. []), bs_chan_closed = (\<lambda>_. False), bs_done = False, bs_closed = False, bs_wg = 0,
     bs_closer = Open, bs_pub = (\<lambda>_. Idle), bs_ctx = (\<lambda>_. False), bs_accepted = (\<lambda>_. []), bs_taken = (\<lambda>_. [])\<rparr>"

definition set_pub :: "nat \<Rightarrow> publisher \<Rightarrow> bus \<Rightarrow> bus" where
  "set_pub p x s = s\<lparr>bs_pub := (bs_pub s)(p := x)\<rparr>"

section \<open>Steps\<close>

text \<open>
  One action of a call \<open>p\<close> of \<open>PublishInbound\<close> or \<open>PublishOutbound\<close> (the same text for the two channels).
  A send on a closed channel is ready in a \<open>select\<close>, and panics; the deferred \<open>wg.Done\<close> still runs.
\<close>

inductive publish_step :: "nat \<Rightarrow> bus \<Rightarrow> bus \<Rightarrow> bool" where
  enter_closed: "bs_pub s p = Idle \<Longrightarrow> bs_closed s \<Longrightarrow> publish_step p s (set_pub p (Returned d m BusClosed) s)"
| enter: "bs_pub s p = Idle \<Longrightarrow> \<not> bs_closed s \<Longrightarrow> publish_step p s (set_pub p (Entered d m) s)"
| check_ctx: "bs_pub s p = Entered d m \<Longrightarrow> bs_ctx s p \<Longrightarrow> publish_step p s (set_pub p (Returned d m CtxDone) s)"
| check_done: "bs_pub s p = Entered d m \<Longrightarrow> bs_done s \<Longrightarrow> publish_step p s (set_pub p (Returned d m BusClosed) s)"
| check_default: "bs_pub s p = Entered d m \<Longrightarrow> \<not> bs_ctx s p \<Longrightarrow> \<not> bs_done s \<Longrightarrow> publish_step p s (set_pub p (Ready d m) s)"
| add: "bs_pub s p = Ready d m \<Longrightarrow> publish_step p s (set_pub p (Sending d m) (s\<lparr>bs_wg := bs_wg s + 1\<rparr>))"
| send: "bs_pub s p = Sending d m \<Longrightarrow> \<not> bs_chan_closed s d \<Longrightarrow> length (bs_queue s d) < defaultBufferSize \<Longrightarrow>
    publish_step p s (set_pub p (Leaving d m Published)
      (s\<lparr>bs_queue := (bs_queue s)(d := bs_queue s d @ [m]), bs_accepted := (bs_accepted s)(d := bs_accepted s d @ [m])\<rparr>))"
| send_closed: "bs_pub s p = Sending d m \<Longrightarrow> bs_chan_closed s d \<Longrightarrow>
    publish_step p s (set_pub p (Panicked d m) (s\<lparr>bs_wg := bs_wg s - 1\<rparr>))"
| send_ctx: "bs_pub s p = Sending d m \<Longrightarrow> bs_ctx s p \<Longrightarrow> publish_step p s (set_pub p (Leaving d m CtxDone) s)"
| send_done: "bs_pub s p = Sending d m \<Longrightarrow> bs_done s \<Longrightarrow> publish_step p s (set_pub p (Leaving d m BusClosed) s)"
| leave: "bs_pub s p = Leaving d m r \<Longrightarrow> publish_step p s (set_pub p (Returned d m r) (s\<lparr>bs_wg := bs_wg s - 1\<rparr>))"

text \<open>A receive from a channel, by a reader (\<open>True\<close>) or by the draining loops of \<open>Close\<close>.\<close>

definition take_out :: "side \<Rightarrow> bool \<Rightarrow> bus \<Rightarrow> bus" where
  "take_out d reader s =
     s\<lparr>bs_queue := (bs_queue s)(d := tl (bs_queue s d)),
       bs_taken := (bs_taken s)(d := bs_taken s d @ [(hd (bs_queue s d), reader)])\<rparr>"

text \<open>\<open>Close\<close>: the body of \<open>closeOnce.Do\<close>.\<close>

inductive close_step :: "bus \<Rightarrow> bus \<Rightarrow> bool" where
  close_done: "bs_closer s = Open \<Longrightarrow> close_step s (s\<lparr>bs_closer := DoneClosed, bs_done := True\<rparr>)"
| set_flag: "bs_closer s = DoneClosed \<Longrightarrow> close_step s (s\<lparr>bs_closer := FlagSet, bs_closed := True\<rparr>)"
| wait: "bs_closer s = FlagSet \<Longrightarrow> bs_wg s = 0 \<Longrightarrow> close_step s (s\<lparr>bs_closer := Waited\<rparr>)"
| close_in: "bs_closer s = Waited \<Longrightarrow>
    close_step s (s\<lparr>bs_closer := InClosed, bs_chan_closed := (bs_chan_closed s)(Inbound := True)\<rparr>)"
| close_out: "bs_closer s = InClosed \<Longrightarrow>
    close_step s (s\<lparr>bs_closer := OutClosed, bs_chan_closed := (bs_chan_closed s)(Outbound := True)\<rparr>)"
| drain_in: "bs_closer s = OutClosed \<Longrightarrow> bs_queue s Inbound \<noteq> [] \<Longrightarrow> close_step s (take_out Inbound False s)"
| drained_in: "bs_closer s = OutClosed \<Longrightarrow> bs_queue s Inbound = [] \<Longrightarrow> close_step s (s\<lparr>bs_closer := InDrained\<rparr>)"
| drain_out: "bs_closer s = InDrained \<Longrightarrow> bs_queue s Outbound \<noteq> [] \<Longrightarrow> close_step s (take_out Outbound False s)"
| drained_out: "bs_closer s = InDrained \<Longrightarrow> bs_queue s Outbound = [] \<Longrightarrow> close_step s (s\<lparr>bs_closer := Closed\<rparr>)"

inductive bus_step :: "bus \<Rightarrow> bus \<Rightarrow> bool" where
  publish: "publish_step p s s' \<Longrightarrow> bus_step s s'"
| close: "close_step s s' \<Longrightarrow> bus_step s s'"
| receive: "bs_queue s d \<noteq> [] \<Longrightarrow> bus_step s (take_out d True s)"
| cancel: "bus_step s (s\<lparr>bs_ctx := (bs_ctx s)(p := True)\<rparr>)"

inductive bus_reach :: "bus \<Rightarrow> bool" where
  start: "bus_reach bus_New"
| step: "bus_reach s \<Longrightarrow> bus_step s s' \<Longrightarrow> bus_reach s'"

section \<open>Channels\<close>

record BaseChannel =
  bc_name :: string
  bc_allowList :: "string list"
  bc_running :: bool

definition NewBaseChannel :: "string \<Rightarrow> string list \<Rightarrow> BaseChannel" where
  "NewBaseChannel name allowList = \<lparr>bc_name = name, bc_allowList = allowList, bc_running = False\<rparr>"

definition SetRunning :: "bool \<Rightarrow> BaseChannel \<Rightarrow> BaseChannel" where
  "SetRunning v b = b\<lparr>bc_running := v\<rparr>"

definition IsAllowed :: "BaseChannel \<Rightarrow> string \<Rightarrow> bool" where
  "IsAllowed b senderID \<longleftrightarrow>
     bc_allowList b = [] \<or> list_ex (\<lambda>a. a = ''*'' \<or> a = senderID) (bc_allowList b)"

text \<open>\<open>HandleInbound\<close>: the call it makes of \<open>PublishInbound\<close>, if it makes one.\<close>

definition HandleInbound :: "BaseChannel \<Rightarrow> InboundMessage \<Rightarrow> InboundMessage option" where
  "HandleInbound b msg = (if IsAllowed b (in_SenderID msg) then Some msg else None)"

section \<open>Invariants\<close>

inductive_cases publish_stepE: "publish_step p s s'"
inductive_cases close_stepE: "close_step s s'"

fun rank :: "closer \<Rightarrow> nat" where
  "rank Open = 0" | "rank DoneClosed = 1" | "rank FlagSet = 2" | "rank Waited = 3"
| "rank InClosed = 4" | "rank OutClosed = 5" | "rank InDrained = 6" | "rank Closed = 7"

fun counted :: "publisher \<Rightarrow> bool" where
  "counted (Sending d m) = True"
| "counted (Leaving d m r) = True"
| "counted _ = False"

text \<open>What the flags say about the place of \<open>Close\<close>, and the bound of the buffers.\<close>

definition flags_ok :: "bus \<Rightarrow> bool" where
  "flags_ok s \<longleftrightarrow> (bs_done s \<longleftrightarrow> 1 \<le> rank (bs_closer s)) \<and> (bs_closed s \<longleftrightarrow> 2 \<le> rank (bs_closer s)) \<and>
     (bs_chan_closed s Inbound \<longleftrightarrow> 4 \<le> rank (bs_closer s)) \<and> (bs_chan_closed s Outbound \<longleftrightarrow> 5 \<le> rank (bs_closer s)) \<and>
     (6 \<le> rank (bs_closer s) \<longrightarrow> bs_queue s Inbound = []) \<and> (7 \<le> rank (bs_closer s) \<longrightarrow> bs_queue s Outbound = [])"

definition group_ok :: "bus \<Rightarrow> bool" where
  "group_ok s \<longleftrightarrow> finite {p. bs_pub s p \<noteq> Idle} \<and> bs_wg s = card {p. counted (bs_pub s p)}"

definition fifo_ok :: "bus \<Rightarrow> bool" where
  "fifo_ok s \<longleftrightarrow> (\<forall>d. length (bs_queue s d) \<le> defaultBufferSize \<and> bs_accepted s d = map fst (bs_taken s d) @ bs_queue s d)"

definition published_ok :: "bus \<Rightarrow> bool" where
  "published_ok s \<longleftrightarrow>
     (\<forall>p d m. bs_pub s p = Leaving d m Published \<or> bs_pub s p = Returned d m Published \<longrightarrow> m \<in> set (bs_accepted s d)) \<and>
     (\<forall>p d m. bs_pub s p = Panicked d m \<longrightarrow> bs_chan_closed s d)"

definition drained_ok :: "bus \<Rightarrow> bool" where
  "drained_ok s \<longleftrightarrow> (\<forall>d m. (m, False) \<in> set (bs_taken s d) \<longrightarrow> 5 \<le> rank (bs_closer s))"

lemma set_pub_fields [simp]:
  "bs_pub (set_pub p x s) = (bs_pub s)(p := x)" "bs_queue (set_pub p x s) = bs_queue s"
  "bs_chan_closed (set_pub p x s) = bs_chan_closed s" "bs_done (set_pub p x s) = bs_done s"
  "bs_closed (set_pub p x s) = bs_closed s" "bs_wg (set_pub p x s) = bs_wg s" "bs_closer (set_pub p x s) = bs_closer s"
  "bs_ctx (set_pub p x s) = bs_ctx s" "bs_accepted (set_pub p x s) = bs_accepted s" "bs_taken (set_pub p x s) = bs_taken s"
  by (simp_all add: set_pub_def)

lemma take_out_fields [simp]:
  "bs_pub (take_out d r s) = bs_pub s" "bs_queue (take_out d r s) = (bs_queue s)(d := tl (bs_queue s d))"
  "bs_chan_closed (take_out d r s) = bs_chan_closed s" "bs_done (take_out d r s) = bs_done s"
  "bs_closed (take_out d r s) = bs_closed s" "bs_wg (take_out d r s) = bs_wg s" "bs_closer (take_out d r s) = bs_closer s"
  "bs_ctx (take_out d r s) = bs_ctx s" "bs_accepted (take_out d r s) = bs_accepted s"
  "bs_taken (take_out d r s) = (bs_taken s)(d := bs_taken s d @ [(hd (bs_queue s d), r)])"
  by (simp_all add: take_out_def)

lemma flags_publish: "publish_step p s s' \<Longrightarrow> flags_ok s \<Longrightarrow> flags_ok s'"
proof (induction rule: publish_step.induct)
  case (send s p d m)
  then show ?case by (cases d) (auto simp: flags_ok_def)
qed (simp_all add: flags_ok_def)

lemma flags_close: "close_step s s' \<Longrightarrow> flags_ok s \<Longrightarrow> flags_ok s'"
  by (induction rule: close_step.induct) (simp_all add: flags_ok_def)

lemma flags_step: "bus_step s s' \<Longrightarrow> flags_ok s \<Longrightarrow> flags_ok s'"
proof (induction rule: bus_step.induct)
  case (receive s d)
  then show ?case by (cases d) (auto simp: flags_ok_def)
next
  case (cancel s p)
  then show ?case by (simp add: flags_ok_def)
qed (rule flags_publish flags_close, assumption, assumption)+

text \<open>A call's move changes the count as the wait group does.\<close>

lemma counted_update:
  assumes "finite {q. pub q \<noteq> Idle}"
  shows "card {q. counted ((pub(p := x)) q)} =
    (if counted x then (if counted (pub p) then card {q. counted (pub q)} else card {q. counted (pub q)} + 1)
     else (if counted (pub p) then card {q. counted (pub q)} - 1 else card {q. counted (pub q)}))"
    and "finite {q. (pub(p := x)) q \<noteq> Idle}"
proof -
  have "{q. counted (pub q)} \<subseteq> {q. pub q \<noteq> Idle}" by auto
  then have fin: "finite {q. counted (pub q)}" using assms by (rule finite_subset)
  have "{q. counted ((pub(p := x)) q)} = (if counted x then insert p {q. counted (pub q)} else {q. counted (pub q)} - {p})"
    by auto
  then show "card {q. counted ((pub(p := x)) q)} =
    (if counted x then (if counted (pub p) then card {q. counted (pub q)} else card {q. counted (pub q)} + 1)
     else (if counted (pub p) then card {q. counted (pub q)} - 1 else card {q. counted (pub q)}))"
    using fin by (auto simp: insert_absorb card_Diff_singleton)
  have "{q. (pub(p := x)) q \<noteq> Idle} \<subseteq> insert p {q. pub q \<noteq> Idle}" by auto
  moreover have "finite (insert p {q. pub q \<noteq> Idle})" using assms by simp
  ultimately show "finite {q. (pub(p := x)) q \<noteq> Idle}" by (rule finite_subset)
qed

lemma counted_finite: "group_ok s \<Longrightarrow> finite {q. counted (bs_pub s q)}"
proof -
  have "{q. counted (bs_pub s q)} \<subseteq> {q. bs_pub s q \<noteq> Idle}" by auto
  then show "group_ok s \<Longrightarrow> ?thesis" unfolding group_ok_def by (blast intro: finite_subset)
qed

lemma group_publish: "publish_step p s s' \<Longrightarrow> group_ok s \<Longrightarrow> group_ok s'"
  by (induction rule: publish_step.induct)
    (simp_all add: group_ok_def counted_update counted_update(2) del: fun_upd_apply)

lemma group_step: "bus_step s s' \<Longrightarrow> group_ok s \<Longrightarrow> group_ok s'"
proof (induction rule: bus_step.induct)
  case (close s s')
  then show ?case by (induction rule: close_step.induct) (simp_all add: group_ok_def)
qed (simp_all add: group_publish, simp_all add: group_ok_def)

text \<open>A log grows at its end only, and nothing accepted is forgotten.\<close>

lemma fifo_publish: "publish_step p s s' \<Longrightarrow> fifo_ok s \<Longrightarrow> fifo_ok s'"
  by (induction rule: publish_step.induct) (simp_all add: fifo_ok_def)

lemma fifo_take: "bs_queue s d \<noteq> [] \<Longrightarrow> fifo_ok s \<Longrightarrow> fifo_ok (take_out d r s)"
  unfolding fifo_ok_def by (auto intro: le_trans [OF diff_le_self])

lemma published_publish: "publish_step p s s' \<Longrightarrow> published_ok s \<Longrightarrow> published_ok s'"
proof (induction rule: publish_step.induct)
  case (send s p d m)
  then have "m' \<in> set (bs_accepted s d')" if "bs_pub s q = Leaving d' m' Published \<or> bs_pub s q = Returned d' m' Published" for q d' m'
    using that unfolding published_ok_def by blast
  moreover have "bs_chan_closed s d'" if "bs_pub s q = Panicked d' m'" for q d' m'
    using send that unfolding published_ok_def by blast
  ultimately show ?case unfolding published_ok_def by auto
qed (auto simp: published_ok_def)

lemma drained_publish: "publish_step p s s' \<Longrightarrow> drained_ok s \<Longrightarrow> drained_ok s'"
  by (induction rule: publish_step.induct) (simp_all add: drained_ok_def)

lemma fifo_close: "close_step s s' \<Longrightarrow> fifo_ok s \<Longrightarrow> fifo_ok s'"
proof (induction rule: close_step.induct)
  case (drain_in s)
  then show ?case by (simp add: fifo_take)
next
  case (drain_out s)
  then show ?case by (simp add: fifo_take)
qed (simp_all add: fifo_ok_def)

lemma published_close: "close_step s s' \<Longrightarrow> published_ok s \<Longrightarrow> published_ok s'"
  by (induction rule: close_step.induct) (simp_all add: published_ok_def)

lemma drained_close: "close_step s s' \<Longrightarrow> drained_ok s \<Longrightarrow> drained_ok s'"
  by (induction rule: close_step.induct) (auto simp: drained_ok_def)

lemma fifo_step: "bus_step s s' \<Longrightarrow> fifo_ok s \<Longrightarrow> fifo_ok s'"
  by (induction rule: bus_step.induct) (simp_all add: fifo_publish fifo_close fifo_take, simp add: fifo_ok_def)

lemma published_step: "bus_step s s' \<Longrightarrow> published_ok s \<Longrightarrow> published_ok s'"
  by (induction rule: bus_step.induct) (simp_all add: published_publish published_close, simp_all add: published_ok_def)

lemma drained_step: "bus_step s s' \<Longrightarrow> drained_ok s \<Longrightarrow> drained_ok s'"
  by (induction rule: bus_step.induct) (simp_all add: drained_publish drained_close, auto simp: drained_ok_def)

lemma reach_ok: "bus_reach s \<Longrightarrow> flags_ok s \<and> group_ok s \<and> fifo_ok s \<and> published_ok s \<and> drained_ok s"
proof (induction rule: bus_reach.induct)
  case start
  show ?case by (simp add: flags_ok_def group_ok_def fifo_ok_def published_ok_def drained_ok_def bus_New_def)
next
  case (step s s')
  then show ?case using flags_step [OF step(2)] group_step [OF step(2)] fifo_step [OF step(2)] published_step [OF step(2)]
      drained_step [OF step(2)] by simp
qed

section \<open>What the bus promises\<close>

text \<open>
  C9: In every state the bus can reach, each buffer holds at most 64 messages, the messages accepted by a
  channel are those taken out of it followed by those waiting, in order; a publish that reported success has its
  message among them; only \<open>Close\<close>, after it closed both channels, throws messages away; and the wait group
  counts exactly the calls at or past their second \<open>select\<close>.
\<close>

theorem bus_fifo_bounded:
  assumes "bus_reach s"
  shows "length (bs_queue s d) \<le> defaultBufferSize \<and>
    bs_accepted s d = map fst (bs_taken s d) @ bs_queue s d \<and>
    (bs_pub s p = Returned d m Published \<longrightarrow> m \<in> set (bs_accepted s d)) \<and>
    ((m, False) \<in> set (bs_taken s d) \<longrightarrow> bs_chan_closed s Inbound \<and> bs_chan_closed s Outbound) \<and>
    bs_wg s = card {p. counted (bs_pub s p)}"
proof -
  have ok: "flags_ok s" "group_ok s" "fifo_ok s" "published_ok s" "drained_ok s" using reach_ok [OF assms] by simp_all
  have "bs_pub s p = Returned d m Published \<longrightarrow> m \<in> set (bs_accepted s d)"
    using ok(4) unfolding published_ok_def by blast
  moreover have "(m, False) \<in> set (bs_taken s d) \<longrightarrow> bs_chan_closed s Inbound \<and> bs_chan_closed s Outbound"
    using ok(1,5) unfolding flags_ok_def drained_ok_def by fastforce
  moreover have "length (bs_queue s d) \<le> defaultBufferSize" "bs_accepted s d = map fst (bs_taken s d) @ bs_queue s d"
    using ok(3) unfolding fifo_ok_def by blast+
  moreover have "bs_wg s = card {p. counted (bs_pub s p)}" using ok(2) by (simp add: group_ok_def)
  ultimately show ?thesis by simp
qed

text \<open>A run with one publisher and one reader.\<close>

definition demo_msg :: message where
  "demo_msg = MIn \<lparr>in_Channel = ''cli'', in_ChatID = ''direct'', in_SenderID = ''u'', in_Text = ''hi'', in_MessageID = [],
     in_Metadata = []\<rparr>"

definition demo_ready :: bus where
  "demo_ready = set_pub 0 (Ready Inbound demo_msg) (set_pub 0 (Entered Inbound demo_msg) bus_New)"

definition demo_sent :: bus where
  "demo_sent = set_pub 0 (Leaving Inbound demo_msg Published)
     ((set_pub 0 (Sending Inbound demo_msg) (demo_ready\<lparr>bs_wg := 1\<rparr>))
        \<lparr>bs_queue := (\<lambda>_. [])(Inbound := [demo_msg]), bs_accepted := (\<lambda>_. [])(Inbound := [demo_msg])\<rparr>)"

definition demo_read :: bus where
  "demo_read = take_out Inbound True (set_pub 0 (Returned Inbound demo_msg Published) (demo_sent\<lparr>bs_wg := 0\<rparr>))"

lemma new_fields [simp]:
  "bs_pub bus_New = (\<lambda>_. Idle)" "bs_queue bus_New = (\<lambda>_. [])" "bs_chan_closed bus_New = (\<lambda>_. False)" "\<not> bs_done bus_New"
  "\<not> bs_closed bus_New" "bs_wg bus_New = 0" "bs_closer bus_New = Open" "bs_ctx bus_New = (\<lambda>_. False)"
  "bs_accepted bus_New = (\<lambda>_. [])" "bs_taken bus_New = (\<lambda>_. [])"
  by (simp_all add: bus_New_def)

lemma reach_publish: "bus_reach s \<Longrightarrow> publish_step p s s' \<Longrightarrow> bus_reach s'"
  by (rule bus_reach.step, assumption, rule bus_step.publish)

lemma reach_close: "bus_reach s \<Longrightarrow> close_step s s' \<Longrightarrow> bus_reach s'"
  by (rule bus_reach.step, assumption, rule bus_step.close)

lemma demo_ready_reach: "bus_reach demo_ready"
proof -
  have "bus_reach (set_pub 0 (Entered Inbound demo_msg) bus_New)"
    by (rule reach_publish [OF bus_reach.start]) (rule publish_step.enter, simp_all)
  then show ?thesis
    unfolding demo_ready_def by (rule reach_publish) (rule publish_step.check_default, simp_all)
qed

text \<open>\<open>Close\<close> run without interruption on an idle bus.\<close>

definition after_flag :: "bus \<Rightarrow> bus" where
  "after_flag s = s\<lparr>bs_closer := DoneClosed, bs_done := True\<rparr>\<lparr>bs_closer := FlagSet, bs_closed := True\<rparr>"

lemma after_flag_reach: "bus_reach s \<Longrightarrow> bs_closer s = Open \<Longrightarrow> bus_reach (after_flag s)"
  unfolding after_flag_def by (rule reach_close, rule reach_close, assumption, rule close_done, assumption, rule set_flag, simp)

definition closing :: "closer \<Rightarrow> bool \<Rightarrow> bool \<Rightarrow> bus \<Rightarrow> bus" where
  "closing c i out s = s\<lparr>bs_closer := c, bs_done := True, bs_closed := True,
     bs_chan_closed := (\<lambda>d. case d of Inbound \<Rightarrow> i | Outbound \<Rightarrow> out)\<rparr>"

lemma closing_fields [simp]:
  "bs_closer (closing c i out s) = c" "bs_wg (closing c i out s) = bs_wg s" "bs_queue (closing c i out s) = bs_queue s"
  "bs_pub (closing c i out s) = bs_pub s" "bs_chan_closed (closing c i out s) Inbound = i"
  "bs_chan_closed (closing c i out s) Outbound = out" "bs_closed (closing c i out s)"
  by (simp_all add: closing_def)

lemma closing_move:
  "(closing c i out s)\<lparr>bs_closer := c'\<rparr> = closing c' i out s"
  "(closing c' i out s)\<lparr>bs_chan_closed := (bs_chan_closed (closing c i out s))(Inbound := True)\<rparr> = closing c' True out s"
  "(closing c' i out s)\<lparr>bs_chan_closed := (bs_chan_closed (closing c i out s))(Outbound := True)\<rparr> = closing c' i True s"
  by (rule bus.equality; auto simp: closing_def fun_eq_iff split: side.split)+

lemma closing_steps:
  assumes "\<And>d. bs_queue s d = []"
  shows "bs_wg s = 0 \<Longrightarrow> close_step (closing FlagSet False False s) (closing Waited False False s)"
    "close_step (closing Waited False False s) (closing InClosed True False s)"
    "close_step (closing InClosed True False s) (closing OutClosed True True s)"
    "close_step (closing OutClosed True True s) (closing InDrained True True s)"
    "close_step (closing InDrained True True s) (closing Closed True True s)"
  using wait [of "closing FlagSet False False s"] close_in [of "closing Waited False False s"]
    close_out [of "closing InClosed True False s"] drained_in [of "closing OutClosed True True s"]
    drained_out [of "closing InDrained True True s"] assms
  by (simp_all only: closing_move closing_fields simp_thms)

lemma after_close_reach:
  assumes "bus_reach s" "bs_closer s = Open" "bs_wg s = 0" "\<And>d. bs_queue s d = []"
  shows "bus_reach (closing Closed True True s)"
proof -
  have "flags_ok s" using reach_ok [OF assms(1)] by simp
  then have "\<not> bs_chan_closed s d" for d using assms(2) by (cases d) (simp_all add: flags_ok_def)
  then have "after_flag s = closing FlagSet False False s"
    by (intro bus.equality ext) (simp_all add: after_flag_def closing_def split: side.split)
  then have "bus_reach (closing FlagSet False False s)" using after_flag_reach [OF assms(1,2)] by simp
  then show ?thesis using reach_close closing_steps [OF assms(4)] assms(3) by metis
qed

lemma demo_read_reach: "bus_reach demo_read"
proof -
  have "bus_reach (set_pub 0 (Sending Inbound demo_msg) (demo_ready\<lparr>bs_wg := 1\<rparr>))"
    using reach_publish [OF demo_ready_reach publish_step.add [of demo_ready 0 Inbound demo_msg]] by (simp add: demo_ready_def)
  then have "bus_reach demo_sent"
    using reach_publish [OF _ publish_step.send [of "set_pub 0 (Sending Inbound demo_msg) (demo_ready\<lparr>bs_wg := 1\<rparr>)" 0 Inbound demo_msg]]
    by (simp add: demo_sent_def demo_ready_def defaultBufferSize_def)
  then have "bus_reach (set_pub 0 (Returned Inbound demo_msg Published) (demo_sent\<lparr>bs_wg := 0\<rparr>))"
    using reach_publish [OF _ publish_step.leave [of demo_sent 0 Inbound demo_msg Published]] by (simp add: demo_sent_def)
  then show ?thesis
    unfolding demo_read_def by (rule bus_reach.step) (rule bus_step.receive, simp add: demo_sent_def)
qed

theorem bus_fifo_bounded_witness:
  "bs_pub demo_read 0 = Returned Inbound demo_msg Published \<and> demo_msg \<in> set (bs_accepted demo_read Inbound) \<and>
   bs_taken demo_read Inbound = [(demo_msg, True)] \<and> bs_wg demo_read = card {p. counted (bs_pub demo_read p)}"
proof -
  have "bs_pub demo_read 0 = Returned Inbound demo_msg Published" by (simp add: demo_read_def)
  moreover have "bs_taken demo_read Inbound = [(demo_msg, True)]" by (simp add: demo_read_def demo_sent_def demo_ready_def)
  ultimately show ?thesis using bus_fifo_bounded [OF demo_read_reach, of Inbound 0 demo_msg] by simp
qed

text \<open>
  A publish can panic. A call that has passed the \<open>closed\<close> flag and the first \<open>select\<close> is not yet
  counted in the wait group: \<open>Close\<close> does not wait for it, closes the channel, and the call then sends on a
  closed channel. The state in which this has happened is reachable, with the bus entirely closed.
\<close>

theorem publish_panics:
  "\<exists>s. bus_reach s \<and> bs_pub s 0 = Panicked Inbound demo_msg \<and> bs_closer s = Closed"
proof (intro exI conjI)
  let ?c = "closing Closed True True demo_ready"
  let ?s = "set_pub 0 (Sending Inbound demo_msg) (?c\<lparr>bs_wg := bs_wg ?c + 1\<rparr>)"
  have "bus_reach ?c" by (rule after_close_reach [OF demo_ready_reach]) (simp_all add: demo_ready_def)
  then have "bus_reach ?s"
    by (rule reach_publish [where p = 0]) (rule publish_step.add, simp add: demo_ready_def)
  then show "bus_reach (set_pub 0 (Panicked Inbound demo_msg) (?s\<lparr>bs_wg := bs_wg ?s - 1\<rparr>))"
    by (rule reach_publish [where p = 0]) (rule publish_step.send_closed, simp_all)
qed simp_all

section \<open>Close returns\<close>

text \<open>
  What is left to do once the \<open>closed\<close> flag is set: the moves of the calls under way, the messages to drain,
  and the rest of \<open>Close\<close>. A step of these goroutines makes it smaller, and no other step makes it larger.
\<close>

fun moves_left :: "publisher \<Rightarrow> nat" where
  "moves_left (Entered d m) = 5"
| "moves_left (Ready d m) = 4"
| "moves_left (Sending d m) = 3"
| "moves_left (Leaving d m r) = 1"
| "moves_left _ = 0"

definition remaining :: "bus \<Rightarrow> nat" where
  "remaining s = (\<Sum>p | bs_pub s p \<noteq> Idle. moves_left (bs_pub s p)) + length (bs_queue s Inbound) +
     length (bs_queue s Outbound) + (7 - rank (bs_closer s))"

definition progress :: "bus \<Rightarrow> bus \<Rightarrow> bool" where
  "progress s s' \<longleftrightarrow> close_step s s' \<or> (\<exists>p. bs_pub s p \<noteq> Idle \<and> publish_step p s s')"

definition pub_left :: "(nat \<Rightarrow> publisher) \<Rightarrow> nat" where
  "pub_left pub = (\<Sum>p | pub p \<noteq> Idle. moves_left (pub p))"

lemma pub_left_update:
  assumes fin: "finite {q. pub q \<noteq> Idle}" and "x \<noteq> Idle"
  shows "pub_left (pub(p := x)) + moves_left (pub p) = pub_left pub + moves_left x"
proof -
  let ?I = "{q. pub q \<noteq> Idle} - {p}"
  have "{q. (pub(p := x)) q \<noteq> Idle} = insert p ?I" using assms(2) by auto
  moreover have "(\<Sum>q\<in>?I. moves_left ((pub(p := x)) q)) = (\<Sum>q\<in>?I. moves_left (pub q))" by (rule sum.cong) simp_all
  moreover have "(\<Sum>q\<in>insert p ?I. moves_left ((pub(p := x)) q)) =
      moves_left ((pub(p := x)) p) + (\<Sum>q\<in>?I. moves_left ((pub(p := x)) q))"
    by (rule sum.insert) (use fin in simp_all)
  ultimately have new: "pub_left (pub(p := x)) = moves_left x + (\<Sum>q\<in>?I. moves_left (pub q))"
    unfolding pub_left_def by (simp only: fun_upd_same)
  have "pub_left pub = moves_left (pub p) + (\<Sum>q\<in>?I. moves_left (pub q))"
  proof (cases "pub p = Idle")
    case True
    then have "{q. pub q \<noteq> Idle} = ?I" by auto
    then show ?thesis unfolding pub_left_def using True by simp
  next
    case False
    then show ?thesis unfolding pub_left_def using fin by (simp add: sum.remove)
  qed
  with new show ?thesis by simp
qed

lemma remaining_pub:
  "remaining s = pub_left (bs_pub s) + length (bs_queue s Inbound) + length (bs_queue s Outbound) + (7 - rank (bs_closer s))"
  by (simp add: remaining_def pub_left_def)

lemma publish_effect:
  "publish_step p s s' \<Longrightarrow> bs_pub s' = (bs_pub s)(p := bs_pub s' p) \<and> bs_pub s' p \<noteq> Idle \<and> bs_closer s' = bs_closer s \<and>
     (bs_pub s p \<noteq> Idle \<longrightarrow>
        moves_left (bs_pub s' p) + length (bs_queue s' Inbound) + length (bs_queue s' Outbound)
          < moves_left (bs_pub s p) + length (bs_queue s Inbound) + length (bs_queue s Outbound))"
proof (induction rule: publish_step.induct)
  case (send s p d m)
  then show ?case by (cases d) simp_all
qed simp_all

lemma publish_left:
  assumes "publish_step p s s'" "group_ok s" "bs_pub s p \<noteq> Idle"
  shows "remaining s' < remaining s"
proof -
  have fin: "finite {q. bs_pub s q \<noteq> Idle}" using assms(2) by (simp add: group_ok_def)
  have "pub_left (bs_pub s') + moves_left (bs_pub s p) = pub_left (bs_pub s) + moves_left (bs_pub s' p)"
    using pub_left_update [OF fin, of "bs_pub s' p" p] publish_effect [OF assms(1)] by metis
  then show ?thesis using publish_effect [OF assms(1)] assms(3) by (simp add: remaining_pub)
qed

lemma close_left: "close_step s s' \<Longrightarrow> remaining s' < remaining s"
proof (induction rule: close_step.induct)
  case (drain_in s)
  then show ?case by (cases "bs_queue s Inbound") (simp_all add: remaining_pub)
next
  case (drain_out s)
  then show ?case by (cases "bs_queue s Outbound") (simp_all add: remaining_pub)
qed (simp_all add: remaining_pub)

lemma idle_left:
  assumes "publish_step p s s'" "group_ok s" "bs_pub s p = Idle" "bs_closed s"
  shows "remaining s' = remaining s"
proof -
  have fin: "finite {q. bs_pub s q \<noteq> Idle}" using assms(2) by (simp add: group_ok_def)
  show ?thesis
    using assms(1)
  proof cases
    case (enter_closed d m)
    then show ?thesis using pub_left_update [OF fin, of "Returned d m BusClosed" p] by (simp add: remaining_pub)
  qed (use assms(3,4) in simp_all)
qed

lemma step_left:
  assumes "bus_step s s'" "bus_reach s" "bs_closed s"
  shows "remaining s' \<le> remaining s \<and> bs_closed s' \<and> bus_reach s'"
proof -
  have grp: "group_ok s" using reach_ok [OF assms(2)] by simp
  have "remaining s' \<le> remaining s \<and> bs_closed s'"
    using assms(1)
  proof cases
    case (publish p)
    have "bs_closed s'" using publish assms(3) by cases simp_all
    moreover have "remaining s' \<le> remaining s"
      using publish_left [OF publish grp] idle_left [OF publish grp _ assms(3)] by (cases "bs_pub s p = Idle") simp_all
    ultimately show ?thesis by simp
  next
    case close
    have "bs_closed s'" using close assms(3) by cases simp_all
    with close_left [OF close] show ?thesis by simp
  next
    case (receive d)
    then show ?thesis using assms(3) by (cases d) (simp_all add: remaining_pub)
  next
    case (cancel p)
    then show ?thesis using assms(3) by (simp add: remaining_pub)
  qed
  then show ?thesis using bus_reach.step [OF assms(2,1)] by simp
qed

lemma progress_left: "progress s s' \<Longrightarrow> bus_reach s \<Longrightarrow> remaining s' < remaining s \<and> bus_step s s'"
  using publish_left [of _ s s'] close_left [of s s'] bus_step.publish [of _ s s'] bus_step.close [of s s'] reach_ok [of s]
  unfolding progress_def by metis

fun finished :: "publisher \<Rightarrow> bool" where
  "finished Idle = True"
| "finished (Returned d m r) = True"
| "finished (Panicked d m) = True"
| "finished _ = False"

lemma unfinished_moves:
  assumes "\<not> finished (bs_pub s p)" "bs_done s"
  shows "\<exists>s'. progress s s'"
proof -
  have "\<exists>s'. publish_step p s s'"
  proof (cases "bs_pub s p")
    case (Entered d m)
    then show ?thesis using publish_step.check_done [of s p] assms(2) by metis
  next
    case (Ready d m)
    then show ?thesis using publish_step.add [of s p] by metis
  next
    case (Sending d m)
    then show ?thesis using publish_step.send_done [of s p] assms(2) by metis
  next
    case (Leaving d m r)
    then show ?thesis using publish_step.leave [of s p] by metis
  qed (use assms(1) in simp_all)
  moreover have "bs_pub s p \<noteq> Idle" using assms(1) by (cases "bs_pub s p") simp_all
  ultimately show ?thesis unfolding progress_def by blast
qed

lemma close_moves:
  assumes "2 \<le> rank (bs_closer s)" "bs_wg s = 0" "bs_closer s \<noteq> Closed"
  shows "\<exists>s'. close_step s s'"
proof (cases "bs_closer s")
  case FlagSet
  then show ?thesis using wait assms(2) by blast
next
  case Waited
  then show ?thesis using close_in by blast
next
  case InClosed
  then show ?thesis using close_out by blast
next
  case OutClosed
  then show ?thesis using drain_in drained_in by blast
next
  case InDrained
  then show ?thesis using drain_out drained_out by blast
qed (use assms(1,3) in simp_all)

lemma stuck_closed:
  assumes "bus_reach s" "bs_closed s" "\<And>t. \<not> progress s t"
  shows "bs_closer s = Closed \<and> (\<forall>p. finished (bs_pub s p))"
proof -
  have ok: "flags_ok s" "group_ok s" using reach_ok [OF assms(1)] by simp_all
  then have rk: "2 \<le> rank (bs_closer s)" "bs_done s" using assms(2) by (simp_all add: flags_ok_def)
  have fin: "finished (bs_pub s p)" for p using unfinished_moves [OF _ rk(2)] assms(3) by blast
  have "\<not> counted (bs_pub s p)" for p using fin [of p] by (cases "bs_pub s p") simp_all
  then have "bs_wg s = 0" using ok(2) by (simp add: group_ok_def)
  then have "bs_closer s = Closed" using close_moves [OF rk(1)] assms(3) unfolding progress_def by blast
  with fin show ?thesis by simp
qed


text \<open>The run of \<open>Close\<close> on an idle bus.\<close>

definition demo_closing :: "nat \<Rightarrow> bus" where
  "demo_closing i =
     (if i = 0 then closing FlagSet False False bus_New
      else if i = 1 then closing Waited False False bus_New
      else if i = 2 then closing InClosed True False bus_New
      else if i = 3 then closing OutClosed True True bus_New
      else if i = 4 then closing InDrained True True bus_New
      else closing Closed True True bus_New)"

lemma demo_closing_step: "demo_closing (Suc i) = demo_closing i \<or> close_step (demo_closing i) (demo_closing (Suc i))"
proof -
  consider "i = 0" | "i = 1" | "i = 2" | "i = 3" | "i = 4" | "5 \<le> i" by linarith
  then show ?thesis by cases (use closing_steps [of bus_New] in \<open>simp_all add: demo_closing_def\<close>)
qed

lemma after_close_stuck:
  assumes "\<And>p. bs_pub s p = Idle \<or> finished (bs_pub s p)" "bs_closer s = Closed"
  shows "\<not> progress s t"
proof
  assume "progress s t"
  then consider "close_step s t" | p where "bs_pub s p \<noteq> Idle" "publish_step p s t" unfolding progress_def by blast
  then show False
  proof cases
    case 1
    then show False using assms(2) by (elim close_stepE) simp_all
  next
    case (2 p)
    from 2(2) show False using 2(1) assms(1) [of p] by (elim publish_stepE) simp_all
  qed
qed


end
