(* ===== verification/Inbound.thy ===== *)
theory Inbound
  imports Session Bus
begin

text \<open>
  The two loops of \<^verbatim>\<open>cmd/souz-agent/main.go\<close>: a message that comes in from a channel drives one turn of the
  executor, is saved and answered; a message that goes out is given to its channel. The world is that of the
  sessions. The channels, and the publication of an outbound message, are arguments.
\<close>

section \<open>Channels\<close>

text \<open>\<open>chn_StartTyping\<close> is there for a channel that is \<open>TypingCapable\<close>; its result is the stop function.\<close>

record 'w channel =
  chn_Send :: "OutboundMessage \<Rightarrow> 'w \<Rightarrow> go_error option \<times> 'w"
  chn_StartTyping :: "(string \<Rightarrow> 'w \<Rightarrow> ('w \<Rightarrow> 'w) result \<times> 'w) option"

record ('n, 'w) loop_env =
  lp_Executor :: "('n, 'w session_world_scheme) Executor"
  lp_Store :: path
  lp_Settings :: AgentSettings
  lp_SystemPrompt :: string
  lp_channels :: "(string \<times> 'w session_world_scheme channel) list"
  lp_Publish :: "OutboundMessage \<Rightarrow> 'w session_world_scheme \<Rightarrow> go_error option \<times> 'w session_world_scheme"
  lp_launch :: "string \<Rightarrow> 'w session_world_scheme \<Rightarrow> 'w session_world_scheme"
  lp_ctx :: "'w session_world_scheme \<Rightarrow> go_error option"

section \<open>A message comes in\<close>

definition inbound_chat :: "InboundMessage \<Rightarrow> string" where
  "inbound_chat msg = in_Channel msg @ '':'' @ in_ChatID msg"

text \<open>The typing indicator: the world, and what is deferred.\<close>

definition start_typing ::
  "('n, 'w) loop_env \<Rightarrow> InboundMessage \<Rightarrow> 'w session_world_scheme \<Rightarrow>
   ('w session_world_scheme \<Rightarrow> 'w session_world_scheme) \<times> 'w session_world_scheme" where
  "start_typing env msg w =
     (case map_of (lp_channels env) (in_Channel msg) of
        None \<Rightarrow> (\<lambda>w. w, w)
      | Some ch \<Rightarrow>
          (case chn_StartTyping ch of
             None \<Rightarrow> (\<lambda>w. w, w)
           | Some start \<Rightarrow>
               (case start (in_ChatID msg) w of
                  (Inl e, w1) \<Rightarrow> (\<lambda>w. w, w1)
                | (Inr stop, w1) \<Rightarrow> (stop, w1))))"

definition inbound_seed :: "('n, 'w) loop_env \<Rightarrow> InboundMessage \<Rightarrow> ChatState \<Rightarrow> 'w session_world_scheme AgentContext" where
  "inbound_seed env msg cs =
     zero_AgentContext\<lparr>ac_Input := in_Text msg, ac_History := cs_History cs, ac_SystemPrompt := lp_SystemPrompt env,
       ac_Settings := lp_Settings env,
       ac_InvocationMeta := zero_Meta\<lparr>im_UserID := ''default'', im_ConversationID := inbound_chat msg\<rparr>,
       ac_EventSink := Some NoopEventSink\<rparr>"

text \<open>After a turn: one time for both messages, then their ids.\<close>

definition inbound_state ::
  "InboundMessage \<Rightarrow> ChatState \<Rightarrow> 'w session_world_scheme TurnResult \<Rightarrow> 'w session_world_scheme \<Rightarrow> ChatState \<times> 'w session_world_scheme" where
  "inbound_state msg cs turn w =
     (let (now, w1) = time_Now w; (i, w2) = draw_ID w1; (j, w3) = draw_ID w2
      in (cs\<lparr>cs_Messages := cs_Messages cs @
              [\<lparr>sm_ID = i, sm_Role = ''user'', sm_Content = in_Text msg, sm_CreatedAt = now\<rparr>,
               \<lparr>sm_ID = j, sm_Role = ''assistant'', sm_Content = tr_Output turn, sm_CreatedAt = now\<rparr>],
             cs_History := ac_History (tr_Context turn)\<rparr>, w3))"

definition inbound_reply :: "InboundMessage \<Rightarrow> 'w session_world_scheme TurnResult \<Rightarrow> OutboundMessage" where
  "inbound_reply msg turn =
     \<lparr>ou_Channel = in_Channel msg, ou_ChatID = in_ChatID msg, ou_Text = tr_Output turn, ou_ReplyToMessageID = []\<rparr>"

definition handleInbound ::
  "('n, 'w) loop_env \<Rightarrow> InboundMessage \<Rightarrow> 'w session_world_scheme \<Rightarrow> 'w session_world_scheme" where
  "handleInbound env msg w =
     (let (stop, w1) = start_typing env msg w in
      stop (case storage_Get (lp_Store env) (inbound_chat msg) (sw_fs w1) of
              Inl e \<Rightarrow> w1
            | Inr found \<Rightarrow>
                (let cs = (case found of None \<Rightarrow> zero_ChatState\<lparr>cs_ChatID := inbound_chat msg\<rparr> | Some cs \<Rightarrow> cs) in
                 case Execute (lp_ctx env) (lp_launch env) (lp_Executor env) (inbound_seed env msg cs) w1 of
                   (Inl e, w2) \<Rightarrow> w2
                 | (Inr turn, w2) \<Rightarrow>
                     (let (cs', w3) = inbound_state msg cs turn w2;
                          (_, w4) = store_Save (lp_Store env) cs' w3
                      in snd (lp_Publish env (inbound_reply msg turn) w4)))))"

text \<open>
  The loop receives or returns: when the context is done and a message is there, \<open>select\<close> may do either. The
  channel is the list of what is in it and what will still come; at its end it is closed.
\<close>

inductive inbound_loop ::
  "('n, 'w) loop_env \<Rightarrow> InboundMessage list \<Rightarrow> 'w session_world_scheme \<Rightarrow> InboundMessage list \<Rightarrow> 'w session_world_scheme \<Rightarrow> bool"
  for env where
  in_done: "lp_ctx env w \<noteq> None \<Longrightarrow> inbound_loop env q w q w"
| in_closed: "inbound_loop env [] w [] w"
| in_message: "inbound_loop env q (handleInbound env msg w) q' w' \<Longrightarrow> inbound_loop env (msg # q) w q' w'"

section \<open>A message goes out\<close>

text \<open>A failed \<open>Send\<close> is logged; the message is gone.\<close>

definition deliver_outbound :: "(string \<times> 'w channel) list \<Rightarrow> OutboundMessage \<Rightarrow> 'w \<Rightarrow> 'w" where
  "deliver_outbound channels msg w =
     (case map_of channels (ou_Channel msg) of None \<Rightarrow> w | Some ch \<Rightarrow> snd (chn_Send ch msg w))"

inductive outbound_loop ::
  "('w \<Rightarrow> go_error option) \<Rightarrow> (string \<times> 'w channel) list \<Rightarrow> OutboundMessage list \<Rightarrow> 'w \<Rightarrow> OutboundMessage list \<Rightarrow> 'w \<Rightarrow> bool"
  for ctx channels where
  out_done: "ctx w \<noteq> None \<Longrightarrow> outbound_loop ctx channels q w q w"
| out_closed: "outbound_loop ctx channels [] w [] w"
| out_message: "outbound_loop ctx channels q (deliver_outbound channels msg w) q' w' \<Longrightarrow>
    outbound_loop ctx channels (msg # q) w q' w'"

section \<open>What the loops do\<close>

text \<open>A loop handles a prefix of its messages, in order; all of them unless the context is done.\<close>

lemma inbound_loop_fold:
  "inbound_loop env q w q' w' \<longleftrightarrow>
   (\<exists>ms. q = ms @ q' \<and> w' = fold (handleInbound env) ms w \<and> (q' = [] \<or> lp_ctx env w' \<noteq> None))"
proof
  show "inbound_loop env q w q' w' \<Longrightarrow>
      \<exists>ms. q = ms @ q' \<and> w' = fold (handleInbound env) ms w \<and> (q' = [] \<or> lp_ctx env w' \<noteq> None)"
  proof (induction rule: inbound_loop.induct)
    case (in_message q msg w q' w')
    then obtain ms where "q = ms @ q'" "w' = fold (handleInbound env) ms (handleInbound env msg w)"
      "q' = [] \<or> lp_ctx env w' \<noteq> None" by blast
    then show ?case by (intro exI [of _ "msg # ms"]) simp
  qed auto
  have "q' = [] \<or> lp_ctx env (fold (handleInbound env) ms w) \<noteq> None \<Longrightarrow>
      inbound_loop env (ms @ q') w q' (fold (handleInbound env) ms w)" for ms
    by (induction ms arbitrary: w) (auto intro: inbound_loop.intros)
  then show "\<exists>ms. q = ms @ q' \<and> w' = fold (handleInbound env) ms w \<and> (q' = [] \<or> lp_ctx env w' \<noteq> None) \<Longrightarrow>
      inbound_loop env q w q' w'" by blast
qed

lemma outbound_loop_fold:
  "outbound_loop ctx chs q w q' w' \<longleftrightarrow>
   (\<exists>ms. q = ms @ q' \<and> w' = fold (deliver_outbound chs) ms w \<and> (q' = [] \<or> ctx w' \<noteq> None))"
proof
  show "outbound_loop ctx chs q w q' w' \<Longrightarrow>
      \<exists>ms. q = ms @ q' \<and> w' = fold (deliver_outbound chs) ms w \<and> (q' = [] \<or> ctx w' \<noteq> None)"
  proof (induction rule: outbound_loop.induct)
    case (out_message q msg w q' w')
    then obtain ms where "q = ms @ q'" "w' = fold (deliver_outbound chs) ms (deliver_outbound chs msg w)"
      "q' = [] \<or> ctx w' \<noteq> None" by blast
    then show ?case by (intro exI [of _ "msg # ms"]) simp
  qed auto
  have "q' = [] \<or> ctx (fold (deliver_outbound chs) ms w) \<noteq> None \<Longrightarrow>
      outbound_loop ctx chs (ms @ q') w q' (fold (deliver_outbound chs) ms w)" for ms
    by (induction ms arbitrary: w) (auto intro: outbound_loop.intros)
  then show "\<exists>ms. q = ms @ q' \<and> w' = fold (deliver_outbound chs) ms w \<and> (q' = [] \<or> ctx w' \<noteq> None) \<Longrightarrow>
      outbound_loop ctx chs q w q' w'" by blast
qed

text \<open>The chat of a Telegram message has a valid id: a decimal number after the name of the channel.\<close>

lemma Itoa_id: "list_all id_char (Itoa i)"
proof -
  have "id_char c" if "is_digit c" for c using that by (auto simp: is_digit_def id_char_def Let_def)
  then show ?thesis using nat_digits_digits by (auto simp: Itoa_def list_all_iff hyphen_id Let_def)
qed

lemma telegram_chat_id: "in_Channel msg = ''telegram'' \<Longrightarrow> in_ChatID msg = Itoa i \<Longrightarrow> validChatID (inbound_chat msg)"
  using Itoa_id [of i] by (simp add: inbound_chat_def validChatID_def id_char_def)

section \<open>A conversation\<close>

lemma compact_call_ok: "call_ok t \<Longrightarrow> call_ok (compact_call t)"
proof -
  assume t: "call_ok t"
  let ?j = "raw_json (tc_Args t)"
  have "json_ok ?j" using t by (simp add: call_ok_def)
  then have "enc_raw (json_print ?j) = Some ?j \<or> json_print ?j = []" by (simp add: enc_raw_def)
  then show ?thesis using t by (auto simp: call_ok_def compact_call_def raw_json_def enc_raw_def)
qed

lemma compact_message_ok: "message_ok m \<Longrightarrow> message_ok (compact_message m)"
  by (simp add: message_ok_def compact_message_def list_all_iff compact_call_ok)

lemma compact_state_ok: "chat_ok cs \<Longrightarrow> chat_ok (compact_state cs)"
  by (simp add: chat_ok_def compact_state_def list_all_iff compact_message_ok)

text \<open>
  The store is good when every chat reads as absent or as a state that carries its own id; the clock, the random
  source and the disk of a good world work.
\<close>

definition good_read :: "string \<Rightarrow> ChatState option result \<Rightarrow> bool" where
  "good_read c r \<longleftrightarrow> (case r of Inr None \<Rightarrow> True | Inr (Some cs) \<Rightarrow> chat_ok cs \<and> cs_ChatID cs = c | Inl _ \<Rightarrow> False)"

definition good_world :: "path \<Rightarrow> 'w session_world_scheme \<Rightarrow> bool" where
  "good_world rt w \<longleftrightarrow> store_ok rt (sw_fs w) \<and> (\<forall>c. validChatID c \<longrightarrow> good_read c (storage_Get rt c (sw_fs w))) \<and>
     (\<forall>n. time_ok (sw_clock w n)) \<and> (\<forall>n. length (sw_random w n) = 16) \<and> (\<forall>n. sw_faults w n = NoFault)"

definition same_store :: "path \<Rightarrow> 'w session_world_scheme \<Rightarrow> 'w session_world_scheme \<Rightarrow> bool" where
  "same_store rt w w' \<longleftrightarrow> good_world rt w' \<and> (\<forall>c. validChatID c \<longrightarrow> storage_Get rt c (sw_fs w') = storage_Get rt c (sw_fs w))"

lemma same_storeD: "same_store rt w w' \<Longrightarrow> good_world rt w'"
  "same_store rt w w' \<Longrightarrow> validChatID c \<Longrightarrow> storage_Get rt c (sw_fs w') = storage_Get rt c (sw_fs w)"
  by (auto simp: same_store_def)

text \<open>
  What is expected of the environment of the loop: the typing indicator, the bus and the executor leave the sessions
  alone, and the executor answers with text.
\<close>

definition sound_env :: "('n, 'w) loop_env \<Rightarrow> bool" where
  "sound_env env \<longleftrightarrow> (\<forall>w. good_world (lp_Store env) w \<longrightarrow>
     (\<forall>msg. same_store (lp_Store env) w (snd (start_typing env msg w)) \<and>
        (\<forall>w'. good_world (lp_Store env) w' \<longrightarrow> same_store (lp_Store env) w' (fst (start_typing env msg w) w'))) \<and>
     (\<forall>out. same_store (lp_Store env) w (snd (lp_Publish env out w))) \<and>
     (\<forall>seed. list_all message_ok (ac_History seed) \<longrightarrow>
        (case Execute (lp_ctx env) (lp_launch env) (lp_Executor env) seed w of
           (Inl e, w') \<Rightarrow> False
         | (Inr turn, w') \<Rightarrow> same_store (lp_Store env) w w' \<and> utf8_Valid (tr_Output turn) \<and>
             list_all message_ok (ac_History (tr_Context turn)))))"

lemma sound_envD:
  assumes "sound_env env" "good_world (lp_Store env) w"
  shows "same_store (lp_Store env) w (snd (start_typing env msg w))"
    "good_world (lp_Store env) w' \<Longrightarrow> same_store (lp_Store env) w' (fst (start_typing env msg w) w')"
    "same_store (lp_Store env) w (snd (lp_Publish env out w))"
    "list_all message_ok (ac_History seed) \<Longrightarrow> \<exists>turn w'.
       Execute (lp_ctx env) (lp_launch env) (lp_Executor env) seed w = (Inr turn, w') \<and> same_store (lp_Store env) w w' \<and>
       utf8_Valid (tr_Output turn) \<and> list_all message_ok (ac_History (tr_Context turn))"
proof -
  note env = assms(1) [unfolded sound_env_def, rule_format, OF assms(2)]
  show "same_store (lp_Store env) w (snd (start_typing env msg w))" using env by blast
  show "good_world (lp_Store env) w' \<Longrightarrow> same_store (lp_Store env) w' (fst (start_typing env msg w) w')" using env by blast
  show "same_store (lp_Store env) w (snd (lp_Publish env out w))" using env by blast
  assume h: "list_all message_ok (ac_History seed)"
  obtain r w' where x: "Execute (lp_ctx env) (lp_launch env) (lp_Executor env) seed w = (r, w')" by fastforce
  note conjunct2 [OF conjunct2 [OF env], rule_format, OF h]
  then show "\<exists>turn w'. Execute (lp_ctx env) (lp_launch env) (lp_Executor env) seed w = (Inr turn, w') \<and>
      same_store (lp_Store env) w w' \<and> utf8_Valid (tr_Output turn) \<and> list_all message_ok (ac_History (tr_Context turn))"
    unfolding x by (cases r) auto
qed

lemma store_Save_done:
  assumes "good_world rt w" "chat_ok (stamp (world_now w) cs)" "store_Save rt cs w = ((r, cs'), w')"
  shows "good_world rt w' \<and> storage_Get rt (cs_ChatID cs) (sw_fs w') = Inr (Some (compact_state (stamp (world_now w) cs))) \<and>
    (\<forall>c. validChatID c \<longrightarrow> c \<noteq> cs_ChatID cs \<longrightarrow> storage_Get rt c (sw_fs w') = storage_Get rt c (sw_fs w))"
proof -
  have ok: "store_ok rt (sw_fs w)" using assms(1) by (simp add: good_world_def)
  note s = store_Save_world [OF ok assms(2,3)]
  have c: "validChatID (cs_ChatID cs)" using assms(2) by (simp add: chat_ok_def stamp_def)
  obtain fs' where f: "storage_Save NoFault (world_now w) rt cs (sw_fs w) = (r, cs', fs')"
    and fields: "sw_clock w' = sw_clock w" "sw_random w' = sw_random w" "sw_faults w' = sw_faults w"
    using assms(1,3) by (auto simp: store_Save_def time_Now_def world_now_def good_world_def Let_def split: prod.splits)
  have r: "r = Inr ()" using storage_Save_cases(3) [OF ok assms(2) f] by simp
  then have get: "storage_Get rt i (sw_fs w') = (if i = cs_ChatID cs then Inr (Some (compact_state (stamp (world_now w) cs)))
      else storage_Get rt i (sw_fs w))" if "validChatID i" for i using s that by simp
  have "good_read i (storage_Get rt i (sw_fs w'))" if "validChatID i" for i
    using get [OF that] assms(1) that compact_state_ok [OF assms(2)]
    by (auto simp: good_world_def good_read_def compact_state_def stamp_def)
  then have "good_world rt w'" using s assms(1) fields by (simp add: good_world_def)
  then show ?thesis using get c by simp
qed

text \<open>The texts of the user a chat holds.\<close>

definition user_texts :: "ChatState option result \<Rightarrow> string list" where
  "user_texts r = (case r of Inr (Some cs) \<Rightarrow> map sm_Content (filter (\<lambda>m. sm_Role m = ''user'') (cs_Messages cs)) | _ \<Rightarrow> [])"

lemma role_texts: "utf8_Valid ''assistant''" "utf8_Valid ''user''" "''assistant'' \<noteq> ''user''"
  by code_simp+

lemma handleInbound_saves:
  assumes env: "sound_env env" and w: "good_world (lp_Store env) w"
    and msg: "validChatID (inbound_chat msg)" "utf8_Valid (in_Text msg)"
  shows "good_world (lp_Store env) (handleInbound env msg w) \<and>
    (\<forall>c. validChatID c \<longrightarrow> user_texts (storage_Get (lp_Store env) c (sw_fs (handleInbound env msg w))) =
       user_texts (storage_Get (lp_Store env) c (sw_fs w)) @ (if inbound_chat msg = c then [in_Text msg] else []))"
proof -
  let ?rt = "lp_Store env" and ?c = "inbound_chat msg"
  note sound = sound_envD [OF env]
  obtain stop w1 where t: "start_typing env msg w = (stop, w1)" by fastforce
  have w1: "same_store ?rt w w1" "good_world ?rt w1" using sound(1) [OF w, of msg] t same_storeD(1) by auto
  have "good_read ?c (storage_Get ?rt ?c (sw_fs w1))" using w1(2) msg(1) by (simp add: good_world_def)
  then obtain found where g: "storage_Get ?rt ?c (sw_fs w1) = Inr found" by (auto simp: good_read_def split: sum.splits)
  define cs where "cs = (case found of None \<Rightarrow> zero_ChatState\<lparr>cs_ChatID := ?c\<rparr> | Some cs \<Rightarrow> cs)"
  have cs: "cs_ChatID cs = ?c" "utf8_Valid (cs_Title cs)" "IsZero (cs_CreatedAt cs) \<or> time_ok (cs_CreatedAt cs)"
      "list_all message_ok (cs_History cs)" "list_all chat_message_ok (cs_Messages cs)"
    using \<open>good_read ?c _\<close> g
    by (auto simp: good_read_def cs_def chat_ok_def zero_ChatState_def IsZero_def demo_texts split: option.splits)
  obtain turn w2 where x: "Execute (lp_ctx env) (lp_launch env) (lp_Executor env) (inbound_seed env msg cs) w1 = (Inr turn, w2)"
    and w2: "same_store ?rt w1 w2" and turn: "utf8_Valid (tr_Output turn)" "list_all message_ok (ac_History (tr_Context turn))"
    using sound(4) [OF w1(2), of "inbound_seed env msg cs"] cs(4) by (auto simp: inbound_seed_def)
  obtain cs' w3 where i: "inbound_state msg cs turn w2 = (cs', w3)" by fastforce
  obtain r cs'' w4 where s: "store_Save ?rt cs' w3 = ((r, cs''), w4)" by (metis prod.exhaust)
  have good2: "good_world ?rt w2" using w2 same_storeD(1) by blast
  have w3: "good_world ?rt w3" "sw_fs w3 = sw_fs w2"
    using i good2 by (auto simp: inbound_state_def time_Now_def draw_ID_def good_world_def)
  have now: "time_ok (world_now w3)" using w3(1) by (simp add: good_world_def world_now_def)
  have "length b = 16 \<Longrightarrow> utf8_Valid (newID b)" for b using newID_id validChatID_utf8 by blast
  then have ok: "chat_ok (stamp (world_now w3) cs')" and id': "cs_ChatID cs' = ?c"
    and texts: "user_texts (Inr (Some (compact_state (stamp (world_now w3) cs')))) = user_texts (Inr (Some cs)) @ [in_Text msg]"
    using i cs msg turn now good2 role_texts
    by (auto simp: inbound_state_def time_Now_def draw_ID_def chat_ok_def stamp_def chat_message_ok_def good_world_def
        compact_state_def user_texts_def)
  note saved = store_Save_done [OF w3(1) ok s]
  have h: "handleInbound env msg w = stop (snd (lp_Publish env (inbound_reply msg turn) w4))"
    using t g x i s by (simp add: handleInbound_def cs_def)
  have p: "same_store ?rt w4 (snd (lp_Publish env (inbound_reply msg turn) w4))" using sound(3) saved by blast
  have "same_store ?rt (snd (lp_Publish env (inbound_reply msg turn) w4)) (handleInbound env msg w)"
    using sound(2) [OF w same_storeD(1) [OF p], of msg] t h by simp
  then have final: "good_world ?rt (handleInbound env msg w)"
      "validChatID c \<Longrightarrow> storage_Get ?rt c (sw_fs (handleInbound env msg w)) = storage_Get ?rt c (sw_fs w4)" for c
    using p same_storeD by (blast, metis same_storeD(2))
  have first: "user_texts (Inr (Some cs)) = user_texts (storage_Get ?rt ?c (sw_fs w))"
    using g same_storeD(2) [OF w1(1) msg(1)] by (auto simp: cs_def user_texts_def zero_ChatState_def split: option.splits)
  have others: "storage_Get ?rt c (sw_fs w4) = storage_Get ?rt c (sw_fs w)" if "validChatID c" "c \<noteq> ?c" for c
    using saved that w3(2) same_storeD(2) [OF w2 that(1)] same_storeD(2) [OF w1(1) that(1)] by (simp add: id')
  show ?thesis
    using final saved texts first others msg(1) by (auto simp: id')
qed

section \<open>Properties\<close>

text \<open>
  C6: when the environment works, the loop loses no message of a user: whatever the chats they come from, after
  any run of inbound messages the store holds, for every chat, the texts it held before and then the texts of the
  messages of that chat, in their order, however the turns and the chats follow one another; and the loop has
  handled all messages unless the context is done.
\<close>

theorem inbound_loses_nothing:
  assumes "sound_env env" "good_world (lp_Store env) w" "inbound_loop env q w q' w'"
    and "list_all (\<lambda>msg. validChatID (inbound_chat msg) \<and> utf8_Valid (in_Text msg)) q"
  shows "\<exists>ms. q = ms @ q' \<and> (q' = [] \<or> lp_ctx env w' \<noteq> None) \<and>
    (\<forall>c. validChatID c \<longrightarrow> user_texts (storage_Get (lp_Store env) c (sw_fs w')) =
       user_texts (storage_Get (lp_Store env) c (sw_fs w)) @ map in_Text (filter (\<lambda>msg. inbound_chat msg = c) ms))"
proof -
  obtain ms where ms: "q = ms @ q'" "w' = fold (handleInbound env) ms w" "q' = [] \<or> lp_ctx env w' \<noteq> None"
    using assms(3) unfolding inbound_loop_fold by blast
  have "good_world (lp_Store env) v \<Longrightarrow>
      list_all (\<lambda>msg. validChatID (inbound_chat msg) \<and> utf8_Valid (in_Text msg)) ms \<Longrightarrow> validChatID c \<Longrightarrow>
      user_texts (storage_Get (lp_Store env) c (sw_fs (fold (handleInbound env) ms v))) =
      user_texts (storage_Get (lp_Store env) c (sw_fs v)) @ map in_Text (filter (\<lambda>msg. inbound_chat msg = c) ms)" for c v
  proof (induction ms arbitrary: v)
    case (Cons m ms)
    then show ?case using handleInbound_saves [OF assms(1) Cons.prems(1), of m] by simp
  qed simp
  with ms assms(2,4) show ?thesis by (intro exI [of _ ms]) simp
qed

definition demo_env :: "(unit, unit) loop_env" where
  "demo_env =
     \<lparr>lp_Executor = yes_executor, lp_Store = [''s''], lp_Settings = zero_Settings, lp_SystemPrompt = [], lp_channels = [],
      lp_Publish = (\<lambda>out w. (None, w)), lp_launch = (\<lambda>_ w. w), lp_ctx = (\<lambda>_. None)\<rparr>"

definition empty_world :: session_world where
  "empty_world = \<lparr>sw_fs = [([''s''], EDir)], sw_clock = (\<lambda>_. demo_now), sw_ticks = 0, sw_random = (\<lambda>_. replicate 16 255), sw_draws = 0,
     sw_faults = (\<lambda>_. NoFault), sw_saves = 0\<rparr>"

lemma demo_env_sound: "sound_env demo_env"
  by (simp add: sound_env_def demo_env_def start_typing_def same_store_def yes_Execute yes_ok WithHistory_def)

lemma empty_world_good: "good_world [''s''] empty_world"
proof -
  have ok: "store_ok [''s''] (sw_fs empty_world)"
    by (auto simp: store_ok_def empty_world_def is_dir_step plain_def node_def file_or_free_def)
  have "storage_Get [''s''] c (sw_fs empty_world) = Inr None" if "validChatID c" for c
    using storage_Get_node [OF ok that] by (simp add: empty_world_def node_def read_state_def)
  then show ?thesis
    using ok by (simp add: good_world_def good_read_def) (simp add: empty_world_def demo_now_def month_days_def leap_def)
qed

theorem inbound_loses_nothing_witness:
  "user_texts (storage_Get [''s''] ''telegram:7'' (sw_fs (fold (handleInbound demo_env)
     [\<lparr>in_Channel = ''telegram'', in_ChatID = ''7'', in_SenderID = [], in_Text = ''hi'', in_MessageID = [], in_Metadata = []\<rparr>,
      \<lparr>in_Channel = ''telegram'', in_ChatID = ''8'', in_SenderID = [], in_Text = ''t'', in_MessageID = [], in_Metadata = []\<rparr>,
      \<lparr>in_Channel = ''telegram'', in_ChatID = ''7'', in_SenderID = [], in_Text = ''user'', in_MessageID = [], in_Metadata = []\<rparr>]
     empty_world))) = [''hi'', ''user'']"
proof -
  let ?m = "\<lambda>c t. \<lparr>in_Channel = ''telegram'', in_ChatID = c, in_SenderID = [], in_Text = t, in_MessageID = [], in_Metadata = []\<rparr>"
  let ?q = "[?m ''7'' ''hi'', ?m ''8'' ''t'', ?m ''7'' ''user'']"
  have loop: "inbound_loop demo_env ?q empty_world [] (fold (handleInbound demo_env) ?q empty_world)"
    unfolding inbound_loop_fold by blast
  have store: "lp_Store demo_env = [''s'']" by (simp add: demo_env_def)
  have ids: "validChatID ''telegram:7''" "validChatID ''telegram:8''" by code_simp+
  have "storage_Get [''s''] ''telegram:7'' (sw_fs empty_world) = Inr None"
    using empty_world_good ids(1) storage_Get_node [of "[''s'']" "sw_fs empty_world" "''telegram:7''"]
    by (simp add: good_world_def) (simp add: empty_world_def node_def read_state_def)
  moreover have "list_all (\<lambda>msg. validChatID (inbound_chat msg) \<and> utf8_Valid (in_Text msg)) ?q"
    using ids demo_texts by (simp add: inbound_chat_def)
  from inbound_loses_nothing [OF demo_env_sound _ loop this] empty_world_good ids(1)
  have "user_texts (storage_Get [''s''] ''telegram:7'' (sw_fs (fold (handleInbound demo_env) ?q empty_world))) =
      user_texts (storage_Get [''s''] ''telegram:7'' (sw_fs empty_world)) @ [''hi'', ''user'']"
    by (simp add: store inbound_chat_def)
  ultimately show ?thesis by (simp add: user_texts_def)
qed

end
