(* ===== verification/Turn.thy ===== *)
theory Turn
  imports SkillsNode
begin

text \<open>
  \<^verbatim>\<open>pkg/agent/nodes/graph.go\<close>: the graph of one agent turn, and what the generic runner makes of it.
  \<open>BuildGraph\<close> is the topology; \<open>turn\<close> is the turn written as a straight program (four nodes, then
  the model/tools loop, then summarize), and the theorems of this theory relate the two.
\<close>

section \<open>graph.go\<close>

text \<open>The seven node pointers.\<close>

datatype node_id = NClassify | NMCP | NSkills | NEnrich | NLLM | NToolLoop | NSummarize

record 'w turn_env =
  te_provider :: "'w LLMProvider"
  te_registry :: "(string \<times> 'w Tool) list"
  te_mcpClients :: "(string \<times> 'w mcp_client) list"
  te_skillsCfg :: "'w SkillsConfig"
  te_skills_lib :: "'w skills_lib"
  te_clock :: "'w clock"
  te_json_error :: "string \<Rightarrow> go_error"
  te_summarizationPrompt :: string

definition node_fn :: "'w turn_env \<Rightarrow> node_id \<Rightarrow> 'w node_fn" where
  "node_fn env n =
     (case n of
        NClassify \<Rightarrow> classify_fn (te_registry env)
      | NMCP \<Rightarrow> mcp_fn (te_mcpClients env)
      | NSkills \<Rightarrow> skills_fn (te_skills_lib env) (te_skillsCfg env)
      | NEnrich \<Rightarrow> enrich_fn (te_clock env)
      | NLLM \<Rightarrow> llm_fn (te_provider env)
      | NToolLoop \<Rightarrow> toolloop_fn (te_json_error env) (te_registry env) (te_mcpClients env)
      | NSummarize \<Rightarrow> summarize_fn (te_summarizationPrompt env) (te_provider env))"

definition node_name :: "node_id \<Rightarrow> string" where
  "node_name n =
     (case n of NClassify \<Rightarrow> ''classify'' | NMCP \<Rightarrow> ''mcp'' | NSkills \<Rightarrow> ''skills'' | NEnrich \<Rightarrow> ''enrich''
      | NLLM \<Rightarrow> ''llm'' | NToolLoop \<Rightarrow> ''toolloop'' | NSummarize \<Rightarrow> ''summarize'')"

definition turn_nodes :: "'w turn_env \<Rightarrow> node_id \<Rightarrow> ('w AgentContext, 'w) Node" where
  "turn_nodes env n = NewNode (node_name n) Some zero_AgentContext id (node_fn env n)"

definition hasPendingToolCalls :: "'w AgentContext option \<Rightarrow> bool" where
  "hasPendingToolCalls out =
     (case out of
        None \<Rightarrow> False
      | Some ac \<Rightarrow>
          ac_History ac \<noteq> [] \<and> m_Role (last (ac_History ac)) = RoleAssistant \<and>
          m_ToolCalls (last (ac_History ac)) \<noteq> [])"

definition negate :: "('a option \<Rightarrow> bool) \<Rightarrow> 'a option \<Rightarrow> bool" where
  "negate cond out = (\<not> cond out)"

definition BuildGraph :: "(node_id, 'w AgentContext) graph_def \<times> node_id" where
  "BuildGraph =
     (let def = NewDefinition;
          def = AddEdge def NClassify NMCP;
          def = AddEdge def NMCP NSkills;
          def = AddEdge def NSkills NEnrich;
          def = AddEdge def NEnrich NLLM;
          def = AddConditionalEdge def NLLM (Some hasPendingToolCalls) NToolLoop;
          def = AddConditionalEdge def NLLM (Some (negate hasPendingToolCalls)) NSummarize;
          def = AddEdge def NToolLoop NLLM
      in (def, NClassify))"

text \<open>The executor \<^verbatim>\<open>cmd/souz-agent\<close> builds: no retries, 64 steps.\<close>

definition turn_executor :: "'w turn_env \<Rightarrow> hooks_Config option \<Rightarrow> (node_id, 'w) Executor" where
  "turn_executor env hooks =
     (case BuildGraph of (def, start) \<Rightarrow>
       \<lparr>ex_nodes = turn_nodes env, ex_def = def, ex_start = start,
        ex_policy = zero_policy, ex_stepLimit = 64, ex_turnHooks = hooks\<rparr>)"

section \<open>The turn as a straight program\<close>

definition pending :: "'w AgentContext \<Rightarrow> bool" where
  "pending ac = hasPendingToolCalls (Some ac)"

text \<open>One node: the context is looked at before it runs, its error carries its name.\<close>

definition run_node ::
  "('w \<Rightarrow> go_error option) \<Rightarrow> 'w turn_env \<Rightarrow> node_id \<Rightarrow> 'w node_fn"
where
  "run_node ctx env n ac w =
     (case ctx w of
        Some e \<Rightarrow> (Inl e, w)
      | None \<Rightarrow>
          (case node_fn env n ac w of
             (Inl e, w') \<Rightarrow> (Inl (Wrap (''graph node '' @ quote (node_name n) @ '': '') e []), w')
           | (Inr ac', w') \<Rightarrow> (Inr ac', w')))"

definition and_then :: "'w node_fn \<Rightarrow> 'w node_fn \<Rightarrow> 'w node_fn" where
  "and_then f g ac w = (case f ac w of (Inl e, w') \<Rightarrow> (Inl e, w') | (Inr ac', w') \<Rightarrow> g ac' w')"

definition out_of_steps :: "('w \<Rightarrow> go_error option) \<Rightarrow> 'w node_fn" where
  "out_of_steps ctx ac w = (case ctx w of Some e \<Rightarrow> (Inl e, w) | None \<Rightarrow> (Inl (max_steps_error 64), w))"

text \<open>At most \<open>n\<close> tool rounds; after them the steps are used up.\<close>

fun agent_loop :: "('w \<Rightarrow> go_error option) \<Rightarrow> 'w turn_env \<Rightarrow> nat \<Rightarrow> 'w node_fn" where
  "agent_loop ctx env n ac w =
     and_then (run_node ctx env NLLM)
       (\<lambda>ac w.
          if pending ac then
            (case n of
               0 \<Rightarrow> and_then (run_node ctx env NToolLoop) (out_of_steps ctx) ac w
             | Suc m \<Rightarrow> and_then (run_node ctx env NToolLoop) (agent_loop ctx env m) ac w)
          else run_node ctx env NSummarize ac w) ac w"

declare agent_loop.simps [simp del]

definition turn :: "('w \<Rightarrow> go_error option) \<Rightarrow> 'w turn_env \<Rightarrow> 'w node_fn" where
  "turn ctx env =
     and_then (run_node ctx env NClassify) (and_then (run_node ctx env NMCP)
       (and_then (run_node ctx env NSkills) (and_then (run_node ctx env NEnrich) (agent_loop ctx env 29))))"

section \<open>The runner on this graph\<close>

lemma BuildGraph_next:
  "NextNodes (fst BuildGraph) NClassify out = [NMCP]"
  "NextNodes (fst BuildGraph) NMCP out = [NSkills]"
  "NextNodes (fst BuildGraph) NSkills out = [NEnrich]"
  "NextNodes (fst BuildGraph) NEnrich out = [NLLM]"
  "NextNodes (fst BuildGraph) NLLM out = (if hasPendingToolCalls out then [NToolLoop] else [NSummarize])"
  "NextNodes (fst BuildGraph) NToolLoop out = [NLLM]"
  "NextNodes (fst BuildGraph) NSummarize out = []"
  by (simp_all add: BuildGraph_def NextNodes_def AddEdge_def AddConditionalEdge_def NewDefinition_def
      edge_taken_def negate_def)

abbreviation frame_at :: "node_id \<Rightarrow> 'w AgentContext \<Rightarrow> int \<Rightarrow> (node_id, 'w AgentContext) frame" where
  "frame_at n ac d \<equiv> \<lparr>fr_node = n, fr_input = Some ac, fr_depth = d\<rparr>"

abbreviation turn_loop where
  "turn_loop ctx env \<equiv> runLoop ctx (turn_nodes env) (fst BuildGraph) 64 (default_policy zero_policy) None"

text \<open>A run's outcome without the last output of a failed run, which the executor drops.\<close>

definition outcome :: "('a option \<times> go_error option) \<times> 'w \<Rightarrow> 'a option result \<times> 'w" where
  "outcome r = (case r of ((_, Some e), w) \<Rightarrow> (Inl e, w) | ((out, None), w) \<Rightarrow> (Inr out, w))"

definition some_result :: "'a result \<times> 'w \<Rightarrow> 'a option result \<times> 'w" where
  "some_result r = (case r of (Inl e, w) \<Rightarrow> (Inl e, w) | (Inr a, w) \<Rightarrow> (Inr (Some a), w))"

lemma some_result_simps [simp]:
  "some_result (Inl e, w) = (Inl e, w)" "some_result (Inr a, w) = (Inr (Some a), w)"
  by (simp_all add: some_result_def)

lemma outcome_simps [simp]:
  "outcome ((lo, Some e), w) = (Inl e, w)" "outcome ((out, None), w) = (Inr out, w)"
  by (simp_all add: outcome_def)

lemma execute_turn_node:
  "ctx w = None \<Longrightarrow>
   executeWithRetry ctx (turn_nodes env) n (Some ac) (default_policy zero_policy) w = some_result (node_fn env n ac w)"
  by (auto simp: executeWithRetry_def default_policy_def zero_policy_def Node_Execute_def turn_nodes_def
      NewNode_def split: prod.split sum.split)

lemma turn_node_name [simp]: "nd_Name (turn_nodes env n) = node_name n"
  by (simp add: turn_nodes_def NewNode_def)

lemma turn_loop_step:
  "s < 64 \<Longrightarrow>
   turn_loop ctx env [frame_at n ac d] lo s w =
     (case run_node ctx env n ac w of
        (Inl e, w') \<Rightarrow> ((lo, Some e), w')
      | (Inr ac', w') \<Rightarrow>
          turn_loop ctx env (map (\<lambda>m. frame_at m ac' (d + 1)) (NextNodes (fst BuildGraph) n (Some ac')))
            (Some ac') (s + 1) w')"
  by (simp add: runLoop.simps(2) run_node_def execute_turn_node node_error_def call_onStep_def
      split: option.split prod.split sum.split)

lemma turn_loop_limit:
  "outcome (turn_loop ctx env [frame_at n ac d] lo 64 w) = some_result (out_of_steps ctx ac w)"
  by (simp add: runLoop.simps(2) out_of_steps_def split: option.split)

lemma turn_loop_summarize:
  "s < 64 \<Longrightarrow>
   outcome (turn_loop ctx env [frame_at NSummarize ac d] lo s w) = some_result (run_node ctx env NSummarize ac w)"
  by (simp add: turn_loop_step BuildGraph_next split: prod.split sum.split)

lemma turn_loop_agent:
  "s + 2 * int n = 62 \<Longrightarrow>
   outcome (turn_loop ctx env [frame_at NLLM ac d] lo s w) = some_result (agent_loop ctx env n ac w)"
proof (induction n arbitrary: s ac d lo w)
  case 0
  show ?case
  proof (cases "run_node ctx env NLLM ac w")
    case (Pair r w1)
    with 0 show ?thesis
    proof (cases r)
      case (Inr ac1)
      from Inr 0 Pair have "outcome (turn_loop ctx env [frame_at NLLM ac d] lo s w) =
          outcome (turn_loop ctx env [frame_at (if pending ac1 then NToolLoop else NSummarize) ac1 (d + 1)] (Some ac1) 63 w1)"
        by (simp add: turn_loop_step BuildGraph_next pending_def)
      with Inr Pair show ?thesis
        by (cases "run_node ctx env NToolLoop ac1 w1")
          (auto simp: agent_loop.simps and_then_def turn_loop_summarize turn_loop_step [of 63 _ _ NToolLoop]
            BuildGraph_next turn_loop_limit split: sum.split)
    qed (simp add: agent_loop.simps and_then_def turn_loop_step)
  qed
next
  case (Suc n)
  show ?case
  proof (cases "run_node ctx env NLLM ac w")
    case (Pair r w1)
    with Suc.prems show ?thesis
    proof (cases r)
      case (Inr ac1)
      from Inr Suc.prems Pair have "outcome (turn_loop ctx env [frame_at NLLM ac d] lo s w) =
          outcome (turn_loop ctx env [frame_at (if pending ac1 then NToolLoop else NSummarize) ac1 (d + 1)] (Some ac1) (s + 1) w1)"
        by (simp add: turn_loop_step BuildGraph_next pending_def)
      with Inr Pair Suc.prems show ?thesis
        by (cases "run_node ctx env NToolLoop ac1 w1")
          (auto simp: agent_loop.simps [of _ _ "Suc n"] and_then_def turn_loop_summarize
            turn_loop_step [of _ _ _ NToolLoop] BuildGraph_next Suc.IH split: sum.split)
    qed (simp add: agent_loop.simps [of _ _ "Suc n"] and_then_def turn_loop_step)
  qed
qed

lemma turn_run:
  fixes ac :: "'w AgentContext"
  shows "outcome (Run ctx (turn_nodes env) NClassify (Some ac) (fst BuildGraph) 64 zero_policy None w) =
     some_result (turn ctx env ac w)"
proof -
  have link: "outcome (turn_loop ctx env [frame_at n ac d] lo s w) = some_result (and_then (run_node ctx env n) rest ac w)"
    if "s < 64" "\<And>out. NextNodes (fst BuildGraph) n (out :: 'w AgentContext option) = [m]"
      "\<And>ac d lo w. outcome (turn_loop ctx env [frame_at m ac d] lo (s + 1) w) = some_result (rest ac w)"
    for n m s ac d lo w rest
    using that by (cases "run_node ctx env n ac w"; cases "fst (run_node ctx env n ac w)")
      (simp_all add: turn_loop_step and_then_def)
  show ?thesis
    unfolding Run_def default_limit_def turn_def
    by (simp add: link BuildGraph_next turn_loop_agent)
qed

section \<open>One turn of the executor\<close>

definition start_hook :: "(string \<Rightarrow> 'w \<Rightarrow> 'w) \<Rightarrow> hooks_Config option \<Rightarrow> 'w \<Rightarrow> 'w" where
  "start_hook launch hooks w = (case hooks of None \<Rightarrow> w | Some cfg \<Rightarrow> hooks_run launch (TurnStartScript cfg) w)"

definition end_hook :: "(string \<Rightarrow> 'w \<Rightarrow> 'w) \<Rightarrow> hooks_Config option \<Rightarrow> 'w \<Rightarrow> 'w" where
  "end_hook launch hooks w = (case hooks of None \<Rightarrow> w | Some cfg \<Rightarrow> hooks_run launch (TurnEndScript cfg) w)"

text \<open>
  The executor runs the straight program between the two hooks, each fired once on every outcome.
\<close>

lemma Execute_turn:
  "Execute ctx launch (turn_executor env hooks) seed w =
     (case turn ctx env seed (start_hook launch hooks w) of
        (Inl e, w') \<Rightarrow> (Inl (Wrap ''agent turn: '' e []), end_hook launch hooks w')
      | (Inr ac, w') \<Rightarrow>
          (Inr \<lparr>tr_Output = lastAssistantText (ac_History ac), tr_Context = ac\<rparr>, end_hook launch hooks w'))"
proof -
  let ?w = "start_hook launch hooks w"
  obtain out err w2 where r: "Run ctx (turn_nodes env) NClassify (Some seed) (fst BuildGraph) 64 zero_policy None ?w
      = ((out, err), w2)" by (metis prod.exhaust)
  have "BuildGraph = (fst BuildGraph, NClassify)" by (simp add: BuildGraph_def Let_def)
  then have "turn_executor env hooks =
      \<lparr>ex_nodes = turn_nodes env, ex_def = fst BuildGraph, ex_start = NClassify,
       ex_policy = zero_policy, ex_stepLimit = 64, ex_turnHooks = hooks\<rparr>"
    unfolding turn_executor_def by (metis (mono_tags, lifting) case_prod_conv)
  moreover have "StartTurn launch cfg w = (hooks_run launch (TurnStartScript cfg) w,
      \<lambda>ran w. if ran then (True, w) else (True, hooks_run launch (TurnEndScript cfg) w))" for cfg
    by (simp add: StartTurn_def)
  ultimately show ?thesis
    using r turn_run [of ctx env seed ?w]
    by (cases hooks; cases err; cases out; cases "turn ctx env seed ?w"; cases "fst (turn ctx env seed ?w)")
      (auto simp: Execute_def start_hook_def end_hook_def some_result_def)
qed

section \<open>The conversation after a turn\<close>

lemma and_then_Inr:
  "and_then f g ac w = (Inr ac', w') \<longleftrightarrow> (\<exists>ac1 w1. f ac w = (Inr ac1, w1) \<and> g ac1 w1 = (Inr ac', w'))"
  by (auto simp: and_then_def split: prod.splits sum.splits)

lemma run_node_Inr:
  "run_node ctx env n ac w = (Inr ac', w') \<longleftrightarrow> ctx w = None \<and> node_fn env n ac w = (Inr ac', w')"
  by (auto simp: run_node_def split: option.splits prod.splits sum.splits)

lemma pending_iff:
  "ac_History ac = h @ [m] \<Longrightarrow> m_Role m = RoleAssistant \<Longrightarrow> pending ac \<longleftrightarrow> m_ToolCalls m \<noteq> []"
  by (simp add: pending_def hasPendingToolCalls_def)

text \<open>One model call: the history grows by an assistant message; with calls, the tools answer them.\<close>

lemma tool_round_answered:
  assumes "run_node ctx env NLLM ac w = (Inr ac1, w1)" "run_node ctx env NToolLoop ac1 w1 = (Inr ac2, w2)"
    and "answered (ac_History ac)"
  shows "answered (ac_History ac2)"
proof -
  from assms(1) obtain m where m: "ac_History ac1 = ac_History ac @ [m]" "m_Role m = RoleAssistant"
    by (auto simp: run_node_Inr node_fn_def elim: llm_history)
  from assms(2) obtain rs where "ac_History ac2 = ac_History ac1 @ rs" "answers (m_ToolCalls m) rs"
    by (auto simp: run_node_Inr node_fn_def elim: toolloop_history [OF _ m])
  with m answered_round [OF assms(3) m(2)] show ?thesis by simp
qed

lemma final_answer_answered:
  assumes "run_node ctx env NLLM ac w = (Inr ac1, w1)" "\<not> pending ac1"
    and "run_node ctx env NSummarize ac1 w1 = (Inr ac2, w2)" "answered (ac_History ac)"
  shows "answered (ac_History ac2)"
proof -
  from assms(1) obtain m where m: "ac_History ac1 = ac_History ac @ [m]" "m_Role m = RoleAssistant"
    by (auto simp: run_node_Inr node_fn_def elim: llm_history)
  with assms(2) have "m_ToolCalls m = []" by (simp add: pending_iff)
  with m assms(4) have "answered (ac_History ac1)" "calls_of (last (ac_History ac1)) = []" "ac_History ac1 \<noteq> []"
    using answered_round [OF assms(4) m(2), of "[]"] by (auto simp: calls_of_def)
  with assms(3) show ?thesis by (auto simp: run_node_Inr node_fn_def intro: summarize_answered)
qed

lemma agent_loop_answered:
  "agent_loop ctx env n ac w = (Inr ac', w') \<Longrightarrow> answered (ac_History ac) \<Longrightarrow> answered (ac_History ac')"
proof (induction n arbitrary: ac w)
  case 0
  then show ?case
    by (subst (asm) agent_loop.simps)
      (auto simp: and_then_Inr out_of_steps_def split: if_splits option.splits dest: final_answer_answered)
next
  case (Suc n)
  then show ?case
    by (subst (asm) agent_loop.simps)
      (auto simp: and_then_Inr split: if_splits dest: final_answer_answered tool_round_answered)
qed

text \<open>
  A turn keeps the conversation answered: a stored history never ends up with a tool call that has
  no result, whatever the model, the tools and the MCP servers do.
\<close>

lemma turn_answered:
  assumes "turn ctx env ac w = (Inr ac', w')" "answered (ac_History ac)"
  shows "answered (ac_History ac')"
proof -
  from assms(1) obtain ac1 w1 ac2 w2 ac3 w3 ac4 w4 where r:
    "classify_fn (te_registry env) ac w = (Inr ac1, w1)"
    "mcp_fn (te_mcpClients env) ac1 w1 = (Inr ac2, w2)"
    "skills_fn (te_skills_lib env) (te_skillsCfg env) ac2 w2 = (Inr ac3, w3)"
    "enrich_fn (te_clock env) ac3 w3 = (Inr ac4, w4)"
    "agent_loop ctx env 29 ac4 w4 = (Inr ac', w')"
    by (auto simp: turn_def and_then_Inr run_node_Inr node_fn_def)
  with assms(2) classify_history [OF r(1)] mcp_history [OF r(2)] skills_history [OF r(3)]
  have "answered (ac_History ac3)" by simp
  with enrich_answered [OF r(4)] agent_loop_answered [OF r(5)] show ?thesis by simp
qed

section \<open>Properties\<close>

text \<open>
  C1: one turn of the executor on the graph of \<open>BuildGraph\<close>, run by the generic work queue with 64
  steps, is the straight program: classify, mcp, skills, enrich, then model and tools in turns for at
  most 29 tool rounds, then summarize; an error of a node carries its name, a cancelled context stops
  the turn before the next node, and the two hooks fire around it on every outcome.
\<close>

theorem Execute_is_turn:
  "Execute ctx launch (turn_executor env hooks) seed w =
     (case turn ctx env seed (start_hook launch hooks w) of
        (Inl e, w') \<Rightarrow> (Inl (Wrap ''agent turn: '' e []), end_hook launch hooks w')
      | (Inr ac, w') \<Rightarrow>
          (Inr \<lparr>tr_Output = lastAssistantText (ac_History ac), tr_Context = ac\<rparr>, end_hook launch hooks w'))"
  by (rule Execute_turn)

text \<open>
  C2: a turn keeps the conversation answered: when every tool call of the stored history is followed
  by its results in order, the same holds of the history the turn returns, whatever the model, the
  tools and the MCP servers do.
\<close>

theorem Execute_answers_tool_calls:
  assumes "Execute ctx launch (turn_executor env hooks) seed w = (Inr r, w')" "answered (ac_History seed)"
  shows "answered (ac_History (tr_Context r))"
  using assms turn_answered [of ctx env seed "start_hook launch hooks w"]
  by (auto simp: Execute_turn split: prod.splits sum.splits)

text \<open>A model that asks for an unknown tool once and then answers.\<close>

definition demo_stream :: "ChatRequest \<Rightarrow> (string \<Rightarrow> nat \<Rightarrow> nat) \<Rightarrow> nat \<Rightarrow> ChatResponse result \<times> nat" where
  "demo_stream rq onChunk w =
     (if w = 0 then (Inr \<lparr>rs_Content = [], rs_ToolCalls = [\<lparr>tc_ID = ''1'', tc_Name = ''nosuch'', tc_Args = []\<rparr>],
                        rs_Usage = zero_Usage, rs_FinishReason = FinishToolUse\<rparr>, 1)
      else (Inr \<lparr>rs_Content = ''done'', rs_ToolCalls = [], rs_Usage = zero_Usage, rs_FinishReason = FinishStop\<rparr>, w))"

definition demo_env :: "nat turn_env" where
  "demo_env =
     \<lparr>te_provider = \<lparr>Chat = (\<lambda>_ w. (Inl Canceled, w)), ChatStream = demo_stream\<rparr>,
      te_registry = [], te_mcpClients = [],
      te_skillsCfg = \<lparr>sc_Provider = None, sc_Registry = None, sc_ValidationStore = None,
                      sc_Policy = DefaultPolicy, sc_Model = []\<rparr>,
      te_skills_lib = demo_lib,
      te_clock = \<lparr>cl_now = (\<lambda>_. 0), cl_LoadLocation = (\<lambda>_. False), cl_Format = (\<lambda>_ _. [])\<rparr>,
      te_json_error = (\<lambda>_. Canceled), te_summarizationPrompt = []\<rparr>"

abbreviation demo_call :: ToolCall where
  "demo_call \<equiv> \<lparr>tc_ID = ''1'', tc_Name = ''nosuch'', tc_Args = []\<rparr>"

abbreviation demo_asks :: Message where
  "demo_asks \<equiv> zero_Message\<lparr>m_Role := RoleAssistant, m_Content := [], m_ToolCalls := [demo_call]\<rparr>"

abbreviation demo_says :: Message where
  "demo_says \<equiv> zero_Message\<lparr>m_Role := RoleAssistant, m_Content := ''done'', m_ToolCalls := []\<rparr>"

lemma WithHistory_fields [simp]:
  "ac_Settings (WithHistory ac ms) = ac_Settings ac" "ac_EventSink (WithHistory ac ms) = ac_EventSink ac"
  "ac_History (WithHistory ac ms) = ac_History ac @ ms"
  by (simp_all add: WithHistory_def)

lemma context_message_role [simp]: "m_Role (buildContextMessage cl t meta) = RoleUser"
  by (simp add: buildContextMessage_def Let_def)

lemma demo_llm:
  "run_node (\<lambda>_. None) demo_env NLLM ac 0 = (Inr (WithHistory ac [demo_asks]), 1)"
  "run_node (\<lambda>_. None) demo_env NLLM ac (Suc 0) = (Inr (WithHistory ac [demo_says]), 1)"
  by (simp_all add: run_node_def node_fn_def demo_env_def llm_fn_def demo_stream_def)

lemma demo_tools:
  "ac_EventSink ac = None \<Longrightarrow>
   run_node (\<lambda>_. None) demo_env NToolLoop (WithHistory ac [demo_asks]) w =
     (Inr (WithHistory (WithHistory ac [demo_asks]) [tool_result demo_call ''no such tool: nosuch'']), w)"
  by (simp add: run_node_def node_fn_def demo_env_def toolloop_fn_def executeTool_def dispatch_def
      splitMCPToolName_def sink_of_def NoopEventSink_def WithHistory_def)

lemma demo_pending [simp]:
  "pending (WithHistory ac [demo_asks])" "\<not> pending (WithHistory ac [demo_says])"
  by (simp_all add: pending_def hasPendingToolCalls_def WithHistory_def)

lemma demo_summarize:
  "st_ContextSize (ac_Settings ac) = 0 \<Longrightarrow> run_node (\<lambda>_. None) demo_env NSummarize ac w = (Inr ac, w)"
  by (simp add: run_node_def node_fn_def summarize_fn_def historyIsTooBig_def)

lemma demo_loop:
  assumes "ac_EventSink ac = None" "st_ContextSize (ac_Settings ac) = 0"
  shows "agent_loop (\<lambda>_. None) demo_env (Suc (Suc n)) ac 0 =
    (Inr (WithHistory (WithHistory (WithHistory ac [demo_asks]) [tool_result demo_call ''no such tool: nosuch''])
       [demo_says]), 1)"
proof -
  let ?ac = "WithHistory (WithHistory ac [demo_asks]) [tool_result demo_call ''no such tool: nosuch'']"
  have "agent_loop (\<lambda>_. None) demo_env (Suc n) ?ac 1 = (Inr (WithHistory ?ac [demo_says]), 1)"
    using assms by (subst agent_loop.simps) (simp add: and_then_def demo_llm demo_summarize)
  with assms show ?thesis
    by (subst agent_loop.simps) (simp add: and_then_def demo_llm demo_tools)
qed

definition demo_seed :: "nat AgentContext" where
  "demo_seed = zero_AgentContext\<lparr>ac_Input := ''hi''\<rparr>"

lemma demo_prefix:
  "\<exists>ac. and_then (run_node (\<lambda>_. None) demo_env NClassify) (and_then (run_node (\<lambda>_. None) demo_env NMCP)
     (and_then (run_node (\<lambda>_. None) demo_env NSkills) (run_node (\<lambda>_. None) demo_env NEnrich))) demo_seed 0 = (Inr ac, 0) \<and>
     map m_Role (ac_History ac) = [RoleUser, RoleUser] \<and> ac_EventSink ac = None \<and> st_ContextSize (ac_Settings ac) = 0"
proof -
  let ?r = "run_node (\<lambda>_. None) demo_env" and ?ac = "WithTools demo_seed []"
  have "?r NClassify demo_seed 0 = (Inr ?ac, 0)" "?r NMCP ?ac 0 = (Inr ?ac, 0)" "?r NSkills ?ac 0 = (Inr ?ac, 0)"
    by (simp_all add: run_node_def node_fn_def demo_env_def classify_fn_def mcp_fn_def skills_fn_def
        activateSkills_def ToDefinitions_def)
  moreover have "\<exists>ac. ?r NEnrich ?ac 0 = (Inr ac, 0) \<and> map m_Role (ac_History ac) = [RoleUser, RoleUser] \<and>
      ac_EventSink ac = None \<and> st_ContextSize (ac_Settings ac) = 0"
    by (simp add: run_node_def node_fn_def enrich_fn_def stripContextMessages_def WithTools_def demo_seed_def
        zero_AgentContext_def zero_Settings_def Let_def)
  ultimately show ?thesis by (simp add: and_then_def)
qed

lemma and_then_assoc: "and_then (and_then f g) h = and_then f (and_then g h)"
  by (rule ext, rule ext) (simp add: and_then_def split: prod.split sum.split)

lemma demo_turn:
  "\<exists>ac. turn (\<lambda>_. None) demo_env demo_seed 0 = (Inr ac, 1) \<and>
     map m_Role (ac_History ac) = [RoleUser, RoleUser, RoleAssistant, RoleTool, RoleAssistant]"
proof -
  let ?r = "run_node (\<lambda>_. None) demo_env"
  obtain ac where ac: "and_then (?r NClassify) (and_then (?r NMCP) (and_then (?r NSkills) (?r NEnrich))) demo_seed 0
      = (Inr ac, 0)" "map m_Role (ac_History ac) = [RoleUser, RoleUser]" "ac_EventSink ac = None"
      "st_ContextSize (ac_Settings ac) = 0"
    using demo_prefix by (elim exE conjE)
  have "turn (\<lambda>_. None) demo_env = and_then (and_then (?r NClassify) (and_then (?r NMCP)
      (and_then (?r NSkills) (?r NEnrich)))) (agent_loop (\<lambda>_. None) demo_env 29)"
    by (simp only: turn_def and_then_assoc)
  then have "turn (\<lambda>_. None) demo_env demo_seed 0 = agent_loop (\<lambda>_. None) demo_env 29 ac 0"
    by (simp only: and_then_def [where f = "and_then (?r NClassify) (and_then (?r NMCP) (and_then (?r NSkills) (?r NEnrich)))"]
        ac(1) prod.case sum.case)
  with ac(2) demo_loop [OF ac(3,4), of 27] show ?thesis by (simp add: tool_result_def)
qed

theorem Execute_answers_tool_calls_witness:
  "\<exists>r w'. Execute (\<lambda>_. None) (\<lambda>_ w. w) (turn_executor demo_env None) demo_seed 0
      = (Inr r, w') \<and> answered (ac_History (tr_Context r)) \<and>
      map m_Role (ac_History (tr_Context r)) = [RoleUser, RoleUser, RoleAssistant, RoleTool, RoleAssistant]"
proof -
  obtain ac where ac: "turn (\<lambda>_. None) demo_env demo_seed 0 = (Inr ac, 1)"
    "map m_Role (ac_History ac) = [RoleUser, RoleUser, RoleAssistant, RoleTool, RoleAssistant]"
    using demo_turn by (elim exE conjE)
  from ac(1) have e: "Execute (\<lambda>_. None) (\<lambda>_ w. w) (turn_executor demo_env None) demo_seed 0
      = (Inr \<lparr>tr_Output = lastAssistantText (ac_History ac), tr_Context = ac\<rparr>, 1)"
    by (simp add: Execute_turn start_hook_def end_hook_def)
  moreover from Execute_answers_tool_calls [OF e] have "answered (ac_History ac)"
    by (simp add: demo_seed_def zero_AgentContext_def)
  ultimately show ?thesis using ac(2) by simp
qed

end
