(* ===== verification/Val_Store.thy ===== *)
theory Val_Store
  imports Fs Codec Keyed_Store Validation
begin

text \<open>
  \<^verbatim>\<open>pkg/skills/validation/store.go\<close>: the cache of validation verdicts, one JSON file for each skill,
  policy version and bundle hash. How a \<open>float64\<close> is printed in JSON is an argument \<open>ff\<close>; the round trip
  needs of it what \<open>encoding/json\<close> documents: the text is a JSON number that reads back as the value.
\<close>

section \<open>Records as JSON\<close>

fun status_text :: "Status \<Rightarrow> string" where
  "status_text StatusApproved = ''APPROVED''"
| "status_text StatusRejected = ''REJECTED''"
| "status_text StatusStale = ''STALE''"
| "status_text (StatusOther s) = s"

definition status_of :: "string \<Rightarrow> Status" where
  "status_of s =
     (if s = ''APPROVED'' then StatusApproved else if s = ''REJECTED'' then StatusRejected
      else if s = ''STALE'' then StatusStale else StatusOther s)"

definition enc_Finding :: "Finding \<Rightarrow> json" where
  "enc_Finding f = JObj (fld ''stage'' (JStr (fi_Stage f)) @ opt_fld ''file'' (fi_File f \<noteq> []) (JStr (fi_File f)) @
     fld ''message'' (JStr (fi_Message f)))"

definition zero_Finding :: Finding where
  "zero_Finding = \<lparr>fi_Stage = [], fi_File = [], fi_Message = []\<rparr>"

definition dec_Finding :: "Finding decoder" where
  "dec_Finding cur j =
     Option.bind (members j) (\<lambda>ms.
     Option.bind (dec_field ''stage'' dec_string (fi_Stage cur) ms) (\<lambda>s.
     Option.bind (dec_field ''file'' dec_string (fi_File cur) ms) (\<lambda>f.
     Option.bind (dec_field ''message'' dec_string (fi_Message cur) ms) (\<lambda>m.
       Some \<lparr>fi_Stage = s, fi_File = f, fi_Message = m\<rparr>))))"

definition dec_status :: "Status decoder" where
  "dec_status cur j = map_option status_of (dec_string (status_text cur) j)"

definition enc_Record :: "(float64 \<Rightarrow> string) \<Rightarrow> Record \<Rightarrow> json" where
  "enc_Record ff r = JObj (
     fld ''skillId'' (JStr (r_SkillID r)) @
     fld ''bundleHash'' (JStr (r_BundleHash r)) @
     fld ''policyVersion'' (JNum (Itoa (r_PolicyVersion r))) @
     fld ''status'' (JStr (status_text (r_Status r))) @
     fld ''confidence'' (JNum (ff (r_Confidence r))) @
     opt_fld ''reasons'' (r_Reasons r \<noteq> []) (slice_json JStr (r_Reasons r)) @
     opt_fld ''findings'' (r_Findings r \<noteq> []) (slice_json enc_Finding (r_Findings r)) @
     fld ''createdAt'' (JStr (r_CreatedAt r)))"

definition zero_Record :: Record where
  "zero_Record = \<lparr>r_SkillID = [], r_BundleHash = [], r_PolicyVersion = 0, r_Status = StatusOther [], r_Confidence = fzero,
     r_Reasons = [], r_Findings = [], r_CreatedAt = format_time zero_time\<rparr>"

definition dec_Record :: "Record decoder" where
  "dec_Record cur j =
     Option.bind (members j) (\<lambda>ms.
     Option.bind (dec_field ''skillId'' dec_string (r_SkillID cur) ms) (\<lambda>i.
     Option.bind (dec_field ''bundleHash'' dec_string (r_BundleHash cur) ms) (\<lambda>h.
     Option.bind (dec_field ''policyVersion'' dec_int (r_PolicyVersion cur) ms) (\<lambda>v.
     Option.bind (dec_field ''status'' dec_status (r_Status cur) ms) (\<lambda>s.
     Option.bind (dec_field ''confidence'' dec_float (r_Confidence cur) ms) (\<lambda>c.
     Option.bind (dec_field ''reasons'' (dec_list [] dec_string) (r_Reasons cur) ms) (\<lambda>rs.
     Option.bind (dec_field ''findings'' (dec_list zero_Finding dec_Finding) (r_Findings cur) ms) (\<lambda>fs.
     Option.bind (dec_field ''createdAt'' dec_time_text (r_CreatedAt cur) ms) (\<lambda>t.
       Some \<lparr>r_SkillID = i, r_BundleHash = h, r_PolicyVersion = v, r_Status = s, r_Confidence = c,
             r_Reasons = rs, r_Findings = fs, r_CreatedAt = t\<rparr>)))))))))"

text \<open>A confidence that is not finite cannot be marshalled.\<close>

definition Record_marshals :: "Record \<Rightarrow> bool" where
  "Record_marshals r \<longleftrightarrow> (case r_Confidence r of Fin _ _ \<Rightarrow> True | _ \<Rightarrow> False)"

section \<open>Operations\<close>

definition policy_dir :: "path \<Rightarrow> string \<Rightarrow> int \<Rightarrow> path" where
  "policy_dir rt skillID version = Join_path (Join_path (Join_path rt skillID) ''policies'') (Itoa version)"

definition recordPath :: "path \<Rightarrow> string \<Rightarrow> int \<Rightarrow> string \<Rightarrow> path" where
  "recordPath rt skillID version hash = Join_path (policy_dir rt skillID version) (hash @ ''.json'')"

definition vstore_error :: "go_error \<Rightarrow> go_error" where
  "vstore_error e = Wrap ''skill validation store: '' e []"

definition vstore_Get :: "path \<Rightarrow> string \<Rightarrow> int \<Rightarrow> string \<Rightarrow> fs \<Rightarrow> Record option result" where
  "vstore_Get rt skillID version hash fs =
     (case os_ReadFile fs (recordPath rt skillID version hash) of
        Inl e \<Rightarrow> (if is_not_exist e then Inr None else Inl (Wrap ''skill validation store: read: '' e []))
      | Inr data \<Rightarrow>
          (case unmarshal zero_Record dec_Record data of
             None \<Rightarrow> Inl (Wrap ''skill validation store: decode: '' (Err ''invalid JSON'') [])
           | Some rec \<Rightarrow> Inr (Some rec)))"

definition vstore_Save :: "(float64 \<Rightarrow> string) \<Rightarrow> write_fault \<Rightarrow> path \<Rightarrow> Record \<Rightarrow> fs \<Rightarrow> unit result \<times> fs" where
  "vstore_Save ff fault rt rec fs =
     (let p = recordPath rt (r_SkillID rec) (r_PolicyVersion rec) (r_BundleHash rec) in
      case os_MkdirAll fs (butlast p) of
        (Inl e, fs1) \<Rightarrow> (Inl (vstore_error e), fs1)
      | (Inr _, fs1) \<Rightarrow>
          (if \<not> Record_marshals rec
           then (Inl (Wrap ''skill validation store: encode: '' (Err ''json: unsupported value'') []), fs1)
           else (case writeFileAtomic fault p (MarshalIndent (enc_Record ff rec)) fs1 of
                   (Inl e, fs2) \<Rightarrow> (Inl (vstore_error e), fs2)
                 | (Inr _, fs2) \<Rightarrow> (Inr (), fs2))))"

text \<open>One entry of the policy directory; a write that fails is ignored.\<close>

definition invalidate_entry ::
  "(float64 \<Rightarrow> string) \<Rightarrow> (path \<Rightarrow> write_fault) \<Rightarrow> path \<Rightarrow> string \<Rightarrow> string \<times> entry \<Rightarrow> fs \<Rightarrow> fs"
where
  "invalidate_entry ff fault dir currentHash e fs =
     (if snd e = EDir \<or> TrimSuffix (fst e) ''.json'' = currentHash then fs
      else (let p = Join_path dir (fst e) in
            case os_ReadFile fs p of
              Inl _ \<Rightarrow> fs
            | Inr data \<Rightarrow>
                (case unmarshal zero_Record dec_Record data of
                   None \<Rightarrow> fs
                 | Some rec \<Rightarrow>
                     (if r_Status rec \<noteq> StatusApproved then fs
                      else (let stale = rec\<lparr>r_Status := StatusStale\<rparr> in
                            if Record_marshals stale
                            then snd (writeFileAtomic (fault p) p (MarshalIndent (enc_Record ff stale)) fs)
                            else fs)))))"

definition InvalidateOthers ::
  "(float64 \<Rightarrow> string) \<Rightarrow> (path \<Rightarrow> write_fault) \<Rightarrow> path \<Rightarrow> string \<Rightarrow> int \<Rightarrow> string \<Rightarrow> fs \<Rightarrow> unit result \<times> fs"
where
  "InvalidateOthers ff fault rt skillID version currentHash fs =
     (let dir = policy_dir rt skillID version in
      case os_ReadDir fs dir of
        Inl e \<Rightarrow> (if is_not_exist e then Inr () else Inl (vstore_error e), fs)
      | Inr entries \<Rightarrow> (Inr (), fold (invalidate_entry ff fault dir currentHash) entries fs))"

section \<open>Round trip of a record\<close>

lemma record_keys [simp]:
  "ToLower ''stage'' = ''stage''" "ToLower ''file'' = ''file''" "ToLower ''message'' = ''message''"
  "ToLower ''skillId'' = ''skillid''" "ToLower ''bundleHash'' = ''bundlehash''" "ToLower ''policyVersion'' = ''policyversion''"
  "ToLower ''status'' = ''status''" "ToLower ''confidence'' = ''confidence''" "ToLower ''reasons'' = ''reasons''"
  "ToLower ''findings'' = ''findings''" "ToLower ''createdAt'' = ''createdat''"
  "utf8_Valid ''stage''" "utf8_Valid ''file''" "utf8_Valid ''message''" "utf8_Valid ''skillId''" "utf8_Valid ''bundleHash''"
  "utf8_Valid ''policyVersion''" "utf8_Valid ''status''" "utf8_Valid ''confidence''" "utf8_Valid ''reasons''"
  "utf8_Valid ''findings''" "utf8_Valid ''createdAt''"
  by code_simp+

definition float_text_ok :: "(float64 \<Rightarrow> string) \<Rightarrow> float64 \<Rightarrow> bool" where
  "float_text_ok ff x \<longleftrightarrow> num_ok (ff x) \<and> ParseFloat (ff x) = Some x"

definition finding_ok :: "Finding \<Rightarrow> bool" where
  "finding_ok f \<longleftrightarrow> utf8_Valid (fi_Stage f) \<and> utf8_Valid (fi_File f) \<and> utf8_Valid (fi_Message f)"

definition status_ok :: "Status \<Rightarrow> bool" where
  "status_ok s \<longleftrightarrow> utf8_Valid (status_text s) \<and> status_of (status_text s) = s"

definition record_ok :: "(float64 \<Rightarrow> string) \<Rightarrow> Record \<Rightarrow> bool" where
  "record_ok ff r \<longleftrightarrow>
     utf8_Valid (r_SkillID r) \<and> utf8_Valid (r_BundleHash r) \<and> int64 (r_PolicyVersion r) \<and> status_ok (r_Status r) \<and>
     Record_marshals r \<and> float_text_ok ff (r_Confidence r) \<and> list_all utf8_Valid (r_Reasons r) \<and>
     list_all finding_ok (r_Findings r) \<and> (\<exists>t. time_ok t \<and> r_CreatedAt r = format_time t)"

lemma dec_enc_Finding [simp]: "dec_Finding zero_Finding (enc_Finding f) = Some f"
  by (simp add: dec_Finding_def enc_Finding_def zero_Finding_def same_key_def)

lemma dec_enc_Record:
  assumes "record_ok ff r"
  shows "dec_Record zero_Record (enc_Record ff r) = Some r"
proof -
  have rs: "dec_list [] dec_string [] (slice_json JStr (r_Reasons r)) = Some (r_Reasons r)"
    using dec_list_slice [of "r_Reasons r" dec_string "[]" JStr id] by simp
  have fs: "dec_list zero_Finding dec_Finding [] (slice_json enc_Finding (r_Findings r)) = Some (r_Findings r)"
    using dec_list_slice [of "r_Findings r" dec_Finding zero_Finding enc_Finding id] by simp
  show ?thesis
    using assms
    by (auto simp: dec_Record_def enc_Record_def zero_Record_def same_key_def rs fs record_ok_def status_ok_def
        dec_status_def float_text_ok_def dec_time_text_def parse_format_time)
qed

lemma json_ok_Finding: "finding_ok f \<Longrightarrow> json_ok (enc_Finding f)"
  by (simp add: finding_ok_def enc_Finding_def)

lemma json_ok_Record: "record_ok ff r \<Longrightarrow> json_ok (enc_Record ff r)"
  by (auto simp: record_ok_def enc_Record_def status_ok_def float_text_ok_def list_all_iff json_ok_Finding)

lemma unmarshal_record: "record_ok ff r \<Longrightarrow> unmarshal zero_Record dec_Record (MarshalIndent (enc_Record ff r)) = Some r"
  by (simp add: unmarshal_def json_ok_Record dec_enc_Record)

lemma record_ok_stale: "record_ok ff r \<Longrightarrow> record_ok ff (r\<lparr>r_Status := StatusStale\<rparr>)"
proof -
  have "status_ok StatusStale" by code_simp
  then show "record_ok ff r \<Longrightarrow> ?thesis" by (simp add: record_ok_def Record_marshals_def)
qed

section \<open>The store\<close>

text \<open>
  A key is a skill id, a policy version and a bundle hash; the invariant says that nothing but the
  store's own directories and files is in its places, and that the records in it are proper.
\<close>

type_synonym rec_key = "string \<times> int \<times> string"

fun key_ok :: "rec_key \<Rightarrow> bool" where
  "key_ok (i, v, h) \<longleftrightarrow> plain i \<and> CHR ''/'' \<notin> set h"

definition vdir :: "path \<Rightarrow> string \<Rightarrow> int \<Rightarrow> path" where
  "vdir rt i v = rt @ [i, ''policies'', Itoa v]"

fun vfile :: "path \<Rightarrow> rec_key \<Rightarrow> path" where
  "vfile rt (i, v, h) = vdir rt i v @ [h @ ''.json'']"

definition proper_record :: "(float64 \<Rightarrow> string) \<Rightarrow> entry option \<Rightarrow> bool" where
  "proper_record ff e \<longleftrightarrow>
     (\<forall>data rec. e = Some (EFile data) \<longrightarrow> unmarshal zero_Record dec_Record data = Some rec \<longrightarrow> record_ok ff rec)"

definition vstore_ok :: "(float64 \<Rightarrow> string) \<Rightarrow> path \<Rightarrow> fs \<Rightarrow> bool" where
  "vstore_ok ff rt fs \<longleftrightarrow> tree_ok fs \<and> is_dir fs rt \<and>
     (\<forall>i v h. key_ok (i, v, h) \<longrightarrow>
        clear_way fs rt [i, ''policies'', Itoa v] \<and> file_or_free fs (vfile rt (i, v, h)) \<and>
        proper_record ff (node fs (vfile rt (i, v, h))))"

lemma Itoa_plain: "plain (Itoa i)"
proof -
  have "CHR ''/'' \<notin> set (nat_digits n) \<and> nat_digits n \<noteq> [] \<and> nat_digits n \<noteq> ''.'' \<and> nat_digits n \<noteq> ''..''" for n
    using nat_digits_digits [of n] by (auto simp: list_all_iff is_digit_def)
  then show ?thesis by (auto simp: Itoa_def plain_def)
qed

lemma Itoa_inj [simp]: "Itoa i = Itoa j \<longleftrightarrow> i = j"
proof -
  have "hd (nat_digits n) \<noteq> CHR ''-''" for n
    using nat_digits_digits [of n] by (cases "nat_digits n") (auto simp: is_digit_def)
  then have "''-'' @ s \<noteq> nat_digits n" for s n by (metis append_Cons list.sel(1))
  then show ?thesis by (auto simp: Itoa_def) metis+
qed

lemma policies_plain: "plain ''policies''"
  by (simp add: plain_def)

lemma policy_dir_name: "plain i \<Longrightarrow> policy_dir rt i v = vdir rt i v"
  by (simp add: policy_dir_def vdir_def Join_path_name Itoa_plain policies_plain)

lemma recordPath_name: "key_ok (i, v, h) \<Longrightarrow> recordPath rt i v h = vfile rt (i, v, h)"
  by (simp add: recordPath_def policy_dir_name Join_path_name json_plain)

lemma vfile_inj: "vfile rt k = vfile rt k' \<longleftrightarrow> k = k'"
  by (cases k; cases k') (auto simp: vdir_def)

lemma vfile_not_above: "vfile rt (i', v', h') \<noteq> rt @ take k [i, ''policies'', Itoa v]"
proof
  assume "vfile rt (i', v', h') = rt @ take k [i, ''policies'', Itoa v]"
  then have "length (vfile rt (i', v', h')) = length (rt @ take k [i, ''policies'', Itoa v])" by (rule arg_cong)
  then show False by (simp add: vdir_def)
qed

definition read_record :: "entry option \<Rightarrow> Record option result" where
  "read_record e =
     (case e of
        Some (EFile data) \<Rightarrow>
          (case unmarshal zero_Record dec_Record data of
             None \<Rightarrow> Inl (Wrap ''skill validation store: decode: '' (Err ''invalid JSON'') [])
           | Some rec \<Rightarrow> Inr (Some rec))
      | _ \<Rightarrow> Inr None)"

text \<open>What a key reads depends on its file alone, whether its directories exist or not.\<close>

lemma is_dir_way:
  assumes "is_dir fs rt" "list_all plain ys" "clear_way fs rt ys" "node fs (rt @ ys) = Some EDir" "tree_ok fs"
  shows "is_dir fs (rt @ ys)"
proof -
  have "node fs (take k (rt @ ys)) = Some EDir" if "k \<le> length (rt @ ys)" for k
  proof (cases "k \<le> length rt")
    case True
    with assms(1) show ?thesis by (simp add: is_dir_def)
  next
    case False
    then have t: "take k (rt @ ys) = rt @ take (k - length rt) ys" by simp
    have "node fs (rt @ take (k - length rt) ys) \<noteq> None"
      using tree_ok_none [OF assms(5), of "rt @ take (k - length rt) ys" "drop (k - length rt) ys"] assms(4) by auto
    moreover have "node fs (rt @ take (k - length rt) ys) \<in> {None, Some EDir}"
      using assms(3) that False unfolding clear_way_def by auto
    ultimately show ?thesis using t by auto
  qed
  moreover have "list_all plain (rt @ ys)" using assms(1,2) by (simp add: is_dir_def)
  ultimately show ?thesis unfolding is_dir_def by blast
qed

lemma walk_missing_way:
  assumes "is_dir fs d" "list_all plain ys" "clear_way fs d ys" "node fs (d @ ys) = None"
  shows "\<exists>p. walk fs n d (ys @ zs) = Inl (p, ENOENT)"
  using assms
proof (induction ys arbitrary: d)
  case Nil
  then show ?case by (simp add: is_dir_node)
next
  case (Cons y ys)
  show ?case
  proof (cases "node fs (d @ [y])")
    case None
    with Cons.prems show ?thesis by (simp add: plain_iff)
  next
    case (Some e)
    with clear_way_Cons [OF Cons.prems(3)] have e: "e = EDir" by simp
    with Some Cons.prems have "is_dir fs (d @ [y])" by simp
    with Cons.IH [of "d @ [y]"] clear_way_Cons [OF Cons.prems(3)] Cons.prems have
      "\<exists>p. walk fs n (d @ [y]) (ys @ zs) = Inl (p, ENOENT)" by simp
    with Some e Cons.prems show ?thesis by (simp add: plain_iff)
  qed
qed

lemma os_ReadFile_missing_way:
  assumes "is_dir fs d" "list_all plain ys" "clear_way fs d ys" "node fs (d @ ys) = None"
  shows "\<exists>q. os_ReadFile fs (d @ ys @ zs) = Inl (path_error ''open'' (q, ENOENT))"
proof -
  obtain p where "walk fs 40 d (ys @ zs) = Inl (p, ENOENT)" using walk_missing_way [OF assms] by blast
  then show ?thesis using walk_dir [of fs "[]" d 40 "ys @ zs"] assms(1)
    by (auto simp: os_ReadFile_def os_walk_def)
qed

lemma vstore_Get_node:
  assumes ok: "vstore_ok ff rt fs" and k: "key_ok (i, v, h)"
  shows "vstore_Get rt i v h fs = read_record (node fs (vfile rt (i, v, h)))"
proof -
  let ?ys = "[i, ''policies'', Itoa v]" and ?p = "vfile rt (i, v, h)"
  have f: "file_or_free fs ?p" and way: "clear_way fs rt ?ys" and d: "is_dir fs rt" and t: "tree_ok fs"
    using ok k unfolding vstore_ok_def by auto
  have pl: "list_all plain ?ys" "plain (h @ ''.json'')" using k by (simp_all add: policies_plain Itoa_plain json_plain)
  show ?thesis
  proof (cases "node fs (rt @ ?ys)")
    case None
    from os_ReadFile_missing_way [OF d pl(1) way this, of "[h @ ''.json'']"] obtain q
      where "os_ReadFile fs ?p = Inl (path_error ''open'' (q, ENOENT))" by (auto simp: vdir_def)
    moreover have "node fs ?p = None" using tree_ok_none [OF t None, of "[h @ ''.json'']"] by (simp add: vdir_def)
    ultimately show ?thesis using k recordPath_name [OF k] by (simp add: vstore_Get_def read_record_def path_error_def)
  next
    case (Some e)
    have "node fs (rt @ ?ys) \<in> {None, Some EDir}" using way unfolding clear_way_def by (metis le_refl take_all_iff)
    with Some have "node fs (rt @ ?ys) = Some EDir" by simp
    then have dir: "is_dir fs (vdir rt i v)" using is_dir_way [OF d pl(1) way _ t] by (simp add: vdir_def)
    show ?thesis using f
      by (elim file_or_free_cases)
        (use dir pl(2) recordPath_name [OF k] in \<open>simp_all add: vstore_Get_def read_record_def path_error_def\<close>)
  qed
qed

text \<open>The nodes after a save: the directories on the way, and the record.\<close>

definition rec_key :: "Record \<Rightarrow> rec_key" where
  "rec_key r = (r_SkillID r, r_PolicyVersion r, r_BundleHash r)"

definition save_record :: "(float64 \<Rightarrow> string) \<Rightarrow> path \<Rightarrow> Record \<Rightarrow> fs \<Rightarrow> fs" where
  "save_record ff rt r fs = snd (vstore_Save ff NoFault rt r fs)"

definition acceptable_record :: "(float64 \<Rightarrow> string) \<Rightarrow> Record \<Rightarrow> bool" where
  "acceptable_record ff r \<longleftrightarrow> record_ok ff r \<and> key_ok (rec_key r)"

lemma vstore_Save_nodes:
  assumes ok: "vstore_ok ff rt fs" and r: "acceptable_record ff r"
  shows "fst (vstore_Save ff NoFault rt r fs) = Inr ()" and "tree_ok (save_record ff rt r fs)"
    and "node (save_record ff rt r fs) p =
      (if p = vfile rt (rec_key r) then Some (EFile (MarshalIndent (enc_Record ff r)))
       else if \<exists>k \<in> {1..3}. p = rt @ take k [r_SkillID r, ''policies'', Itoa (r_PolicyVersion r)] then Some EDir
       else node fs p)"
proof -
  let ?ys = "[r_SkillID r, ''policies'', Itoa (r_PolicyVersion r)]" and ?h = "r_BundleHash r @ ''.json''"
  let ?f = "vfile rt (rec_key r)" and ?data = "MarshalIndent (enc_Record ff r)"
  have k: "key_ok (r_SkillID r, r_PolicyVersion r, r_BundleHash r)" "record_ok ff r"
    using r by (simp_all add: acceptable_record_def rec_key_def)
  have way: "clear_way fs rt ?ys" and d: "is_dir fs rt" and t: "tree_ok fs" and free: "file_or_free fs ?f"
    using ok k(1) unfolding vstore_ok_def rec_key_def by blast+
  have pl: "list_all plain ?ys" "plain ?h" using k(1) by (simp_all add: policies_plain Itoa_plain json_plain)
  obtain fs1 where mk: "os_MkdirAll fs (rt @ ?ys) = (Inr (), fs1)" and dir: "is_dir fs1 (rt @ ?ys)" and t1: "tree_ok fs1"
    and nodes: "\<And>p. node fs1 p = (if \<exists>k \<in> {1..length ?ys}. p = rt @ take k ?ys then Some EDir else node fs p)"
    using os_MkdirAll_clear [OF d t pl(1) way] by blast
  have f: "?f = (rt @ ?ys) @ [?h]" "recordPath rt (r_SkillID r) (r_PolicyVersion r) (r_BundleHash r) = ?f"
    using recordPath_name [OF k(1)] by (simp_all add: vdir_def rec_key_def)
  have nf: "node fs1 ?f = node fs ?f" using nodes [of ?f] vfile_not_above by (auto simp: rec_key_def)
  have nd: "node fs1 ?f \<noteq> Some EDir" using free nf by (auto simp: file_or_free_def)
  obtain r1 fs2 where w: "writeFileAtomic NoFault ?f ?data fs1 = (r1, fs2)" by fastforce
  have c: "\<not> is_temp ?h \<or> node fs1 ((rt @ ?ys) @ [?h]) \<noteq> None" by (simp add: json_not_temp)
  from writeFileAtomic_cases [OF dir pl(2) c w [unfolded f(1)]] nd
  have r1: "r1 = Inr ()" and fs2: "node fs2 = (node fs1)(?f \<mapsto> EFile ?data)" by (auto simp: f(1))
  have m: "Record_marshals r" using k(2) by (simp add: record_ok_def)
  have run: "vstore_Save ff NoFault rt r fs = (Inr (), fs2)"
    using mk w m r1 by (simp add: vstore_Save_def f Let_def butlast_append)
  then show "fst (vstore_Save ff NoFault rt r fs) = Inr ()" by simp
  have bl: "butlast ?f = rt @ ?ys" unfolding f(1) butlast_snoc ..
  have pf: "list_all plain ?f" using dir pl(2) unfolding f(1) is_dir_def by simp
  show "tree_ok (save_record ff rt r fs)"
    using tree_ok_put [OF t1 fs2] bl nd is_dir_node [OF dir] pf run by (simp add: save_record_def)
  show "node (save_record ff rt r fs) p =
      (if p = ?f then Some (EFile ?data) else if \<exists>k \<in> {1..3}. p = rt @ take k ?ys then Some EDir else node fs p)"
    using nodes [of p] fs2 run by (simp add: save_record_def)
qed

lemma proper_saved: "record_ok ff r \<Longrightarrow> proper_record ff (Some (EFile (MarshalIndent (enc_Record ff r))))"
  by (simp add: proper_record_def unmarshal_record)

lemma vstore_ok_save:
  assumes ok: "vstore_ok ff rt fs" and r: "acceptable_record ff r"
  shows "vstore_ok ff rt (save_record ff rt r fs)"
proof -
  let ?fs = "save_record ff rt r fs" and ?ys = "[r_SkillID r, ''policies'', Itoa (r_PolicyVersion r)]"
  note nodes = vstore_Save_nodes(3) [OF ok r]
  have d: "is_dir fs rt" using ok by (simp add: vstore_ok_def)
  have nf: "vfile rt (rec_key r) \<noteq> rt @ take k ys" if "length ys \<le> 3" for k ys
  proof
    assume "vfile rt (rec_key r) = rt @ take k ys"
    then have "length (vfile rt (rec_key r)) = length (rt @ take k ys)" by (rule arg_cong)
    with that show False by (simp add: vdir_def rec_key_def)
  qed
  have "node ?fs (take k rt) = Some EDir" if "k \<le> length rt" for k
  proof -
    have "vfile rt (rec_key r) \<noteq> take k rt"
    proof
      assume "vfile rt (rec_key r) = take k rt"
      then have "length (vfile rt (rec_key r)) = length (take k rt)" by (rule arg_cong)
      then show False by (simp add: vdir_def rec_key_def)
    qed
    then show ?thesis using nodes [of "take k rt"] d that by (auto simp: is_dir_def)
  qed
  then have "is_dir ?fs rt" using d by (simp add: is_dir_def)
  moreover have "clear_way ?fs rt [i, ''policies'', Itoa v] \<and> file_or_free ?fs (vfile rt (i, v, h)) \<and>
      proper_record ff (node ?fs (vfile rt (i, v, h)))" if k: "key_ok (i, v, h)" for i v h
  proof (intro conjI)
    have old: "clear_way fs rt [i, ''policies'', Itoa v]" "file_or_free fs (vfile rt (i, v, h))"
      "proper_record ff (node fs (vfile rt (i, v, h)))" using ok k unfolding vstore_ok_def by blast+
    show "clear_way ?fs rt [i, ''policies'', Itoa v]"
      unfolding clear_way_def
    proof (intro allI impI)
      fix j
      assume "j \<le> length [i, ''policies'', Itoa v]"
      then show "node ?fs (rt @ take j [i, ''policies'', Itoa v]) \<in> {None, Some EDir}"
        using old(1) nf [of "[i, ''policies'', Itoa v]" j] nodes [of "rt @ take j [i, ''policies'', Itoa v]"]
        unfolding clear_way_def by (auto split: if_splits)
    qed
    have fnode: "node ?fs (vfile rt (i, v, h)) = (if (i, v, h) = rec_key r
        then Some (EFile (MarshalIndent (enc_Record ff r))) else node fs (vfile rt (i, v, h)))"
      using nodes [of "vfile rt (i, v, h)"] vfile_not_above [of rt i v h] vfile_inj [of rt "(i, v, h)" "rec_key r"] by auto
    show "file_or_free ?fs (vfile rt (i, v, h))" using fnode old(2) by (auto simp: file_or_free_def)
    show "proper_record ff (node ?fs (vfile rt (i, v, h)))"
      using fnode old(3) proper_saved [of ff r] r by (auto simp: acceptable_record_def)
  qed
  ultimately show ?thesis using vstore_Save_nodes(2) [OF ok r] unfolding vstore_ok_def by blast
qed

fun read_key :: "path \<Rightarrow> rec_key \<Rightarrow> fs \<Rightarrow> Record option result" where
  "read_key rt (i, v, h) fs = vstore_Get rt i v h fs"

lemma read_key_node: "vstore_ok ff rt fs \<Longrightarrow> key_ok k \<Longrightarrow> read_key rt k fs = read_record (node fs (vfile rt k))"
  by (cases k) (simp add: vstore_Get_node del: vfile.simps key_ok.simps)

interpretation verdicts: keyed_store
  "vstore_ok ff rt" key_ok "acceptable_record ff" rec_key "save_record ff rt" "read_key rt" "\<lambda>r. Inr (Some r)" for ff rt
proof
  fix s :: fs and r :: Record and k :: rec_key
  assume ok: "vstore_ok ff rt s" and r: "acceptable_record ff r"
  note ok' = vstore_ok_save [OF ok r]
  show "vstore_ok ff rt (save_record ff rt r s)" by (rule ok')
  have kr: "key_ok (rec_key r)" "record_ok ff r" using r by (simp_all add: acceptable_record_def)
  show "read_key rt (rec_key r) (save_record ff rt r s) = Inr (Some r)"
    using read_key_node [OF ok' kr(1)] vstore_Save_nodes(3) [OF ok r, of "vfile rt (rec_key r)"]
      unmarshal_record [OF kr(2)] by (simp add: read_record_def)
  assume k: "key_ok k" "k \<noteq> rec_key r"
  have "node (save_record ff rt r s) (vfile rt k) = node s (vfile rt k)"
    using vstore_Save_nodes(3) [OF ok r, of "vfile rt k"] vfile_inj [of rt k "rec_key r"] k(2)
      vfile_not_above [of rt "fst k" "fst (snd k)" "snd (snd k)"] by auto
  then show "read_key rt k (save_record ff rt r s) = read_key rt k s"
    using read_key_node [OF ok' k(1)] read_key_node [OF ok k(1)] by simp
qed (simp add: acceptable_record_def)

section \<open>Superseding the verdicts of other bundle versions\<close>

definition superseded :: "Record \<Rightarrow> Record" where
  "superseded r = (if r_Status r = StatusApproved then r\<lparr>r_Status := StatusStale\<rparr> else r)"

definition stale_data :: "(float64 \<Rightarrow> string) \<Rightarrow> string \<Rightarrow> string" where
  "stale_data ff data =
     (case unmarshal zero_Record dec_Record data of
        None \<Rightarrow> data
      | Some r \<Rightarrow>
          (if r_Status r = StatusApproved \<and> Record_marshals r then MarshalIndent (enc_Record ff (superseded r)) else data))"

lemma invalidate_entry_nodes:
  assumes d: "is_dir fs d" and n: "plain n" and x: "node fs (d @ [n]) = Some x" "x \<noteq> EDir"
    and ne: "TrimSuffix n ''.json'' \<noteq> hash"
  obtains (same) "node (invalidate_entry ff fault d hash (n, x) fs) = node fs"
      "\<And>data. x = EFile data \<Longrightarrow> fault = (\<lambda>_. NoFault) \<Longrightarrow> stale_data ff data = data"
  | (stale) data where "node (invalidate_entry ff fault d hash (n, x) fs) = (node fs)(d @ [n] \<mapsto> EFile data)"
      "\<And>old. x = EFile old \<Longrightarrow> data = stale_data ff old"
proof (cases "os_ReadFile fs (d @ [n])")
  case (Inl e)
  then have "node (invalidate_entry ff fault d hash (n, x) fs) = node fs" "x \<noteq> EFile data" for data
    using assms by (auto simp: invalidate_entry_def Join_path_name)
  then show ?thesis using same by blast
next
  case (Inr old)
  have xo: "old = data" if "x = EFile data" for data using that Inr assms by simp
  show ?thesis
  proof (cases "\<exists>r. unmarshal zero_Record dec_Record old = Some r \<and> r_Status r = StatusApproved \<and> Record_marshals r")
    case False
    then have "node (invalidate_entry ff fault d hash (n, x) fs) = node fs" "stale_data ff old = old"
      using assms Inr by (auto simp: invalidate_entry_def Join_path_name stale_data_def Record_marshals_def Let_def
          split: option.splits)
    then show ?thesis using same xo by blast
  next
    case True
    then obtain r where r: "unmarshal zero_Record dec_Record old = Some r" "r_Status r = StatusApproved" "Record_marshals r"
      by blast
    let ?data = "MarshalIndent (enc_Record ff (r\<lparr>r_Status := StatusStale\<rparr>))"
    have sd: "stale_data ff old = ?data" using r by (simp add: stale_data_def superseded_def)
    obtain q fs' where w: "writeFileAtomic (fault (d @ [n])) (d @ [n]) ?data fs = (q, fs')" by fastforce
    have run: "invalidate_entry ff fault d hash (n, x) fs = fs'"
      using assms Inr r w by (simp add: invalidate_entry_def Join_path_name Record_marshals_def)
    have c: "\<not> is_temp n \<or> node fs (d @ [n]) \<noteq> None" using x by simp
    from writeFileAtomic_cases [OF d n c w] x have
      "node fs' = (node fs)(d @ [n] \<mapsto> EFile ?data) \<or> fault (d @ [n]) \<noteq> NoFault \<and> node fs' = node fs" by auto
    then show ?thesis
    proof
      assume "node fs' = (node fs)(d @ [n] \<mapsto> EFile ?data)"
      then show ?thesis by (intro stale [of ?data]) (use run sd xo in auto)
    next
      assume "fault (d @ [n]) \<noteq> NoFault \<and> node fs' = node fs"
      then show ?thesis by (intro same) (use run in auto)
    qed
  qed
qed

lemma invalidate_nodes:
  fixes ff fault hash es fs
  assumes "is_dir fs d" "distinct (map fst es)"
    "\<And>n x. (n, x) \<in> set es \<Longrightarrow> plain n \<and> node fs (d @ [n]) = Some x"
  defines "out \<equiv> fold (invalidate_entry ff fault d hash) es fs"
  shows "(\<forall>n x. q = d @ [n] \<longrightarrow> (n, x) \<in> set es \<longrightarrow> x = EDir \<or> TrimSuffix n ''.json'' = hash) \<Longrightarrow> node out q = node fs q"
    and "(n, EFile data) \<in> set es \<Longrightarrow> TrimSuffix n ''.json'' \<noteq> hash \<Longrightarrow> fault = (\<lambda>_. NoFault) \<Longrightarrow>
         node out (d @ [n]) = Some (EFile (stale_data ff data))"
    and "(n, x) \<in> set es \<Longrightarrow> x \<noteq> EDir \<Longrightarrow> \<exists>y. node out (d @ [n]) = Some y \<and> y \<noteq> EDir"
  using assms(1-3) unfolding out_def
proof (induction es arbitrary: fs q n data x)
  case Nil
  { case 1 then show ?case by simp next case 2 then show ?case by simp next case 3 then show ?case by simp }
next
  case (Cons e es)
  obtain m y where e: "e = (m, y)" by (cases e)
  let ?f = "invalidate_entry ff fault d hash e"
  have step: "node (?f fs) = node fs \<or> (y \<noteq> EDir \<and> TrimSuffix m ''.json'' \<noteq> hash \<and> (\<exists>z. node (?f fs) = (node fs)(d @ [m] \<mapsto> EFile z)))"
    and fresh: "y = EFile old \<Longrightarrow> TrimSuffix m ''.json'' \<noteq> hash \<Longrightarrow> fault = (\<lambda>_. NoFault) \<Longrightarrow>
        node (?f fs) (d @ [m]) = Some (EFile (stale_data ff old))"
    if d: "is_dir fs d" and m: "plain m" "node fs (d @ [m]) = Some y" for old fs
  proof -
    have "y = EDir \<or> TrimSuffix m ''.json'' = hash \<Longrightarrow> ?f fs = fs" by (auto simp: invalidate_entry_def e)
    then show "node (?f fs) = node fs \<or> (y \<noteq> EDir \<and> TrimSuffix m ''.json'' \<noteq> hash \<and> (\<exists>z. node (?f fs) = (node fs)(d @ [m] \<mapsto> EFile z)))"
      using invalidate_entry_nodes [OF d m, of hash ff fault] unfolding e by metis
    assume "y = EFile old" "TrimSuffix m ''.json'' \<noteq> hash" "fault = (\<lambda>_. NoFault)"
    then show "node (?f fs) (d @ [m]) = Some (EFile (stale_data ff old))"
      using invalidate_entry_nodes [OF d m, of hash ff fault] m unfolding e
      by (metis entry.distinct(1) fun_upd_same)
  qed
  have dir: "is_dir (?f fs) d" if d: "is_dir fs d" and m: "plain m" "node fs (d @ [m]) = Some y" for fs
    by (rule is_dir_same_nodes [OF d]) (use step [OF d m] in \<open>auto simp: take_neq_snoc\<close>)
  have rest: "plain n \<and> node (?f fs) (d @ [n]) = Some x"
    if d: "is_dir fs d" and dist: "distinct (map fst (e # es))"
      and all: "\<And>n x. (n, x) \<in> set (e # es) \<Longrightarrow> plain n \<and> node fs (d @ [n]) = Some x" and nx: "(n, x) \<in> set es" for n x fs
  proof -
    have "n \<noteq> m" using dist nx e by force
    then show ?thesis using step [OF d] all [of m y] all [of n x] nx e by auto
  qed
  { case 1
    note prems = 1
    have m: "plain m" "node fs (d @ [m]) = Some y" using prems(4) [of m y] e by auto
    have "node (fold (invalidate_entry ff fault d hash) es (?f fs)) q = node (?f fs) q"
      using prems rest [OF prems(2,3,4)] dir [OF prems(2) m] by (intro Cons.IH(1)) auto
    also have "node (?f fs) q = node fs q" using step [OF prems(2) m] prems(1) e by auto
    finally show ?case by simp }
  { case 2
    note prems = 2
    have m: "plain m" "node fs (d @ [m]) = Some y" using prems(6) [of m y] e by auto
    show ?case
    proof (cases "(n, EFile data) \<in> set es")
      case True
      have "node (fold (invalidate_entry ff fault d hash) es (?f fs)) (d @ [n]) = Some (EFile (stale_data ff data))"
        using prems True rest [OF prems(4,5,6)] dir [OF prems(4) m] by (intro Cons.IH(2)) auto
      then show ?thesis by simp
    next
      case False
      with prems(1) e have nm: "n = m" "y = EFile data" by auto
      have "(n, x) \<notin> set es" for x using prems(5) e nm by force
      then have "node (fold (invalidate_entry ff fault d hash) es (?f fs)) (d @ [n]) = node (?f fs) (d @ [n])"
        using prems rest [OF prems(4,5,6)] dir [OF prems(4) m] by (intro Cons.IH(1)) auto
      with fresh [OF prems(4) m nm(2)] prems(2,3) nm show ?thesis by simp
    qed }
  { case 3
    note prems = 3
    have m: "plain m" "node fs (d @ [m]) = Some y" using prems(5) [of m y] e by auto
    show ?case
    proof (cases "(n, x) \<in> set es")
      case True
      have "\<exists>y. node (fold (invalidate_entry ff fault d hash) es (?f fs)) (d @ [n]) = Some y \<and> y \<noteq> EDir"
        using prems True rest [OF prems(3,4,5)] dir [OF prems(3) m] by (intro Cons.IH(3)) auto
      then show ?thesis by simp
    next
      case False
      with prems(1) e have nm: "n = m" "y = x" by auto
      have "(n, x') \<notin> set es" for x' using prems(4) e nm by force
      then have "node (fold (invalidate_entry ff fault d hash) es (?f fs)) (d @ [n]) = node (?f fs) (d @ [n])"
        using prems rest [OF prems(3,4,5)] dir [OF prems(3) m] by (intro Cons.IH(1)) auto
      with step [OF prems(3) m] m nm prems(2) show ?thesis by auto
    qed }
qed

lemma read_stale:
  assumes "proper_record ff (Some (EFile data))"
  shows "read_record (Some (EFile (stale_data ff data))) = map_sum id (map_option superseded) (read_record (Some (EFile data)))"
    and "proper_record ff (Some (EFile (stale_data ff data)))"
proof -
  have "unmarshal zero_Record dec_Record (stale_data ff data) = map_option superseded (unmarshal zero_Record dec_Record data) \<and>
      (\<forall>r. unmarshal zero_Record dec_Record (stale_data ff data) = Some r \<longrightarrow> record_ok ff r)"
  proof (cases "unmarshal zero_Record dec_Record data")
    case None
    then show ?thesis by (simp add: stale_data_def)
  next
    case (Some r)
    then have r: "record_ok ff r" using assms by (simp add: proper_record_def)
    then show ?thesis
      using Some unmarshal_record [OF record_ok_stale [OF r]] record_ok_stale [OF r]
      by (simp add: stale_data_def superseded_def record_ok_def)
  qed
  then show "read_record (Some (EFile (stale_data ff data))) = map_sum id (map_option superseded) (read_record (Some (EFile data)))"
    and "proper_record ff (Some (EFile (stale_data ff data)))"
    by (auto simp: read_record_def proper_record_def split: option.splits)
qed

lemma TrimSuffix_append [simp]: "TrimSuffix (s @ p) p = s"
  by (simp add: TrimSuffix_def HasSuffix_def)

lemma InvalidateOthers_nodes:
  fixes v hash
  assumes ok: "vstore_ok ff rt fs" and i: "plain i"
  defines "out \<equiv> InvalidateOthers ff (\<lambda>_. NoFault) rt i v hash fs"
  shows "fst out = Inr ()"
    and "CHR ''/'' \<notin> set h \<Longrightarrow> node (snd out) (vfile rt (i, v, h)) =
      (case node fs (vfile rt (i, v, h)) of
         Some (EFile data) \<Rightarrow> Some (EFile (if h = hash then data else stale_data ff data)) | e \<Rightarrow> e)"
    and "(\<forall>n. q \<noteq> vdir rt i v @ [n]) \<Longrightarrow> node (snd out) q = node fs q"
    and "node (snd out) q = node fs q \<or> (\<exists>x y. node fs q = Some x \<and> x \<noteq> EDir \<and> node (snd out) q = Some y \<and> y \<noteq> EDir)"
proof -
  let ?d = "vdir rt i v" and ?ys = "[i, ''policies'', Itoa v]"
  have t: "tree_ok fs" and d: "is_dir fs rt" and way: "clear_way fs rt ?ys"
    and ff: "CHR ''/'' \<notin> set h \<Longrightarrow> file_or_free fs (vfile rt (i, v, h))" for h
    using ok i unfolding vstore_ok_def key_ok.simps by (blast, blast, metis empty_iff empty_set, blast)
  have pl: "list_all plain ?ys" using i by (simp add: policies_plain Itoa_plain)
  have pd: "policy_dir rt i v = ?d" using i by (rule policy_dir_name)
  have "fst out = Inr () \<and> (CHR ''/'' \<notin> set h \<longrightarrow> node (snd out) (vfile rt (i, v, h)) =
      (case node fs (vfile rt (i, v, h)) of
         Some (EFile data) \<Rightarrow> Some (EFile (if h = hash then data else stale_data ff data)) | e \<Rightarrow> e)) \<and>
      ((\<forall>n. q \<noteq> ?d @ [n]) \<longrightarrow> node (snd out) q = node fs q) \<and>
      (node (snd out) q = node fs q \<or> (\<exists>x y. node fs q = Some x \<and> x \<noteq> EDir \<and> node (snd out) q = Some y \<and> y \<noteq> EDir))" for h q
  proof (cases "node fs ?d")
    case None
    have "node fs (?d @ [h @ ''.json'']) = None" using tree_ok_none [OF t None] by blast
    moreover obtain p where "walk fs 40 rt ?ys = Inl (p, ENOENT)"
      using walk_missing_way [OF d pl way, of 40 "[]"] None by (auto simp: vdir_def)
    then have "os_walk fs ?d = Inl (p, ENOENT)"
      using walk_dir [of fs "[]" rt 40 ?ys] d by (simp add: os_walk_def vdir_def)
    then have "out = (Inr (), fs)" by (simp add: out_def InvalidateOthers_def pd os_ReadDir_def path_error_def)
    ultimately show ?thesis by simp
  next
    case (Some e)
    have "node fs (rt @ ?ys) \<in> {None, Some EDir}" using way unfolding clear_way_def by (metis le_refl take_all_iff)
    with Some have some: "node fs ?d = Some EDir" by (simp add: vdir_def)
    have dir: "is_dir fs ?d" using is_dir_way [OF d pl way _ t] some by (simp add: vdir_def)
    let ?es = "map (\<lambda>n. (n, case node fs (?d @ [n]) of Some x \<Rightarrow> x | None \<Rightarrow> EDir)) (children fs ?d)"
    have run: "out = (Inr (), fold (invalidate_entry ff (\<lambda>_. NoFault) ?d hash) ?es fs)"
      using dir some by (simp add: out_def InvalidateOthers_def pd os_ReadDir_def Let_def)
    have child: "n \<in> set (children fs ?d) \<longleftrightarrow> node fs (?d @ [n]) \<noteq> None" for n by (simp add: children_iff node_def)
    have dist: "distinct (map fst ?es)" by (simp add: comp_def children_def)
    have es: "plain n \<and> node fs (?d @ [n]) = Some x" if "(n, x) \<in> set ?es" for n x
    proof -
      have "node fs (?d @ [n]) \<noteq> None" using that child by auto
      with tree_ok_plain [OF t this] that show ?thesis by auto
    qed
    note after = invalidate_nodes [OF dir dist es, where hash = hash and ff = ff and fault = "\<lambda>_. NoFault"]
    have "node (snd out) (vfile rt (i, v, h)) =
        (case node fs (vfile rt (i, v, h)) of
           Some (EFile data) \<Rightarrow> Some (EFile (if h = hash then data else stale_data ff data)) | e \<Rightarrow> e)" if h: "CHR ''/'' \<notin> set h"
    proof (cases "node fs (?d @ [h @ ''.json''])")
      case None
      then have "(h @ ''.json'', x) \<notin> set ?es" for x using child by auto
      then have "node (snd out) (?d @ [h @ ''.json'']) = None"
        using None after(1) [of "?d @ [h @ ''.json'']"] run by auto
      with None show ?thesis by simp
    next
      case (Some y)
      then obtain data where y: "node fs (?d @ [h @ ''.json'']) = Some (EFile data)"
        using ff [OF h] by (auto simp: file_or_free_def split: entry.splits)
      then have mem: "(h @ ''.json'', EFile data) \<in> set ?es" using child by force
      show ?thesis
      proof (cases "h = hash")
        case True
        then have "node (snd out) (?d @ [h @ ''.json'']) = node fs (?d @ [h @ ''.json''])"
          using after(1) [of "?d @ [h @ ''.json'']"] run by simp
        with True y show ?thesis by simp
      next
        case False
        then have "node (snd out) (?d @ [h @ ''.json'']) = Some (EFile (stale_data ff data))"
          using after(2) [OF _ mem] run by simp
        with False y show ?thesis by simp
      qed
    qed
    moreover have "node (snd out) q = node fs q" if "\<forall>n. q \<noteq> ?d @ [n]" using after(1) [of q] that run by simp
    moreover have "node (snd out) q = node fs q \<or> (\<exists>x y. node fs q = Some x \<and> x \<noteq> EDir \<and> node (snd out) q = Some y \<and> y \<noteq> EDir)"
    proof (cases "\<exists>n x. q = ?d @ [n] \<and> (n, x) \<in> set ?es \<and> x \<noteq> EDir")
      case True
      then obtain n x where q: "q = ?d @ [n]" and mem: "(n, x) \<in> set ?es" and x: "x \<noteq> EDir" by blast
      have "\<exists>y. node (snd out) q = Some y \<and> y \<noteq> EDir" using after(3) [OF _ mem x] run q by simp
      then show ?thesis using es [OF mem] x q by blast
    next
      case False
      then have "\<forall>n x. q = ?d @ [n] \<longrightarrow> (n, x) \<in> set ?es \<longrightarrow> x = EDir \<or> TrimSuffix n ''.json'' = hash" by blast
      then have "node (snd out) q = node fs q" using after(1) [of q] run by simp
      then show ?thesis ..
    qed
    moreover have "fst out = Inr ()" using run by simp
    ultimately show ?thesis by blast
  qed
  then show "fst out = Inr ()"
    and "CHR ''/'' \<notin> set h \<Longrightarrow> node (snd out) (vfile rt (i, v, h)) =
      (case node fs (vfile rt (i, v, h)) of
         Some (EFile data) \<Rightarrow> Some (EFile (if h = hash then data else stale_data ff data)) | e \<Rightarrow> e)"
    and "(\<forall>n. q \<noteq> ?d @ [n]) \<Longrightarrow> node (snd out) q = node fs q"
    and "node (snd out) q = node fs q \<or> (\<exists>x y. node fs q = Some x \<and> x \<noteq> EDir \<and> node (snd out) q = Some y \<and> y \<noteq> EDir)" by blast+
qed

lemma vdir_inj [simp]: "vdir rt i v = vdir rt i' v' \<longleftrightarrow> i = i' \<and> v = v'"
  by (auto simp: vdir_def)

lemma vstore_ok_invalidate:
  assumes ok: "vstore_ok ff rt fs" and i: "plain i"
  shows "vstore_ok ff rt (snd (InvalidateOthers ff (\<lambda>_. NoFault) rt i v hash fs))"
proof -
  let ?out = "snd (InvalidateOthers ff (\<lambda>_. NoFault) rt i v hash fs)" and ?d = "vdir rt i v"
  note nodes = InvalidateOthers_nodes [OF ok i, where v = v and hash = hash]
  have long: "length q \<le> length rt + 3 \<Longrightarrow> node ?out q = node fs q" for q
    by (rule nodes(3)) (auto simp: vdir_def)
  have t: "tree_ok fs" and d: "is_dir fs rt" using ok by (simp_all add: vstore_ok_def)
  have "is_dir ?out rt" by (rule is_dir_same_nodes [OF d]) (simp add: long)
  moreover have "clear_way ?out rt [i', ''policies'', Itoa v'] \<and> file_or_free ?out (vfile rt (i', v', h)) \<and>
      proper_record ff (node ?out (vfile rt (i', v', h)))" if k: "key_ok (i', v', h)" for i' v' h
  proof -
    have old: "clear_way fs rt [i', ''policies'', Itoa v']" "file_or_free fs (vfile rt (i', v', h))"
      "proper_record ff (node fs (vfile rt (i', v', h)))" using ok k unfolding vstore_ok_def by blast+
    have "node ?out (vfile rt (i', v', h)) = node fs (vfile rt (i', v', h)) \<or>
        (\<exists>data. node fs (vfile rt (i', v', h)) = Some (EFile data) \<and>
           node ?out (vfile rt (i', v', h)) = Some (EFile (stale_data ff data)))"
    proof (cases "i' = i \<and> v' = v")
      case True
      have "CHR ''/'' \<notin> set h" using k by simp
      from nodes(2) [OF this] show ?thesis using True old(2) by (auto elim!: file_or_free_cases simp del: vfile.simps)
    next
      case False
      then have "node ?out (vfile rt (i', v', h)) = node fs (vfile rt (i', v', h))" by (intro nodes(3)) auto
      then show ?thesis by blast
    qed
    then have "file_or_free ?out (vfile rt (i', v', h)) \<and> proper_record ff (node ?out (vfile rt (i', v', h)))"
      using old(2,3) read_stale(2) [of ff] by (auto simp: file_or_free_def simp del: vfile.simps)
    moreover have "clear_way ?out rt [i', ''policies'', Itoa v']"
      using old(1) by (simp add: clear_way_def long)
    ultimately show ?thesis by blast
  qed
  moreover have "tree_ok ?out"
  proof -
    have same: "node ?out q = Some EDir \<longleftrightarrow> node fs q = Some EDir" "node ?out q = None \<longleftrightarrow> node fs q = None" for q
      using nodes(4) [of q] by auto
    show ?thesis using t unfolding tree_ok_iff by (simp add: same)
  qed
  ultimately show ?thesis unfolding vstore_ok_def by blast
qed

section \<open>Properties\<close>

text \<open>
  C17: after any run of successful saves a skill id, policy version and bundle hash read the verdict saved
  last under them, exactly; a verdict never saved reads what it read before.
\<close>

theorem verdicts_read_back:
  assumes "vstore_ok ff rt fs" "list_all (acceptable_record ff) rs" "key_ok (i, v, h)"
  shows "vstore_Get rt i v h (fold (save_record ff rt) rs fs) =
    (case find (\<lambda>r. rec_key r = (i, v, h)) (rev rs) of
       Some r \<Rightarrow> Inr (Some r)
     | None \<Rightarrow> vstore_Get rt i v h fs)"
  using verdicts.lookup_saves [OF assms] unfolding read_key.simps .

definition demo_record :: Record where
  "demo_record = \<lparr>r_SkillID = ''s'', r_BundleHash = ''a1'', r_PolicyVersion = 2, r_Status = StatusApproved,
     r_Confidence = fzero, r_Reasons = [''fine''], r_Findings = [],
     r_CreatedAt = format_time (Time 2026 2 28 12 30 0 0)\<rparr>"

lemma demo_verdicts_ok: "vstore_ok ff [''v''] [([''v''], EDir)]"
  by (auto simp: vstore_ok_def is_dir_step plain_def node_def file_or_free_def clear_way_def proper_record_def
      tree_ok_iff vdir_def)

lemma demo_zero: "num_ok ''0'' \<and> ParseFloat ''0'' = Some fzero"
proof
  have "Itoa 0 = ''0''" by code_simp
  then show "num_ok ''0''" using num_ok_Itoa [of 0] by simp
  have "parse_decimal ''0'' = Some (False, 0)"
    by (simp add: parse_decimal_def is_digit_def HasPrefix_def parse_exp_def digits_val_def ten_pow_def)
  then show "ParseFloat ''0'' = Some fzero"
    by (simp add: ParseFloat_def fzero_def mk_float_def overflows_def round_mag_def)
qed

lemma demo_record_ok: "acceptable_record (\<lambda>_. ''0'') (demo_record\<lparr>r_BundleHash := h\<rparr>) \<longleftrightarrow> utf8_Valid h \<and> CHR ''/'' \<notin> set h"
proof -
  have "utf8_Valid ''s''" "utf8_Valid ''fine''" "status_ok StatusApproved" by code_simp+
  moreover have "float_text_ok (\<lambda>_. ''0'') fzero" by (simp add: float_text_ok_def demo_zero)
  moreover have "time_ok (Time 2026 2 28 12 30 0 0)" by (simp add: month_days_def leap_def)
  ultimately show ?thesis
    by (auto simp: acceptable_record_def record_ok_def rec_key_def demo_record_def fzero_def int64_def Record_marshals_def plain_def
        intro!: exI [of _ "Time 2026 2 28 12 30 0 0"])
qed

lemma demo_hashes: "utf8_Valid ''a1''" "utf8_Valid ''b2''"
  by code_simp+

lemma demo_record_hash: "demo_record\<lparr>r_BundleHash := ''a1''\<rparr> = demo_record"
  by (simp add: demo_record_def)

theorem verdicts_read_back_witness:
  "vstore_Get [''v''] ''s'' 2 ''a1'' (fold (save_record (\<lambda>_. ''0'') [''v''])
     [demo_record, demo_record\<lparr>r_BundleHash := ''b2''\<rparr>] [([''v''], EDir)]) = Inr (Some demo_record)"
proof -
  have ok: "list_all (acceptable_record (\<lambda>_. ''0'')) [demo_record, demo_record\<lparr>r_BundleHash := ''b2''\<rparr>]"
    using demo_record_ok [of "''a1''"] demo_record_ok [of "''b2''"] by (simp add: demo_hashes demo_record_hash)
  have "key_ok (''s'', 2, ''a1'')" by (simp add: plain_def)
  from verdicts_read_back [OF demo_verdicts_ok ok this] show ?thesis by (simp add: rec_key_def demo_record_def)
qed



end
