(* ===== verification/Calculator.thy ===== *)
theory Calculator
  imports Float64 Tools
begin

text \<open>
  \<^verbatim>\<open>pkg/tools/math/math.go\<close>: the calculator tool, a recursive-descent evaluator. The parser state is
  the position \<open>pos\<close> in the fixed input. Recursion takes fuel, \<open>None\<close> is out of fuel; \<open>Evaluate\<close>
  gives enough for every input, as \<open>Evaluate_total\<close> shows. \<open>math.Pow\<close>, \<open>math.Sqrt\<close> and the
  trigonometric functions of the platform and the two formats of \<open>strconv.FormatFloat\<close> are
  parameters, the record \<open>math_lib\<close>.
\<close>

record math_lib =
  ml_Pow :: "float64 \<Rightarrow> float64 \<Rightarrow> float64"
  ml_Sqrt :: "float64 \<Rightarrow> float64"
  ml_Sin :: "float64 \<Rightarrow> float64"
  ml_Cos :: "float64 \<Rightarrow> float64"
  ml_Tan :: "float64 \<Rightarrow> float64"
  ml_Format_f :: "float64 \<Rightarrow> string"
  ml_Format_g :: "float64 \<Rightarrow> string"

definition math_Pi :: float64 where
  "math_Pi = mk_float False (314159265358979323846264338327950288419716939937510 / 10 ^ 50)"

definition f180 :: float64 where "f180 = Fin False 180"

section \<open>The parser\<close>

type_synonym 'a parsed = "('a \<times> nat) result option"

definition skipSpace :: "string \<Rightarrow> nat \<Rightarrow> nat" where
  "skipSpace inp pos =
     pos + length (takeWhile (\<lambda>c. c = CHR '' '' \<or> c = char_of (9::nat)) (drop pos inp))"

definition peek :: "string \<Rightarrow> nat \<Rightarrow> char" where
  "peek inp pos = (if pos \<ge> length inp then char_of (0::nat) else inp ! pos)"

definition isIdentStart :: "char \<Rightarrow> bool" where
  "isIdentStart c =
     (let n = of_char c :: nat in 97 \<le> n \<and> n \<le> 122 \<or> 65 \<le> n \<and> n \<le> 90)"

definition isIdentPart :: "char \<Rightarrow> bool" where
  "isIdentPart c = (isIdentStart c \<or> is_digit c)"

definition num_char :: "char \<Rightarrow> bool" where
  "num_char c = (is_digit c \<or> c = CHR ''.'')"

text \<open>\<open>%q\<close> of a byte: a single-quoted Go character literal.\<close>

definition quote_byte :: "char \<Rightarrow> string" where
  "quote_byte c =
     [char_of (39::nat)] @ (if of_char c = (39::nat) then [char_of (92::nat), c]
                            else if of_char c = (34::nat) then [c] else quote_char c) @ [char_of (39::nat)]"

definition single_quoted :: "char \<Rightarrow> string" where
  "single_quoted c = [char_of (39::nat), c, char_of (39::nat)]"

definition unexpected_char :: "string \<Rightarrow> nat \<Rightarrow> go_error" where
  "unexpected_char inp pos =
     Err (''unexpected character '' @ quote_byte (peek inp pos) @ '' at position '' @ Itoa (int pos))"

definition parseNumber :: "string \<Rightarrow> nat \<Rightarrow> (float64 \<times> nat) result" where
  "parseNumber inp start =
     (let lexeme = takeWhile num_char (drop start inp)
      in case ParseFloat lexeme of
           None \<Rightarrow> Inl (Err (''invalid number '' @ quote lexeme))
         | Some v \<Rightarrow> Inr (v, start + length lexeme))"

text \<open>The last part of \<open>parseFunctionCall\<close>, after the argument and its closing parenthesis.\<close>

definition apply_function :: "math_lib \<Rightarrow> string \<Rightarrow> float64 \<Rightarrow> float64 result" where
  "apply_function ml name arg =
     (let rad = fdiv (fmul arg math_Pi) f180 in
      if name = ''sqrt'' then
        (if flt arg fzero then Inl (Err ''sqrt of a negative number'') else Inr (ml_Sqrt ml arg))
      else if name = ''sin'' then Inr (ml_Sin ml rad)
      else if name = ''cos'' then Inr (ml_Cos ml rad)
      else if name = ''tan'' then Inr (ml_Tan ml rad)
      else Inl (Err (''unknown function '' @ quote name)))"

text \<open>Sequencing: an error or missing fuel ends the parse.\<close>

definition andThen :: "'a parsed \<Rightarrow> ('a \<Rightarrow> nat \<Rightarrow> 'b parsed) \<Rightarrow> 'b parsed" where
  "andThen p k =
     (case p of
        None \<Rightarrow> None
      | Some (Inl e) \<Rightarrow> Some (Inl e)
      | Some (Inr (v, pos)) \<Rightarrow> k v pos)"

text \<open>
  The methods of \<open>parser\<close> call each other. Each is a definition over \<open>call\<close>, which performs a method
  call: \<open>call m pos\<close> runs method \<open>m\<close> at \<open>pos\<close>. The loops of \<open>parseExpr\<close> and \<open>parseTerm\<close> are methods
  of their own that carry the value so far. \<open>run_method\<close> ties the knot with fuel.
\<close>

datatype parse_call =
    MExpr | MExprLoop float64 | MTerm | MTermLoop float64 | MUnary | MPower | MAtom | MFunctionCall

type_synonym call = "parse_call \<Rightarrow> nat \<Rightarrow> float64 parsed"

definition parseExpr :: "call \<Rightarrow> nat \<Rightarrow> float64 parsed" where
  "parseExpr call pos = andThen (call MTerm pos) (\<lambda>v pos. call (MExprLoop v) pos)"

definition exprLoop :: "string \<Rightarrow> call \<Rightarrow> float64 \<Rightarrow> nat \<Rightarrow> float64 parsed" where
  "exprLoop inp call v pos0 =
     (let pos = skipSpace inp pos0 in
      if peek inp pos = CHR ''+'' then
        andThen (call MTerm (pos + 1)) (\<lambda>rhs pos. call (MExprLoop (fadd v rhs)) pos)
      else if peek inp pos = CHR ''-'' then
        andThen (call MTerm (pos + 1)) (\<lambda>rhs pos. call (MExprLoop (fsub v rhs)) pos)
      else Some (Inr (v, pos)))"

definition parseTerm :: "call \<Rightarrow> nat \<Rightarrow> float64 parsed" where
  "parseTerm call pos = andThen (call MUnary pos) (\<lambda>v pos. call (MTermLoop v) pos)"

definition termLoop :: "string \<Rightarrow> call \<Rightarrow> float64 \<Rightarrow> nat \<Rightarrow> float64 parsed" where
  "termLoop inp call v pos0 =
     (let pos = skipSpace inp pos0 in
      if peek inp pos = CHR ''*'' then
        andThen (call MUnary (pos + 1)) (\<lambda>rhs pos. call (MTermLoop (fmul v rhs)) pos)
      else if peek inp pos = CHR ''/'' then
        andThen (call MUnary (pos + 1)) (\<lambda>rhs pos.
          if feq rhs fzero then Some (Inl (Err ''division by zero''))
          else call (MTermLoop (fdiv v rhs)) pos)
      else Some (Inr (v, pos)))"

definition parseUnary :: "string \<Rightarrow> call \<Rightarrow> nat \<Rightarrow> float64 parsed" where
  "parseUnary inp call pos0 =
     (let pos = skipSpace inp pos0 in
      if peek inp pos = CHR ''+'' then call MUnary (pos + 1)
      else if peek inp pos = CHR ''-'' then
        andThen (call MUnary (pos + 1)) (\<lambda>v pos. Some (Inr (fneg v, pos)))
      else call MPower pos)"

definition parsePower :: "math_lib \<Rightarrow> string \<Rightarrow> call \<Rightarrow> nat \<Rightarrow> float64 parsed" where
  "parsePower ml inp call pos0 =
     andThen (call MAtom pos0) (\<lambda>base pos1.
       let pos = skipSpace inp pos1 in
       if peek inp pos = CHR ''^'' then
         andThen (call MUnary (pos + 1)) (\<lambda>ex pos. Some (Inr (ml_Pow ml base ex, pos)))
       else Some (Inr (base, pos)))"

definition parseAtom :: "string \<Rightarrow> call \<Rightarrow> nat \<Rightarrow> float64 parsed" where
  "parseAtom inp call pos0 =
     (let pos = skipSpace inp pos0; c = peek inp pos in
      if pos \<ge> length inp then Some (Inl (Err ''unexpected end of expression''))
      else if c = CHR ''('' then
        andThen (call MExpr (pos + 1)) (\<lambda>v pos1.
          let pos = skipSpace inp pos1 in
          if peek inp pos \<noteq> CHR '')'' then
            Some (Inl (Err (''expected '' @ single_quoted (CHR '')'') @ '' at position '' @ Itoa (int pos))))
          else Some (Inr (v, pos + 1)))
      else if num_char c then Some (parseNumber inp pos)
      else if isIdentStart c then call MFunctionCall pos
      else Some (Inl (unexpected_char inp pos)))"

definition parseFunctionCall :: "math_lib \<Rightarrow> string \<Rightarrow> call \<Rightarrow> nat \<Rightarrow> float64 parsed" where
  "parseFunctionCall ml inp call start =
     (let ident = takeWhile isIdentPart (drop start inp);
          name = ToLower ident;
          pos = skipSpace inp (start + length ident)
      in if peek inp pos \<noteq> CHR ''('' then
           Some (Inl (Err (''expected '' @ single_quoted (CHR ''('') @ '' after function name '' @ quote name)))
         else
           andThen (call MExpr (pos + 1)) (\<lambda>arg pos1.
             let pos = skipSpace inp pos1 in
             if peek inp pos \<noteq> CHR '')'' then
               Some (Inl (Err (''expected '' @ single_quoted (CHR '')'') @ '' after argument to '' @ quote name)))
             else (case apply_function ml name arg of
                     Inl e \<Rightarrow> Some (Inl e)
                   | Inr v \<Rightarrow> Some (Inr (v, pos + 1)))))"

definition run_body :: "math_lib \<Rightarrow> string \<Rightarrow> call \<Rightarrow> call" where
  "run_body ml inp call m pos =
     (case m of
        MExpr \<Rightarrow> parseExpr call pos
      | MExprLoop v \<Rightarrow> exprLoop inp call v pos
      | MTerm \<Rightarrow> parseTerm call pos
      | MTermLoop v \<Rightarrow> termLoop inp call v pos
      | MUnary \<Rightarrow> parseUnary inp call pos
      | MPower \<Rightarrow> parsePower ml inp call pos
      | MAtom \<Rightarrow> parseAtom inp call pos
      | MFunctionCall \<Rightarrow> parseFunctionCall ml inp call pos)"

primrec run_method :: "math_lib \<Rightarrow> string \<Rightarrow> nat \<Rightarrow> call" where
  "run_method ml inp 0 = (\<lambda>m pos. None)"
| "run_method ml inp (Suc n) = run_body ml inp (run_method ml inp n)"

text \<open>Eight calls are enough between two consumed bytes.\<close>

definition fuel_for :: "string \<Rightarrow> nat" where
  "fuel_for inp = 8 * length inp + 8"

definition andThen' :: "'a parsed \<Rightarrow> ('a \<Rightarrow> nat \<Rightarrow> 'b result) \<Rightarrow> 'b result option" where
  "andThen' p k =
     (case p of
        None \<Rightarrow> None
      | Some (Inl e) \<Rightarrow> Some (Inl e)
      | Some (Inr (v, pos)) \<Rightarrow> Some (k v pos))"

definition Evaluate :: "math_lib \<Rightarrow> string \<Rightarrow> float64 result option" where
  "Evaluate ml expr =
     andThen' (run_method ml expr (fuel_for expr) MExpr (skipSpace expr 0)) (\<lambda>v pos0.
       let pos = skipSpace expr pos0 in
       if pos \<noteq> length expr then Inl (unexpected_char expr pos) else Inr v)"

definition formatResult :: "math_lib \<Rightarrow> float64 \<Rightarrow> string" where
  "formatResult ml v = (if is_whole v \<and> \<not> is_inf v then ml_Format_f ml v else ml_Format_g ml v)"

section \<open>Positions and fuel\<close>

text \<open>The methods that return only after consuming a byte; the two loops may return at once.\<close>

fun consumes :: "parse_call \<Rightarrow> nat" where
  "consumes (MExprLoop _) = 0"
| "consumes (MTermLoop _) = 0"
| "consumes _ = 1"

definition advances :: "string \<Rightarrow> call \<Rightarrow> bool" where
  "advances inp call \<longleftrightarrow>
     (\<forall>m pos v pos'. pos \<le> length inp \<longrightarrow> call m pos = Some (Inr (v, pos')) \<longrightarrow>
        pos + consumes m \<le> pos' \<and> pos' \<le> length inp)"

lemma andThen_Some_Inr [simp]:
  "andThen p k = Some (Inr r) \<longleftrightarrow> (\<exists>v pos. p = Some (Inr (v, pos)) \<and> k v pos = Some (Inr r))"
  by (auto simp: andThen_def split: option.splits sum.splits prod.splits)

lemma andThen_None [simp]:
  "andThen p k = None \<longleftrightarrow> p = None \<or> (\<exists>v pos. p = Some (Inr (v, pos)) \<and> k v pos = None)"
  by (auto simp: andThen_def split: option.splits sum.splits prod.splits)

lemma skipSpace_ge: "pos \<le> skipSpace inp pos"
  by (simp add: skipSpace_def)

lemma skipSpace_le: "pos \<le> length inp \<Longrightarrow> skipSpace inp pos \<le> length inp"
  using length_takeWhile_le [of "\<lambda>c. c = CHR '' '' \<or> c = char_of (9::nat)" "drop pos inp"]
  by (simp add: skipSpace_def)

lemma peek_less: "peek inp pos = c \<Longrightarrow> of_char c \<noteq> (0::nat) \<Longrightarrow> pos < length inp"
  by (auto simp: peek_def split: if_splits)

lemma peek_op_less [dest]:
  "peek inp pos = CHR ''+'' \<Longrightarrow> pos < length inp" "peek inp pos = CHR ''-'' \<Longrightarrow> pos < length inp"
  "peek inp pos = CHR ''*'' \<Longrightarrow> pos < length inp" "peek inp pos = CHR ''/'' \<Longrightarrow> pos < length inp"
  "peek inp pos = CHR ''^'' \<Longrightarrow> pos < length inp" "peek inp pos = CHR ''('' \<Longrightarrow> pos < length inp"
  "peek inp pos = CHR '')'' \<Longrightarrow> pos < length inp"
  by (auto dest: peek_less)

lemma advancesD:
  "advances inp call \<Longrightarrow> call m pos = Some (Inr (v, pos')) \<Longrightarrow> pos \<le> length inp \<Longrightarrow>
   pos + consumes m \<le> pos' \<and> pos' \<le> length inp"
  by (simp add: advances_def)

lemma after_space:
  "pos \<le> length inp \<Longrightarrow> q = skipSpace inp pos \<Longrightarrow> pos \<le> q \<and> q \<le> length inp"
  by (simp add: skipSpace_le skipSpace_ge)

lemma parseNumber_advances:
  "parseNumber inp pos = Inr (v, pos') \<Longrightarrow> pos < length inp \<Longrightarrow> num_char (peek inp pos) \<Longrightarrow>
   pos + 1 \<le> pos' \<and> pos' \<le> length inp"
proof -
  assume p: "parseNumber inp pos = Inr (v, pos')" and l: "pos < length inp" and c: "num_char (peek inp pos)"
  from p have pos': "pos' = pos + length (takeWhile num_char (drop pos inp))"
    by (auto simp: parseNumber_def Let_def split: option.splits)
  from l c have "takeWhile num_char (drop pos inp) \<noteq> []"
    by (simp add: Cons_nth_drop_Suc [symmetric] peek_def)
  then show ?thesis
    using pos' l length_takeWhile_le [of num_char "drop pos inp"]
    by (cases "takeWhile num_char (drop pos inp)") auto
qed

lemma advances2:
  assumes "advances inp call" "call m1 p = Some (Inr (v, p1))" "call m2 p1 = Some (Inr (r, q))" "p \<le> length inp"
  shows "p + consumes m1 + consumes m2 \<le> q \<and> q \<le> length inp"
  using advancesD [OF assms(1,2,4)] advancesD [OF assms(1,3)] by linarith

lemma exprLoop_advances:
  assumes "advances inp call" "pos \<le> length inp" "exprLoop inp call v pos = Some (Inr (r, q))"
  shows "pos \<le> q \<and> q \<le> length inp"
proof -
  let ?p = "skipSpace inp pos"
  from assms(3) consider "q = ?p"
    | (op) x p1 m2 where "?p < length inp" "call MTerm (?p + 1) = Some (Inr (x, p1))" "call m2 p1 = Some (Inr (r, q))"
    by (auto simp: exprLoop_def Let_def split: if_splits dest: peek_op_less)
  then show ?thesis
  proof cases
    case op
    with advances2 [OF assms(1) op(2,3)] after_space [OF assms(2) refl] show ?thesis by simp
  qed (use after_space [OF assms(2) refl] in simp)
qed

lemma termLoop_advances:
  assumes "advances inp call" "pos \<le> length inp" "termLoop inp call v pos = Some (Inr (r, q))"
  shows "pos \<le> q \<and> q \<le> length inp"
proof -
  let ?p = "skipSpace inp pos"
  from assms(3) consider "q = ?p"
    | (op) x p1 m2 where "?p < length inp" "call MUnary (?p + 1) = Some (Inr (x, p1))" "call m2 p1 = Some (Inr (r, q))"
    by (auto simp: termLoop_def Let_def split: if_splits dest: peek_op_less)
  then show ?thesis
  proof cases
    case op
    with advances2 [OF assms(1) op(2,3)] after_space [OF assms(2) refl] show ?thesis by simp
  qed (use after_space [OF assms(2) refl] in simp)
qed

lemma parseUnary_advances:
  assumes "advances inp call" "pos \<le> length inp" "parseUnary inp call pos = Some (Inr (r, q))"
  shows "pos + 1 \<le> q \<and> q \<le> length inp"
proof -
  let ?p = "skipSpace inp pos"
  have p: "pos \<le> ?p" "?p \<le> length inp" using after_space [OF assms(2) refl] by auto
  from assms(3) consider (sign) x where "?p < length inp" "call MUnary (?p + 1) = Some (Inr (x, q))"
    | (power) "call MPower ?p = Some (Inr (r, q))"
    by (auto simp: parseUnary_def Let_def split: if_splits dest: peek_op_less)
  then show ?thesis
  proof cases
    case sign
    with advancesD [OF assms(1) sign(2)] p show ?thesis by simp
  next
    case power
    then show ?thesis using advancesD [OF assms(1) power p(2)] p by simp
  qed
qed

lemma parsePower_advances:
  assumes "advances inp call" "pos \<le> length inp" "parsePower ml inp call pos = Some (Inr (r, q))"
  shows "pos + 1 \<le> q \<and> q \<le> length inp"
proof -
  from assms(3) obtain b p1 where b: "call MAtom pos = Some (Inr (b, p1))"
    by (auto simp: parsePower_def)
  from advancesD [OF assms(1) this assms(2)] have p1: "pos + 1 \<le> p1" "p1 \<le> length inp" by auto
  let ?p = "skipSpace inp p1"
  have p: "p1 \<le> ?p" "?p \<le> length inp" using after_space [OF p1(2) refl] by auto
  from assms(3) b consider "q = ?p" | (op) x where "?p < length inp" "call MUnary (?p + 1) = Some (Inr (x, q))"
    by (auto simp: parsePower_def Let_def split: if_splits dest: peek_op_less)
  then show ?thesis
  proof cases
    case op
    with advancesD [OF assms(1) op(2)] p p1 show ?thesis by simp
  qed (use p p1 in simp)
qed

lemma parseFunctionCall_advances:
  assumes "advances inp call" "pos \<le> length inp" "parseFunctionCall ml inp call pos = Some (Inr (r, q))"
  shows "pos + 1 \<le> q \<and> q \<le> length inp"
proof -
  let ?i = "length (takeWhile isIdentPart (drop pos inp))"
  have i: "pos + ?i \<le> length inp"
    using assms(2) length_takeWhile_le [of isIdentPart "drop pos inp"] by simp
  let ?p = "skipSpace inp (pos + ?i)"
  have p: "pos \<le> ?p" using skipSpace_ge [of "pos + ?i" inp] by simp
  from assms(3) obtain a p1 where a: "peek inp ?p = CHR ''(''" "call MExpr (?p + 1) = Some (Inr (a, p1))"
      "peek inp (skipSpace inp p1) = CHR '')''" "q = skipSpace inp p1 + 1"
    by (auto simp: parseFunctionCall_def Let_def split: if_splits sum.splits)
  from a(1) have "?p < length inp" by (rule peek_op_less)
  with advancesD [OF assms(1) a(2)] have p1: "?p + 2 \<le> p1" "p1 \<le> length inp" by auto
  from a(3) have "skipSpace inp p1 < length inp" by (rule peek_op_less)
  with p p1 a(4) skipSpace_ge [of p1 inp] show ?thesis by linarith
qed

lemma parseAtom_advances:
  assumes "advances inp call" "pos \<le> length inp" "parseAtom inp call pos = Some (Inr (r, q))"
  shows "pos + 1 \<le> q \<and> q \<le> length inp"
proof -
  let ?p = "skipSpace inp pos"
  have p: "pos \<le> ?p" by (rule skipSpace_ge)
  from assms(3) have len: "?p < length inp"
    by (auto simp: parseAtom_def Let_def split: if_splits)
  consider (par) "peek inp ?p = CHR ''(''"
    | (num) "peek inp ?p \<noteq> CHR ''(''" "num_char (peek inp ?p)"
    | (fn) "peek inp ?p \<noteq> CHR ''(''" "\<not> num_char (peek inp ?p)"
    by blast
  then show ?thesis
  proof cases
    case par
    with assms(3) len obtain a p1 where a: "call MExpr (?p + 1) = Some (Inr (a, p1))"
        "peek inp (skipSpace inp p1) = CHR '')''" "q = skipSpace inp p1 + 1"
      by (auto simp: parseAtom_def Let_def split: if_splits)
    with advancesD [OF assms(1) a(1)] len have p1: "?p + 2 \<le> p1" "p1 \<le> length inp" by auto
    from a(2) have "skipSpace inp p1 < length inp" by (rule peek_op_less)
    with p p1 a(3) skipSpace_ge [of p1 inp] show ?thesis by linarith
  next
    case num
    with assms(3) len have "parseNumber inp ?p = Inr (r, q)"
      by (auto simp: parseAtom_def Let_def)
    from parseNumber_advances [OF this len num(2)] p show ?thesis by linarith
  next
    case fn
    with assms(3) len have c: "call MFunctionCall ?p = Some (Inr (r, q))"
      by (auto simp: parseAtom_def Let_def split: if_splits)
    from advancesD [OF assms(1) c] len p show ?thesis by simp
  qed
qed

lemma run_body_advances: "advances inp call \<Longrightarrow> advances inp (run_body ml inp call)"
  unfolding advances_def [of inp "run_body ml inp call"]
proof (intro allI impI)
  fix m pos v q
  assume a: "advances inp call" and pos: "pos \<le> length inp"
    and r: "run_body ml inp call m pos = Some (Inr (v, q))"
  show "pos + consumes m \<le> q \<and> q \<le> length inp"
  proof (cases m)
    case MExpr
    with r obtain w p1 where "call MTerm pos = Some (Inr (w, p1))" "call (MExprLoop w) p1 = Some (Inr (v, q))"
      by (auto simp: run_body_def parseExpr_def)
    with advances2 [OF a this pos] MExpr show ?thesis by simp
  next
    case MTerm
    with r obtain w p1 where "call MUnary pos = Some (Inr (w, p1))" "call (MTermLoop w) p1 = Some (Inr (v, q))"
      by (auto simp: run_body_def parseTerm_def)
    with advances2 [OF a this pos] MTerm show ?thesis by simp
  qed (use r exprLoop_advances [OF a pos] termLoop_advances [OF a pos] parseUnary_advances [OF a pos]
        parsePower_advances [OF a pos] parseAtom_advances [OF a pos] parseFunctionCall_advances [OF a pos]
        in \<open>simp_all add: run_body_def\<close>)
qed

lemma run_method_advances: "advances inp (run_method ml inp n)"
proof (induction n)
  case 0
  then show ?case by (simp add: advances_def)
next
  case (Suc n)
  then show ?case by (simp add: run_body_advances)
qed

text \<open>
  Fuel: between two consumed bytes the calls go down the grammar, so a method needs at most its own
  weight on top of eight units for each byte that is left.
\<close>

fun weight :: "parse_call \<Rightarrow> nat" where
  "weight MExpr = 7"
| "weight (MExprLoop _) = 6"
| "weight MTerm = 5"
| "weight (MTermLoop _) = 4"
| "weight MUnary = 4"
| "weight MPower = 3"
| "weight MAtom = 2"
| "weight MFunctionCall = 1"

definition fuelled :: "string \<Rightarrow> nat \<Rightarrow> call \<Rightarrow> bool" where
  "fuelled inp n call \<longleftrightarrow>
     (\<forall>m pos. pos \<le> length inp \<longrightarrow> 8 * (length inp - pos) + weight m \<le> n \<longrightarrow> call m pos \<noteq> None)"

lemma fuelledD:
  "fuelled inp n call \<Longrightarrow> pos \<le> length inp \<Longrightarrow> 8 * (length inp - pos) + weight m \<le> n \<Longrightarrow> call m pos \<noteq> None"
  by (simp add: fuelled_def)

lemma weight_le: "weight m \<le> 7" and weight_pos: "0 < weight m"
  by (cases m; simp)+

text \<open>A call below the current method may start further right, or at the same byte with less weight.\<close>

definition calls_ok :: "string \<Rightarrow> call \<Rightarrow> nat \<Rightarrow> nat \<Rightarrow> bool" where
  "calls_ok inp call w pos \<longleftrightarrow>
     (\<forall>m p. p \<le> length inp \<longrightarrow> (pos < p \<or> pos \<le> p \<and> weight m < w) \<longrightarrow> call m p \<noteq> None)"

lemma fuelled_calls_ok:
  assumes "fuelled inp n call" "8 * (length inp - pos) + w \<le> Suc n" "0 < w"
  shows "calls_ok inp call w pos"
  unfolding calls_ok_def
proof (intro allI impI)
  fix m p
  assume p: "p \<le> length inp" and c: "pos < p \<or> pos \<le> p \<and> weight m < w"
  have "8 * (length inp - p) + weight m \<le> n"
    using c assms(2,3) p weight_le [of m] by (elim disjE conjE) linarith+
  with fuelledD [OF assms(1) p] show "call m p \<noteq> None" by blast
qed

lemma calls_okD:
  "calls_ok inp call w pos \<Longrightarrow> p \<le> length inp \<Longrightarrow> pos < p \<Longrightarrow> call m p \<noteq> None"
  "calls_ok inp call w pos \<Longrightarrow> p \<le> length inp \<Longrightarrow> pos \<le> p \<Longrightarrow> weight m < w \<Longrightarrow> call m p \<noteq> None"
  by (auto simp: calls_ok_def)

lemma exprLoop_fuel:
  assumes ok: "calls_ok inp call w pos" and adv: "advances inp call" and pos: "pos \<le> length inp"
  shows "exprLoop inp call v pos \<noteq> None"
proof
  let ?p = "skipSpace inp pos"
  assume "exprLoop inp call v pos = None"
  then have l: "?p < length inp" and
    "call MTerm (?p + 1) = None \<or>
      (\<exists>x p1 m. call MTerm (?p + 1) = Some (Inr (x, p1)) \<and> call m p1 = None)"
    by (auto simp: exprLoop_def Let_def split: if_splits)
  moreover have s: "pos \<le> ?p" by (rule skipSpace_ge)
  then have "call MTerm (?p + 1) \<noteq> None" using calls_okD(1) [OF ok] l by simp
  ultimately obtain x p1 m where c: "call MTerm (?p + 1) = Some (Inr (x, p1))" "call m p1 = None" by blast
  from advancesD [OF adv c(1)] l s have "pos < p1" "p1 \<le> length inp" by auto
  with calls_okD(1) [OF ok] c(2) show False by blast
qed

lemma termLoop_fuel:
  assumes ok: "calls_ok inp call w pos" and adv: "advances inp call" and pos: "pos \<le> length inp"
  shows "termLoop inp call v pos \<noteq> None"
proof
  let ?p = "skipSpace inp pos"
  assume "termLoop inp call v pos = None"
  then have l: "?p < length inp" and
    "call MUnary (?p + 1) = None \<or>
      (\<exists>x p1 m. call MUnary (?p + 1) = Some (Inr (x, p1)) \<and> call m p1 = None)"
    by (auto simp: termLoop_def Let_def split: if_splits)
  moreover have s: "pos \<le> ?p" by (rule skipSpace_ge)
  then have "call MUnary (?p + 1) \<noteq> None" using calls_okD(1) [OF ok] l by simp
  ultimately obtain x p1 m where c: "call MUnary (?p + 1) = Some (Inr (x, p1))" "call m p1 = None" by blast
  from advancesD [OF adv c(1)] l s have "pos < p1" "p1 \<le> length inp" by auto
  with calls_okD(1) [OF ok] c(2) show False by blast
qed

lemma parseUnary_fuel:
  assumes ok: "calls_ok inp call 4 pos" and pos: "pos \<le> length inp"
  shows "parseUnary inp call pos \<noteq> None"
proof
  let ?p = "skipSpace inp pos"
  have s: "pos \<le> ?p" "?p \<le> length inp" using after_space [OF pos refl] by auto
  assume "parseUnary inp call pos = None"
  then have "?p < length inp \<and> call MUnary (?p + 1) = None \<or> call MPower ?p = None"
    by (auto simp: parseUnary_def Let_def split: if_splits)
  with calls_okD(1) [OF ok, of "?p + 1" MUnary] calls_okD(2) [OF ok, of ?p MPower] s
  show False by auto
qed

lemma parsePower_fuel:
  assumes ok: "calls_ok inp call 3 pos" and adv: "advances inp call" and pos: "pos \<le> length inp"
  shows "parsePower ml inp call pos \<noteq> None"
proof
  assume "parsePower ml inp call pos = None"
  moreover have "call MAtom pos \<noteq> None" using calls_okD(2) [OF ok pos] by simp
  ultimately obtain b p1 where c: "call MAtom pos = Some (Inr (b, p1))"
      "skipSpace inp p1 < length inp" "call MUnary (skipSpace inp p1 + 1) = None"
    by (auto simp: parsePower_def Let_def split: if_splits)
  from advancesD [OF adv c(1) pos] skipSpace_ge [of p1 inp] have "pos < skipSpace inp p1 + 1" by simp
  with calls_okD(1) [OF ok, of "skipSpace inp p1 + 1" MUnary] c(2,3) show False by simp
qed

lemma parseAtom_fuel:
  assumes ok: "calls_ok inp call 2 pos"
  shows "parseAtom inp call pos \<noteq> None"
proof
  let ?p = "skipSpace inp pos"
  have s: "pos \<le> ?p" by (rule skipSpace_ge)
  assume "parseAtom inp call pos = None"
  then have "?p < length inp" "call MExpr (?p + 1) = None \<or> call MFunctionCall ?p = None"
    by (auto simp: parseAtom_def Let_def split: if_splits)
  with calls_okD(1) [OF ok, of "?p + 1" MExpr] calls_okD(2) [OF ok, of ?p MFunctionCall] s
  show False by auto
qed

lemma parseFunctionCall_fuel:
  assumes ok: "calls_ok inp call 1 pos"
  shows "parseFunctionCall ml inp call pos \<noteq> None"
proof
  let ?p = "skipSpace inp (pos + length (takeWhile isIdentPart (drop pos inp)))"
  have s: "pos \<le> ?p" using skipSpace_ge [of "pos + length (takeWhile isIdentPart (drop pos inp))" inp] by simp
  assume "parseFunctionCall ml inp call pos = None"
  then have "?p < length inp" "call MExpr (?p + 1) = None"
    by (auto simp: parseFunctionCall_def Let_def split: if_splits sum.splits)
  with calls_okD(1) [OF ok, of "?p + 1" MExpr] s show False by auto
qed

lemma run_body_fuel:
  assumes f: "fuelled inp n call" and adv: "advances inp call"
  shows "fuelled inp (Suc n) (run_body ml inp call)"
  unfolding fuelled_def
proof (intro allI impI)
  fix m pos
  assume pos: "pos \<le> length inp" and w: "8 * (length inp - pos) + weight m \<le> Suc n"
  note ok = fuelled_calls_ok [OF f w weight_pos]
  show "run_body ml inp call m pos \<noteq> None"
  proof (cases m)
    case MExpr
    from calls_okD(2) [OF ok pos] MExpr have t: "call MTerm pos \<noteq> None" by simp
    have "call (MExprLoop v) p \<noteq> None" if "call MTerm pos = Some (Inr (v, p))" for v p
      using advancesD [OF adv that pos] calls_okD(1) [OF ok, of p] by simp
    with t MExpr show ?thesis by (auto simp: run_body_def parseExpr_def)
  next
    case MTerm
    from calls_okD(2) [OF ok pos] MTerm have t: "call MUnary pos \<noteq> None" by simp
    have "call (MTermLoop v) p \<noteq> None" if "call MUnary pos = Some (Inr (v, p))" for v p
      using advancesD [OF adv that pos] calls_okD(1) [OF ok, of p] by simp
    with t MTerm show ?thesis by (auto simp: run_body_def parseTerm_def)
  next
    case (MExprLoop v)
    with exprLoop_fuel [OF ok adv pos] show ?thesis by (simp add: run_body_def)
  next
    case (MTermLoop v)
    with termLoop_fuel [OF ok adv pos] show ?thesis by (simp add: run_body_def)
  qed (use ok pos adv in \<open>simp_all add: run_body_def parseUnary_fuel parsePower_fuel parseAtom_fuel
        parseFunctionCall_fuel del: not_None_eq\<close>)
qed

lemma run_method_fuel: "fuelled inp n (run_method ml inp n)"
proof (induction n)
  case 0
  then show ?case by (simp add: fuelled_def weight_pos)
next
  case (Suc n)
  from run_body_fuel [OF Suc run_method_advances] show ?case by simp
qed

text \<open>Every input gets an answer: the fuel never runs out.\<close>

lemma run_Expr_returns:
  assumes "pos \<le> length inp"
  shows "run_method ml inp (fuel_for inp) MExpr pos \<noteq> None"
  by (rule fuelledD [OF run_method_fuel assms]) (simp add: fuel_for_def)

lemma Evaluate_returns: "Evaluate ml expr \<noteq> None"
  using run_Expr_returns [OF skipSpace_le, of 0 expr ml]
  by (auto simp: Evaluate_def andThen'_def Let_def split: sum.split)

section \<open>The tool\<close>

definition Calculator_Execute ::
  "math_lib \<Rightarrow> (string \<times> json) list \<Rightarrow> InvocationMeta \<Rightarrow> 'w \<Rightarrow> string result option \<times> 'w"
where
  "Calculator_Execute ml args meta w =
     ((let expression = (case map_of args ''expression'' of
                           None \<Rightarrow> Inr []
                         | Some raw \<Rightarrow>
                             (case dec_string [] raw of
                                None \<Rightarrow> Inl (Wrap ''invalid expression argument: '' (mismatch (json_kind raw) ''string'') [])
                              | Some s \<Rightarrow> Inr s))
       in case expression of
            Inl e \<Rightarrow> Some (Inl e)
          | Inr s \<Rightarrow>
              (case Evaluate ml s of
                 None \<Rightarrow> None
               | Some (Inl e) \<Rightarrow> Some (Inl e)
               | Some (Inr v) \<Rightarrow> Some (Inr (formatResult ml v)))), w)"

lemma Calculator_Execute_returns: "\<exists>r. Calculator_Execute ml args meta w = (Some r, w)"
proof -
  have "\<exists>r. Evaluate ml s = Some r" for s
    using Evaluate_returns [of ml s] by blast
  then obtain f where "\<And>s. Evaluate ml s = Some (f s)" by metis
  then show ?thesis
    by (auto simp: Calculator_Execute_def Let_def split: option.split sum.split)
qed

section \<open>Properties\<close>

text \<open>
  C29: the calculator answers every expression, with a value or an error: the recursion of the parser
  is bounded by the input, and no input makes it loop.
\<close>

theorem Evaluate_total: "\<exists>r. Evaluate ml expr = Some r"
  using Evaluate_returns by blast

end
