(* ===== verification/Codex_Auth.thy ===== *)
theory Codex_Auth
  imports Session Http_Client Float64
begin

text \<open>
  The account of the Codex provider (\<^verbatim>\<open>pkg/providers/codex/token.go\<close>, \<^verbatim>\<open>oauth.go\<close>): the token file, the device
  flow that links an account, and the exchange and refresh of tokens. The HTTP client is a parameter, and so is
  the wait between two polls, which ends early when the context is done.
\<close>

section \<open>token.go\<close>

record Token =
  to_AccessToken :: string
  to_RefreshToken :: string
  to_AccountID :: string
  to_ExpiresAt :: int

definition zero_Token :: Token where
  "zero_Token = \<lparr>to_AccessToken = [], to_RefreshToken = [], to_AccountID = [], to_ExpiresAt = 0\<rparr>"

definition enc_Token :: "Token \<Rightarrow> json" where
  "enc_Token t = JObj (
     fld ''accessToken'' (JStr (to_AccessToken t)) @
     fld ''refreshToken'' (JStr (to_RefreshToken t)) @
     fld ''accountId'' (JStr (to_AccountID t)) @
     fld ''expiresAt'' (JNum (Itoa (to_ExpiresAt t))))"

definition dec_Token :: "Token decoder" where
  "dec_Token cur j =
     Option.bind (members j) (\<lambda>ms.
     Option.bind (dec_field ''accessToken'' dec_string (to_AccessToken cur) ms) (\<lambda>a.
     Option.bind (dec_field ''refreshToken'' dec_string (to_RefreshToken cur) ms) (\<lambda>r.
     Option.bind (dec_field ''accountId'' dec_string (to_AccountID cur) ms) (\<lambda>i.
     Option.bind (dec_field ''expiresAt'' dec_int (to_ExpiresAt cur) ms) (\<lambda>e.
       Some \<lparr>to_AccessToken = a, to_RefreshToken = r, to_AccountID = i, to_ExpiresAt = e\<rparr>)))))"

text \<open>A \<open>TokenStore\<close> is its path.\<close>

definition token_Load :: "path \<Rightarrow> fs \<Rightarrow> Token option result" where
  "token_Load p fs =
     (case os_ReadFile fs p of
        Inl e \<Rightarrow> (if is_not_exist e then Inr None else Inl (Wrap ''codex: read token: '' e []))
      | Inr data \<Rightarrow>
          (case unmarshal zero_Token dec_Token data of
             None \<Rightarrow> Inl (Wrap ''codex: decode token: '' (Err ''json: error'') [])
           | Some t \<Rightarrow> Inr (Some t)))"

definition token_Save :: "write_fault \<Rightarrow> path \<Rightarrow> Token \<Rightarrow> fs \<Rightarrow> unit result \<times> fs" where
  "token_Save fault p tok fs =
     (case os_MkdirAll fs (butlast p) of
        (Inl e, fs1) \<Rightarrow> (Inl (Wrap ''codex: '' e []), fs1)
      | (Inr _, fs1) \<Rightarrow>
          (case writeFileAtomic fault p (MarshalIndent (enc_Token tok)) fs1 of
             (Inl e, fs2) \<Rightarrow> (Inl (Wrap ''codex: '' e []), fs2)
           | (Inr _, fs2) \<Rightarrow> (Inr (), fs2)))"

section \<open>oauth.go\<close>

definition clientID :: string where
  "clientID = ''app_EMoamEEZ73f0CkXaXp7hrann''"

definition issuer :: string where
  "issuer = ''https://auth.openai.com''"

definition redirectURI :: string where
  "redirectURI = issuer @ ''/deviceauth/callback''"

definition verificationURL :: string where
  "verificationURL = ''https://auth.openai.com/codex/device''"

definition maxPollAttempts :: nat where
  "maxPollAttempts = 60"

text \<open>In seconds.\<close>

definition defaultPollInterval :: int where
  "defaultPollInterval = 5"

definition refreshBufferSecs :: int where
  "refreshBufferSecs = 300"

definition userCodeURL :: string where
  "userCodeURL = issuer @ ''/api/accounts/deviceauth/usercode''"

definition tokenPollURL :: string where
  "tokenPollURL = issuer @ ''/api/accounts/deviceauth/token''"

definition oauthTokenURL :: string where
  "oauthTokenURL = issuer @ ''/oauth/token''"

text \<open>The interval is in seconds; a product that leaves 64 bits wraps in the code.\<close>

record DeviceAuth =
  da_DeviceAuthID :: string
  da_UserCode :: string
  da_VerificationURL :: string
  da_Interval :: int

subsection \<open>Values of any type\<close>

text \<open>
  \<open>json.Unmarshal\<close> into \<open>map[string]any\<close> rejects a number out of the range of \<open>float64\<close>; of equal keys the last
  counts; \<open>null\<close> leaves the map nil.
\<close>

fun any_ok :: "json \<Rightarrow> bool" where
  "any_ok (JNum l) = (case ParseFloat l of Some (Fin _ _) \<Rightarrow> True | _ \<Rightarrow> False)"
| "any_ok (JArr vs) = list_all any_ok vs"
| "any_ok (JObj ms) = list_all (\<lambda>(k, v). any_ok v) ms"
| "any_ok _ = True"

definition any_map :: "string \<Rightarrow> (string \<times> json) list option" where
  "any_map data =
     (case json_parse data of
        Some (JObj ms) \<Rightarrow> (if any_ok (JObj ms) then Some (rev ms) else None)
      | Some JNull \<Rightarrow> Some []
      | _ \<Rightarrow> None)"

definition string_at :: "(string \<times> json) list \<Rightarrow> string \<Rightarrow> string" where
  "string_at m k = (case map_of m k of Some (JStr s) \<Rightarrow> s | _ \<Rightarrow> [])"

text \<open>\<open>int64(n)\<close> of a \<open>float64\<close>: towards zero; out of range it is the minimum, as on amd64.\<close>

fun int64_of :: "float64 \<Rightarrow> int" where
  "int64_of (Fin s a) =
     (let n = (if s then - \<lfloor>a\<rfloor> else \<lfloor>a\<rfloor>) in if - (2 ^ 63) \<le> n \<and> n < 2 ^ 63 then n else - (2 ^ 63))"
| "int64_of _ = - (2 ^ 63)"

definition toInt64 :: "json option \<Rightarrow> int option" where
  "toInt64 v =
     (case v of
        Some (JNum l) \<Rightarrow> map_option int64_of (ParseFloat l)
      | Some (JStr s) \<Rightarrow> ParseInt64 s
      | _ \<Rightarrow> None)"

definition post_json :: "'w http_client \<Rightarrow> string \<Rightarrow> (string \<times> json) list \<Rightarrow> http_request result" where
  "post_json hc url ms =
     (case hc_NewRequest hc ''POST'' url of
        Some e \<Rightarrow> Inl e
      | None \<Rightarrow> Inr \<lparr>hq_Method = ''POST'', hq_URL = url, hq_Header = [(''Content-Type'', ''application/json'')],
                    hq_Body = json_print (JObj ms)\<rparr>)"

definition StartDeviceFlow :: "'w http_client \<Rightarrow> 'w \<Rightarrow> DeviceAuth result \<times> 'w" where
  "StartDeviceFlow hc w =
     (case post_json hc userCodeURL (fld ''client_id'' (JStr clientID)) of
        Inl e \<Rightarrow> (Inl (Wrap ''codex: build device flow request: '' e []), w)
      | Inr req \<Rightarrow>
          (case hc_Do hc req w of
             (Inl e, w1) \<Rightarrow> (Inl (Wrap ''codex: start device flow: '' e []), w1)
           | (Inr resp, w1) \<Rightarrow>
               (case ReadAll resp of
                  Inl e \<Rightarrow> Inl (Wrap ''codex: read device flow response: '' e [])
                | Inr body \<Rightarrow>
                    (if hp_Status resp \<ge> 300
                     then Inl (Err (''codex: start device flow: status '' @ Itoa (hp_Status resp) @ '': '' @ body))
                     else (case any_map body of
                        None \<Rightarrow> Inl (Wrap ''codex: decode device flow response: '' (Err ''json: error'') [])
                      | Some data \<Rightarrow>
                          (if string_at data ''device_auth_id'' = [] \<or> string_at data ''user_code'' = []
                           then Inl (Err ''codex: device flow response missing device_auth_id/user_code'')
                           else Inr \<lparr>da_DeviceAuthID = string_at data ''device_auth_id'',
                                     da_UserCode = string_at data ''user_code'',
                                     da_VerificationURL = verificationURL,
                                     da_Interval = (case toInt64 (map_of data ''interval'') of
                                        Some v \<Rightarrow> if v > 0 then v else defaultPollInterval
                                      | None \<Rightarrow> defaultPollInterval)\<rparr>))), w1)))"

text \<open>\<open>pollOnce\<close>: \<open>None\<close> when not authorized yet.\<close>

definition pollOnce :: "'w http_client \<Rightarrow> DeviceAuth \<Rightarrow> 'w \<Rightarrow> (string \<times> string) option result \<times> 'w" where
  "pollOnce hc da w =
     (case post_json hc tokenPollURL
         (fld ''device_auth_id'' (JStr (da_DeviceAuthID da)) @ fld ''user_code'' (JStr (da_UserCode da))) of
        Inl e \<Rightarrow> (Inl (Wrap ''codex: build poll request: '' e []), w)
      | Inr req \<Rightarrow>
          (case hc_Do hc req w of
             (Inl e, w1) \<Rightarrow> (Inl (Wrap ''codex: poll: '' e []), w1)
           | (Inr resp, w1) \<Rightarrow>
               (case ReadAll resp of
                  Inl e \<Rightarrow> Inl (Wrap ''codex: read poll response: '' e [])
                | Inr body \<Rightarrow>
                    (if hp_Status resp \<ge> 300 then Inr None
                     else (case any_map body of
                        None \<Rightarrow> Inr None
                      | Some data \<Rightarrow>
                          (if string_at data ''authorization_code'' = [] \<or> string_at data ''code_verifier'' = [] then Inr None
                           else Inr (Some (string_at data ''authorization_code'', string_at data ''code_verifier''))))), w1)))"

text \<open>\<open>wait d w\<close> is the \<open>select\<close> between \<open>ctx.Done()\<close> and \<open>time.After(d)\<close>: the context's error if it ended first.\<close>

fun poll_loop ::
  "'w http_client \<Rightarrow> (int \<Rightarrow> 'w \<Rightarrow> go_error option \<times> 'w) \<Rightarrow> DeviceAuth \<Rightarrow> nat \<Rightarrow> 'w \<Rightarrow> (string \<times> string) result \<times> 'w" where
  "poll_loop hc wait da 0 w = (Inl (Err ''codex: timed out waiting for authorization''), w)"
| "poll_loop hc wait da (Suc n) w =
     (case wait (da_Interval da) w of
        (Some e, w1) \<Rightarrow> (Inl e, w1)
      | (None, w1) \<Rightarrow>
          (case pollOnce hc da w1 of
             (Inl e, w2) \<Rightarrow> (Inl e, w2)
           | (Inr (Some codes), w2) \<Rightarrow> (Inr codes, w2)
           | (Inr None, w2) \<Rightarrow> poll_loop hc wait da n w2))"

definition PollForAuthorization ::
  "'w http_client \<Rightarrow> (int \<Rightarrow> 'w \<Rightarrow> go_error option \<times> 'w) \<Rightarrow> DeviceAuth \<Rightarrow> 'w \<Rightarrow> (string \<times> string) result \<times> 'w" where
  "PollForAuthorization hc wait da w = poll_loop hc wait da maxPollAttempts w"

subsection \<open>Forms\<close>

text \<open>\<open>url.QueryEscape\<close>, and \<open>url.Values.Encode\<close>, which sorts by key, for one value per key.\<close>

definition upper_hex :: "nat \<Rightarrow> char" where
  "upper_hex d = (if d < 10 then char_of (48 + d) else char_of (55 + d))"

definition query_char :: "char \<Rightarrow> string" where
  "query_char c =
     (let n = of_char c :: nat in
      if 65 \<le> n \<and> n \<le> 90 \<or> 97 \<le> n \<and> n \<le> 122 \<or> 48 \<le> n \<and> n \<le> 57 \<or> n \<in> {45, 95, 46, 126} then [c]
      else if n = 32 then ''+''
      else [CHR 0x25, upper_hex (n div 16), upper_hex (n mod 16)])"

definition QueryEscape :: "string \<Rightarrow> string" where
  "QueryEscape s = concat (map query_char s)"

definition form_Encode :: "(string \<times> string) list \<Rightarrow> string" where
  "form_Encode vs = Join (map (\<lambda>(k, v). QueryEscape k @ ''='' @ QueryEscape v) (sort_key fst vs)) ''&''"

subsection \<open>The account id\<close>

text \<open>\<open>base64.URLEncoding.DecodeString\<close>: line breaks are skipped, the padding is required, stray low bits are not checked.\<close>

definition b64_val :: "char \<Rightarrow> nat option" where
  "b64_val c =
     (let n = of_char c :: nat in
      if 65 \<le> n \<and> n \<le> 90 then Some (n - 65)
      else if 97 \<le> n \<and> n \<le> 122 then Some (n - 71)
      else if 48 \<le> n \<and> n \<le> 57 then Some (n + 4)
      else if n = 45 then Some 62
      else if n = 95 then Some 63
      else None)"

fun b64_groups :: "string \<Rightarrow> string option" where
  "b64_groups [] = Some []"
| "b64_groups (a # b # c # d # rest) =
     (case (b64_val a, b64_val b) of
        (Some x, Some y) \<Rightarrow>
          (if c = CHR ''='' \<and> d = CHR ''='' then (if rest = [] then Some (bytes [4 * x + y div 16]) else None)
           else (case b64_val c of
              None \<Rightarrow> None
            | Some z \<Rightarrow>
                (if d = CHR ''='' then
                   (if rest = [] then Some (bytes [4 * x + y div 16, 16 * (y mod 16) + z div 4]) else None)
                 else (case (b64_val d, b64_groups rest) of
                    (Some v, Some out) \<Rightarrow>
                      Some (bytes [4 * x + y div 16, 16 * (y mod 16) + z div 4, 64 * (z mod 4) + v] @ out)
                  | _ \<Rightarrow> None))))
      | _ \<Rightarrow> None)"
| "b64_groups _ = None"

definition base64_URLDecode :: "string \<Rightarrow> string option" where
  "base64_URLDecode s = b64_groups (filter (\<lambda>c. (of_char c :: nat) \<notin> {10, 13}) s)"

definition extractAccountID :: "string \<Rightarrow> string" where
  "extractAccountID jwt =
     (let parts = Split jwt (CHR ''.'') in
      if length parts < 2 then []
      else (let payload = parts ! 1; m = length payload mod 4;
                padded = (if m \<noteq> 0 then payload @ replicate (4 - m) (CHR ''='') else payload)
        in case base64_URLDecode padded of
             None \<Rightarrow> []
           | Some decoded \<Rightarrow>
               (case any_map decoded of
                  None \<Rightarrow> []
                | Some claims \<Rightarrow>
                    (if string_at claims ''chatgpt_account_id'' \<noteq> [] then string_at claims ''chatgpt_account_id''
                     else (case map_of claims ''https://api.openai.com/auth'' of
                        Some (JObj auth) \<Rightarrow>
                          (case map_of (rev auth) ''chatgpt_account_id'' of
                             Some (JStr i) \<Rightarrow> i
                           | _ \<Rightarrow> string_at claims ''https://api.openai.com/auth.chatgpt_account_id'')
                      | _ \<Rightarrow> string_at claims ''https://api.openai.com/auth.chatgpt_account_id'')))))"

subsection \<open>Tokens\<close>

text \<open>\<open>time.Time.Unix\<close>.\<close>

definition days_before_year :: "nat \<Rightarrow> int" where
  "days_before_year y = (let k = int y - 1 in 365 * k + k div 4 - k div 100 + k div 400)"

fun unix_time :: "time \<Rightarrow> int" where
  "unix_time (Time y mo d h mi s ns) =
     (days_before_year y - days_before_year 1970 + int (sum_list (map (month_days y) [1..<mo])) + int d - 1) * 86400 +
     int h * 3600 + int mi * 60 + int s"

definition postTokenForm ::
  "'w session_world_scheme http_client \<Rightarrow> (string \<times> string) list \<Rightarrow> 'w session_world_scheme \<Rightarrow>
   Token result \<times> 'w session_world_scheme" where
  "postTokenForm hc form w =
     (case hc_NewRequest hc ''POST'' oauthTokenURL of
        Some e \<Rightarrow> (Inl (Wrap ''codex: build token request: '' e []), w)
      | None \<Rightarrow>
          (case hc_Do hc \<lparr>hq_Method = ''POST'', hq_URL = oauthTokenURL,
               hq_Header = [(''Content-Type'', ''application/x-www-form-urlencoded'')], hq_Body = form_Encode form\<rparr> w of
             (Inl e, w1) \<Rightarrow> (Inl (Wrap ''codex: token request: '' e []), w1)
           | (Inr resp, w1) \<Rightarrow>
               (case ReadAll resp of
                  Inl e \<Rightarrow> (Inl (Wrap ''codex: read token response: '' e []), w1)
                | Inr body \<Rightarrow>
                    (if hp_Status resp \<ge> 300
                     then (Inl (Err (''codex: token request: status '' @ Itoa (hp_Status resp) @ '': '' @ body)), w1)
                     else (case any_map body of
                        None \<Rightarrow> (Inl (Wrap ''codex: decode token response: '' (Err ''json: error'') []), w1)
                      | Some data \<Rightarrow>
                          (if string_at data ''access_token'' = []
                           then (Inl (Err ''codex: token response missing access_token''), w1)
                           else (let (now, w2) = time_Now w1 in
                             (Inr \<lparr>to_AccessToken = string_at data ''access_token'',
                                   to_RefreshToken = string_at data ''refresh_token'',
                                   to_AccountID = extractAccountID (string_at data ''access_token''),
                                   to_ExpiresAt = unix_time now +
                                     (case toInt64 (map_of data ''expires_in'') of Some n \<Rightarrow> n | None \<Rightarrow> 3600)\<rparr>, w2)))))))) "

definition ExchangeCode ::
  "'w session_world_scheme http_client \<Rightarrow> string \<Rightarrow> string \<Rightarrow> 'w session_world_scheme \<Rightarrow>
   Token result \<times> 'w session_world_scheme" where
  "ExchangeCode hc authorizationCode codeVerifier =
     postTokenForm hc [(''grant_type'', ''authorization_code''), (''code'', authorizationCode), (''redirect_uri'', redirectURI),
       (''client_id'', clientID), (''code_verifier'', codeVerifier)]"

definition RefreshAccessToken ::
  "'w session_world_scheme http_client \<Rightarrow> string \<Rightarrow> 'w session_world_scheme \<Rightarrow> Token result \<times> 'w session_world_scheme" where
  "RefreshAccessToken hc refreshToken =
     postTokenForm hc [(''grant_type'', ''refresh_token''), (''refresh_token'', refreshToken), (''client_id'', clientID),
       (''scope'', ''openid profile email'')]"

definition save_token ::
  "path \<Rightarrow> Token \<Rightarrow> 'w session_world_scheme \<Rightarrow> unit result \<times> 'w session_world_scheme" where
  "save_token p tok w =
     (case token_Save (sw_faults w (sw_saves w)) p tok (sw_fs w) of
        (r, fs) \<Rightarrow> (r, w\<lparr>sw_fs := fs, sw_saves := sw_saves w + 1\<rparr>))"

text \<open>\<open>Login\<close>, with the text it prints.\<close>

definition Login ::
  "'w session_world_scheme http_client \<Rightarrow> (int \<Rightarrow> 'w session_world_scheme \<Rightarrow> go_error option \<times> 'w session_world_scheme) \<Rightarrow>
   path \<Rightarrow> 'w session_world_scheme \<Rightarrow> (unit result \<times> string) \<times> 'w session_world_scheme" where
  "Login hc wait p w =
     (case StartDeviceFlow hc w of
        (Inl e, w1) \<Rightarrow> ((Inl e, []), w1)
      | (Inr da, w1) \<Rightarrow>
          (let out = ''To link your ChatGPT account, visit:'' @ nl @ nl @ ''  '' @ da_VerificationURL da @ nl @ nl @
                 ''and enter this code:'' @ nl @ nl @ ''  '' @ da_UserCode da @ nl @ nl @ ''Waiting for authorization...'' @ nl in
           case PollForAuthorization hc wait da w1 of
             (Inl e, w2) \<Rightarrow> ((Inl e, out), w2)
           | (Inr (authCode, codeVerifier), w2) \<Rightarrow>
               (case ExchangeCode hc authCode codeVerifier w2 of
                  (Inl e, w3) \<Rightarrow> ((Inl e, out), w3)
                | (Inr tok, w3) \<Rightarrow>
                    (case save_token p tok w3 of
                       (Inl e, w4) \<Rightarrow> ((Inl e, out), w4)
                     | (Inr _, w4) \<Rightarrow>
                         ((Inr (), out @ ''Codex linked (account '' @ to_AccountID tok @ '').'' @ nl), w4)))))"

end
