(* ===== verification/Web.thy ===== *)
theory Web
  imports Tools Codex_Auth Regex Frames
begin

text \<open>
  The web tools (\<^verbatim>\<open>pkg/tools/web\<close>): a page as text (\<^verbatim>\<open>htmltext.go\<close>), and the tools that fetch a page and that
  search (\<^verbatim>\<open>web.go\<close>). The HTTP client is a parameter, and so are \<open>html.UnescapeString\<close> and the \<open>uddg\<close> parameter that
  \<open>net/url\<close> reads from a URL.
\<close>

declare json_ok.simps(4) [simp del]

section \<open>The regular expressions of the package\<close>

text \<open>
  A pattern is a list of pieces, matched as RE2 does: the first alternative in the order of preference. \<open>Many\<close> is
  \<open>[...]*\<close> and \<open>Few\<close> is \<open>[...]*?\<close>; \<open>Edge\<close> is \<open>\b\<close>; \<open>Mark\<close> is a bracket of a group. A text is the list of its runes as they
  stand, an ill-formed byte alone. With \<open>(?s)\<close> every rune is in \<open>NotIn []\<close>.
\<close>

datatype rune_set = Letter char | In string | NotIn string

fun in_set_of :: "rune_set \<Rightarrow> string \<Rightarrow> bool" where
  "in_set_of (Letter c) r = fold_matches c r"
| "in_set_of (In cs) r = list_ex (\<lambda>c. r = [c]) cs"
| "in_set_of (NotIn cs) r = list_all (\<lambda>c. r \<noteq> [c]) cs"

datatype piece = One rune_set | Many rune_set | Few rune_set | Edge | Mark

definition word_before :: "string option \<Rightarrow> bool" where
  "word_before p = (case p of None \<Rightarrow> False | Some r \<Rightarrow> word_rune r)"

definition word_after :: "string list \<Rightarrow> bool" where
  "word_after t = (case t of [] \<Rightarrow> False | r # _ \<Rightarrow> word_rune r)"

text \<open>
  The match at the front of the text after the rune \<open>p\<close>: what is left of the text at each bracket, and at the end.
\<close>

function first_match :: "piece list \<Rightarrow> string option \<Rightarrow> string list \<Rightarrow> string list list option" where
  "first_match [] p t = Some [t]"
| "first_match (One s # ps) p t =
     (case t of [] \<Rightarrow> None | r # t' \<Rightarrow> if in_set_of s r then first_match ps (Some r) t' else None)"
| "first_match (Edge # ps) p t = (if word_before p \<noteq> word_after t then first_match ps p t else None)"
| "first_match (Mark # ps) p t = map_option (Cons t) (first_match ps p t)"
| "first_match (Many s # ps) p t =
     (case (case t of [] \<Rightarrow> None | r # t' \<Rightarrow> if in_set_of s r then first_match (Many s # ps) (Some r) t' else None) of
        Some m \<Rightarrow> Some m
      | None \<Rightarrow> first_match ps p t)"
| "first_match (Few s # ps) p t =
     (case first_match ps p t of
        Some m \<Rightarrow> Some m
      | None \<Rightarrow> (case t of [] \<Rightarrow> None | r # t' \<Rightarrow> if in_set_of s r then first_match (Few s # ps) (Some r) t' else None))"
  by pat_completeness auto
termination by (relation "measures [\<lambda>(ps, p, t). length t, \<lambda>(ps, p, t). length ps]") auto

definition letters :: "string \<Rightarrow> piece list" where
  "letters s = map (\<lambda>c. One (Letter c)) s"

text \<open>
  The matches of \<open>FindAllStringSubmatch\<close> and \<open>ReplaceAllString\<close>, from left to right without overlap: a rune that
  begins no match, or a match. No pattern matches the empty text, so the length is fuel enough.
\<close>

datatype found = Plain string | Match "string list list"

fun find_fuel :: "piece list \<Rightarrow> nat \<Rightarrow> string option \<Rightarrow> string list \<Rightarrow> found list" where
  "find_fuel ps 0 p t = map Plain t"
| "find_fuel ps (Suc n) p [] = []"
| "find_fuel ps (Suc n) p (r # t) =
     (case first_match ps p (r # t) of
        None \<Rightarrow> Plain r # find_fuel ps n (Some r) t
      | Some m \<Rightarrow> Match m # find_fuel ps n (Some (last (take (length (r # t) - length (last m)) (r # t)))) (last m))"

text \<open>The runes of a text as they stand.\<close>

fun raw_fuel :: "nat \<Rightarrow> string \<Rightarrow> string list" where
  "raw_fuel 0 s = []"
| "raw_fuel (Suc n) [] = []"
| "raw_fuel (Suc n) (c # s) =
     (let k = max 1 (rune_len (c # s)) in take k (c # s) # raw_fuel n (drop k (c # s)))"

definition raw_runes :: "string \<Rightarrow> string list" where
  "raw_runes s = raw_fuel (length s) s"

definition find_all :: "piece list \<Rightarrow> string list \<Rightarrow> found list" where
  "find_all ps t = find_fuel ps (length t) None t"

text \<open>\<open>ReplaceAllString(s, " ")\<close>.\<close>

fun or_blank :: "found \<Rightarrow> string" where
  "or_blank (Plain r) = r"
| "or_blank (Match m) = '' ''"

definition blank_out :: "piece list \<Rightarrow> string list \<Rightarrow> string list" where
  "blank_out ps t = map or_blank (find_all ps t)"

definition ReplaceAllBlank :: "piece list \<Rightarrow> string \<Rightarrow> string" where
  "ReplaceAllBlank ps s = concat (blank_out ps (raw_runes s))"

text \<open>The groups of the matches: the text between two brackets.\<close>

definition between :: "string list \<Rightarrow> string list \<Rightarrow> string" where
  "between a b = concat (take (length a - length b) a)"

fun groups :: "string list list \<Rightarrow> string list" where
  "groups (a # b # m) = between a b # groups m"
| "groups _ = []"

fun found_groups :: "found list \<Rightarrow> string list list" where
  "found_groups [] = []"
| "found_groups (Plain r # fs) = found_groups fs"
| "found_groups (Match m # fs) = groups m # found_groups fs"

definition FindAllStringSubmatch :: "piece list \<Rightarrow> string \<Rightarrow> string list list" where
  "FindAllStringSubmatch ps s = found_groups (find_all ps (raw_runes s))"

section \<open>htmltext.go\<close>

definition scriptRe :: "piece list" where
  "scriptRe = letters ''<script'' @ [Many (NotIn ''>'')] @ letters ''>'' @ [Few (NotIn [])] @ letters ''</script'' @
     [Many (In (map char_of [9::nat, 10, 12, 13, 32]))] @ letters ''>''"

definition styleRe :: "piece list" where
  "styleRe = letters ''<style'' @ [Many (NotIn ''>'')] @ letters ''>'' @ [Few (NotIn [])] @ letters ''</style'' @
     [Many (In (map char_of [9::nat, 10, 12, 13, 32]))] @ letters ''>''"

definition commentRe :: "piece list" where
  "commentRe = letters ''<!--'' @ [Few (NotIn [])] @ letters ''-->''"

definition tagRe :: "piece list" where
  "tagRe = [One (In ''<''), One (NotIn ''>''), Many (NotIn ''>''), One (In ''>'')]"

definition wsRe :: "piece list" where
  "wsRe = [One (In (map char_of [32::nat, 9, 13, 10])), Many (In (map char_of [32::nat, 9, 13, 10]))]"

definition htmlToText :: "(string \<Rightarrow> string) \<Rightarrow> string \<Rightarrow> string" where
  "htmlToText unescape document =
     (let s = ReplaceAllBlank scriptRe document;
          s = ReplaceAllBlank styleRe s;
          s = ReplaceAllBlank commentRe s;
          s = ReplaceAllBlank tagRe s;
          s = unescape s;
          s = ReplaceAllBlank wsRe s
      in TrimSpace s)"

section \<open>web.go\<close>

definition web_defaultFetchMaxChars :: int where "web_defaultFetchMaxChars = 6000"
definition minFetchMaxChars :: int where "minFetchMaxChars = 500"
definition maxFetchMaxChars :: int where "maxFetchMaxChars = 20000"
definition maxResponseBytes :: nat where "maxResponseBytes = 20 * 2 ^ 20"
definition defaultSearchResults :: int where "defaultSearchResults = 5"
definition maxSearchResultsCap :: int where "maxSearchResultsCap = 10"

definition userAgent :: string where
  "userAgent = ''Mozilla/5.0 (compatible; souz-agent/1.0; +https://github.com/)''"

definition defaultSearchBaseURL :: string where
  "defaultSearchBaseURL = ''https://html.duckduckgo.com/html/''"

definition clamp :: "int \<Rightarrow> int \<Rightarrow> int \<Rightarrow> int" where
  "clamp v mn mx = (if v \<le> 0 then mn else if v < mn then mn else if v > mx then mx else v)"

record web_response =
  wr_Status :: int
  wr_ContentType :: string
  wr_Body :: string
  wr_ReadErr :: "go_error option"

record 'w web_client =
  wc_NewRequest :: "string \<Rightarrow> string \<Rightarrow> go_error option"
  wc_Do :: "http_request \<Rightarrow> 'w \<Rightarrow> web_response result \<times> 'w"

text \<open>\<open>io.ReadAll(io.LimitReader(resp.Body, maxResponseBytes))\<close>: an error behind the limit is not seen.\<close>

definition ReadLimited :: "web_response \<Rightarrow> string result" where
  "ReadLimited resp =
     (if length (wr_Body resp) \<ge> maxResponseBytes then Inr (take maxResponseBytes (wr_Body resp))
      else case wr_ReadErr resp of None \<Rightarrow> Inr (wr_Body resp) | Some e \<Rightarrow> Inl e)"

definition body2text :: "(string \<Rightarrow> string) \<Rightarrow> string \<Rightarrow> string \<Rightarrow> string" where
  "body2text unescape body contentType =
     (if Contains contentType ''html'' then htmlToText unescape body else TrimSpace body)"

text \<open>A GET request of the package; the text before an error names what failed.\<close>

definition web_get :: "'w web_client \<Rightarrow> string \<Rightarrow> string \<Rightarrow> string \<Rightarrow> 'w \<Rightarrow> (web_response \<times> string) result \<times> 'w" where
  "web_get wc what url accept w =
     (case wc_NewRequest wc ''GET'' url of
        Some e \<Rightarrow> (Inl (Wrap (what @ '': '') e []), w)
      | None \<Rightarrow>
          (case wc_Do wc \<lparr>hq_Method = ''GET'', hq_URL = url, hq_Header = [(''User-Agent'', userAgent), (''Accept'', accept)], hq_Body = []\<rparr> w of
             (Inl e, w1) \<Rightarrow> (Inl (Wrap (what @ '': '') e []), w1)
           | (Inr resp, w1) \<Rightarrow>
               (case ReadLimited resp of
                  Inl e \<Rightarrow> (Inl (Wrap (what @ '': read body: '') e []), w1)
                | Inr body \<Rightarrow>
                    (if wr_Status resp \<ge> 300 then (Inl (Err (what @ '': status '' @ Itoa (wr_Status resp))), w1)
                     else (Inr (resp, body), w1)))))"

definition truncate_page :: "int \<Rightarrow> string \<Rightarrow> string" where
  "truncate_page maxChars s =
     (if int (length (runes s)) > maxChars
      then concat (take (nat maxChars) (runes s)) @ nl @ nl @ ''[truncated: page exceeds '' @ Itoa maxChars @ '' characters]''
      else s)"

definition Fetch_Execute :: "'w web_client \<Rightarrow> (string \<Rightarrow> string) \<Rightarrow> (string \<times> json) list \<Rightarrow> 'w \<Rightarrow> string result \<times> 'w" where
  "Fetch_Execute wc unescape args w =
     (case ArgString args ''url'' [] of
        Inl e \<Rightarrow> (Inl e, w)
      | Inr target \<Rightarrow>
          (if \<not> HasPrefix target ''http://'' \<and> \<not> HasPrefix target ''https://''
           then (Inl (Err (''url must start with http:// or https://, got '' @ quote target)), w)
           else case ArgInt args ''max_chars'' web_defaultFetchMaxChars of
                  Inl e \<Rightarrow> (Inl e, w)
                | Inr v \<Rightarrow>
                    (let maxChars = clamp v minFetchMaxChars maxFetchMaxChars
                     in case web_get wc (''fetch '' @ quote target) target ''text/html,application/json;q=0.9,*/*;q=0.8'' w of
                          (Inl e, w1) \<Rightarrow> (Inl e, w1)
                        | (Inr (resp, body), w1) \<Rightarrow>
                            (Inr (truncate_page maxChars (body2text unescape body (wr_ContentType resp))), w1))))"

record searchResult =
  sr_Title :: string
  sr_URL :: string
  sr_Snippet :: string

definition enc_searchResult :: "searchResult \<Rightarrow> json" where
  "enc_searchResult r = JObj [(''title'', JStr (sr_Title r)), (''url'', JStr (sr_URL r)), (''snippet'', JStr (sr_Snippet r))]"

definition html2attr :: "string \<Rightarrow> string" where
  "html2attr s = ReplaceAll s ''&amp;'' ''&''"

text \<open>\<open>uddg\<close>: the query parameter of that name, empty when there is none, \<open>None\<close> when the URL is not one.\<close>

definition decodeDuckDuckGoRedirect :: "(string \<Rightarrow> string option) \<Rightarrow> string \<Rightarrow> string" where
  "decodeDuckDuckGoRedirect uddg href =
     (let href = html2attr href;
          href = (if HasPrefix href ''//'' then ''https:'' @ href else href)
      in case uddg href of
           Some (c # u) \<Rightarrow> c # u
         | _ \<Rightarrow> if HasPrefix href ''http://'' \<or> HasPrefix href ''https://'' then href else [])"

definition resultLinkRe :: "piece list" where
  "resultLinkRe = letters ''<a'' @ [Many (NotIn ''>'')] @ letters (''class='' @ [CHR 0x22]) @ [Many (NotIn [CHR 0x22]), Edge] @
     letters ''result__a'' @ [Edge, Many (NotIn [CHR 0x22])] @ letters [CHR 0x22] @ [Many (NotIn ''>'')] @
     letters (''href='' @ [CHR 0x22]) @ [Mark, One (NotIn [CHR 0x22]), Many (NotIn [CHR 0x22]), Mark] @ letters [CHR 0x22] @
     [Many (NotIn ''>'')] @ letters ''>'' @ [Mark, Few (NotIn []), Mark] @ letters ''</a>''"

definition resultSnippetRe :: "piece list" where
  "resultSnippetRe = letters ''<a'' @ [Many (NotIn ''>'')] @ letters (''class='' @ [CHR 0x22]) @ [Many (NotIn [CHR 0x22]), Edge] @
     letters ''result__snippet'' @ [Edge, Many (NotIn [CHR 0x22])] @ letters [CHR 0x22] @ [Many (NotIn ''>'')] @
     letters ''>'' @ [Mark, Few (NotIn []), Mark] @ letters ''</a>''"

text \<open>The loop over the links, with those of the snippets that are left at the index of each.\<close>

fun collect_results ::
  "(string \<Rightarrow> string) \<Rightarrow> (string \<Rightarrow> string option) \<Rightarrow> int \<Rightarrow> string list list \<Rightarrow> string list list \<Rightarrow> searchResult list \<Rightarrow> searchResult list" where
  "collect_results unescape uddg maxResults [] snippets results = results"
| "collect_results unescape uddg maxResults (link # links) snippets results =
     (if int (length results) \<ge> maxResults then results
      else let target = decodeDuckDuckGoRedirect uddg (link ! 0)
           in if target = [] then collect_results unescape uddg maxResults links (drop 1 snippets) results
              else collect_results unescape uddg maxResults links (drop 1 snippets)
                     (results @ [\<lparr>sr_Title = htmlToText unescape (link ! 1), sr_URL = target,
                        sr_Snippet = (case snippets of [] \<Rightarrow> [] | s # _ \<Rightarrow> htmlToText unescape (s ! 0))\<rparr>]))"

definition parseSearchResults :: "(string \<Rightarrow> string) \<Rightarrow> (string \<Rightarrow> string option) \<Rightarrow> string \<Rightarrow> int \<Rightarrow> searchResult list" where
  "parseSearchResults unescape uddg page maxResults =
     collect_results unescape uddg maxResults (FindAllStringSubmatch resultLinkRe page) (FindAllStringSubmatch resultSnippetRe page) []"

definition Search_Execute ::
  "'w web_client \<Rightarrow> (string \<Rightarrow> string) \<Rightarrow> (string \<Rightarrow> string option) \<Rightarrow> string \<Rightarrow> (string \<times> json) list \<Rightarrow> 'w \<Rightarrow> string result \<times> 'w" where
  "Search_Execute wc unescape uddg baseURL args w =
     (case ArgString args ''query'' [] of
        Inl e \<Rightarrow> (Inl e, w)
      | Inr query \<Rightarrow>
          (if TrimSpace query = [] then (Inl (Err ''query must not be empty''), w)
           else case ArgInt args ''max_results'' defaultSearchResults of
                  Inl e \<Rightarrow> (Inl e, w)
                | Inr v \<Rightarrow>
                    (let maxResults = clamp v 1 maxSearchResultsCap
                     in case web_get wc (''search '' @ quote query) (baseURL @ ''?q='' @ QueryEscape query) ''text/html'' w of
                          (Inl e, w1) \<Rightarrow> (Inl e, w1)
                        | (Inr (_, body), w1) \<Rightarrow>
                            (Inr (json_print (JArr (map enc_searchResult (parseSearchResults unescape uddg body maxResults)))), w1))))"

section \<open>The text of a page\<close>

text \<open>The two replacements as functions of the bytes.\<close>

definition ws_byte :: "char \<Rightarrow> bool" where
  "ws_byte c \<longleftrightarrow> c \<in> set (map char_of [32::nat, 9, 13, 10])"

lemma rest_shorter [termination_simp]: "length (dropWhile P s) - n < Suc (length s)"
  using length_dropWhile_le [of P s] by simp

fun squeeze :: "string \<Rightarrow> string" where
  "squeeze [] = []"
| "squeeze (c # s) = (if ws_byte c then CHR '' '' # squeeze (dropWhile ws_byte s) else c # squeeze s)"

fun strip_tags :: "string \<Rightarrow> string" where
  "strip_tags [] = []"
| "strip_tags (c # s) =
     (if c = CHR ''<'' \<and> takeWhile (\<lambda>d. d \<noteq> CHR ''>'') s \<noteq> [] \<and> CHR ''>'' \<in> set s
      then CHR '' '' # strip_tags (tl (dropWhile (\<lambda>d. d \<noteq> CHR ''>'') s))
      else c # strip_tags s)"

text \<open>Runes: one byte, or bytes that are not ASCII.\<close>

definition rune_piece :: "string \<Rightarrow> bool" where
  "rune_piece r \<longleftrightarrow> (\<exists>c. r = [c]) \<or> r \<noteq> [] \<and> (\<forall>c\<in>set r. of_char c \<ge> (128::nat))"

lemma rune_len_bytes: "1 < rune_len s \<Longrightarrow> c \<in> set (take (rune_len s) s) \<Longrightarrow> of_char c \<ge> (128::nat)"
  using rune_bytes_high [OF refl, of s] by (simp add: list_all_iff)

lemma raw_fuel_pieces: "r \<in> set (raw_fuel n s) \<Longrightarrow> rune_piece r"
proof (induction n s rule: raw_fuel.induct)
  case (3 n c s)
  have "rune_piece (take (max 1 (rune_len (c # s))) (c # s))"
  proof (cases "1 < rune_len (c # s)")
    case True
    then show ?thesis using rune_len_bytes [OF True] by (auto simp: rune_piece_def max_def)
  qed (auto simp: rune_piece_def max_def take_Cons')
  with 3 show ?case by (auto simp: Let_def)
qed auto

lemma raw_fuel_concat: "length s \<le> n \<Longrightarrow> concat (raw_fuel n s) = s"
proof (induction n s rule: raw_fuel.induct)
  case (3 n c s)
  let ?k = "max 1 (rune_len (c # s))"
  have "concat (raw_fuel n (drop ?k (c # s))) = drop ?k (c # s)" using 3 by (auto simp: drop_Cons' split: if_split)
  then show ?case using append_take_drop_id [of ?k "c # s"] by (simp add: Let_def)
qed auto

lemma raw_runes_pieces: "list_all rune_piece (raw_runes s)"
  using raw_fuel_pieces by (auto simp: raw_runes_def list_all_iff)

lemma raw_runes_concat [simp]: "concat (raw_runes s) = s"
  by (simp add: raw_runes_def raw_fuel_concat)

lemma first_many: "first_match [Many s] p t = Some [dropWhile (in_set_of s) t]"
  by (induction t arbitrary: p) auto

lemma first_many_one:
  "(\<And>r. in_set_of s r \<Longrightarrow> \<not> in_set_of e r) \<Longrightarrow>
   first_match [Many s, One e] p t =
     (case dropWhile (in_set_of s) t of [] \<Rightarrow> None | r # t' \<Rightarrow> if in_set_of e r then Some [t'] else None)"
  by (induction t arbitrary: p) (auto split: list.split)

abbreviation not_close :: "string \<Rightarrow> bool" where
  "not_close r \<equiv> r \<noteq> [CHR ''>'']"

lemma close_split: "dropWhile not_close u = (if ''>'' \<in> set u then ''>'' # tl (dropWhile not_close u) else [])"
  by (induction u) auto

lemma first_close:
  "first_match [Many (NotIn ''>''), One (In ''>'')] p u = (if ''>'' \<in> set u then Some [tl (dropWhile not_close u)] else None)"
proof -
  have n: "in_set_of (NotIn ''>'') = not_close" by (rule ext) simp
  have "first_match [Many (NotIn ''>''), One (In ''>'')] p u =
      (case dropWhile not_close u of [] \<Rightarrow> None | r # t' \<Rightarrow> if in_set_of (In ''>'') r then Some [t'] else None)"
    by (subst first_many_one) (simp_all only: n, simp)
  also have "\<dots> = (if ''>'' \<in> set u then Some [tl (dropWhile not_close u)] else None)"
    by (subst close_split, cases "''>'' \<in> set u") simp_all
  finally show ?thesis .
qed

lemma first_tag:
  "first_match tagRe p (r # t) =
     (if r = [CHR ''<''] \<and> t \<noteq> [] \<and> not_close (hd t) \<and> ''>'' \<in> set t then Some [tl (dropWhile not_close t)] else None)"
  by (cases t) (auto simp: tagRe_def first_close simp del: first_match.simps(5))

definition ws_rune :: "string \<Rightarrow> bool" where
  "ws_rune r \<longleftrightarrow> (\<exists>c. r = [c] \<and> ws_byte c)"

lemma ws_set: "in_set_of (In (map char_of [32::nat, 9, 13, 10])) = ws_rune"
  by (rule ext) (auto simp: ws_rune_def ws_byte_def)

lemma first_ws: "first_match wsRe p (r # t) = (if ws_rune r then Some [dropWhile ws_rune t] else None)"
  unfolding wsRe_def by (simp only: first_match.simps(2) first_many ws_set list.case)

lemma piece_close: "rune_piece r \<Longrightarrow> r \<noteq> [c] \<Longrightarrow> (of_char c :: nat) < 128 \<Longrightarrow> c \<notin> set r"
  by (auto simp: rune_piece_def)

lemma close_in_pieces:
  "list_all rune_piece t \<Longrightarrow> (of_char c :: nat) < 128 \<Longrightarrow> c \<in> set (concat t) \<longleftrightarrow> [c] \<in> set t"
  using piece_close [of _ c] by (auto simp: list_all_iff intro!: bexI [of _ "[c]"])

lemma dropWhile_pieces:
  assumes "list_all rune_piece t" "\<And>r c. rune_piece r \<Longrightarrow> c \<in> set r \<Longrightarrow> P c \<longleftrightarrow> Q r"
  shows "dropWhile P (concat t) = concat (dropWhile Q t)"
  using assms(1)
proof (induction t)
  case (Cons r t)
  then have r: "rune_piece r" "list_all rune_piece t" by simp_all
  then obtain c s where c: "r = c # s" by (cases r) (auto simp: rune_piece_def)
  show ?case
  proof (cases "Q r")
    case True
    then have "dropWhile P (r @ concat t) = dropWhile P (concat t)" using assms(2) [OF r(1)] by (intro dropWhile_append2) simp
    with True Cons.IH [OF r(2)] show ?thesis by simp
  next
    case False
    then have "\<not> P c" using assms(2) [OF r(1), of c] c by simp
    with False c show ?thesis by simp
  qed
qed simp

lemma strip_high: "CHR ''<'' \<notin> set r \<Longrightarrow> strip_tags (r @ s) = r @ strip_tags s"
  by (induction r) auto

lemma squeeze_high: "\<forall>c\<in>set r. \<not> ws_byte c \<Longrightarrow> squeeze (r @ s) = r @ squeeze s"
  by (induction r) auto

lemma piece_ws: "rune_piece r \<Longrightarrow> c \<in> set r \<Longrightarrow> ws_byte c \<longleftrightarrow> ws_rune r"
  by (auto simp: rune_piece_def ws_rune_def ws_byte_def)

lemma pieces_suffix: "list_all rune_piece t \<Longrightarrow> list_all rune_piece (tl (dropWhile Q t))"
  "list_all rune_piece t \<Longrightarrow> list_all rune_piece (dropWhile Q t)"
  by (auto simp: list_all_iff dest: list.set_sel(2) [rotated] set_dropWhileD intro: list.set_sel(2)) 
    (metis list.sel(2) list.set_sel(2) set_dropWhileD)

lemma blank_ws_squeezes:
  "length t \<le> n \<Longrightarrow> list_all rune_piece t \<Longrightarrow> concat (map or_blank (find_fuel wsRe n p t)) = squeeze (concat t)"
proof (induction n arbitrary: p t)
  case (Suc n)
  show ?case
  proof (cases t)
    case (Cons r t')
    have r: "rune_piece r" "list_all rune_piece t'" "length t' \<le> n" using Suc.prems Cons by simp_all
    show ?thesis
    proof (cases "ws_rune r")
      case True
      then obtain c where c: "r = [c]" "ws_byte c" by (auto simp: ws_rune_def)
      have "length (dropWhile ws_rune t') \<le> n" using length_dropWhile_le [of ws_rune t'] r(3) by linarith
      from Suc.IH [OF this pieces_suffix(2) [OF r(2)]] show ?thesis
        using Cons True c dropWhile_pieces [OF r(2) piece_ws] by (simp add: first_ws)
    next
      case False
      then have "squeeze (r @ concat t') = r @ squeeze (concat t')" using piece_ws [OF r(1)] by (intro squeeze_high) simp
      with Cons False Suc.IH [OF r(3,2)] show ?thesis by (simp add: first_ws)
    qed
  qed simp
qed simp

lemma ReplaceAllBlank_ws: "ReplaceAllBlank wsRe s = squeeze s"
  using blank_ws_squeezes [OF order_refl raw_runes_pieces, of s None] by (simp add: ReplaceAllBlank_def blank_out_def find_all_def)

lemma tag_opens:
  assumes "list_all rune_piece t"
  shows "takeWhile (\<lambda>d. d \<noteq> CHR ''>'') (concat t) \<noteq> [] \<and> CHR ''>'' \<in> set (concat t) \<longleftrightarrow> t \<noteq> [] \<and> not_close (hd t) \<and> ''>'' \<in> set t"
proof (cases t)
  case (Cons r u)
  then have r: "rune_piece r" using assms by simp
  then obtain c s where c: "r = c # s" by (cases r) (auto simp: rune_piece_def)
  have "c \<noteq> CHR ''>'' \<longleftrightarrow> not_close r" using r c by (auto simp: rune_piece_def)
  then show ?thesis using close_in_pieces [OF assms, of "CHR ''>''"] Cons c by auto
qed simp

lemma blank_tags_strips:
  "length t \<le> n \<Longrightarrow> list_all rune_piece t \<Longrightarrow> concat (map or_blank (find_fuel tagRe n p t)) = strip_tags (concat t)"
proof (induction n arbitrary: p t)
  case (Suc n)
  show ?case
  proof (cases t)
    case (Cons r t')
    have r: "rune_piece r" "list_all rune_piece t'" "length t' \<le> n" using Suc.prems Cons by simp_all
    show ?thesis
    proof (cases "r = ''<'' \<and> t' \<noteq> [] \<and> not_close (hd t') \<and> ''>'' \<in> set t'")
      case True
      have d: "dropWhile (\<lambda>d. d \<noteq> CHR ''>'') (concat t') = concat (dropWhile not_close t')"
        by (rule dropWhile_pieces [OF r(2)]) (auto simp: rune_piece_def)
      have "''>'' # tl (dropWhile not_close t') = dropWhile not_close t'" using True close_split [of t'] by simp
      then have d': "tl (concat (dropWhile not_close t')) = concat (tl (dropWhile not_close t'))"
        by (metis append_Cons append_Nil concat.simps(2) list.sel(3))
      have "length (tl (dropWhile not_close t')) \<le> n" using length_dropWhile_le [of not_close t'] r(3) by simp
      from Suc.IH [OF this pieces_suffix(1) [OF r(2)]]
      have "concat (map or_blank (find_fuel tagRe (Suc n) p t)) = '' '' @ strip_tags (concat (tl (dropWhile not_close t')))"
        using Cons True by (simp add: first_tag)
      moreover have "strip_tags (concat t) = '' '' @ strip_tags (concat (tl (dropWhile not_close t')))"
        using Cons True tag_opens [OF r(2)] d d' by simp
      ultimately show ?thesis by simp
    next
      case False
      have "strip_tags (concat t) = r @ strip_tags (concat t')"
      proof (cases "r = ''<''")
        case True
        with False tag_opens [OF r(2)] Cons show ?thesis by auto
      next
        case other: False
        then show ?thesis using Cons piece_close [OF r(1) other] by (simp add: strip_high)
      qed
      moreover have "first_match tagRe p (r # t') = None" using False by (auto simp: first_tag)
      ultimately show ?thesis using Cons Suc.IH [OF r(3,2)] by simp
    qed
  qed simp
qed simp

lemma ReplaceAllBlank_tags: "ReplaceAllBlank tagRe s = strip_tags s"
  using blank_tags_strips [OF order_refl raw_runes_pieces, of s None] by (simp add: ReplaceAllBlank_def blank_out_def find_all_def)

text \<open>No \<open><\<close>, some text, and \<open>>\<close>.\<close>

fun tag_free :: "string \<Rightarrow> bool" where
  "tag_free [] = True"
| "tag_free (c # s) =
     (\<not> (c = CHR ''<'' \<and> takeWhile (\<lambda>d. d \<noteq> CHR ''>'') s \<noteq> [] \<and> CHR ''>'' \<in> set s) \<and> tag_free s)"

text \<open>No white space of a page but single blanks.\<close>

fun single_spaced :: "string \<Rightarrow> bool" where
  "single_spaced [] = True"
| "single_spaced (c # s) =
     ((ws_byte c \<longrightarrow> c = CHR '' '' \<and> (s = [] \<or> \<not> ws_byte (hd s))) \<and> single_spaced s)"

lemma tag_free_iff:
  "tag_free s \<longleftrightarrow> (\<nexists>a x b. s = a @ ''<'' @ x @ ''>'' @ b \<and> x \<noteq> [] \<and> CHR ''>'' \<notin> set x)"
proof (induction s)
  case (Cons c s)
  have "(takeWhile (\<lambda>d. d \<noteq> CHR ''>'') s \<noteq> [] \<and> CHR ''>'' \<in> set s) \<longleftrightarrow>
      (\<exists>x b. s = x @ ''>'' @ b \<and> x \<noteq> [] \<and> CHR ''>'' \<notin> set x)" (is "?l \<longleftrightarrow> ?r")
  proof
    assume ?l
    then have "takeWhile (\<lambda>d. d \<noteq> CHR ''>'') s \<noteq> s" using set_takeWhileD [of "CHR ''>''" "\<lambda>d. d \<noteq> CHR ''>''" s] by auto
    then obtain b where b: "s = takeWhile (\<lambda>d. d \<noteq> CHR ''>'') s @ CHR ''>'' # b" using takeWhile_split [of "\<lambda>d. d \<noteq> CHR ''>''" s] by blast
    have "CHR ''>'' \<notin> set (takeWhile (\<lambda>d. d \<noteq> CHR ''>'') s)" using set_takeWhileD [of "CHR ''>''" "\<lambda>d. d \<noteq> CHR ''>''" s] by auto
    with b \<open>?l\<close> show ?r by (intro exI [of _ "takeWhile (\<lambda>d. d \<noteq> CHR ''>'') s"] exI [of _ b]) simp
  next
    assume ?r
    then obtain x b where x: "s = x @ ''>'' @ b" "x \<noteq> []" "CHR ''>'' \<notin> set x" by blast
    then show ?l by (cases x) auto
  qed
  moreover have "(\<exists>a x b. c # s = a @ ''<'' @ x @ ''>'' @ b \<and> x \<noteq> [] \<and> CHR ''>'' \<notin> set x) \<longleftrightarrow>
     c = CHR ''<'' \<and> (\<exists>x b. s = x @ ''>'' @ b \<and> x \<noteq> [] \<and> CHR ''>'' \<notin> set x) \<or>
     (\<exists>a x b. s = a @ ''<'' @ x @ ''>'' @ b \<and> x \<noteq> [] \<and> CHR ''>'' \<notin> set x)" (is "?l \<longleftrightarrow> ?r1 \<or> ?r2")
  proof
    assume ?l
    then obtain a x b where "c # s = a @ ''<'' @ x @ ''>'' @ b" "x \<noteq> []" "CHR ''>'' \<notin> set x" by blast
    then show "?r1 \<or> ?r2" by (cases a) (simp, blast, simp, metis append_Cons append_Nil)
  next
    assume "?r1 \<or> ?r2" then show ?l
      by (metis append_Cons append_Nil)
  qed
  ultimately show ?case using Cons.IH by auto
qed simp

lemma set_strip: "c \<in> set (strip_tags s) \<Longrightarrow> c = CHR '' '' \<or> c \<in> set s"
proof (induction s rule: strip_tags.induct)
  case (2 d s)
  have "set (tl (dropWhile (\<lambda>d. d \<noteq> CHR ''>'') s)) \<subseteq> set s"
  proof
    fix x assume "x \<in> set (tl (dropWhile (\<lambda>d. d \<noteq> CHR ''>'') s))"
    then have "x \<in> set (dropWhile (\<lambda>d. d \<noteq> CHR ''>'') s)" by (cases "dropWhile (\<lambda>d. d \<noteq> CHR ''>'') s") simp_all
    then show "x \<in> set s" by (rule set_dropWhileD)
  qed
  with 2 show ?case by (auto split: if_split_asm)
qed simp

lemma strip_head: "strip_tags (CHR ''>'' # s) = CHR ''>'' # strip_tags s"
  by simp

lemma strip_tag_free: "tag_free (strip_tags s)"
proof (induction s rule: strip_tags.induct)
  case (2 c s)
  show ?case
  proof (cases "c = CHR ''<'' \<and> takeWhile (\<lambda>d. d \<noteq> CHR ''>'') s \<noteq> [] \<and> CHR ''>'' \<in> set s")
    case False
    have "takeWhile (\<lambda>d. d \<noteq> CHR ''>'') (strip_tags s) = []" if "c = CHR ''<''" "CHR ''>'' \<in> set (strip_tags s)"
    proof -
      from that(2) have "CHR ''>'' \<in> set s" using set_strip by fastforce
      with False that(1) have "s \<noteq> [] \<and> hd s = CHR ''>''" by (cases s) (auto split: if_split_asm)
      then obtain r where "s = CHR ''>'' # r" by (cases s) auto
      then show ?thesis by simp
    qed
    then show ?thesis using 2 False by auto
  qed (use 2 in simp)
qed simp

lemma squeeze_spaced: "single_spaced (squeeze s)"
proof (induction s rule: squeeze.induct)
  case (2 c s)
  show ?case
  proof (cases "ws_byte c")
    case True
    have "squeeze (dropWhile ws_byte s) = [] \<or> \<not> ws_byte (hd (squeeze (dropWhile ws_byte s)))"
    proof (cases "dropWhile ws_byte s")
      case (Cons d u)
      then have "\<not> ws_byte d" using hd_dropWhile [of ws_byte s] by simp
      with Cons show ?thesis by simp
    next
      case Nil
      then show ?thesis unfolding Nil by simp
    qed
    with True 2 show ?thesis by auto
  qed (use 2 in auto)
qed simp

lemma strip_suffix: "\<exists>a. s = a @ strip_fuel qs n s"
proof (induction n arbitrary: s)
  case (Suc n)
  show ?case
  proof (cases "find (\<lambda>q. HasPrefix s q) qs")
    case (Some q)
    obtain a where "drop (length q) s = a @ strip_fuel qs n (drop (length q) s)" using Suc by blast
    then show ?thesis using Some append_take_drop_id [of "length q" s]
      by (intro exI [of _ "take (length q) s @ a"]) simp
  qed simp
qed simp

lemma TrimSpace_within: "\<exists>a b. s = a @ TrimSpace s @ b"
proof -
  obtain a where a: "s = a @ TrimLeftSpace s" using strip_suffix unfolding TrimLeftSpace_def by blast
  obtain b where "rev (TrimLeftSpace s) = b @ strip_fuel (map rev space_seqs) (length (TrimLeftSpace s)) (rev (TrimLeftSpace s))"
    using strip_suffix by blast
  then have "TrimLeftSpace s = TrimSpace s @ rev b"
    unfolding TrimSpace_def TrimRightSpace_def by (metis rev_append rev_rev_ident)
  with a show ?thesis by metis
qed

lemma spaced_within: "single_spaced (a @ s @ b) \<Longrightarrow> single_spaced s"
proof (induction a)
  case Nil
  then show ?case by (induction s) auto
qed simp

lemma htmlToText_passes:
  "htmlToText unescape d = TrimSpace (squeeze (unescape (strip_tags (ReplaceAllBlank commentRe (ReplaceAllBlank styleRe (ReplaceAllBlank scriptRe d))))))"
  unfolding htmlToText_def Let_def ReplaceAllBlank_tags ReplaceAllBlank_ws ..

lemma htmlToText_cases: "\<exists>u. tag_free u \<and> htmlToText unescape document = TrimSpace (squeeze (unescape u))"
  unfolding htmlToText_passes using strip_tag_free by blast

text \<open>
  C39: The text of a page has no markup but what the entities of the page spell out, whatever the page is: before they
  are decoded, no \<open><\<close> is followed by some text and a \<open>>\<close>. The white space of the text is single blanks.
\<close>

theorem page_text_clean:
  "(\<exists>u. (\<nexists>a x b. u = a @ ''<'' @ x @ ''>'' @ b \<and> x \<noteq> [] \<and> CHR ''>'' \<notin> set x) \<and>
      htmlToText unescape document = TrimSpace (squeeze (unescape u))) \<and>
   single_spaced (htmlToText unescape document)"
proof -
  obtain u where u: "tag_free u" "htmlToText unescape document = TrimSpace (squeeze (unescape u))" using htmlToText_cases by blast
  obtain a b where "squeeze (unescape u) = a @ TrimSpace (squeeze (unescape u)) @ b" using TrimSpace_within by blast
  then have "single_spaced (TrimSpace (squeeze (unescape u)))" using squeeze_spaced [of "unescape u"] spaced_within by metis
  with u show ?thesis using tag_free_iff by metis
qed

text \<open>
  The two replacements of \<open>regexp\<close> are the two functions of the bytes: one pass that drops the tags, one that
  squeezes the white space.
\<close>

theorem replacements_as_passes:
  "ReplaceAllBlank tagRe s = strip_tags s" "ReplaceAllBlank wsRe s = squeeze s"
  by (rule ReplaceAllBlank_tags, rule ReplaceAllBlank_ws)

section \<open>Fetching and searching\<close>

lemma clamp_bounds: "mn \<le> mx \<Longrightarrow> mn \<le> clamp v mn mx \<and> clamp v mn mx \<le> mx"
  by (simp add: clamp_def)

definition get_request :: "string \<Rightarrow> string \<Rightarrow> http_request" where
  "get_request url accept =
     \<lparr>hq_Method = ''GET'', hq_URL = url, hq_Header = [(''User-Agent'', userAgent), (''Accept'', accept)], hq_Body = []\<rparr>"

lemma web_get_world: "web_get wc what url accept w = (r, w') \<Longrightarrow> w' = w \<or> w' = snd (wc_Do wc (get_request url accept) w)"
  by (auto simp: web_get_def get_request_def split: option.split_asm sum.split_asm prod.split_asm if_split_asm)

lemma web_get_answer:
  assumes "web_get wc what url accept w = (Inr (resp, body), w')"
  shows "wc_Do wc (get_request url accept) w = (Inr resp, w') \<and> wr_Status resp < 300 \<and>
    body = take maxResponseBytes (wr_Body resp)"
proof -
  have b: "ReadLimited resp = Inr body \<Longrightarrow> body = take maxResponseBytes (wr_Body resp)"
    by (auto simp: ReadLimited_def split: if_split_asm option.split_asm)
  obtain x w1 where x: "wc_Do wc (get_request url accept) w = (x, w1)" by fastforce
  have n: "wc_NewRequest wc ''GET'' url = None" using assms by (auto simp: web_get_def split: option.split_asm)
  show ?thesis
    using assms b x unfolding web_get_def n get_request_def by (auto split: sum.split_asm if_split_asm)
qed


text \<open>A client that answers every request with one page.\<close>

definition page_client :: "string \<Rightarrow> string \<Rightarrow> string list web_client" where
  "page_client ty body = \<lparr>wc_NewRequest = (\<lambda>m u. None),
     wc_Do = (\<lambda>rq w. (Inr \<lparr>wr_Status = 200, wr_ContentType = ty, wr_Body = body, wr_ReadErr = None\<rparr>, w @ [hq_URL rq]))\<rparr>"

lemma page_fetched:
  "Fetch_Execute (page_client ''text/html'' ''<p>Hi  <b>all'') id [(''url'', JStr ''http://a''), (''max_chars'', JNum ''7'')] [] =
     (Inr ''Hi all'', [''http://a''])"
proof -
  have "length ''<p>Hi  <b>all'' < maxResponseBytes" by (simp add: maxResponseBytes_def)
  then have r: "ReadLimited \<lparr>wr_Status = 200, wr_ContentType = ''text/html'', wr_Body = ''<p>Hi  <b>all'', wr_ReadErr = None\<rparr> =
      Inr ''<p>Hi  <b>all''" by (simp add: ReadLimited_def)
  have "squeeze (id (strip_tags (ReplaceAllBlank commentRe (ReplaceAllBlank styleRe (ReplaceAllBlank scriptRe ''<p>Hi  <b>all''))))) = '' Hi all''"
    by code_simp
  then have "htmlToText id ''<p>Hi  <b>all'' = ''Hi all''"
    using TrimSpace_blank [of "''Hi all''"] by (simp add: htmlToText_passes graphic_def)
  moreover have "truncate_page (clamp 7 minFetchMaxChars maxFetchMaxChars) ''Hi all'' = ''Hi all''" "Contains ''text/html'' ''html''" by code_simp+
  ultimately have t: "truncate_page (clamp 7 minFetchMaxChars maxFetchMaxChars) (body2text id ''<p>Hi  <b>all'' ''text/html'') = ''Hi all''"
    by (simp add: body2text_def)
  have a: "ArgString [(''url'', JStr ''http://a''), (''max_chars'', JNum ''7'')] ''url'' [] = Inr ''http://a''"
    "ArgInt [(''url'', JStr ''http://a''), (''max_chars'', JNum ''7'')] ''max_chars'' web_defaultFetchMaxChars = Inr 7"
    by code_simp+
  show ?thesis unfolding Fetch_Execute_def a by (simp add: web_get_def page_client_def r t HasPrefix_def)
qed


text \<open>The result of a link and the snippet at its index, if the link leads somewhere.\<close>

definition result_for :: "(string \<Rightarrow> string) \<Rightarrow> (string \<Rightarrow> string option) \<Rightarrow> string list \<times> string list option \<Rightarrow> searchResult option" where
  "result_for unescape uddg = (\<lambda>(link, snippet).
     (let target = decodeDuckDuckGoRedirect uddg (link ! 0)
      in if target = [] then None
         else Some \<lparr>sr_Title = htmlToText unescape (link ! 1), sr_URL = target,
                sr_Snippet = (case snippet of None \<Rightarrow> [] | Some s \<Rightarrow> htmlToText unescape (s ! 0))\<rparr>))"

definition with_snippets :: "string list list \<Rightarrow> string list list \<Rightarrow> (string list \<times> string list option) list" where
  "with_snippets links snippets = zip links (map Some snippets @ replicate (length links) None)"

lemma with_snippets_Cons:
  "with_snippets (l # ls) snippets = (l, case snippets of [] \<Rightarrow> None | s # _ \<Rightarrow> Some s) # with_snippets ls (drop 1 snippets)"
proof (cases snippets)
  case (Cons s ss)
  have "zip ls (xs @ replicate (Suc (length ls)) (None :: string list option)) = zip ls (xs @ replicate (length ls) None)" for xs :: "string list option list"
  proof -
    have "zip ls ((xs @ replicate (length ls) None) @ [None]) = zip ls (xs @ replicate (length ls) None)"
      by (subst zip_append2) simp
    then show ?thesis by (simp add: replicate_append_same)
  qed
  then show ?thesis using Cons by (simp add: with_snippets_def del: replicate_Suc)
qed (simp add: with_snippets_def)

lemma collect_results_take:
  "int (length results) \<le> max 0 maxResults \<Longrightarrow>
   collect_results unescape uddg maxResults links snippets results =
     take (nat maxResults) (results @ List.map_filter (result_for unescape uddg) (with_snippets links snippets))"
proof (induction unescape uddg maxResults links snippets results rule: collect_results.induct)
  case (1 unescape uddg maxResults snippets results)
  then show ?case by (simp add: with_snippets_def map_filter_simps)
next
  case (2 unescape uddg maxResults link links snippets results)
  show ?case
  proof (cases "int (length results) \<ge> maxResults")
    case True
    then have "length results = nat maxResults" using 2(3) by linarith
    with True show ?thesis by simp
  next
    case False
    then have n: "int (length results + 1) \<le> max 0 maxResults" by simp
    let ?u = "decodeDuckDuckGoRedirect uddg (link ! 0)"
    show ?thesis
    proof (cases "?u = []")
      case True
      then show ?thesis using False 2(1) [OF False refl True 2(3)] by (simp add: with_snippets_Cons map_filter_simps result_for_def)
    next
      case u: False
      then show ?thesis using False 2(2) [OF False refl u] n
        by (simp add: with_snippets_Cons map_filter_simps result_for_def split: list.splits)
    qed
  qed
qed

text \<open>
  The results are the first \<open>maxResults\<close> of the links of the page that lead somewhere, in the order of the page; the
  snippet of a link is the one at the index of the link, also when the page has fewer snippets than links.
\<close>

theorem search_takes_first:
  "parseSearchResults unescape uddg page maxResults =
     take (nat maxResults) (List.map_filter (result_for unescape uddg)
       (with_snippets (FindAllStringSubmatch resultLinkRe page) (FindAllStringSubmatch resultSnippetRe page)))"
  by (simp add: parseSearchResults_def collect_results_take)

text \<open>Two links and one snippet, that of the second link: it is shown with the first.\<close>

lemma snippet_shifted:
  "collect_results id (\<lambda>u. None) 5 [[''http://a/'', ''A''], [''http://b/'', ''B'']] [[''of B'']] [] =
     [\<lparr>sr_Title = ''A'', sr_URL = ''http://a/'', sr_Snippet = ''of B''\<rparr>, \<lparr>sr_Title = ''B'', sr_URL = ''http://b/'', sr_Snippet = []\<rparr>]"
proof -
  let ?t = "\<lambda>s. squeeze (id (strip_tags (ReplaceAllBlank commentRe (ReplaceAllBlank styleRe (ReplaceAllBlank scriptRe s)))))"
  have "?t ''A'' = ''A''" "?t ''B'' = ''B''" "?t ''of B'' = ''of B''" by code_simp+
  then have "htmlToText id ''A'' = ''A''" "htmlToText id ''B'' = ''B''" "htmlToText id ''of B'' = ''of B''"
    by (simp_all add: htmlToText_passes TrimSpace_id graphic_def)
  moreover have "decodeDuckDuckGoRedirect (\<lambda>u. None) ''http://a/'' = ''http://a/''" "decodeDuckDuckGoRedirect (\<lambda>u. None) ''http://b/'' = ''http://b/''"
    by code_simp+
  ultimately show ?thesis by simp
qed

end
