(* ===== verification/Files.thy ===== *)
theory Files
  imports Fs Tools Codec
begin

text \<open>
  \<^verbatim>\<open>pkg/tools/files\<close>: the sandbox (\<^verbatim>\<open>sandbox.go\<close>) that confines every path of the file tools to one root,
  and the tools read_file, list_files, write_file and search_files (\<^verbatim>\<open>files.go\<close>) on the file tree of \<open>Fs\<close>.
\<close>

section \<open>The sandbox\<close>

record sandbox =
  root :: path

text \<open>The recursion of \<open>effectivePath\<close> goes to the parent directory and ends target "/".\<close>

function effectivePath :: "fs \<Rightarrow> path \<Rightarrow> path result" where
  "effectivePath fs p =
     (case EvalSymlinks fs p of
        Inr resolved \<Rightarrow> Inr resolved
      | Inl e \<Rightarrow>
          (if \<not> is_not_exist e then Inl e
           else if p = [] then Inr p
           else (case effectivePath fs (butlast p) of
                   Inl e' \<Rightarrow> Inl e'
                 | Inr resolvedParent \<Rightarrow> Inr (Join_path resolvedParent (last p)))))"
  by pat_completeness auto
termination by (relation "measure (\<lambda>(fs, p). length p)") auto

declare effectivePath.simps [simp del]

text \<open>\<open>filepath.Abs\<close> joins a relative path to the working directory.\<close>

definition filepath_Abs :: "path \<Rightarrow> string \<Rightarrow> path" where
  "filepath_Abs cwd s = (if is_abs s then Clean_abs s else Join_path cwd s)"

definition newSandbox :: "path \<Rightarrow> string \<Rightarrow> fs \<Rightarrow> sandbox result" where
  "newSandbox cwd rt fs =
     (case effectivePath fs (filepath_Abs cwd rt) of
        Inl e \<Rightarrow> Inl (Wrap ''resolve sandbox root: '' e [])
      | Inr resolved \<Rightarrow> Inr \<lparr>root = resolved\<rparr>)"

definition resolve :: "sandbox \<Rightarrow> fs \<Rightarrow> string \<Rightarrow> path result" where
  "resolve s fs userPath0 =
     (let userPath = (if userPath0 = [] then ''.'' else userPath0);
          candidate = (if is_abs userPath then Clean_abs userPath else Join_path (root s) userPath)
      in case effectivePath fs candidate of
           Inl e \<Rightarrow> Inl (Wrap ''resolve path: '' e [])
         | Inr effective \<Rightarrow>
             (if abs_str effective \<noteq> abs_str (root s) \<and>
                 \<not> HasPrefix (abs_str effective) (abs_str (root s) @ ''/'')
              then Inl (Err (''path '' @ quote userPath @ '' escapes the sandbox root''))
              else Inr effective))"

definition relative :: "sandbox \<Rightarrow> path \<Rightarrow> string" where
  "relative s absPath = Rel (root s) absPath"

section \<open>read_file\<close>

definition maxReadChars :: nat where "maxReadChars = 25000"
definition maxListEntries :: nat where "maxListEntries = 1000"
definition maxSearchResults :: int where "maxSearchResults = 200"
definition defaultMaxResults :: int where "defaultMaxResults = 50"
definition maxSearchFileBytes :: nat where "maxSearchFileBytes = 1048576"
definition binarySniffBytes :: nat where "binarySniffBytes = 8000"

definition truncateRunes :: "string \<Rightarrow> nat \<Rightarrow> string \<times> bool" where
  "truncateRunes s mx =
     (if RuneCountInString s \<le> mx then (s, False) else (concat (take mx (runes s)), True))"

type_synonym 'a fs_op = "fs \<Rightarrow> 'a result \<times> fs"

definition op_error :: "string \<Rightarrow> string \<Rightarrow> go_error \<Rightarrow> go_error" where
  "op_error verb p e = Wrap (verb @ '' '' @ quote p @ '': '') e []"

definition op_text :: "string \<Rightarrow> string \<Rightarrow> string \<Rightarrow> go_error" where
  "op_text verb p what = Err (verb @ '' '' @ quote p @ '': '' @ what)"

definition read_file :: "sandbox \<Rightarrow> (string \<times> json) list \<Rightarrow> fs \<Rightarrow> string result" where
  "read_file sb args fs =
     bind_result (ArgString args ''path'' []) (\<lambda>p.
     bind_result (resolve sb fs p) (\<lambda>target.
       case os_Stat fs target of
         Inl e \<Rightarrow> Inl (op_error ''read'' p e)
       | Inr EDir \<Rightarrow> Inl (op_text ''read'' p ''is a directory'')
       | Inr _ \<Rightarrow>
           (case os_ReadFile fs target of
              Inl e \<Rightarrow> Inl (op_error ''read'' p e)
            | Inr data \<Rightarrow>
                (if \<not> utf8_Valid data then Inl (op_text ''read'' p ''not a UTF-8 text file'')
                 else (case truncateRunes data maxReadChars of
                         (t, True) \<Rightarrow>
                           Inr (t @ nl @ nl @ ''[truncated: file exceeds '' @ Itoa (int maxReadChars) @ '' characters]'')
                       | (t, False) \<Rightarrow> Inr data)))))"

section \<open>list_files\<close>

definition relDepth :: "path \<Rightarrow> path \<Rightarrow> int" where
  "relDepth rt p = int (count_list (Rel rt p) (CHR ''/'')) + 1"

definition list_visit :: "sandbox \<Rightarrow> path \<Rightarrow> int \<Rightarrow> (string list \<times> bool) walk_fn" where
  "list_visit sb target depth p d st =
     (case st of (entries, truncated) \<Rightarrow>
        (case d of
           Inl e \<Rightarrow> (WErr e, st)
         | Inr x \<Rightarrow>
             (if p = target then (WNext, st)
              else if depth > 0 \<and> relDepth target p > depth then (if x = EDir then WSkipDir else WNext, st)
              else if length entries \<ge> maxListEntries then (WSkipAll, (entries, True))
              else (WNext, (entries @ [relative sb p @ (if x = EDir then ''/'' else [])], truncated)))))"

definition list_files :: "sandbox \<Rightarrow> (string \<times> json) list \<Rightarrow> fs \<Rightarrow> string result" where
  "list_files sb args fs =
     bind_result (ArgString args ''path'' ''.'') (\<lambda>p.
     bind_result (ArgInt args ''depth'' 0) (\<lambda>depth.
     bind_result (resolve sb fs p) (\<lambda>target.
       case os_Stat fs target of
         Inl e \<Rightarrow> Inl (op_error ''list'' p e)
       | Inr x \<Rightarrow>
           (if x \<noteq> EDir then Inl (op_text ''list'' p ''not a directory'')
            else (case WalkDir fs target (list_visit sb target depth) ([], False) of
                    (Inl e, _) \<Rightarrow> Inl (op_error ''list'' p e)
                  | (Inr _, entries, truncated) \<Rightarrow>
                      Inr (json_print (slice_json JStr entries) @
                           (if truncated
                            then nl @ ''[truncated: more than '' @ Itoa (int maxListEntries) @ '' entries]''
                            else [])))))))"

section \<open>write_file\<close>

definition write_file :: "write_fault \<Rightarrow> sandbox \<Rightarrow> (string \<times> json) list \<Rightarrow> string fs_op" where
  "write_file flt sb args fs =
     (case bind_result (ArgString args ''path'' []) (\<lambda>p.
           bind_result (ArgString args ''content'' []) (\<lambda>content.
           bind_result (ArgBool args ''overwrite'' False) (\<lambda>overwrite.
           bind_result (resolve sb fs p) (\<lambda>target. Inr (p, content, overwrite, target))))) of
        Inl e \<Rightarrow> (Inl e, fs)
      | Inr (p, content, overwrite, target) \<Rightarrow>
          (if \<not> overwrite \<and> (case os_Stat fs target of Inr _ \<Rightarrow> True | Inl _ \<Rightarrow> False)
           then (Inl (op_text ''write'' p ''already exists (pass overwrite=true to replace)''), fs)
           else (case os_MkdirAll fs (butlast target) of
                   (Inl e, fs1) \<Rightarrow> (Inl (op_error ''write'' p e), fs1)
                 | (Inr _, fs1) \<Rightarrow>
                     (case writeFileAtomic flt target content fs1 of
                        (Inl e, fs2) \<Rightarrow> (Inl (op_error ''write'' p e), fs2)
                      | (Inr _, fs2) \<Rightarrow>
                          (Inr (''wrote '' @ Itoa (int (length content)) @ '' bytes to '' @ p), fs2)))))"

section \<open>search_files\<close>

record searchHit =
  sh_Path :: string
  sh_Line :: nat
  sh_Text :: string

definition looksBinary :: "string \<Rightarrow> bool" where
  "looksBinary data = (IndexByte (take binarySniffBytes data) (char_of (0::nat)) \<noteq> None)"

text \<open>\<open>d.Info().Size()\<close> is the size of the entry itself: of a link, the length of its target.\<close>

fun entry_size :: "entry \<Rightarrow> nat" where
  "entry_size (EFile s) = length s"
| "entry_size (ELink t) = length t"
| "entry_size EDir = 0"

primrec search_lines :: "string \<Rightarrow> string \<Rightarrow> int \<Rightarrow> string list \<Rightarrow> nat \<Rightarrow> searchHit list \<Rightarrow> searchHit list" where
  "search_lines rel needle maxResults [] i hits = hits"
| "search_lines rel needle maxResults (line # lines) i hits =
     (if int (length hits) \<ge> maxResults then hits
      else search_lines rel needle maxResults lines (i + 1)
             (if Contains (ToLower line) needle
              then hits @ [\<lparr>sh_Path = rel, sh_Line = i + 1, sh_Text = TrimSpace line\<rparr>] else hits))"

definition search_visit :: "fs \<Rightarrow> sandbox \<Rightarrow> string \<Rightarrow> int \<Rightarrow> searchHit list walk_fn" where
  "search_visit fs sb needle maxResults p d hits =
     (case d of
        Inl e \<Rightarrow> (WErr e, hits)
      | Inr x \<Rightarrow>
          (if int (length hits) \<ge> maxResults then (WSkipAll, hits)
           else if x = EDir then (WNext, hits)
           else if entry_size x > maxSearchFileBytes then (WNext, hits)
           else (case os_ReadFile fs p of
                   Inl _ \<Rightarrow> (WNext, hits)
                 | Inr data \<Rightarrow>
                     (if looksBinary data then (WNext, hits)
                      else (WNext,
                            search_lines (relative sb p) needle maxResults (Split data (CHR 0x0A)) 0 hits)))))"

definition hit_json :: "searchHit \<Rightarrow> json" where
  "hit_json h =
     JObj [(''path'', JStr (sh_Path h)), (''line'', JNum (Itoa (int (sh_Line h)))), (''text'', JStr (sh_Text h))]"

definition search_hits :: "sandbox \<Rightarrow> (string \<times> json) list \<Rightarrow> fs \<Rightarrow> searchHit list result" where
  "search_hits sb args fs =
     bind_result (ArgString args ''path'' ''.'') (\<lambda>p.
     bind_result (ArgString args ''query'' []) (\<lambda>query.
       if query = [] then Inl (Err ''query must not be empty'')
       else bind_result (ArgInt args ''max_results'' defaultMaxResults) (\<lambda>m.
         let maxResults = (if m \<le> 0 \<or> m > maxSearchResults then maxSearchResults else m)
         in bind_result (resolve sb fs p) (\<lambda>target.
              case WalkDir fs target (search_visit fs sb (ToLower query) maxResults) [] of
                (Inl e, _) \<Rightarrow> Inl (op_error ''search'' p e)
              | (Inr _, hits) \<Rightarrow> Inr (sort_key sh_Path hits)))))"

definition search_files :: "sandbox \<Rightarrow> (string \<times> json) list \<Rightarrow> fs \<Rightarrow> string result" where
  "search_files sb args fs = map_sum id (\<lambda>hits. json_print (slice_json hit_json hits)) (search_hits sb args fs)"

section \<open>The tool set\<close>

text \<open>A raw string literal: its lines, each with the tabs it starts with.\<close>

definition raw_lines :: "(nat \<times> string) list \<Rightarrow> string" where
  "raw_lines ls = Join (map (\<lambda>(n, l). replicate n (CHR 0x09) @ l) ls) nl"

definition read_file_Schema :: string where
  \<open>read_file_Schema = raw_lines
     [(0, ''{''),
      (2, ''"type": "object",''),
      (2, ''"properties": {"path": {"type": "string", "description": "File path, relative to the sandbox root"}},''),
      (2, ''"required": ["path"]''),
      (1, ''}'')]\<close>

definition list_files_Schema :: string where
  \<open>list_files_Schema = raw_lines
     [(0, ''{''),
      (2, ''"type": "object",''),
      (2, ''"properties": {''),
      (3, ''"path": {"type": "string", "description": "Directory path, relative to the sandbox root; defaults to '' @ [CHR 0x5C] @ ''".'' @ [CHR 0x5C] @ ''""},''),
      (3, ''"depth": {"type": "integer", "description": "Max recursion depth; omit or 0 for unlimited"}''),
      (2, ''}''),
      (1, ''}'')]\<close>

definition write_file_Schema :: string where
  \<open>write_file_Schema = raw_lines
     [(0, ''{''),
      (2, ''"type": "object",''),
      (2, ''"properties": {''),
      (3, ''"path": {"type": "string", "description": "File path, relative to the sandbox root"},''),
      (3, ''"content": {"type": "string", "description": "Text content to write"},''),
      (3, ''"overwrite": {"type": "boolean", "description": "Replace the file if it already exists; defaults to false"}''),
      (2, ''},''),
      (2, ''"required": ["path", "content"]''),
      (1, ''}'')]\<close>

definition search_files_Schema :: string where
  \<open>search_files_Schema = raw_lines
     [(0, ''{''),
      (2, ''"type": "object",''),
      (2, ''"properties": {''),
      (3, ''"path": {"type": "string", "description": "Directory path, relative to the sandbox root; defaults to '' @ [CHR 0x5C] @ ''".'' @ [CHR 0x5C] @ ''""},''),
      (3, ''"query": {"type": "string", "description": "Substring to search for"},''),
      (3, ''"max_results": {"type": "integer", "description": "Cap on matches returned; defaults to 50, max 200"}''),
      (2, ''},''),
      (2, ''"required": ["query"]''),
      (1, ''}'')]\<close>

definition files_tools :: "write_fault \<Rightarrow> sandbox \<Rightarrow> fs Tool list" where
  \<open>files_tools flt sb =
     [\<lparr>tl_Name = ''read_file'', tl_Description = ''Reads a UTF-8 text file and returns its content.'',
       tl_Schema = read_file_Schema, tl_Execute = (\<lambda>args _ fs. (read_file sb args fs, fs))\<rparr>,
      \<lparr>tl_Name = ''list_files'',
       tl_Description = ''Lists files and directories under a path, recursively. Directories are suffixed with "/".'',
       tl_Schema = list_files_Schema, tl_Execute = (\<lambda>args _ fs. (list_files sb args fs, fs))\<rparr>,
      \<lparr>tl_Name = ''write_file'',
       tl_Description = ''Writes a UTF-8 text file, creating parent directories as needed. '' @
         ''Fails if the file already exists unless overwrite is true.'',
       tl_Schema = write_file_Schema, tl_Execute = (\<lambda>args _. write_file flt sb args)\<rparr>,
      \<lparr>tl_Name = ''search_files'',
       tl_Description = ''Recursively searches text files under a path for a case-insensitive substring, '' @
         ''returning matching lines. Files over 1MB or that look binary are skipped.'',
       tl_Schema = search_files_Schema, tl_Execute = (\<lambda>args _ fs. (search_files sb args fs, fs))\<rparr>]\<close>

definition files_New :: "write_fault \<Rightarrow> path \<Rightarrow> string \<Rightarrow> fs \<Rightarrow> fs Tool list result" where
  "files_New flt cwd rt fs = map_sum id (files_tools flt) (newSandbox cwd rt fs)"

section \<open>What a resolved path is\<close>

text \<open>
  A path is anchored when it is physical, or when it leaves the tree at its first component below a
  physical directory, with an error that the path does not exist. Whatever opens at an anchored path
  is that path itself: there is no way out of the directory through a link.
\<close>

definition leaves_tree :: "fs \<Rightarrow> path \<Rightarrow> bool" where
  "leaves_tree fs q \<longleftrightarrow>
     (\<exists>d x suf p. q = d @ x # suf \<and> is_dir fs d \<and> plain x \<and> list_all plain suf \<and>
        walk fs 255 d [x] = Inl (p, ENOENT))"

definition anchored :: "fs \<Rightarrow> path \<Rightarrow> bool" where
  "anchored fs q \<longleftrightarrow> physical fs q \<or> leaves_tree fs q"

lemma leaves_treeI:
  "q = d @ x # suf \<Longrightarrow> is_dir fs d \<Longrightarrow> plain x \<Longrightarrow> list_all plain suf \<Longrightarrow>
   walk fs 255 d [x] = Inl (p, ENOENT) \<Longrightarrow> leaves_tree fs q"
  unfolding leaves_tree_def by blast

lemma leaves_treeE:
  assumes "leaves_tree fs q"
  obtains d x suf p where "q = d @ x # suf" "is_dir fs d" "plain x" "list_all plain suf"
    "walk fs 255 d [x] = Inl (p, ENOENT)"
  using assms unfolding leaves_tree_def by blast

lemma EvalSymlinks_Inr: "EvalSymlinks fs p = Inr q \<longleftrightarrow> walk fs 255 [] p = Inr q"
  by (auto simp: EvalSymlinks_def split: sum.splits prod.splits errno.splits)

lemma EvalSymlinks_missing:
  "EvalSymlinks fs p = Inl e \<Longrightarrow> is_not_exist e \<Longrightarrow> \<exists>x. walk fs 255 [] p = Inl (x, ENOENT)"
  by (auto simp: EvalSymlinks_def path_error_def split: sum.splits prod.splits errno.splits)

lemma no_slash_plain: "list_all plain p \<Longrightarrow> no_slash p"
  by (auto simp: no_slash_def list_all_iff plain_def)

lemma walk_missing_child:
  assumes "walk fs 255 [] r = Inr d" "walk fs 255 [] (r @ [x]) = Inl (p, ENOENT)" "list_all plain r" "plain x"
  shows "is_dir fs d \<and> walk fs 255 d [x] = Inl (p, ENOENT)"
proof -
  have ns: "no_slash r" using assms by (simp add: no_slash_plain)
  have phys: "physical fs d" using walk_physical [OF assms(1)] ns by simp
  show ?thesis
  proof (cases "is_dir fs d")
    case True
    from walk_append_Inr [OF assms(1) is_dir_node [OF True] _ ns, of "[x]"] assms(2)
    obtain m where "m \<le> 255" "walk fs m d [x] = Inl (p, ENOENT)" by auto
    with walk_more_links [of m 255 fs d "[x]"] True show ?thesis by auto
  next
    case False
    with phys obtain s where "node fs d = Some (EFile s)" by (auto simp: physical_def)
    from walk_append_file [OF assms(1) this _ ns, of x] assms(2,4) show ?thesis by (auto simp: plain_iff)
  qed
qed

lemma effectivePath_cases:
  "effectivePath fs p = Inr q \<Longrightarrow> list_all plain p \<Longrightarrow>
   walk fs 255 [] p = Inr q \<and> physical fs q \<or>
   (\<exists>x. walk fs 255 [] p = Inl (x, ENOENT)) \<and> leaves_tree fs q"
proof (induction p arbitrary: q rule: rev_induct)
  case Nil
  then show ?case by (simp add: effectivePath.simps EvalSymlinks_def physical_def)
next
  case (snoc c r)
  then have c: "plain c" and r: "list_all plain r" by simp_all
  show ?case
  proof (cases "EvalSymlinks fs (r @ [c])")
    case (Inr t)
    with snoc.prems have q: "walk fs 255 [] (r @ [c]) = Inr q"
      by (simp add: effectivePath.simps EvalSymlinks_Inr)
    moreover have "no_slash (r @ [c])" using snoc.prems by (intro no_slash_plain) simp
    ultimately show ?thesis using walk_physical [of fs 255 "[]" "r @ [c]" q] by simp
  next
    case (Inl e)
    with snoc.prems have ne: "is_not_exist e" by (auto simp: effectivePath.simps split: if_splits)
    from EvalSymlinks_missing [OF Inl ne] obtain x where w: "walk fs 255 [] (r @ [c]) = Inl (x, ENOENT)" ..
    from Inl ne snoc.prems obtain q' where q': "effectivePath fs r = Inr q'" "q = q' @ [c]"
      using norm_onto_plain [of "[c]"] c
      by (subst (asm) effectivePath.simps)
        (auto simp: Join_path_def comps_def Split_no_sep_id plain_def split: sum.splits)
    from snoc.IH [OF q'(1) r] show ?thesis
    proof (elim disjE conjE exE)
      assume "walk fs 255 [] r = Inr q'" "physical fs q'"
      from walk_missing_child [OF this(1) w r c] have "leaves_tree fs q"
        by (intro leaves_treeI [OF q'(2)]) (auto simp: c)
      with w show ?thesis by blast
    next
      assume "leaves_tree fs q'"
      then obtain d z suf p where *: "q' = d @ z # suf" "is_dir fs d" "plain z" "list_all plain suf"
          "walk fs 255 d [z] = Inl (p, ENOENT)" by (rule leaves_treeE)
      have "leaves_tree fs q"
        using q'(2) c * by (intro leaves_treeI [of q d z "suf @ [c]" fs p]) simp_all
      with w show ?thesis by blast
    qed
  qed
qed

lemma effectivePath_anchored: "effectivePath fs p = Inr q \<Longrightarrow> list_all plain p \<Longrightarrow> anchored fs q"
  unfolding anchored_def using effectivePath_cases [of fs p q] by blast

lemma anchored_plain: "anchored fs q \<Longrightarrow> list_all plain q"
  unfolding anchored_def
proof (elim disjE)
  assume "leaves_tree fs q"
  then show ?thesis by (rule leaves_treeE) (simp add: is_dir_def)
qed (rule physical_plain)

lemma missing_child_40:
  "walk fs 255 d [x] = Inl (p, ENOENT) \<Longrightarrow> \<exists>e. walk fs 40 d [x] = Inl e"
  using walk_more_links [of 40 255 fs d "[x]"] by (cases "walk fs 40 d [x]") auto

lemma anchored_opens_itself: "anchored fs q \<Longrightarrow> os_walk fs q = Inr p \<Longrightarrow> p = q"
  unfolding anchored_def
proof (elim disjE)
  assume "physical fs q" "os_walk fs q = Inr p"
  then show ?thesis by (simp add: os_walk_physical)
next
  assume opens: "os_walk fs q = Inr p" and "leaves_tree fs q"
  from this(2) obtain d x suf e where *: "q = d @ x # suf" "is_dir fs d" "walk fs 255 d [x] = Inl (e, ENOENT)"
    by (rule leaves_treeE)
  from missing_child_40 [OF *(3)] obtain e' where "walk fs 40 d [x] = Inl e'" ..
  then have "walk fs 40 d ([x] @ suf) = Inl e'" by (rule walk_append_Inl)
  with * opens walk_dir [of fs "[]" d 40 "x # suf"] show ?thesis by (simp add: os_walk_def)
qed

definition inside :: "path \<Rightarrow> path \<Rightarrow> bool" where
  "inside rt q \<longleftrightarrow> (\<exists>xs. q = rt @ xs)"

lemma Clean_abs_plain: "list_all plain (Clean_abs s)"
  unfolding Clean_abs_def by (rule norm_onto_all_plain) simp_all

lemma Join_path_plain: "list_all plain base \<Longrightarrow> list_all plain (Join_path base s)"
  unfolding Join_path_def by (rule norm_onto_all_plain) simp_all

lemma newSandbox_root:
  assumes "list_all plain cwd" "newSandbox cwd rt fs = Inr sb"
  shows "list_all plain (root sb)"
proof -
  have "list_all plain (filepath_Abs cwd rt)"
    using assms(1) by (simp add: filepath_Abs_def Clean_abs_plain Join_path_plain)
  with assms(2) anchored_plain [OF effectivePath_anchored] show ?thesis
    by (auto simp: newSandbox_def split: sum.splits)
qed

lemma resolve_cases:
  assumes "list_all plain (root sb)" "resolve sb fs u = Inr q"
  shows "anchored fs q \<and> (q = root sb \<or> root sb \<noteq> [] \<and> (\<exists>x xs. q = root sb @ x # xs))"
proof -
  obtain c where "effectivePath fs c = Inr q" "list_all plain c"
    and test: "abs_str q = abs_str (root sb) \<or> HasPrefix (abs_str q) (abs_str (root sb) @ ''/'')"
    using assms by (auto simp: resolve_def Let_def Clean_abs_plain Join_path_plain split: sum.splits if_splits)
  then have "anchored fs q" by (simp add: effectivePath_anchored)
  with test assms(1) anchored_plain [of fs q] show ?thesis
    by (auto simp: abs_str_inj abs_str_below)
qed

lemma resolve_inside:
  "list_all plain (root sb) \<Longrightarrow> resolve sb fs u = Inr q \<Longrightarrow> inside (root sb) q"
  using resolve_cases [of sb fs u q] by (auto simp: inside_def)

section \<open>Reading\<close>

lemma os_ReadFile_opens: "os_ReadFile fs q = Inr s \<Longrightarrow> \<exists>p. os_walk fs q = Inr p \<and> node fs p = Some (EFile s)"
  by (auto simp: os_ReadFile_def split: sum.splits prod.splits option.splits entry.splits)

lemma read_file_content:
  assumes "list_all plain (root sb)" "read_file sb args fs = Inr out"
  shows "\<exists>u q s. ArgString args ''path'' [] = Inr u \<and> resolve sb fs u = Inr q \<and>
           inside (root sb) q \<and> node fs q = Some (EFile s) \<and> utf8_Valid s \<and>
           out = (if RuneCountInString s \<le> maxReadChars then s
                  else concat (take maxReadChars (runes s)) @ nl @ nl @
                       ''[truncated: file exceeds '' @ Itoa (int maxReadChars) @ '' characters]'')"
proof -
  from assms(2) obtain u q where u: "ArgString args ''path'' [] = Inr u" "resolve sb fs u = Inr q"
    and rest: "(case os_Stat fs q of
        Inl e \<Rightarrow> Inl (op_error ''read'' u e)
      | Inr EDir \<Rightarrow> Inl (op_text ''read'' u ''is a directory'')
      | Inr _ \<Rightarrow>
          (case os_ReadFile fs q of
             Inl e \<Rightarrow> Inl (op_error ''read'' u e)
           | Inr data \<Rightarrow>
               (if \<not> utf8_Valid data then Inl (op_text ''read'' u ''not a UTF-8 text file'')
                else (case truncateRunes data maxReadChars of
                        (t, True) \<Rightarrow>
                          Inr (t @ nl @ nl @ ''[truncated: file exceeds '' @ Itoa (int maxReadChars) @ '' characters]'')
                      | (t, False) \<Rightarrow> Inr data)))) = Inr out"
    by (simp only: read_file_def bind_result_Inr) blast
  then obtain x where "os_Stat fs q = Inr x" "x \<noteq> EDir" by (cases "os_Stat fs q") (auto split: entry.splits)
  with rest obtain s where s: "os_ReadFile fs q = Inr s" "utf8_Valid s"
    and out: "(case truncateRunes s maxReadChars of
        (t, True) \<Rightarrow> t @ nl @ nl @ ''[truncated: file exceeds '' @ Itoa (int maxReadChars) @ '' characters]''
      | (t, False) \<Rightarrow> s) = out"
    by (cases x; cases "os_ReadFile fs q") (auto split: if_splits prod.splits bool.splits)
  from os_ReadFile_opens [OF s(1)] obtain p where "os_walk fs q = Inr p" "node fs p = Some (EFile s)" by blast
  moreover have "anchored fs q" using resolve_cases [OF assms(1) u(2)] by blast
  ultimately have "node fs q = Some (EFile s)" using anchored_opens_itself by blast
  with u s out resolve_inside [OF assms(1) u(2)] show ?thesis
    by (intro exI [of _ u] exI [of _ q] exI [of _ s]) (auto simp: truncateRunes_def)
qed

section \<open>Writing\<close>

definition below :: "path \<Rightarrow> path \<Rightarrow> bool" where
  "below rt q \<longleftrightarrow> (\<exists>x xs. q = rt @ x # xs)"

lemma below_not_dir: "is_dir fs rt \<Longrightarrow> q = d @ zs \<Longrightarrow> below rt q \<Longrightarrow> node fs p = None \<Longrightarrow> p = d @ take k zs \<Longrightarrow> below rt p"
proof -
  assume dir: "is_dir fs rt" and q: "q = d @ zs" "below rt q" and p: "node fs p = None" "p = d @ take k zs"
  from q(2) obtain x xs where x: "q = rt @ x # xs" by (auto simp: below_def)
  have pre: "q = p @ drop k zs" using q p by simp
  show "below rt p"
  proof (cases "length p \<le> length rt")
    case True
    with pre x have "p = take (length p) rt" by (metis append_eq_conv_conj take_append diff_is_0_eq take0 append_Nil2)
    with dir True p(1) show ?thesis unfolding is_dir_def by (metis option.distinct(1))
  next
    case False
    then have "take (length rt) p = rt" "drop (length rt) p \<noteq> []"
      using pre x by (metis append_eq_conv_conj nat_le_linear take_all_iff take_append, simp)
    then show ?thesis unfolding below_def by (metis append_take_drop_id neq_Nil_conv)
  qed
qed

text \<open>Making the parent of an anchored path inside the root touches nothing outside it.\<close>

lemma parent_made:
  assumes "tree_ok fs" "is_dir fs rt" "anchored fs q" "q = rt \<or> below rt q" "os_MkdirAll fs (butlast q) = (r, fs1)"
  shows "(r \<noteq> Inr () \<and> fs1 = fs \<or> r = Inr () \<and> is_dir fs1 (butlast q) \<and> (q = rt \<longrightarrow> fs1 = fs)) \<and>
         (\<forall>p. \<not> below rt p \<longrightarrow> node fs1 p = node fs p)"
  using assms(3) unfolding anchored_def
proof (elim disjE)
  assume "physical fs q"
  then have "is_dir fs (butlast q)" by (auto simp: physical_def)
  with assms(5) show ?thesis by simp
next
  assume "leaves_tree fs q"
  then obtain d x suf e where q: "q = d @ x # suf" "is_dir fs d" "plain x" "list_all plain suf"
    and w: "walk fs 255 d [x] = Inl (e, ENOENT)" by (rule leaves_treeE)
  show ?thesis
  proof (cases "suf = []")
    case True
    with q assms(5) show ?thesis by simp
  next
    case False
    then have bl: "butlast q = d @ butlast (x # suf)" using q by (simp add: butlast_append)
    have not_dir: "node fs (d @ [x]) \<noteq> Some EDir" "\<And>s. node fs (d @ [x]) \<noteq> Some (EFile s)"
      using w q(3) by (auto simp: plain_iff)
    have "q \<noteq> rt"
    proof
      assume "q = rt"
      with assms(2) q(1) have "is_dir fs ((d @ [x]) @ suf)" by simp
      then have "node fs (d @ [x]) = Some EDir" unfolding is_dir_def
        by (auto dest: spec [of _ "Suc (length d)"])
      with not_dir show False by blast
    qed
    show ?thesis
    proof (cases "node fs (d @ [x])")
      case None
      have "list_all plain (butlast suf)" using q(4) by (cases suf rule: rev_cases) auto
      with q None False os_MkdirAll_new [OF q(2) assms(1), of "butlast (x # suf)"] bl assms(5)
      have r: "r = Inr ()" "is_dir fs1 (butlast q)"
        and nodes: "\<And>p. node fs1 p =
          (if \<exists>k \<in> {1..length (butlast (x # suf))}. p = d @ take k (butlast (x # suf)) then Some EDir else node fs p)"
        by auto
      have "below rt p" if p: "p = d @ take k (butlast (x # suf))" "1 \<le> k" for p k
      proof -
        obtain j where j: "take k (butlast (x # suf)) = x # j" using p(2) False by (cases k) auto
        then have "node fs p = None" using tree_ok_none [OF assms(1) None, of j] p by simp
        moreover have "take k (butlast (x # suf)) = take (min k (length suf)) (x # suf)"
          by (simp add: butlast_conv_take min.commute)
        ultimately show ?thesis using below_not_dir [OF assms(2) q(1)] assms(4) \<open>q \<noteq> rt\<close> p by metis
      qed
      with r nodes \<open>q \<noteq> rt\<close> show ?thesis by auto
    next
      case (Some a)
      with not_dir obtain t where "node fs (d @ [x]) = Some (ELink t)" by (cases a) auto
      moreover obtain e' where "walk fs 40 d [x] = Inl e'" using missing_child_40 [OF w] by blast
      ultimately have "\<exists>e. os_MkdirAll fs (d @ x # butlast suf) = (Inl e, fs)"
        by (rule os_MkdirAll_dangling [OF q(2,3)])
      with bl False assms(5) show ?thesis by auto
    qed
  qed
qed

lemma os_Rename_to_root: "fst (os_Rename fs src []) \<noteq> Inr ()"
  by (auto simp: os_Rename_def in_dir_def split: sum.splits option.splits entry.splits)

lemma writeFileAtomic_root: "fst (writeFileAtomic flt [] data fs) \<noteq> Inr ()"
  using os_Rename_to_root
  by (auto simp: writeFileAtomic_def Let_def split: sum.splits write_fault.splits prod.splits)
    (metis fst_conv)+

lemma write_file_effect:
  assumes ok: "tree_ok fs" and dir: "is_dir fs (root sb)" and w: "write_file flt sb args fs = (r, fs')"
    and temp: "\<And>u q. ArgString args ''path'' [] = Inr u \<Longrightarrow> resolve sb fs u = Inr q \<Longrightarrow> \<not> is_temp (last q)"
  shows "(\<forall>p. \<not> below (root sb) p \<longrightarrow> node fs' p = node fs p) \<and>
         (\<forall>m. r = Inr m \<longrightarrow> (\<exists>u q c. ArgString args ''path'' [] = Inr u \<and> ArgString args ''content'' [] = Inr c \<and>
            resolve sb fs u = Inr q \<and> below (root sb) q \<and> node fs' q = Some (EFile c)))"
proof (cases "fs' = fs \<and> (\<forall>m. r \<noteq> Inr m)")
  case False
  have pl: "list_all plain (root sb)" using dir by (simp add: is_dir_def)
  from False w obtain u c b q where args: "ArgString args ''path'' [] = Inr u" "ArgString args ''content'' [] = Inr c"
      "resolve sb fs u = Inr q"
    and run: "(case os_MkdirAll fs (butlast q) of
          (Inl e, fs1) \<Rightarrow> (Inl (op_error ''write'' u e), fs1)
        | (Inr _, fs1) \<Rightarrow>
            (case writeFileAtomic flt q c fs1 of
               (Inl e, fs2) \<Rightarrow> (Inl (op_error ''write'' u e), fs2)
             | (Inr _, fs2) \<Rightarrow> (Inr (''wrote '' @ Itoa (int (length c)) @ '' bytes to '' @ u), fs2))) = (r, fs')"
    unfolding write_file_def by (auto split: sum.splits if_splits)
  from resolve_cases [OF pl args(3)] have q: "anchored fs q" "q = root sb \<or> below (root sb) q" "root sb = [] \<Longrightarrow> q = []"
    by (auto simp: below_def)
  obtain r1 fs1 where mk: "os_MkdirAll fs (butlast q) = (r1, fs1)" by fastforce
  note made = parent_made [OF ok dir q(1,2) mk]
  show ?thesis
  proof (cases "r1 = Inr ()")
    case bad: False
    with made mk run show ?thesis by (cases r1) auto
  next
    case good: True
    obtain r2 fs2 where wa: "writeFileAtomic flt q c fs1 = (r2, fs2)" by fastforce
    with run mk good have rr: "fs' = fs2" "\<And>m. r = Inr m \<Longrightarrow> r2 = Inr ()" by (auto split: sum.splits)
    show ?thesis
    proof (cases "root sb = []")
      case True
      have "p = []" if "\<not> below [] p" for p using that by (cases p) (auto simp: below_def)
      moreover have "r2 \<noteq> Inr ()" using wa q(3) [OF True] writeFileAtomic_root [of flt c fs1] by auto
      ultimately show ?thesis using True rr by (metis node_Nil)
    next
      case False
      with q(2) have "q \<noteq> []" by (auto simp: below_def)
      then obtain d n where dn: "q = d @ [n]" by (cases q rule: rev_cases) auto
      have "plain n" using anchored_plain [OF q(1)] dn by simp
      moreover have "is_dir fs1 d" using made good dn by auto
      ultimately have eff: "r2 = Inr () \<and> node fs1 q \<noteq> Some EDir \<and> node fs2 = (node fs1)(q \<mapsto> EFile c) \<or>
          r2 \<noteq> Inr () \<and> node fs2 = node fs1"
        using writeFileAtomic_cases(1) [of fs1 d n flt c r2 fs2] wa dn temp [OF args(1,3)] by simp
      show ?thesis
      proof (cases "q = root sb")
        case True
        with made good is_dir_node [OF dir] have "node fs1 q = Some EDir" by simp
        with eff made rr show ?thesis by auto
      next
        case False
        with eff made rr q(2) args show ?thesis by auto
      qed
    qed
  qed
qed auto

section \<open>Properties\<close>

text \<open>
  C4: whatever the user path (absolute, with "..", through links, existing or not), a path the sandbox
  accepts lies inside the root, and what opens at it is itself, so no link leads out.
\<close>

theorem sandbox_confines:
  assumes "list_all plain cwd" "newSandbox cwd rt fs0 = Inr sb" "resolve sb fs userPath = Inr q"
  shows "inside (root sb) q \<and> (\<forall>p. os_walk fs q = Inr p \<longrightarrow> p = q)"
proof -
  have pl: "list_all plain (root sb)" using assms(1,2) by (rule newSandbox_root)
  have "anchored fs q" using resolve_cases [OF pl assms(3)] by blast
  then show ?thesis using resolve_inside [OF pl assms(3)] anchored_opens_itself by blast
qed

text \<open>A tree with a directory, a secret beside it and links out of it.\<close>

definition demo_fs :: fs where
  "demo_fs = [([''home''], EDir), ([''home'', ''ws''], EDir), ([''home'', ''ws'', ''a.txt''], EFile ''abc''),
              ([''home'', ''secret''], EFile ''key=42''), ([''home'', ''ws'', ''out''], ELink ''../secret''),
              ([''home'', ''ws'', ''up''], ELink ''/home'')]"

definition demo_sb :: sandbox where
  "demo_sb = \<lparr>root = [''home'', ''ws'']\<rparr>"

lemmas fs_eval =
  resolve_def effectivePath.simps EvalSymlinks_def path_error_def Join_path_def Clean_abs_def abs_str_def
  HasPrefix_def walk.simps(2) node_def link_from_def is_abs_def comps_def newSandbox_def filepath_Abs_def
  os_walk_def os_Stat_def os_Lstat_def in_dir_def os_ReadFile_def demo_sb_def demo_fs_def

theorem sandbox_confines_witness:
  "newSandbox [''home''] ''ws'' demo_fs = Inr demo_sb \<and>
   resolve demo_sb demo_fs ''x/../a.txt'' = Inr [''home'', ''ws'', ''a.txt''] \<and>
   resolve demo_sb demo_fs ''up/ws/new/b'' = Inr [''home'', ''ws'', ''new'', ''b''] \<and>
   (\<exists>e. resolve demo_sb demo_fs ''out'' = Inl e) \<and>
   inside (root demo_sb) [''home'', ''ws'', ''a.txt''] \<and>
   os_walk demo_fs [''home'', ''ws'', ''a.txt''] = Inr [''home'', ''ws'', ''a.txt'']"
proof -
  have 1: "list_all plain [''home'']" "newSandbox [''home''] ''ws'' demo_fs = Inr demo_sb"
    and 2: "resolve demo_sb demo_fs ''x/../a.txt'' = Inr [''home'', ''ws'', ''a.txt'']"
    and 3: "resolve demo_sb demo_fs ''up/ws/new/b'' = Inr [''home'', ''ws'', ''new'', ''b'']"
    by (simp_all add: fs_eval plain_def)
  have 4: "\<exists>e. resolve demo_sb demo_fs ''out'' = Inl e" by (simp add: fs_eval)
  have 5: "os_walk demo_fs [''home'', ''ws'', ''a.txt''] = Inr [''home'', ''ws'', ''a.txt'']" by (simp add: fs_eval)
  from sandbox_confines [OF 1 2] 1 2 3 4 5 show ?thesis by blast
qed

text \<open>
  read_file returns the text of a file inside the root, valid UTF-8, whole when it has at most
  25,000 characters, and otherwise its first 25,000 characters and a notice.
\<close>

theorem read_file_inside:
  assumes "list_all plain (root sb)" "read_file sb args fs = Inr out"
  shows "\<exists>u q s. ArgString args ''path'' [] = Inr u \<and> resolve sb fs u = Inr q \<and>
           inside (root sb) q \<and> node fs q = Some (EFile s) \<and> utf8_Valid s \<and>
           out = (if RuneCountInString s \<le> maxReadChars then s
                  else concat (take maxReadChars (runes s)) @ nl @ nl @
                       ''[truncated: file exceeds '' @ Itoa (int maxReadChars) @ '' characters]'')"
  using assms by (rule read_file_content)

lemma abc_text: "utf8_Valid ''abc''" "RuneCountInString ''abc'' = 3"
  by code_simp+

theorem read_file_inside_witness:
  "read_file demo_sb [(''path'', JStr ''up/ws/a.txt'')] demo_fs = Inr ''abc'' \<and>
   (\<exists>q s. inside (root demo_sb) q \<and> node demo_fs q = Some (EFile s) \<and> utf8_Valid s)"
proof -
  have 1: "list_all plain (root demo_sb)"
    and 2: "read_file demo_sb [(''path'', JStr ''up/ws/a.txt'')] demo_fs = Inr ''abc''"
    by (simp_all add: read_file_def ArgString_def truncateRunes_def maxReadChars_def abc_text fs_eval plain_def)
  from read_file_inside [OF 1 2] 2 show ?thesis by blast
qed


lemma demo_write:
  "ArgString [(''path'', JStr ''n/b''), (''content'', JStr ''hi'')] ''path'' [] = Inr ''n/b''"
  "resolve demo_sb demo_fs ''n/b'' = Inr [''home'', ''ws'', ''n'', ''b'']"
  by (simp_all add: ArgString_def fs_eval)


section \<open>Listing\<close>

lemma resolved_dir:
  assumes "list_all plain (root sb)" "resolve sb fs u = Inr q" "os_Stat fs q = Inr EDir"
  shows "is_dir fs q"
proof -
  have an: "anchored fs q" using resolve_cases [OF assms(1,2)] by blast
  from assms(3) obtain p where p: "os_walk fs q = Inr p" "node fs p = Some EDir"
    by (auto simp: os_Stat_def split: sum.splits prod.splits option.splits)
  then have node: "node fs q = Some EDir" using anchored_opens_itself [OF an] by simp
  have "\<not> leaves_tree fs q"
  proof
    assume "leaves_tree fs q"
    then obtain d x suf e where *: "q = d @ x # suf" "is_dir fs d" "walk fs 255 d [x] = Inl (e, ENOENT)"
      by (rule leaves_treeE)
    from missing_child_40 [OF *(3)] obtain e' where "walk fs 40 d [x] = Inl e'" ..
    then have "walk fs 40 d ([x] @ suf) = Inl e'" by (rule walk_append_Inl)
    with * p(1) walk_dir [of fs "[]" d 40 "x # suf"] show False by (simp add: os_walk_def)
  qed
  with an node show ?thesis by (auto simp: anchored_def physical_def)
qed

lemma os_Lstat_dir: "is_dir fs q \<Longrightarrow> os_Lstat fs q = Inr EDir"
proof (cases q rule: rev_cases)
  case Nil
  then show ?thesis by (simp add: os_Lstat_def in_dir_def)
next
  case (snoc d c)
  assume "is_dir fs q"
  with snoc show ?thesis by (simp add: os_Lstat_def)
qed

definition list_entry :: "sandbox \<Rightarrow> fs \<Rightarrow> path \<Rightarrow> string" where
  "list_entry sb fs p = relative sb p @ (if node fs p = Some EDir then ''/'' else [])"

lemma list_walk:
  assumes dir: "is_dir fs q" and ok: "tree_ok fs" and depth: "depth \<le> 0"
    and size: "card {p. below q p \<and> node fs p \<noteq> None} \<le> maxListEntries"
  defines "ps \<equiv> tl (preorder fs (length fs + 2) q)"
  shows "WalkDir fs q (list_visit sb q depth) ([], False) = (Inr (), map (list_entry sb fs) ps, False)"
proof -
  let ?fn = "list_visit sb q depth" and ?e = "\<lambda>v. Inr (entry_at fs v)"
  let ?f = "\<lambda>s v. snd (?fn v (?e v) s)"
  have pre: "preorder fs (length fs + 2) q = q # ps" by (simp add: ps_def)
  have set: "set ps = {p. below q p \<and> node fs p \<noteq> None}"
    using preorder_below [OF ok, of q] is_dir_node [OF dir] by (auto simp: ps_def below_def)
  have dist: "distinct (q # ps)" using preorder_distinct [of fs "length fs + 2" q] unfolding pre .
  then have len: "length ps \<le> maxListEntries" using size distinct_card [of ps] set by simp
  have entry: "entry_at fs v = EDir \<longleftrightarrow> node fs v = Some EDir" if "v \<in> set ps" for v
    using that set by (auto simp: entry_at_def)
  have first: "?fn q (?e q) st = (WNext, st)" for st by (cases st) (simp add: list_visit_def)
  have step: "?fn v (?e v) (es, False) = (WNext, es @ [list_entry sb fs v], False)"
    if "v \<in> set ps" "length es < maxListEntries" for v es
    using that dist depth entry [OF that(1)] by (auto simp: list_visit_def list_entry_def)
  have fold: "foldl ?f ([], False) vs = (map (list_entry sb fs) vs, False)" if "set vs \<subseteq> set ps" "length vs \<le> maxListEntries" for vs
    using that
  proof (induction vs rule: rev_induct)
    case (snoc v vs)
    with step [of v "map (list_entry sb fs) vs"] show ?case by simp
  qed simp
  have "visit fs (length fs + 2) ?fn q ([], False) = (WNext, foldl ?f ([], False) (preorder fs (length fs + 2) q))"
  proof (rule visit_fold)
    fix vs v ws
    assume *: "preorder fs (length fs + 2) q = vs @ v # ws"
    show "fst (?fn v (?e v) (foldl ?f ([], False) vs)) = WNext"
    proof (cases vs)
      case Nil
      with * pre show ?thesis by (simp add: first del: preorder.simps)
    next
      case (Cons a vs')
      from * have "q # ps = (a # vs') @ v # ws" unfolding pre Cons .
      then have "a = q" and ps: "ps = vs' @ v # ws" by simp_all
      then have "foldl ?f ([], False) vs = (map (list_entry sb fs) vs', False)"
        using Cons fold [of vs'] first len by (simp add: subset_insertI2)
      with step [of v "map (list_entry sb fs) vs'"] ps len show ?thesis by simp
    qed
  qed
  also have "foldl ?f ([], False) (preorder fs (length fs + 2) q) = (map (list_entry sb fs) ps, False)"
    unfolding pre using fold [of ps] first len by simp
  finally show ?thesis using dir by (simp add: WalkDir_dir del: visit.simps)
qed

text \<open>
  C37: an unlimited listing of a directory with at most 1,000 entries below it is complete and exact:
  it names every path of the tree below the directory once, relative to the root, directories with a
  trailing slash, and is not marked as truncated.
\<close>

theorem list_files_exact:
  assumes "list_all plain (root sb)" "tree_ok fs"
    and "ArgString args ''path'' ''.'' = Inr u" "ArgInt args ''depth'' 0 = Inr depth" "depth \<le> 0"
    and "resolve sb fs u = Inr q" "os_Stat fs q = Inr EDir"
    and "card {p. below q p \<and> node fs p \<noteq> None} \<le> maxListEntries"
  shows "\<exists>ps. distinct ps \<and> set ps = {p. below q p \<and> node fs p \<noteq> None} \<and>
           list_files sb args fs = Inr (json_print (slice_json JStr
             (map (\<lambda>p. relative sb p @ (if node fs p = Some EDir then ''/'' else [])) ps)))"
proof -
  have dir: "is_dir fs q" using assms(1,6,7) by (rule resolved_dir)
  define ps where "ps = tl (preorder fs (length fs + 2) q)"
  have "distinct ps" unfolding ps_def using preorder_distinct by (rule distinct_tl)
  moreover have "set ps = {p. below q p \<and> node fs p \<noteq> None}"
    unfolding ps_def using preorder_below [OF assms(2), of q] is_dir_node [OF dir] by (auto simp: below_def)
  moreover have "WalkDir fs q (list_visit sb q depth) ([], False) = (Inr (), map (list_entry sb fs) ps, False)"
    unfolding ps_def using dir assms(2,5,8) by (rule list_walk)
  then have "list_files sb args fs = Inr (json_print (slice_json JStr (map (list_entry sb fs) ps)))"
    using assms by (simp add: list_files_def)
  ultimately show ?thesis unfolding list_entry_def by blast
qed

lemma demo_sb_plain: "list_all plain (root demo_sb)"
  by (simp add: demo_sb_def plain_def)

lemma demo_tree: "tree_ok demo_fs"
  by (simp add: tree_ok_def demo_fs_def node_def plain_def)

theorem list_files_exact_witness:
  "\<exists>ps. distinct ps \<and> set ps = {p. below [''home'', ''ws''] p \<and> node demo_fs p \<noteq> None} \<and>
        list_files demo_sb [] demo_fs = Inr (json_print (slice_json JStr
             (map (\<lambda>p. relative demo_sb p @ (if node demo_fs p = Some EDir then ''/'' else [])) ps)))"
proof -
  have 1: "ArgString [] ''path'' ''.'' = Inr ''.''" "ArgInt [] ''depth'' 0 = Inr 0" "(0::int) \<le> 0"
    by (simp_all add: ArgString_def ArgInt_def)
  have 2: "resolve demo_sb demo_fs ''.'' = Inr [''home'', ''ws'']" "os_Stat demo_fs [''home'', ''ws''] = Inr EDir"
    by (simp_all add: fs_eval)
  have "{p. below [''home'', ''ws''] p \<and> node demo_fs p \<noteq> None} \<subseteq> set (map fst demo_fs)"
    by (auto simp: demo_fs_def node_def below_def split: if_splits)
  then have "card {p. below [''home'', ''ws''] p \<and> node demo_fs p \<noteq> None} \<le> card (set (map fst demo_fs))"
    by (rule card_mono [rotated]) simp
  also have "\<dots> \<le> 6" using card_length [of "map fst demo_fs"] by (simp add: demo_fs_def)
  finally have 3: "card {p. below [''home'', ''ws''] p \<and> node demo_fs p \<noteq> None} \<le> maxListEntries"
    by (simp add: maxListEntries_def)
  from list_files_exact [OF demo_sb_plain demo_tree 1 2 3] show ?thesis .
qed

section \<open>Searching\<close>

definition good_hit :: "fs \<Rightarrow> sandbox \<Rightarrow> path \<Rightarrow> string \<Rightarrow> searchHit \<Rightarrow> bool" where
  "good_hit fs sb q needle h \<longleftrightarrow>
     (\<exists>p data. inside q p \<and> sh_Path h = relative sb p \<and> os_ReadFile fs p = Inr data \<and> \<not> looksBinary data \<and>
        0 < sh_Line h \<and> sh_Line h \<le> length (Split data (CHR 0x0A)) \<and>
        sh_Text h = TrimSpace (Split data (CHR 0x0A) ! (sh_Line h - 1)) \<and>
        Contains (ToLower (Split data (CHR 0x0A) ! (sh_Line h - 1))) needle)"

lemma search_lines_spec:
  assumes "\<And>h. h \<in> set hits \<Longrightarrow> P h"
    and "\<And>k. k < length lines \<Longrightarrow> Contains (ToLower (lines ! k)) needle \<Longrightarrow>
           P \<lparr>sh_Path = rel, sh_Line = i + k + 1, sh_Text = TrimSpace (lines ! k)\<rparr>"
    and "int (length hits) \<le> mx"
  shows "(\<forall>h \<in> set (search_lines rel needle mx lines i hits). P h) \<and>
         int (length (search_lines rel needle mx lines i hits)) \<le> mx"
  using assms
proof (induction lines arbitrary: i hits)
  case (Cons line lines)
  show ?case
  proof (cases "int (length hits) \<ge> mx")
    case False
    let ?hits = "if Contains (ToLower line) needle
      then hits @ [\<lparr>sh_Path = rel, sh_Line = i + 1, sh_Text = TrimSpace line\<rparr>] else hits"
    have "(\<forall>h \<in> set (search_lines rel needle mx lines (i + 1) ?hits). P h) \<and>
        int (length (search_lines rel needle mx lines (i + 1) ?hits)) \<le> mx"
    proof (rule Cons.IH)
      show "P h" if "h \<in> set ?hits" for h
        using that Cons.prems(1) Cons.prems(2) [of 0] by (auto split: if_splits)
      show "P \<lparr>sh_Path = rel, sh_Line = i + 1 + k + 1, sh_Text = TrimSpace (lines ! k)\<rparr>"
        if "k < length lines" "Contains (ToLower (lines ! k)) needle" for k
        using that Cons.prems(2) [of "Suc k"] by simp
      show "int (length ?hits) \<le> mx" using False by simp
    qed
    with False show ?thesis by simp
  qed (use Cons in simp)
qed simp

lemma search_visit_good:
  fixes zs d
  assumes "(\<forall>h \<in> set hits. good_hit fs sb q needle h) \<and> int (length hits) \<le> mx"
  defines "hits' \<equiv> snd (search_visit fs sb needle mx (q @ zs) d hits)"
  shows "(\<forall>h \<in> set hits'. good_hit fs sb q needle h) \<and> int (length hits') \<le> mx"
proof -
  have "(\<forall>h \<in> set (search_lines (relative sb (q @ zs)) needle mx (Split data (CHR 0x0A)) 0 hits). good_hit fs sb q needle h) \<and>
      int (length (search_lines (relative sb (q @ zs)) needle mx (Split data (CHR 0x0A)) 0 hits)) \<le> mx"
    if "os_ReadFile fs (q @ zs) = Inr data" "\<not> looksBinary data" for data
  proof (rule search_lines_spec)
    show "good_hit fs sb q needle \<lparr>sh_Path = relative sb (q @ zs), sh_Line = 0 + k + 1,
        sh_Text = TrimSpace (Split data (CHR 0x0A) ! k)\<rparr>"
      if "k < length (Split data (CHR 0x0A))" "Contains (ToLower (Split data (CHR 0x0A) ! k)) needle" for k
      unfolding good_hit_def inside_def using that \<open>os_ReadFile fs (q @ zs) = Inr data\<close> \<open>\<not> looksBinary data\<close>
      by (intro exI [of _ "q @ zs"] exI [of _ data]) simp
  qed (use assms(1) in auto)
  with assms(1) show ?thesis
    by (auto simp: hits'_def search_visit_def split: sum.split)
qed

text \<open>
  the hits of a search are at most \<open>max_results\<close> and never more than 200, sorted by path, and each
  is a line of a text file below the resolved directory that contains the query, case folded, with its
  line number counted from 1.
\<close>

theorem search_hits_good:
  assumes "search_hits sb args fs = Inr hits"
  shows "\<exists>u query m q. ArgString args ''path'' ''.'' = Inr u \<and> ArgString args ''query'' [] = Inr query \<and> query \<noteq> [] \<and>
           ArgInt args ''max_results'' defaultMaxResults = Inr m \<and> resolve sb fs u = Inr q \<and>
           sorted (map sh_Path hits) \<and> length hits \<le> 200 \<and> (0 < m \<longrightarrow> int (length hits) \<le> m) \<and>
           (\<forall>h \<in> set hits. good_hit fs sb q (ToLower query) h)"
proof -
  from assms obtain u query m q where args: "ArgString args ''path'' ''.'' = Inr u"
      "ArgString args ''query'' [] = Inr query" "query \<noteq> []" "ArgInt args ''max_results'' defaultMaxResults = Inr m"
      "resolve sb fs u = Inr q"
    and run: "(case WalkDir fs q (search_visit fs sb (ToLower query)
                 (if m \<le> 0 \<or> m > maxSearchResults then maxSearchResults else m)) [] of
        (Inl e, _) \<Rightarrow> Inl (op_error ''search'' u e)
      | (Inr _, hits) \<Rightarrow> Inr (sort_key sh_Path hits)) = Inr hits"
    by (auto simp: search_hits_def Let_def split: if_splits)
  define mx where "mx = (if m \<le> 0 \<or> m > maxSearchResults then maxSearchResults else m)"
  then have mx: "0 \<le> mx" "mx \<le> 200" "0 < m \<longrightarrow> mx \<le> m" by (auto simp: maxSearchResults_def)
  from run obtain hs where hs: "WalkDir fs q (search_visit fs sb (ToLower query) mx) [] = (Inr (), hs)"
    and hits: "hits = sort_key sh_Path hs" unfolding mx_def by (auto split: prod.splits sum.splits)
  have "(\<forall>h \<in> set hs. good_hit fs sb q (ToLower query) h) \<and> int (length hs) \<le> mx"
    by (rule WalkDir_invariant [OF _ _ hs, where I = "\<lambda>hs. (\<forall>h \<in> set hs. good_hit fs sb q (ToLower query) h) \<and> int (length hs) \<le> mx"])
      (rule search_visit_good, use mx in auto)
  then show ?thesis using args mx hits by (intro exI [of _ u] exI [of _ query] exI [of _ m] exI [of _ q]) auto
qed

text \<open>
  The walk lists the link itself, but \<open>os.ReadFile\<close> follows it: a search in the root returns a line of
  a file outside it, which the other tools refuse to read.
\<close>

lemma demo_children: "children demo_fs [''home'', ''ws''] = [''a.txt'', ''out'', ''up'']"
  by (simp add: children_def demo_fs_def less_char_def)

lemma demo_nodes:
  "entry_at demo_fs [''home'', ''ws''] = EDir" "entry_at demo_fs [''home'', ''ws'', ''a.txt''] = EFile ''abc''"
  "entry_at demo_fs [''home'', ''ws'', ''out''] = ELink ''../secret''"
  "entry_at demo_fs [''home'', ''ws'', ''up''] = ELink ''/home''"
  "os_Lstat demo_fs [''home'', ''ws''] = Inr EDir" "length demo_fs = 6"
  "os_ReadFile demo_fs [''home'', ''ws'', ''a.txt''] = Inr ''abc''"
  "os_ReadFile demo_fs [''home'', ''ws'', ''out''] = Inr ''key=42''"
  "os_ReadFile demo_fs [''home'', ''ws'', ''up''] = Inl (path_error ''read'' ([''home'', ''ws'', ''up''], EISDIR))"
  "resolve demo_sb demo_fs ''.'' = Inr [''home'', ''ws'']"
  by (simp_all add: fs_eval entry_at_def)

lemma demo_lines:
  "\<not> looksBinary ''abc''" "\<not> looksBinary ''key=42''" "Split ''abc'' (CHR 0x0A) = [''abc'']"
  "Split ''key=42'' (CHR 0x0A) = [''key=42'']" "ToLower ''key'' = ''key''"
  "\<not> Contains (ToLower ''abc'') ''key''" "Contains (ToLower ''key=42'') ''key''" "TrimSpace ''key=42'' = ''key=42''"
  "relative demo_sb [''home'', ''ws'', ''out''] = ''out''" "relative demo_sb [''home'', ''ws'', ''a.txt''] = ''a.txt''"
  by code_simp+

lemma visit_numeral:
  "visit fs (numeral k) fn p s =
     (case fn p (Inr (entry_at fs p)) s of
        (WNext, s') \<Rightarrow>
          (if entry_at fs p = EDir
           then visit_children (visit fs (pred_numeral k) fn) (map (\<lambda>nm. p @ [nm]) (children fs p)) s' else (WNext, s'))
      | (WSkipDir, s') \<Rightarrow> (if entry_at fs p = EDir then WNext else WSkipDir, s')
      | (a, s') \<Rightarrow> (a, s'))"
  by (simp add: numeral_eq_Suc)

lemma demo_ws_dir: "is_dir demo_fs [''home'', ''ws'']"
  by (simp add: is_dir_step demo_fs_def plain_def node_def)

lemma demo_search:
  "search_hits demo_sb [(''query'', JStr ''key'')] demo_fs =
     Inr [\<lparr>sh_Path = ''out'', sh_Line = 1, sh_Text = ''key=42''\<rparr>]"
  by (simp add: demo_children demo_nodes demo_lines search_hits_def ArgString_def ArgInt_def
      maxSearchResults_def maxSearchFileBytes_def defaultMaxResults_def WalkDir_dir demo_ws_dir search_visit_def visit_numeral)

theorem search_hits_good_witness:
  "\<exists>q. resolve demo_sb demo_fs ''.'' = Inr q \<and>
       good_hit demo_fs demo_sb q (ToLower ''key'') \<lparr>sh_Path = ''out'', sh_Line = 1, sh_Text = ''key=42''\<rparr>"
proof -
  have args: "ArgString [(''query'', JStr ''key'')] ''path'' ''.'' = Inr ''.''"
    "ArgString [(''query'', JStr ''key'')] ''query'' [] = Inr ''key''"
    by (simp_all add: ArgString_def)
  from search_hits_good [OF demo_search] obtain u query q where
    "ArgString [(''query'', JStr ''key'')] ''path'' ''.'' = Inr u"
    "ArgString [(''query'', JStr ''key'')] ''query'' [] = Inr query" "resolve demo_sb demo_fs u = Inr q"
    "good_hit demo_fs demo_sb q (ToLower query) \<lparr>sh_Path = ''out'', sh_Line = 1, sh_Text = ''key=42''\<rparr>"
    by (elim exE conjE) simp
  with args show ?thesis by auto
qed

text \<open>The content a search returns may come from a file outside the root that read_file refuses.\<close>

lemma search_leaves_sandbox:
  "search_hits demo_sb [(''query'', JStr ''key'')] demo_fs =
     Inr [\<lparr>sh_Path = ''out'', sh_Line = 1, sh_Text = ''key=42''\<rparr>] \<and>
   (\<exists>e. read_file demo_sb [(''path'', JStr ''out'')] demo_fs = Inl e) \<and>
   (\<forall>q s. inside (root demo_sb) q \<longrightarrow> node demo_fs q = Some (EFile s) \<longrightarrow> s = ''abc'')"
proof (intro conjI allI impI)
  show "\<exists>e. read_file demo_sb [(''path'', JStr ''out'')] demo_fs = Inl e"
    by (simp add: read_file_def ArgString_def fs_eval)
  fix q s
  assume "inside (root demo_sb) q" "node demo_fs q = Some (EFile s)"
  then show "s = ''abc''" by (auto simp: inside_def demo_sb_def demo_fs_def node_def split: if_splits)
qed (rule demo_search)

end
