(* ===== verification/RunSkill.thy ===== *)
theory RunSkill
  imports Registry Val_Store Files
begin

text \<open>
  \<^verbatim>\<open>pkg/tools/skills\<close>: the tool that runs a script of an installed, approved skill. What the operating
  system does is an argument: which programs are found, whether writing the script file fails, and what
  the launched process writes, how it ends and what it does to the file tree.
\<close>

definition defaultTimeoutMillis :: int where "defaultTimeoutMillis = 60000"
definition maxTimeoutMillis :: int where "maxTimeoutMillis = 300000"
definition maxOutputChars :: nat where "maxOutputChars = 20000"
definition maxCapturedBytes :: nat where "maxCapturedBytes = 4 * 2 ^ 20"

section \<open>exec.go\<close>

record runSpec =
  sp_Name :: string
  sp_Args :: "string list"
  sp_Dir :: path
  sp_Env :: "string list"
  sp_Stdin :: string
  sp_cleanup :: "path option"

record runResult =
  rr_ExitCode :: int
  rr_TimedOut :: bool
  rr_Stdout :: string
  rr_Stderr :: string

text \<open>
  What a started process does: the writes on its two streams, whether the context is done when it has
  ended, and how it ended.
\<close>

datatype process_end = Finished | ExitError int | RunFailed go_error

record process =
  pr_Stdout :: "string list"
  pr_Stderr :: "string list"
  pr_ctx_done :: bool
  pr_End :: process_end

record exec_env =
  ev_LookPath :: "string \<Rightarrow> go_error option"
  ev_script_fault :: write_fault
  ev_launch :: "runSpec \<Rightarrow> int \<Rightarrow> fs \<Rightarrow> process \<times> fs"

definition pythonBinary :: "exec_env \<Rightarrow> string" where
  "pythonBinary ev = (if ev_LookPath ev ''python3'' = None then ''python3'' else ''python'')"

definition bashBinary :: "exec_env \<Rightarrow> string" where
  "bashBinary ev = (if ev_LookPath ev ''bash'' = None then ''bash'' else ''sh'')"

definition write_script_error :: "go_error \<Rightarrow> go_error" where
  "write_script_error e = Wrap ''write script: '' e []"

definition scriptRunSpec :: "exec_env \<Rightarrow> string \<Rightarrow> string \<Rightarrow> string \<Rightarrow> path \<Rightarrow> fs \<Rightarrow> runSpec result \<times> fs" where
  "scriptRunSpec ev interpreter ext script dir fs =
     (if TrimSpace script = [] then (Inl (Err ''script is required for this runtime''), fs)
      else (case os_CreateTemp fs dir ''.skill-script-'' ext of
              (Inl e, fs1) \<Rightarrow> (Inl (write_script_error e), fs1)
            | (Inr f, fs1) \<Rightarrow>
                (case ev_script_fault ev of
                   WriteFails k \<Rightarrow>
                     (Inl (write_script_error (path_error ''write'' (f, EIO))),
                      snd (os_Remove (os_Write fs1 f (take k script)) f))
                 | CloseFails \<Rightarrow>
                     (Inl (write_script_error (path_error ''close'' (f, EIO))),
                      snd (os_Remove (os_Write fs1 f script) f))
                 | NoFault \<Rightarrow>
                     (Inr \<lparr>sp_Name = interpreter, sp_Args = [abs_str f], sp_Dir = dir, sp_Env = [], sp_Stdin = [],
                           sp_cleanup = Some f\<rparr>,
                      os_Write fs1 f script))))"

definition buildRunSpec ::
  "exec_env \<Rightarrow> string \<Rightarrow> string \<Rightarrow> string list \<Rightarrow> path \<Rightarrow> fs \<Rightarrow> runSpec result \<times> fs"
where
  "buildRunSpec ev rt script command dir fs =
     (if rt = ''bash'' \<or> rt = [] then scriptRunSpec ev (bashBinary ev) ''.sh'' script dir fs
      else if rt = ''python'' then scriptRunSpec ev (pythonBinary ev) ''.py'' script dir fs
      else if rt = ''node'' then scriptRunSpec ev ''node'' ''.js'' script dir fs
      else if rt = ''process'' then
        (case command of
           [] \<Rightarrow> (Inl (Err (''runtime '' @ quote rt @ '' requires a non-empty command'')), fs)
         | c # cs \<Rightarrow>
             (Inr \<lparr>sp_Name = c, sp_Args = cs, sp_Dir = dir, sp_Env = [], sp_Stdin = [], sp_cleanup = None\<rparr>, fs))
      else (Inl (Err (''unknown runtime '' @ quote rt)), fs))"

text \<open>One write to the capped buffer; it always reports the full length as written.\<close>

definition capped_Write :: "string \<Rightarrow> string \<Rightarrow> string \<times> nat" where
  "capped_Write buf p =
     (let remaining = int maxCapturedBytes - int (length buf) in
      (if remaining > 0 then (if int (length p) > remaining then buf @ take (nat remaining) p else buf @ p) else buf,
       length p))"

definition captured :: "string list \<Rightarrow> string" where
  "captured ws = foldl (\<lambda>buf p. fst (capped_Write buf p)) [] ws"

definition cleanup_spec :: "runSpec \<Rightarrow> fs \<Rightarrow> fs" where
  "cleanup_spec spec fs = (case sp_cleanup spec of None \<Rightarrow> fs | Some p \<Rightarrow> snd (os_Remove fs p))"

definition process_result :: "process \<Rightarrow> runResult result" where
  "process_result pr =
     (let res = \<lparr>rr_ExitCode = 0, rr_TimedOut = False, rr_Stdout = captured (pr_Stdout pr),
                 rr_Stderr = captured (pr_Stderr pr)\<rparr> in
      if pr_ctx_done pr then Inr (res\<lparr>rr_TimedOut := True, rr_ExitCode := - 1\<rparr>)
      else (case pr_End pr of
              Finished \<Rightarrow> Inr res
            | ExitError c \<Rightarrow> Inr (res\<lparr>rr_ExitCode := c\<rparr>)
            | RunFailed e \<Rightarrow> Inl e))"

definition exec_run :: "exec_env \<Rightarrow> int \<Rightarrow> runSpec \<Rightarrow> fs \<Rightarrow> runResult result \<times> fs" where
  "exec_run ev timeout spec fs =
     (case ev_LookPath ev (sp_Name spec) of
        Some e \<Rightarrow> (Inl (Wrap (quote (sp_Name spec) @ '' is not available on this system: '') e []), cleanup_spec spec fs)
      | None \<Rightarrow>
          (case ev_launch ev spec timeout fs of
             (pr, fs1) \<Rightarrow> (process_result pr, cleanup_spec spec fs1)))"

section \<open>skills.go\<close>

definition activeThisTurn :: "InvocationMeta \<Rightarrow> string \<Rightarrow> bool" where
  "activeThisTurn meta skillID \<longleftrightarrow> skillID \<in> set (im_ActiveSkillIDs meta)"

record run_config =
  rc_sha256 :: "string \<Rightarrow> string"
  rc_policy :: bundle_Policy
  rc_registry :: path
  rc_store :: path
  rc_PolicyVersion :: int

definition skill_error :: "string \<Rightarrow> string \<Rightarrow> go_error" where
  "skill_error skillID t = Err (''skill '' @ quote skillID @ t)"

definition authorize :: "run_config \<Rightarrow> string \<Rightarrow> fs \<Rightarrow> path result" where
  "authorize cfg skillID fs =
     (case GetSkill (rc_sha256 cfg) (rc_policy cfg) (rc_registry cfg) skillID fs of
        None \<Rightarrow> Inl (skill_error skillID '' is not installed'')
      | Some stored \<Rightarrow>
          (case vstore_Get (rc_store cfg) (ss_SkillID stored) (rc_PolicyVersion cfg) (ss_BundleHash stored) fs of
             Inl e \<Rightarrow> Inl (Wrap (''skill '' @ quote skillID @ '': '') e [])
           | Inr None \<Rightarrow> Inl (skill_error skillID '' is not approved for execution'')
           | Inr (Some rec) \<Rightarrow>
               (if \<not> Approved rec then Inl (skill_error skillID '' is not approved for execution'')
                else BundleRoot (rc_registry cfg) (ss_SkillID stored) (ss_BundleHash stored) fs)))"

text \<open>\<open>filepath.Clean\<close> of a relative path; the empty result stands for ".".\<close>

fun clean_rel :: "string list \<Rightarrow> string list \<Rightarrow> string list" where
  "clean_rel acc [] = acc"
| "clean_rel acc (c # cs) =
     (if c = [] \<or> c = ''.'' then clean_rel acc cs
      else if c = ''..'' \<and> acc \<noteq> [] \<and> last acc \<noteq> ''..'' then clean_rel (butlast acc) cs
      else clean_rel (acc @ [c]) cs)"

definition wd_error :: "string \<Rightarrow> string \<Rightarrow> go_error" where
  "wd_error rel t = Err (''workingDirectory '' @ quote rel @ t)"

definition resolveWorkingDir :: "path \<Rightarrow> string \<Rightarrow> fs \<Rightarrow> path result" where
  "resolveWorkingDir rt rel fs =
     (if rel = [] then Inr rt
      else (let clean = clean_rel [] (comps rel) in
            if is_abs rel \<or> (clean \<noteq> [] \<and> hd clean = ''..'')
            then Inl (wd_error rel '' must stay inside the skill's bundle root'')
            else (let joined = norm_onto rt clean;
                      resolvedRoot = (case EvalSymlinks fs rt of Inr r \<Rightarrow> r | Inl _ \<Rightarrow> rt)
                  in case EvalSymlinks fs joined of
                       Inl e \<Rightarrow> Inl (Wrap (''workingDirectory '' @ quote rel @ '': '') e [])
                     | Inr resolvedJoined \<Rightarrow>
                         (if abs_str resolvedJoined \<noteq> abs_str resolvedRoot \<and>
                             \<not> HasPrefix (abs_str resolvedJoined) (abs_str resolvedRoot @ ''/'')
                          then Inl (wd_error rel '' escapes the skill's bundle root'')
                          else (case os_Stat fs resolvedJoined of
                                  Inr EDir \<Rightarrow> Inr resolvedJoined
                                | _ \<Rightarrow> Inl (wd_error rel '' is not a directory''))))))"

text \<open>A timeout is in milliseconds.\<close>

definition clampTimeout :: "int \<Rightarrow> int" where
  "clampTimeout millis =
     (let m = (if millis \<le> 0 then defaultTimeoutMillis else millis) in
      if m > maxTimeoutMillis then maxTimeoutMillis else m)"

definition argStringSlice :: "(string \<times> json) list \<Rightarrow> string \<Rightarrow> string list result" where
  "argStringSlice args key =
     (case map_of args key of
        None \<Rightarrow> Inr []
      | Some raw \<Rightarrow>
          (case dec_list [] dec_string [] raw of
             Some v \<Rightarrow> Inr v
           | None \<Rightarrow> Inl (invalid_argument key (mismatch (json_kind raw) ''[]string''))))"

definition argStringMap :: "(string \<times> json) list \<Rightarrow> string \<Rightarrow> (string \<times> string) list result" where
  "argStringMap args key =
     (case map_of args key of
        None \<Rightarrow> Inr []
      | Some raw \<Rightarrow>
          (case dec_map [] dec_string [] raw of
             Some v \<Rightarrow> Inr v
           | None \<Rightarrow> Inl (invalid_argument key (mismatch (json_kind raw) ''map[string]string''))))"

definition truncate_output :: "string \<Rightarrow> nat \<Rightarrow> string" where
  "truncate_output s mx =
     (if length s \<le> mx then s
      else take mx s @ nl @ ''[truncated: '' @ Itoa (int (length s) - int mx) @ '' more characters]'')"

text \<open>Marshalling this struct cannot fail.\<close>

definition formatRunResult :: "runResult \<Rightarrow> string" where
  "formatRunResult r = json_print (JObj (
     fld ''exitCode'' (JNum (Itoa (rr_ExitCode r))) @
     fld ''timedOut'' (JBool (rr_TimedOut r)) @
     fld ''stdout'' (JStr (truncate_output (rr_Stdout r) maxOutputChars)) @
     fld ''stderr'' (JStr (truncate_output (rr_Stderr r) maxOutputChars))))"

text \<open>
  \<open>Execute\<close> up to the point where the process is started: the checks and arguments, in their order, then
  the command line. Go ranges over the map of the extra environment in some order; here it is the order
  of the map.
\<close>

record run_request =
  rq_Runtime :: string
  rq_Script :: string
  rq_Command :: "string list"
  rq_Env :: "(string \<times> string) list"
  rq_Stdin :: string
  rq_Timeout :: int
  rq_Root :: path
  rq_Dir :: path

definition read_request ::
  "run_config \<Rightarrow> string \<Rightarrow> (string \<times> json) list \<Rightarrow> fs \<Rightarrow> run_request result"
where
  "read_request cfg skillID args fs =
     bind_result (authorize cfg skillID fs) (\<lambda>rt.
     bind_result (ArgString args ''runtime'' ''bash'') (\<lambda>runtimeName.
     bind_result (ArgString args ''script'' []) (\<lambda>script.
     bind_result (argStringSlice args ''command'') (\<lambda>command.
     bind_result (ArgString args ''workingDirectory'' []) (\<lambda>wd.
     bind_result (argStringMap args ''environment'') (\<lambda>env.
     bind_result (ArgString args ''stdin'' []) (\<lambda>stdin.
     bind_result (ArgInt args ''timeoutMillis'' defaultTimeoutMillis) (\<lambda>millis.
     bind_result (resolveWorkingDir rt wd fs) (\<lambda>dir.
       Inr \<lparr>rq_Runtime = ToLower runtimeName, rq_Script = script, rq_Command = command, rq_Env = env,
            rq_Stdin = stdin, rq_Timeout = clampTimeout millis, rq_Root = rt, rq_Dir = dir\<rparr>)))))))))"

definition full_spec :: "string \<Rightarrow> run_request \<Rightarrow> runSpec \<Rightarrow> runSpec" where
  "full_spec skillID rq spec =
     spec\<lparr>sp_Env := sp_Env spec @ [''SOUZ_SKILL_ID='' @ skillID, ''SOUZ_SKILL_ROOT='' @ abs_str (rq_Root rq)] @
            map (\<lambda>(k, v). k @ ''='' @ v) (rq_Env rq),
          sp_Stdin := rq_Stdin rq\<rparr>"

definition RunSkill_Execute ::
  "run_config \<Rightarrow> exec_env \<Rightarrow> (string \<times> json) list \<Rightarrow> InvocationMeta \<Rightarrow> fs \<Rightarrow> string result \<times> fs"
where
  "RunSkill_Execute cfg ev args meta fs =
     (case ArgString args ''skillId'' [] of
        Inl e \<Rightarrow> (Inl e, fs)
      | Inr skillID \<Rightarrow>
          (if skillID = [] then (Inl (Err ''skillId is required''), fs)
           else if \<not> activeThisTurn meta skillID then (Inl (skill_error skillID '' is not active for this turn''), fs)
           else (case read_request cfg skillID args fs of
                   Inl e \<Rightarrow> (Inl e, fs)
                 | Inr rq \<Rightarrow>
                     (case buildRunSpec ev (rq_Runtime rq) (rq_Script rq) (rq_Command rq) (rq_Dir rq) fs of
                        (Inl e, fs1) \<Rightarrow> (Inl e, fs1)
                      | (Inr spec, fs1) \<Rightarrow>
                          (case exec_run ev (rq_Timeout rq) (full_spec skillID rq spec) fs1 of
                             (Inl e, fs2) \<Rightarrow> (Inl (Wrap (''run skill '' @ quote skillID @ '': '') e []), fs2)
                           | (Inr res, fs2) \<Rightarrow> (Inr (formatRunResult res), fs2))))))"

section \<open>What is started\<close>

lemma clean_rel_form:
  assumes "no_slash cs" "acc = replicate k ''..'' @ xs" "list_all plain xs"
  shows "\<exists>k' ys. clean_rel acc cs = replicate k' ''..'' @ ys \<and> list_all plain ys"
  using assms
proof (induction acc cs arbitrary: k xs rule: clean_rel.induct)
  case (2 acc c cs)
  have c: "plain c" if "c \<noteq> []" "c \<noteq> ''.''" "c \<noteq> ''..''" using 2(4) that by (simp add: plain_def)
  show ?case
  proof (cases "c = [] \<or> c = ''.''")
    case True
    then show ?thesis using 2 by auto
  next
    case False
    show ?thesis
    proof (cases "c = ''..'' \<and> acc \<noteq> [] \<and> last acc \<noteq> ''..''")
      case True
      then obtain ys y where xs: "xs = ys @ [y]" using 2(5) by (cases xs rule: rev_cases) (auto simp: last_replicate)
      then have "butlast acc = replicate k ''..'' @ ys" "list_all plain ys" using 2(5,6) by (simp_all add: butlast_append)
      with 2(2) [OF False True] 2(4) True show ?thesis by simp
    next
      case nup: False
      have "\<exists>k' ys. acc @ [c] = replicate k' ''..'' @ ys \<and> list_all plain ys"
      proof (cases "c = ''..''")
        case True
        then have "xs = []" using nup 2(5,6) by (cases xs rule: rev_cases) (auto simp: plain_def)
        with True 2(5) have "acc @ [c] = replicate (Suc k) ''..'' @ [] \<and> list_all plain []"
          by (simp add: replicate_append_same)
        then show ?thesis by blast
      next
        case not_up: False
        then have "acc @ [c] = replicate k ''..'' @ (xs @ [c]) \<and> list_all plain (xs @ [c])" using False c 2(5,6) by simp
        then show ?thesis by blast
      qed
      then obtain k' ys where "acc @ [c] = replicate k' ''..'' @ ys" "list_all plain ys" by blast
      moreover have "clean_rel acc (c # cs) = clean_rel (acc @ [c]) cs"
        by (simp only: clean_rel.simps(2) False nup if_False)
      ultimately show ?thesis using 2(3) [OF False nup] 2(4) by simp
    qed
  qed
qed auto

text \<open>A working directory is the bundle root, or a directory below the place the root resolves to.\<close>

definition confined :: "fs \<Rightarrow> path \<Rightarrow> path \<Rightarrow> bool" where
  "confined fs rt dir \<longleftrightarrow> dir = rt \<or> (\<exists>r xs. EvalSymlinks fs rt = Inr r \<and> dir = r @ xs \<and> is_dir fs dir)"

lemma resolveWorkingDir_confined:
  assumes rt: "list_all plain rt" and dir: "resolveWorkingDir rt rel fs = Inr dir"
  shows "confined fs rt dir"
proof (cases "rel = []")
  case True
  then show ?thesis using dir by (simp add: resolveWorkingDir_def confined_def)
next
  case False
  let ?clean = "clean_rel [] (comps rel)"
  let ?r = "case EvalSymlinks fs rt of Inr r \<Rightarrow> r | Inl _ \<Rightarrow> rt"
  have c: "?clean = [] \<or> hd ?clean \<noteq> ''..''" and ev: "EvalSymlinks fs (norm_onto rt ?clean) = Inr dir"
    and test: "abs_str dir = abs_str ?r \<or> HasPrefix (abs_str dir) (abs_str ?r @ ''/'')" and st: "os_Stat fs dir = Inr EDir"
    using dir False by (auto simp: resolveWorkingDir_def Let_def split: sum.splits if_splits entry.splits)
  obtain k ys where form: "?clean = replicate k ''..'' @ ys" "list_all plain ys"
    using clean_rel_form [of "comps rel" "[]" 0 "[]"] by auto
  have "k = 0" using c form by (cases k) auto
  with form have pl: "list_all plain ?clean" by simp
  have slash: "no_slash rt" using rt by (auto simp: no_slash_def list_all_iff plain_def)
  have noc: "no_slash ?clean" using pl by (auto simp: no_slash_def list_all_iff plain_def)
  have w: "walk fs 255 [] (rt @ ?clean) = Inr dir" using ev pl by (simp add: EvalSymlinks_Inr norm_onto_plain)
  have ph: "physical fs dir" using walk_physical [OF w] slash noc by simp
  obtain r where r: "EvalSymlinks fs rt = Inr r"
    using walk_append_Inl [of fs 255 "[]" rt _ ?clean] w by (cases "walk fs 255 [] rt") (auto simp: EvalSymlinks_Inr)
  have pr: "list_all plain r" using r slash walk_physical [of fs 255 "[]" rt r] physical_plain by (simp add: EvalSymlinks_Inr)
  from test r pr physical_plain [OF ph] obtain xs where "dir = r @ xs" by (auto simp: abs_str_inj abs_str_below)
  moreover have "is_dir fs dir"
  proof -
    have "os_walk fs dir = Inr dir" using ph by (rule os_walk_physical)
    with st have "node fs dir = Some EDir" by (simp add: os_Stat_def split: option.splits)
    with ph show ?thesis by (auto simp: physical_def)
  qed
  ultimately show ?thesis using r by (auto simp: confined_def)
qed

definition run_allowed ::
  "run_config \<Rightarrow> (string \<times> json) list \<Rightarrow> InvocationMeta \<Rightarrow> fs \<Rightarrow> string \<Rightarrow> run_request \<Rightarrow> bool"
where
  "run_allowed cfg args meta fs skillID rq \<longleftrightarrow>
     ArgString args ''skillId'' [] = Inr skillID \<and> skillID \<noteq> [] \<and> skillID \<in> set (im_ActiveSkillIDs meta) \<and>
     (\<exists>stored rec.
        GetSkill (rc_sha256 cfg) (rc_policy cfg) (rc_registry cfg) skillID fs = Some stored \<and>
        vstore_Get (rc_store cfg) (ss_SkillID stored) (rc_PolicyVersion cfg) (ss_BundleHash stored) fs = Inr (Some rec) \<and>
        Approved rec \<and>
        BundleRoot (rc_registry cfg) (ss_SkillID stored) (ss_BundleHash stored) fs = Inr (rq_Root rq)) \<and>
     confined fs (rq_Root rq) (rq_Dir rq) \<and> 0 < rq_Timeout rq \<and> rq_Timeout rq \<le> maxTimeoutMillis"

lemma clampTimeout_range: "0 < clampTimeout m \<and> clampTimeout m \<le> maxTimeoutMillis"
  by (simp add: clampTimeout_def defaultTimeoutMillis_def maxTimeoutMillis_def Let_def)

lemma BundleRoot_plain: "list_all plain rt \<Longrightarrow> BundleRoot rt i h fs = Inr d \<Longrightarrow> list_all plain d"
  by (auto simp: BundleRoot_def Let_def Join_path_plain split: if_splits)

lemma authorize_Inr:
  assumes "authorize cfg skillID fs = Inr rt"
  obtains stored rec where "GetSkill (rc_sha256 cfg) (rc_policy cfg) (rc_registry cfg) skillID fs = Some stored"
    "vstore_Get (rc_store cfg) (ss_SkillID stored) (rc_PolicyVersion cfg) (ss_BundleHash stored) fs = Inr (Some rec)"
    "Approved rec" "BundleRoot (rc_registry cfg) (ss_SkillID stored) (ss_BundleHash stored) fs = Inr rt"
  using assms by (auto simp: authorize_def split: option.splits sum.splits if_splits)

lemma read_request_allowed:
  assumes "list_all plain (rc_registry cfg)" "read_request cfg skillID args fs = Inr rq"
    "ArgString args ''skillId'' [] = Inr skillID" "skillID \<noteq> []" "activeThisTurn meta skillID"
  shows "run_allowed cfg args meta fs skillID rq"
proof -
  from assms(2) obtain rt wd dir m where a: "authorize cfg skillID fs = Inr rt"
    and dir: "resolveWorkingDir rt wd fs = Inr dir"
    and rq: "rq_Root rq = rt" "rq_Dir rq = dir" "rq_Timeout rq = clampTimeout m"
    by (auto simp: read_request_def bind_result_Inr)
  from a obtain stored rec where s: "GetSkill (rc_sha256 cfg) (rc_policy cfg) (rc_registry cfg) skillID fs = Some stored"
    "vstore_Get (rc_store cfg) (ss_SkillID stored) (rc_PolicyVersion cfg) (ss_BundleHash stored) fs = Inr (Some rec)"
    "Approved rec" "BundleRoot (rc_registry cfg) (ss_SkillID stored) (ss_BundleHash stored) fs = Inr rt"
    by (rule authorize_Inr)
  have "confined fs rt dir"
    using BundleRoot_plain [OF assms(1) s(4)] dir by (rule resolveWorkingDir_confined)
  with s rq assms clampTimeout_range show ?thesis
    unfolding run_allowed_def activeThisTurn_def by auto
qed

lemma buildRunSpec_dir: "buildRunSpec ev rt script command dir fs = (Inr spec, fs1) \<Longrightarrow> sp_Dir spec = dir"
  by (auto simp: buildRunSpec_def scriptRunSpec_def split: if_splits sum.splits prod.splits write_fault.splits list.splits)

lemma buildRunSpec_launch [simp]:
  "buildRunSpec (ev\<lparr>ev_launch := l\<rparr>) rt script command dir fs = buildRunSpec ev rt script command dir fs"
  by (simp add: buildRunSpec_def scriptRunSpec_def bashBinary_def pythonBinary_def split: prod.split sum.split)

lemma RunSkill_Execute_cases:
  assumes "list_all plain (rc_registry cfg)"
  shows "(\<exists>e fs'. \<forall>l. RunSkill_Execute cfg (ev\<lparr>ev_launch := l\<rparr>) args meta fs = (Inl e, fs')) \<or>
    (\<exists>skillID rq spec fs1. run_allowed cfg args meta fs skillID rq \<and> sp_Dir spec = rq_Dir rq \<and>
       buildRunSpec ev (rq_Runtime rq) (rq_Script rq) (rq_Command rq) (rq_Dir rq) fs = (Inr spec, fs1) \<and>
       (\<forall>l. RunSkill_Execute cfg (ev\<lparr>ev_launch := l\<rparr>) args meta fs =
          (case exec_run (ev\<lparr>ev_launch := l\<rparr>) (rq_Timeout rq) (full_spec skillID rq spec) fs1 of
             (Inl e, fs2) \<Rightarrow> (Inl (Wrap (''run skill '' @ quote skillID @ '': '') e []), fs2)
           | (Inr res, fs2) \<Rightarrow> (Inr (formatRunResult res), fs2))))"
proof (cases "ArgString args ''skillId'' []")
  case (Inl e)
  then show ?thesis by (simp add: RunSkill_Execute_def)
next
  case (Inr skillID)
  note id = this
  show ?thesis
  proof (cases "skillID = [] \<or> \<not> activeThisTurn meta skillID")
    case True
    then show ?thesis using id by (cases "skillID = []") (simp_all add: RunSkill_Execute_def)
  next
    case False
    show ?thesis
    proof (cases "read_request cfg skillID args fs")
      case (Inl e)
      with id False show ?thesis by (simp add: RunSkill_Execute_def)
    next
      case (Inr rq)
      have ok: "run_allowed cfg args meta fs skillID rq"
        using read_request_allowed [OF assms Inr id] False by blast
      obtain b fs1 where b: "buildRunSpec ev (rq_Runtime rq) (rq_Script rq) (rq_Command rq) (rq_Dir rq) fs = (b, fs1)"
        by fastforce
      show ?thesis
      proof (cases b)
        case (Inl e)
        with id False Inr b show ?thesis by (simp add: RunSkill_Execute_def)
      next
        case Inr': (Inr spec)
        have "sp_Dir spec = rq_Dir rq" using b Inr' buildRunSpec_dir by blast
        with id False Inr b Inr' ok show ?thesis
          by (intro disjI2 exI [of _ skillID] exI [of _ rq] exI [of _ spec] exI [of _ fs1]) (simp add: RunSkill_Execute_def)
      qed
    qed
  qed
qed

section \<open>The script file\<close>

text \<open>A walk that succeeds does not notice a file at a free path.\<close>

lemma node_put_fresh: "node fs q = None \<Longrightarrow> node fs p = Some e \<Longrightarrow> node (put q x fs) p = Some e"
  by (cases "q = []") auto

lemma walk_fresh:
  "walk fs n cur cs = Inr r \<Longrightarrow> node fs q = None \<Longrightarrow> walk (put q x fs) n cur cs = Inr r"
proof (induction n cur cs rule: walk_induct [of _ fs])
  case (File n cur c cs s)
  from node_put_fresh [OF File(4) File(2), of x] File show ?case by (simp split: if_splits)
next
  case (Dir n cur c cs)
  from node_put_fresh [OF Dir(5) Dir(2), of x] Dir show ?case by simp
next
  case (Link m cur c cs t)
  from node_put_fresh [OF Link(5) Link(2), of x] Link show ?case by simp
qed auto

lemma script_temp_plain: "CHR ''/'' \<notin> set ext \<Longrightarrow> plain (''.skill-script-'' @ nat_digits k @ ext)"
  using nat_digits_digits [of k] by (auto simp: plain_def list_all_iff is_digit_def)

lemma os_walk_script:
  assumes "os_walk fs d = Inr p" "node fs p = Some EDir" "no_slash d" "plain c" "node fs (p @ [c]) = None"
  shows "os_walk (put (p @ [c]) (EFile x) fs) (d @ [c]) = Inr (p @ [c])"
proof -
  let ?fs = "put (p @ [c]) (EFile x) fs"
  have "walk ?fs 40 [] d = Inr p" using assms(1,5) by (simp add: os_walk_def walk_fresh)
  moreover have "node ?fs p = Some EDir" using assms(2) by simp
  ultimately obtain m where "walk ?fs 40 [] (d @ [c]) = walk ?fs m p [c]"
    using walk_append_Inr [of ?fs 40 "[]" d p "[c]"] assms(3) by auto
  then show ?thesis using assms(4) by (simp add: os_walk_def plain_iff)
qed

lemma put_put [simp]: "put k v (put k u m) = put k v m"
  by (induction m) auto

lemma scriptRunSpec_cases:
  assumes "no_slash d" "CHR ''/'' \<notin> set ext" "scriptRunSpec ev interp ext script d fs = (r, fs1)"
  shows "isl r \<and> node fs1 = node fs \<or>
    (\<exists>spec. r = Inr spec \<and> (\<forall>sk rq. node (cleanup_spec (full_spec sk rq spec) fs1) = node fs))"
proof (cases "TrimSpace script = []")
  case True
  then show ?thesis using assms(3) by (auto simp: scriptRunSpec_def)
next
  case False
  show ?thesis
  proof (cases "os_walk fs d")
    case (Inl e)
    then show ?thesis using False assms(3) by (auto simp: scriptRunSpec_def os_CreateTemp_def split: prod.splits)
  next
    case (Inr p)
    show ?thesis
    proof (cases "node fs p = Some EDir")
      case notdir: False
      then show ?thesis using False Inr assms(3) by (auto simp: scriptRunSpec_def os_CreateTemp_def)
    next
      case True
      let ?c = "temp_name fs p ''.skill-script-'' ext"
      have free: "node fs (p @ [?c]) = None" and pl: "plain ?c"
        using temp_name_free [of fs p "''.skill-script-''" ext] script_temp_plain [OF assms(2)] by auto
      have op: "os_walk (put (p @ [?c]) (EFile x) fs) (d @ [?c]) = Inr (p @ [?c])" for x
        by (rule os_walk_script [OF Inr True assms(1) pl free])
      have written: "os_Write (put (p @ [?c]) (EFile []) fs) (d @ [?c]) t = put (p @ [?c]) (EFile t) (put (p @ [?c]) (EFile []) fs)" for t
        using op by (simp add: os_Write_def)
      have gone: "node (snd (os_Remove (put (p @ [?c]) (EFile t) (put (p @ [?c]) (EFile []) fs)) (d @ [?c]))) = node fs" for t
      proof -
        let ?g = "put (p @ [?c]) (EFile t) fs"
        have "os_walk ?g d = Inr p" using Inr free by (simp add: os_walk_def walk_fresh)
        then have "in_dir ?g (d @ [?c]) = Inr (p @ [?c])" using True by (simp add: in_dir_def)
        then show ?thesis using free by (simp add: os_Remove_def fun_eq_iff)
      qed
      show ?thesis
        using assms(3) False Inr True written gone
        by (auto simp: scriptRunSpec_def os_CreateTemp_def Let_def cleanup_spec_def full_spec_def split: write_fault.splits)
    qed
  qed
qed

lemma buildRunSpec_cases:
  assumes "no_slash d" "buildRunSpec ev rt script command d fs = (r, fs1)"
  shows "isl r \<and> node fs1 = node fs \<or>
    (\<exists>spec. r = Inr spec \<and> (\<forall>sk rq. node (cleanup_spec (full_spec sk rq spec) fs1) = node fs))"
proof -
  have ext: "CHR ''/'' \<notin> set ''.sh''" "CHR ''/'' \<notin> set ''.py''" "CHR ''/'' \<notin> set ''.js''" by simp_all
  show ?thesis
    using assms(2) scriptRunSpec_cases [OF assms(1) ext(1)] scriptRunSpec_cases [OF assms(1) ext(2)]
      scriptRunSpec_cases [OF assms(1) ext(3)]
    unfolding buildRunSpec_def
    by (auto simp: cleanup_spec_def full_spec_def split: if_splits list.splits)
qed

lemma confined_no_slash: "list_all plain rt \<Longrightarrow> confined fs rt d \<Longrightarrow> no_slash d"
  by (auto simp: confined_def is_dir_def no_slash_def list_all_iff plain_def)

section \<open>Captured output\<close>

lemma capped_Write_prefix:
  "length buf \<le> maxCapturedBytes \<Longrightarrow> capped_Write buf p = (take maxCapturedBytes (buf @ p), length p)"
  by (auto simp: capped_Write_def Let_def nat_diff_distrib)

lemma captured_from:
  "foldl (\<lambda>buf p. fst (capped_Write buf p)) (take maxCapturedBytes x) ws = take maxCapturedBytes (x @ concat ws)"
proof (induction ws arbitrary: x)
  case (Cons w ws)
  have "fst (capped_Write (take maxCapturedBytes x) w) = take maxCapturedBytes (x @ w)"
    by (subst capped_Write_prefix) (auto simp: min_def)
  with Cons [of "x @ w"] show ?case by simp
qed simp

lemma captured_take: "captured ws = take maxCapturedBytes (concat ws)"
  using captured_from [of "[]" ws] by (simp add: captured_def)

section \<open>Properties\<close>

text \<open>
  C7: a command is started only for a skill that is active in this turn, whose installed bundle has an
  APPROVED verdict under the current policy, in its bundle root or a directory inside the place the root
  resolves to, with a timeout between 1 millisecond and 5 minutes; in every other case the call is refused
  whatever the process would do, as nothing is started.
\<close>

theorem commands_need_approval:
  assumes "list_all plain (rc_registry cfg)"
  shows "(\<exists>e fs'. \<forall>launch. RunSkill_Execute cfg (ev\<lparr>ev_launch := launch\<rparr>) args meta fs = (Inl e, fs')) \<or>
    (\<exists>skillID stored rec rq spec fs1.
       skillID \<in> set (im_ActiveSkillIDs meta) \<and>
       GetSkill (rc_sha256 cfg) (rc_policy cfg) (rc_registry cfg) skillID fs = Some stored \<and>
       vstore_Get (rc_store cfg) (ss_SkillID stored) (rc_PolicyVersion cfg) (ss_BundleHash stored) fs = Inr (Some rec) \<and>
       Approved rec \<and>
       BundleRoot (rc_registry cfg) (ss_SkillID stored) (ss_BundleHash stored) fs = Inr (rq_Root rq) \<and>
       (rq_Dir rq = rq_Root rq \<or>
        (\<exists>r xs. EvalSymlinks fs (rq_Root rq) = Inr r \<and> rq_Dir rq = r @ xs \<and> is_dir fs (rq_Dir rq))) \<and>
       sp_Dir spec = rq_Dir rq \<and> 0 < rq_Timeout rq \<and> rq_Timeout rq \<le> 300000 \<and>
       (\<forall>launch. RunSkill_Execute cfg (ev\<lparr>ev_launch := launch\<rparr>) args meta fs =
          (case exec_run (ev\<lparr>ev_launch := launch\<rparr>) (rq_Timeout rq) (full_spec skillID rq spec) fs1 of
             (Inl e, fs2) \<Rightarrow> (Inl (Wrap (''run skill '' @ quote skillID @ '': '') e []), fs2)
           | (Inr res, fs2) \<Rightarrow> (Inr (formatRunResult res), fs2))))"
  using RunSkill_Execute_cases [OF assms, of ev args meta fs]
proof
  assume "\<exists>skillID rq spec fs1. run_allowed cfg args meta fs skillID rq \<and> sp_Dir spec = rq_Dir rq \<and>
       buildRunSpec ev (rq_Runtime rq) (rq_Script rq) (rq_Command rq) (rq_Dir rq) fs = (Inr spec, fs1) \<and>
       (\<forall>l. RunSkill_Execute cfg (ev\<lparr>ev_launch := l\<rparr>) args meta fs =
          (case exec_run (ev\<lparr>ev_launch := l\<rparr>) (rq_Timeout rq) (full_spec skillID rq spec) fs1 of
             (Inl e, fs2) \<Rightarrow> (Inl (Wrap (''run skill '' @ quote skillID @ '': '') e []), fs2)
           | (Inr res, fs2) \<Rightarrow> (Inr (formatRunResult res), fs2)))"
  then obtain skillID rq spec fs1 where ok: "run_allowed cfg args meta fs skillID rq" and dir: "sp_Dir spec = rq_Dir rq"
    and run: "\<forall>l. RunSkill_Execute cfg (ev\<lparr>ev_launch := l\<rparr>) args meta fs =
          (case exec_run (ev\<lparr>ev_launch := l\<rparr>) (rq_Timeout rq) (full_spec skillID rq spec) fs1 of
             (Inl e, fs2) \<Rightarrow> (Inl (Wrap (''run skill '' @ quote skillID @ '': '') e []), fs2)
           | (Inr res, fs2) \<Rightarrow> (Inr (formatRunResult res), fs2))" by blast
  from ok dir run show ?thesis unfolding run_allowed_def confined_def maxTimeoutMillis_def by blast
qed blast

definition demo_run :: run_config where
  "demo_run = \<lparr>rc_sha256 = id, rc_policy = bundle_DefaultPolicy, rc_registry = [''k''], rc_store = [''v''],
     rc_PolicyVersion = 2\<rparr>"

definition demo_exec :: exec_env where
  "demo_exec = \<lparr>ev_LookPath = (\<lambda>_. None), ev_script_fault = NoFault,
     ev_launch = (\<lambda>_ _ fs. (\<lparr>pr_Stdout = [], pr_Stderr = [], pr_ctx_done = False, pr_End = Finished\<rparr>, fs))\<rparr>"

lemma demo_run_plain: "list_all plain (rc_registry demo_run)"
  by (simp add: demo_run_def plain_def)

theorem commands_need_approval_witness:
  "\<exists>e fs'. \<forall>launch. RunSkill_Execute demo_run (demo_exec\<lparr>ev_launch := launch\<rparr>) [(''skillId'', JStr ''s'')]
     (zero_Meta\<lparr>im_ActiveSkillIDs := [''s'']\<rparr>) [] = (Inl e, fs')"
proof -
  have "GetSkill (rc_sha256 demo_run) (rc_policy demo_run) (rc_registry demo_run) ''s'' [] = None"
    by (simp add: GetSkill_def readEntry_def os_Stat_def demo_run_def storedSkillFile_def SkillMDPath_def fs_eval ordinary_def)
  with commands_need_approval [OF demo_run_plain, of demo_exec "[(''skillId'', JStr ''s'')]"
      "zero_Meta\<lparr>im_ActiveSkillIDs := [''s'']\<rparr>" "[]"] show ?thesis by auto
qed

text \<open>
  a command leaves no script file behind: when the process itself changes nothing, the file tree after
  the call is the tree before it, whether the call was refused, the script could not be written, the
  interpreter is missing, or the command ran.
\<close>

theorem scripts_removed:
  assumes "list_all plain (rc_registry cfg)" and quiet: "\<forall>spec t g. snd (ev_launch ev spec t g) = g"
  shows "node (snd (RunSkill_Execute cfg ev args meta fs)) = node fs"
proof (cases "ArgString args ''skillId'' []")
  case (Inl e)
  then show ?thesis by (simp add: RunSkill_Execute_def)
next
  case (Inr skillID)
  note id = this
  show ?thesis
  proof (cases "skillID = [] \<or> \<not> activeThisTurn meta skillID \<or> isl (read_request cfg skillID args fs)")
    case True
    with id show ?thesis by (auto simp: RunSkill_Execute_def isl_def)
  next
    case False
    then obtain rq where rq: "read_request cfg skillID args fs = Inr rq" by (auto simp: isl_def) (metis sum.exhaust)
    have ok: "run_allowed cfg args meta fs skillID rq"
      using read_request_allowed [OF assms(1) rq id] False by blast
    then have "no_slash (rq_Dir rq)"
      unfolding run_allowed_def using BundleRoot_plain [OF assms(1)] confined_no_slash by blast
    obtain b fs1 where b: "buildRunSpec ev (rq_Runtime rq) (rq_Script rq) (rq_Command rq) (rq_Dir rq) fs = (b, fs1)"
      by fastforce
    have exe: "snd (RunSkill_Execute cfg ev args meta fs) = (case b of Inl _ \<Rightarrow> fs1
        | Inr spec \<Rightarrow> snd (exec_run ev (rq_Timeout rq) (full_spec skillID rq spec) fs1))"
      using id False rq b by (simp add: RunSkill_Execute_def split: sum.split prod.split)
    have "snd (exec_run ev t spec fs1) = cleanup_spec spec fs1" for t spec
      using quiet by (auto simp: exec_run_def split: option.split prod.split) (metis snd_conv)
    with buildRunSpec_cases [OF \<open>no_slash (rq_Dir rq)\<close> b] exe show ?thesis by (auto simp: isl_def)
  qed
qed

theorem scripts_removed_witness:
  "node (snd (RunSkill_Execute demo_run demo_exec [(''skillId'', JStr ''s'')]
     (zero_Meta\<lparr>im_ActiveSkillIDs := [''s'']\<rparr>) [])) = node []"
  by (rule scripts_removed [OF demo_run_plain]) (simp add: demo_exec_def)

text \<open>
  what a command writes is captured as the first 4 MiB of each stream, however the writes are split,
  and every write is reported as complete; a process whose context is done counts as timed out.
\<close>

theorem capture_is_prefix:
  "captured ws = take maxCapturedBytes (concat ws) \<and>
   snd (capped_Write (captured ws) w) = length w \<and>
   process_result (pr\<lparr>pr_ctx_done := True\<rparr>) =
     (Inr \<lparr>rr_ExitCode = - 1, rr_TimedOut = True, rr_Stdout = take maxCapturedBytes (concat (pr_Stdout pr)),
           rr_Stderr = take maxCapturedBytes (concat (pr_Stderr pr))\<rparr> :: runResult result)"
  by (simp add: captured_take capped_Write_def process_result_def Let_def)

end
