(* ===== verification/Config.thy ===== *)
theory Config
  imports Registry RunSkill
begin

text \<open>
  The configuration (\<^verbatim>\<open>pkg/config/config.go\<close>): the structs and their YAML tags, the defaults, and how the file is read
  and written. \<^verbatim>\<open>gopkg.in/yaml.v3\<close> is a parameter for the text of a document and of a float; how it reads a document into a
  struct, field by field over the values that are there, is written out along the tags.
\<close>

section \<open>Secrets\<close>

record SecureString =
  ss_value :: string

definition NewSecureString :: "string \<Rightarrow> SecureString" where
  "NewSecureString s = \<lparr>ss_value = s\<rparr>"

definition secure_Value :: "SecureString \<Rightarrow> string" where
  "secure_Value s = ss_value s"

definition secure_IsSet :: "SecureString \<Rightarrow> bool" where
  "secure_IsSet s = (ss_value s \<noteq> [])"

definition secure_String :: "SecureString \<Rightarrow> string" where
  "secure_String s = (if ss_value s = [] then [] else ''[REDACTED]'')"

definition secure_GoString :: "SecureString \<Rightarrow> string" where
  "secure_GoString s = secure_String s"

section \<open>YAML documents\<close>

text \<open>A scalar is what it resolves to, and its text. \<open>yl_Parse\<close> reads an empty document as the null scalar.\<close>

datatype yscalar = SNull | SBool bool | SInt int | SFloat rat | SStr

datatype ynode = YScalar yscalar string | YSeq "ynode list" | YMap "(string \<times> ynode) list"

record yaml_lib =
  yl_Parse :: "string \<Rightarrow> ynode result"
  yl_Print :: "ynode \<Rightarrow> string"
  yl_float_text :: "rat \<Rightarrow> string"

type_synonym 'a ydecoder = "'a \<Rightarrow> ynode \<Rightarrow> 'a option"

text \<open>Decoding over a value: null leaves it as it is, a string takes the text of any scalar.\<close>

fun yd_string :: "string ydecoder" where
  "yd_string cur (YScalar SNull t) = Some cur"
| "yd_string cur (YScalar _ t) = Some t"
| "yd_string cur _ = None"

fun yd_bool :: "bool ydecoder" where
  "yd_bool cur (YScalar SNull t) = Some cur"
| "yd_bool cur (YScalar (SBool b) t) = Some b"
| "yd_bool cur (YScalar SStr t) =
     (if t \<in> {''y'', ''Y'', ''yes'', ''on''} then Some True
      else if t \<in> {''n'', ''N'', ''no'', ''off''} then Some False else None)"
| "yd_bool cur _ = None"

definition in_int64 :: "int \<Rightarrow> int option" where
  "in_int64 i = (if int64 i then Some i else None)"

fun yd_int :: "int ydecoder" where
  "yd_int cur (YScalar SNull t) = Some cur"
| "yd_int cur (YScalar (SInt i) t) = in_int64 i"
| "yd_int cur (YScalar (SFloat r) t) = in_int64 (if r < 0 then \<lceil>r\<rceil> else \<lfloor>r\<rfloor>)"
| "yd_int cur _ = None"

fun yd_float :: "rat ydecoder" where
  "yd_float cur (YScalar SNull t) = Some cur"
| "yd_float cur (YScalar (SInt i) t) = Some (of_int i)"
| "yd_float cur (YScalar (SFloat r) t) = Some r"
| "yd_float cur _ = None"

fun yd_list :: "'a \<Rightarrow> 'a ydecoder \<Rightarrow> 'a list ydecoder" where
  "yd_list z d cur (YScalar SNull t) = Some []"
| "yd_list z d cur (YSeq ns) = those (map (d z) ns)"
| "yd_list z d cur _ = None"

text \<open>A struct: the members of the mapping, with no key twice. Keys that are no field are ignored.\<close>

fun ymembers :: "ynode \<Rightarrow> (string \<times> ynode) list option" where
  "ymembers (YScalar SNull t) = Some []"
| "ymembers (YMap ms) = (if distinct (map fst ms) then Some ms else None)"
| "ymembers _ = None"

definition yfield :: "string \<Rightarrow> 'a ydecoder \<Rightarrow> 'a \<Rightarrow> (string \<times> ynode) list \<Rightarrow> 'a option" where
  "yfield name d cur ms = (case map_of ms name of None \<Rightarrow> Some cur | Some n \<Rightarrow> d cur n)"

text \<open>Encoding.\<close>

definition ystr :: "string \<Rightarrow> ynode" where "ystr s = YScalar SStr s"
definition ybool :: "bool \<Rightarrow> ynode" where "ybool b = YScalar (SBool b) (if b then ''true'' else ''false'')"
definition yint :: "int \<Rightarrow> ynode" where "yint i = YScalar (SInt i) (Itoa i)"

text \<open>A field, and a field with \<open>omitempty\<close>.\<close>

definition ykey :: "string \<Rightarrow> ynode \<Rightarrow> (string \<times> ynode) list" where
  "ykey k n = [(k, n)]"

definition ykey_opt :: "string \<Rightarrow> string \<Rightarrow> (string \<times> ynode) list" where
  "ykey_opt k s = (if s = [] then [] else [(k, ystr s)])"

definition ykey_list :: "string \<Rightarrow> ('a \<Rightarrow> ynode) \<Rightarrow> 'a list \<Rightarrow> (string \<times> ynode) list" where
  "ykey_list k f xs = (if xs = [] then [] else [(k, YSeq (map f xs))])"

definition MarshalYAML :: "SecureString \<Rightarrow> ynode" where
  "MarshalYAML s = ystr (ss_value s)"

fun UnmarshalYAML :: "SecureString ydecoder" where
  "UnmarshalYAML cur (YScalar SNull t) = Some cur"
| "UnmarshalYAML cur n = map_option (\<lambda>raw. cur\<lparr>ss_value := raw\<rparr>) (yd_string [] n)"

section \<open>The structs\<close>

record ProviderConfig =
  pc_APIKey :: SecureString
  pc_Model :: string
  pc_BaseURL :: string

record TelegramConfig =
  tg_Enabled :: bool
  tg_Token :: SecureString
  tg_AllowFrom :: "string list"

record HooksConfig =
  hk_TurnStartScript :: string
  hk_TurnEndScript :: string

record ToolsConfig =
  to_FilesRoot :: string
  to_WebEnabled :: bool

record HTTPConfig =
  ht_Enabled :: bool
  ht_Addr :: string

record MCPServerConfig =
  ms_Name :: string
  ms_Transport :: string
  ms_Command :: string
  ms_Args :: "string list"
  ms_URL :: string

record Config =
  cg_DataDir :: string
  cg_Provider :: string
  cg_Model :: string
  cg_Temperature :: rat
  cg_ContextSize :: int
  cg_MaxTokens :: int
  cg_SystemPrompt :: string
  cg_Locale :: string
  cg_TimeZone :: string
  cg_Anthropic :: ProviderConfig
  cg_OpenAICompat :: ProviderConfig
  cg_Telegram :: TelegramConfig
  cg_Hooks :: HooksConfig
  cg_Tools :: ToolsConfig
  cg_HTTP :: HTTPConfig
  cg_MCP :: "MCPServerConfig list"
  cg_SkillsEnabled :: bool

text \<open>\<open>SkillsSettings\<close> has one field, its \<open>Enabled\<close>.\<close>

definition enc_ProviderConfig :: "ProviderConfig \<Rightarrow> ynode" where
  "enc_ProviderConfig c =
     YMap (ykey ''apiKey'' (MarshalYAML (pc_APIKey c)) @ ykey_opt ''model'' (pc_Model c) @ ykey_opt ''baseURL'' (pc_BaseURL c))"

definition yd_ProviderConfig :: "ProviderConfig ydecoder" where
  "yd_ProviderConfig cur n =
     Option.bind (ymembers n) (\<lambda>ms.
     Option.bind (yfield ''apiKey'' UnmarshalYAML (pc_APIKey cur) ms) (\<lambda>k.
     Option.bind (yfield ''model'' yd_string (pc_Model cur) ms) (\<lambda>m.
     Option.bind (yfield ''baseURL'' yd_string (pc_BaseURL cur) ms) (\<lambda>u.
       Some \<lparr>pc_APIKey = k, pc_Model = m, pc_BaseURL = u\<rparr>))))"

definition enc_TelegramConfig :: "TelegramConfig \<Rightarrow> ynode" where
  "enc_TelegramConfig c =
     YMap (ykey ''enabled'' (ybool (tg_Enabled c)) @ ykey ''token'' (MarshalYAML (tg_Token c)) @
       ykey_list ''allowFrom'' ystr (tg_AllowFrom c))"

definition yd_TelegramConfig :: "TelegramConfig ydecoder" where
  "yd_TelegramConfig cur n =
     Option.bind (ymembers n) (\<lambda>ms.
     Option.bind (yfield ''enabled'' yd_bool (tg_Enabled cur) ms) (\<lambda>e.
     Option.bind (yfield ''token'' UnmarshalYAML (tg_Token cur) ms) (\<lambda>t.
     Option.bind (yfield ''allowFrom'' (yd_list [] yd_string) (tg_AllowFrom cur) ms) (\<lambda>a.
       Some \<lparr>tg_Enabled = e, tg_Token = t, tg_AllowFrom = a\<rparr>))))"

definition enc_HooksConfig :: "HooksConfig \<Rightarrow> ynode" where
  "enc_HooksConfig c =
     YMap (ykey_opt ''turnStartScript'' (hk_TurnStartScript c) @ ykey_opt ''turnEndScript'' (hk_TurnEndScript c))"

definition yd_HooksConfig :: "HooksConfig ydecoder" where
  "yd_HooksConfig cur n =
     Option.bind (ymembers n) (\<lambda>ms.
     Option.bind (yfield ''turnStartScript'' yd_string (hk_TurnStartScript cur) ms) (\<lambda>s.
     Option.bind (yfield ''turnEndScript'' yd_string (hk_TurnEndScript cur) ms) (\<lambda>e.
       Some \<lparr>hk_TurnStartScript = s, hk_TurnEndScript = e\<rparr>)))"

definition enc_ToolsConfig :: "ToolsConfig \<Rightarrow> ynode" where
  "enc_ToolsConfig c = YMap (ykey_opt ''filesRoot'' (to_FilesRoot c) @ ykey ''webEnabled'' (ybool (to_WebEnabled c)))"

definition yd_ToolsConfig :: "ToolsConfig ydecoder" where
  "yd_ToolsConfig cur n =
     Option.bind (ymembers n) (\<lambda>ms.
     Option.bind (yfield ''filesRoot'' yd_string (to_FilesRoot cur) ms) (\<lambda>r.
     Option.bind (yfield ''webEnabled'' yd_bool (to_WebEnabled cur) ms) (\<lambda>w.
       Some \<lparr>to_FilesRoot = r, to_WebEnabled = w\<rparr>)))"

definition enc_HTTPConfig :: "HTTPConfig \<Rightarrow> ynode" where
  "enc_HTTPConfig c = YMap (ykey ''enabled'' (ybool (ht_Enabled c)) @ ykey ''addr'' (ystr (ht_Addr c)))"

definition yd_HTTPConfig :: "HTTPConfig ydecoder" where
  "yd_HTTPConfig cur n =
     Option.bind (ymembers n) (\<lambda>ms.
     Option.bind (yfield ''enabled'' yd_bool (ht_Enabled cur) ms) (\<lambda>e.
     Option.bind (yfield ''addr'' yd_string (ht_Addr cur) ms) (\<lambda>a. Some \<lparr>ht_Enabled = e, ht_Addr = a\<rparr>)))"

definition zero_MCPServerConfig :: MCPServerConfig where
  "zero_MCPServerConfig = \<lparr>ms_Name = [], ms_Transport = [], ms_Command = [], ms_Args = [], ms_URL = []\<rparr>"

definition enc_MCPServerConfig :: "MCPServerConfig \<Rightarrow> ynode" where
  "enc_MCPServerConfig c =
     YMap (ykey ''name'' (ystr (ms_Name c)) @ ykey ''transport'' (ystr (ms_Transport c)) @
       ykey_opt ''command'' (ms_Command c) @ ykey_list ''args'' ystr (ms_Args c) @ ykey_opt ''url'' (ms_URL c))"

definition yd_MCPServerConfig :: "MCPServerConfig ydecoder" where
  "yd_MCPServerConfig cur n =
     Option.bind (ymembers n) (\<lambda>ms.
     Option.bind (yfield ''name'' yd_string (ms_Name cur) ms) (\<lambda>nm.
     Option.bind (yfield ''transport'' yd_string (ms_Transport cur) ms) (\<lambda>t.
     Option.bind (yfield ''command'' yd_string (ms_Command cur) ms) (\<lambda>c.
     Option.bind (yfield ''args'' (yd_list [] yd_string) (ms_Args cur) ms) (\<lambda>a.
     Option.bind (yfield ''url'' yd_string (ms_URL cur) ms) (\<lambda>u.
       Some \<lparr>ms_Name = nm, ms_Transport = t, ms_Command = c, ms_Args = a, ms_URL = u\<rparr>))))))"

definition enc_SkillsSettings :: "bool \<Rightarrow> ynode" where
  "enc_SkillsSettings e = YMap (ykey ''enabled'' (ybool e))"

definition yd_SkillsSettings :: "bool ydecoder" where
  "yd_SkillsSettings cur n = Option.bind (ymembers n) (yfield ''enabled'' yd_bool cur)"

definition enc_Config :: "yaml_lib \<Rightarrow> Config \<Rightarrow> ynode" where
  "enc_Config y c =
     YMap (ykey ''dataDir'' (ystr (cg_DataDir c)) @ ykey ''provider'' (ystr (cg_Provider c)) @ ykey ''model'' (ystr (cg_Model c)) @
       ykey ''temperature'' (YScalar (SFloat (cg_Temperature c)) (yl_float_text y (cg_Temperature c))) @
       ykey ''contextSize'' (yint (cg_ContextSize c)) @ ykey ''maxTokens'' (yint (cg_MaxTokens c)) @
       ykey_opt ''systemPrompt'' (cg_SystemPrompt c) @ ykey_opt ''locale'' (cg_Locale c) @ ykey_opt ''timeZone'' (cg_TimeZone c) @
       ykey ''anthropic'' (enc_ProviderConfig (cg_Anthropic c)) @ ykey ''openaiCompat'' (enc_ProviderConfig (cg_OpenAICompat c)) @
       ykey ''telegram'' (enc_TelegramConfig (cg_Telegram c)) @ ykey ''hooks'' (enc_HooksConfig (cg_Hooks c)) @
       ykey ''tools'' (enc_ToolsConfig (cg_Tools c)) @ ykey ''http'' (enc_HTTPConfig (cg_HTTP c)) @
       ykey_list ''mcp'' enc_MCPServerConfig (cg_MCP c) @ ykey ''skills'' (enc_SkillsSettings (cg_SkillsEnabled c)))"

definition yd_Config :: "Config ydecoder" where
  "yd_Config cur n =
     Option.bind (ymembers n) (\<lambda>ms.
     Option.bind (yfield ''dataDir'' yd_string (cg_DataDir cur) ms) (\<lambda>dd.
     Option.bind (yfield ''provider'' yd_string (cg_Provider cur) ms) (\<lambda>pr.
     Option.bind (yfield ''model'' yd_string (cg_Model cur) ms) (\<lambda>mo.
     Option.bind (yfield ''temperature'' yd_float (cg_Temperature cur) ms) (\<lambda>te.
     Option.bind (yfield ''contextSize'' yd_int (cg_ContextSize cur) ms) (\<lambda>cs.
     Option.bind (yfield ''maxTokens'' yd_int (cg_MaxTokens cur) ms) (\<lambda>mt.
     Option.bind (yfield ''systemPrompt'' yd_string (cg_SystemPrompt cur) ms) (\<lambda>sp.
     Option.bind (yfield ''locale'' yd_string (cg_Locale cur) ms) (\<lambda>lo.
     Option.bind (yfield ''timeZone'' yd_string (cg_TimeZone cur) ms) (\<lambda>tz.
     Option.bind (yfield ''anthropic'' yd_ProviderConfig (cg_Anthropic cur) ms) (\<lambda>an.
     Option.bind (yfield ''openaiCompat'' yd_ProviderConfig (cg_OpenAICompat cur) ms) (\<lambda>oa.
     Option.bind (yfield ''telegram'' yd_TelegramConfig (cg_Telegram cur) ms) (\<lambda>tg.
     Option.bind (yfield ''hooks'' yd_HooksConfig (cg_Hooks cur) ms) (\<lambda>hk.
     Option.bind (yfield ''tools'' yd_ToolsConfig (cg_Tools cur) ms) (\<lambda>tl.
     Option.bind (yfield ''http'' yd_HTTPConfig (cg_HTTP cur) ms) (\<lambda>ht.
     Option.bind (yfield ''mcp'' (yd_list zero_MCPServerConfig yd_MCPServerConfig) (cg_MCP cur) ms) (\<lambda>mc.
     Option.bind (yfield ''skills'' yd_SkillsSettings (cg_SkillsEnabled cur) ms) (\<lambda>sk.
       Some \<lparr>cg_DataDir = dd, cg_Provider = pr, cg_Model = mo, cg_Temperature = te, cg_ContextSize = cs, cg_MaxTokens = mt,
         cg_SystemPrompt = sp, cg_Locale = lo, cg_TimeZone = tz, cg_Anthropic = an, cg_OpenAICompat = oa, cg_Telegram = tg,
         cg_Hooks = hk, cg_Tools = tl, cg_HTTP = ht, cg_MCP = mc, cg_SkillsEnabled = sk\<rparr>))))))))))))))))))"

section \<open>Defaults\<close>

text \<open>The lines of the prompt, in UTF-8.\<close>

definition defaultSystemPrompt :: string where
  "defaultSystemPrompt = Join [
     bytes [35, 35, 32, 208, 159, 209, 128, 208, 176, 208, 178, 208, 184, 208, 187, 208, 176, 32, 209, 128, 208, 176, 208, 177, 208, 190, 209, 130, 209, 139, 58],
     bytes [49, 46, 32, 42, 42, 208, 159, 209, 128, 208, 184, 208, 190, 209, 128, 208, 184, 209, 130, 208, 181, 209, 130, 32, 208, 184, 208, 189, 209, 129, 209, 130,
        209, 128, 209, 131, 208, 188, 208, 181, 208, 189, 209, 130, 208, 190, 208, 178, 58, 42, 42, 32, 208, 149, 209, 129, 208, 187, 208, 184, 32, 208, 183, 208,
        176, 208, 180, 208, 176, 209, 135, 209, 131, 32, 208, 188, 208, 190, 208, 182, 208, 189, 208, 190, 32, 209, 128, 208, 181, 209, 136, 208, 184, 209, 130, 209,
        140, 32, 208, 178, 209, 139, 208, 183, 208, 190, 208, 178, 208, 190, 208, 188, 32, 209, 132, 209, 131, 208, 189, 208, 186, 209, 134, 208, 184, 208, 184, 32,
        226, 128, 148, 32, 208, 146, 208, 171, 208, 151, 208, 171, 208, 146, 208, 144, 208, 153, 32, 208, 149, 208, 129, 46, 32, 208, 157, 208, 184, 208, 186, 208,
        190, 208, 179, 208, 180, 208, 176, 32, 208, 189, 208, 181, 32, 208, 191, 208, 184, 209, 136, 208, 184, 32, 208, 189, 208, 176, 208, 183, 208, 178, 208, 176,
        208, 189, 208, 184, 208, 181, 32, 209, 132, 209, 131, 208, 189, 208, 186, 209, 134, 208, 184, 208, 184, 32, 209, 130, 208, 181, 208, 186, 209, 129, 209, 130,
        208, 190, 208, 188, 32, 208, 184, 32, 208, 189, 208, 181, 32, 208, 191, 209, 128, 208, 184, 209, 129, 209, 139, 208, 187, 208, 176, 208, 185, 32, 208, 191,
        209, 128, 208, 184, 208, 188, 208, 181, 209, 128, 209, 139, 32, 208, 186, 208, 190, 208, 180, 208, 176, 32, 208, 189, 208, 176] @ '' Python/Bash, '' @ bytes [208, 181, 209, 129, 208, 187, 208, 184, 32, 209, 130, 209, 139, 32, 208, 189, 208, 181, 32, 209, 129, 208, 190, 208, 177, 208, 184, 209, 128, 208, 176, 208,
        181, 209, 136, 209, 140, 209, 129, 209, 143, 32, 208, 184, 209, 133, 32, 208, 184, 209, 129, 208, 191, 208, 190, 208, 187, 208, 189, 209, 143, 209, 130, 209,
        140, 32, 209, 135, 208, 181, 209, 128, 208, 181, 208, 183, 32, 208, 184, 208, 189, 209, 129, 209, 130, 209, 128, 209, 131, 208, 188, 208, 181, 208, 189, 209,
        130, 46],
     bytes [50, 46, 32, 42, 42, 208, 160, 208, 176, 209, 129, 209, 129, 209, 131, 208, 182, 208, 180, 208, 181, 208, 189, 208, 184, 209, 143] @ '' (Chain of Thought):** '' @ bytes [208, 159, 208, 181, 209, 128, 208, 181, 208, 180, 32, 208, 180, 208, 181, 208, 185, 209, 129, 209, 130, 208, 178, 208, 184, 208, 181, 208, 188, 32, 208, 186,
        209, 128, 208, 176, 209, 130, 208, 186, 208, 190, 32, 208, 191, 209, 128, 208, 190, 208, 176, 208, 189, 208, 176, 208, 187, 208, 184, 208, 183, 208, 184, 209,
        128, 209, 131, 208, 185, 32, 208, 183, 208, 176, 208, 191, 209, 128, 208, 190, 209, 129, 46, 32, 208, 161, 208, 189, 208, 176, 209, 135, 208, 176, 208, 187,
        208, 176, 32, 208, 191, 208, 190, 208, 180, 209, 131, 208, 188, 208, 176, 208, 185, 44, 32, 208, 186, 208, 176, 208, 186, 208, 190, 208, 185, 32, 208, 184,
        208, 189, 209, 129, 209, 130, 209, 128, 209, 131, 208, 188, 208, 181, 208, 189, 209, 130, 32, 208, 189, 209, 131, 208, 182, 208, 181, 208, 189, 44, 32, 208,
        183, 208, 176, 209, 130, 208, 181, 208, 188, 32, 208, 184, 209, 129, 208, 191, 208, 190, 208, 187, 209, 140, 208, 183, 209, 131, 208, 185, 32, 208, 181, 208,
        179, 208, 190, 46],
     bytes [51, 46, 32, 42, 42, 208, 164, 208, 190, 209, 128, 208, 188, 208, 176, 209, 130, 32, 208, 190, 209, 130, 208, 178, 208, 181, 209, 130, 208, 176, 58, 42,
        42],
     bytes [32, 32, 32, 45, 32, 208, 149, 209, 129, 208, 187, 208, 184, 32, 209, 128, 208, 181, 208, 183, 209, 131, 208, 187, 209, 140, 209, 130, 208, 176, 209, 130,
        32, 208, 191, 208, 190, 208, 187, 209, 131, 209, 135, 208, 181, 208, 189, 58, 32, 208, 186, 209, 128, 208, 176, 209, 130, 208, 186, 208, 190, 32, 209, 129,
        208, 190, 208, 190, 208, 177, 209, 137, 208, 184, 32, 208, 190, 208, 177, 32, 209, 131, 209, 129, 208, 191, 208, 181, 209, 133, 208, 181, 46],
     bytes [32, 32, 32, 45, 32, 208, 149, 209, 129, 208, 187, 208, 184, 32, 208, 190, 209, 136, 208, 184, 208, 177, 208, 186, 208, 176, 58, 32, 209, 129, 208, 190,
        208, 190, 208, 177, 209, 137, 208, 184, 32, 209, 129, 209, 131, 209, 130, 209, 140, 32, 208, 191, 209, 128, 208, 190, 208, 177, 208, 187, 208, 181, 208, 188,
        209, 139, 32, 208, 184, 32, 208, 191, 209, 128, 208, 181, 208, 180, 208, 187, 208, 190, 208, 182, 208, 184, 32, 209, 128, 208, 181, 209, 136, 208, 181, 208,
        189, 208, 184, 208, 181, 46],
     bytes [52, 46, 32, 42, 42, 208, 160, 208, 176, 208, 177, 208, 190, 209, 130, 208, 176, 32, 209, 129, 32, 209, 132, 208, 176, 208, 185, 208, 187, 208, 176, 208,
        188, 208, 184, 58, 42, 42, 32, 208, 145, 209, 131, 208, 180, 209, 140, 32, 208, 186, 209, 128, 208, 176, 209, 130, 208, 190, 208, 186, 46, 32, 208, 157,
        208, 181, 32, 208, 178, 209, 139, 208, 178, 208, 190, 208, 180, 208, 184, 32, 209, 129, 208, 190, 208, 180, 208, 181, 209, 128, 208, 182, 208, 184, 208, 188,
        208, 190, 208, 181, 32, 209, 132, 208, 176, 208, 185, 208, 187, 208, 190, 208, 178, 44, 32, 208, 181, 209, 129, 208, 187, 208, 184, 32, 209, 130, 208, 181,
        208, 177, 209, 143, 32, 208, 190, 208, 177, 32, 209, 141, 209, 130, 208, 190, 208, 188, 32, 208, 191, 209, 128, 209, 143, 208, 188, 208, 190, 32, 208, 189,
        208, 181, 32, 208, 191, 209, 128, 208, 190, 209, 129, 208, 184, 208, 187, 208, 184, 46],
     bytes [53, 46, 32, 42, 42, 208, 146, 208, 190, 208, 183, 208, 178, 209, 128, 208, 176, 209, 130, 32, 209, 130, 208, 181, 208, 186, 209, 129, 209, 130, 208, 176,
        58, 42, 42],
     bytes [32, 32, 32, 45, 32, 208, 149, 209, 129, 208, 187, 208, 184, 32, 208, 189, 209, 131, 208, 182, 208, 189, 208, 190, 32, 208, 178, 208, 181, 209, 128, 208,
        189, 209, 131, 209, 130, 209, 140, 32, 209, 130, 208, 181, 208, 186, 209, 129, 209, 130, 32, 45, 32, 208, 178, 208, 190, 208, 183, 208, 178, 209, 128, 208,
        176, 209, 137, 208, 176, 208, 185, 32, 208, 178, 32, 209, 132, 208, 190, 209, 128, 208, 188, 208, 176, 209, 130, 208, 181] @ '' Markdown.'',
     bytes [32, 32, 32, 45, 32, 208, 146] @ '' Markdown '' @ bytes [208, 189, 208, 181, 32, 208, 178, 208, 190, 208, 183, 208, 178, 209, 128, 208, 176, 209, 137, 208, 176, 208, 185, 32, 209, 130, 208, 176, 208, 177, 208, 187,
        208, 184, 209, 134, 209, 139, 32, 45, 32, 208, 178, 208, 188, 208, 181, 209, 129, 209, 130, 208, 190, 32, 208, 189, 208, 184, 209, 133, 32, 208, 178, 208,
        190, 208, 183, 208, 178, 209, 128, 208, 176, 209, 137, 208, 176, 208, 185, 32, 209, 132, 208, 190, 209, 128, 208, 188, 208, 176, 209, 130, 208, 184, 209, 128,
        208, 190, 208, 178, 208, 176, 208, 189, 208, 189, 209, 139, 208, 181, 32, 209, 129, 208, 191, 208, 184, 209, 129, 208, 186, 208, 184, 46],
     [],
     bytes [35, 35, 32, 208, 154, 209, 128, 208, 184, 209, 130, 208, 184, 209, 135, 208, 181, 209, 129, 208, 186, 208, 184, 32, 208, 178, 208, 176, 208, 182, 208, 189,
        208, 190, 58],
     bytes [208, 162, 208, 178, 208, 190, 209, 143, 32, 208, 183, 208, 176, 208, 180, 208, 176, 209, 135, 208, 176, 32, 226, 128, 148, 32, 208, 148, 208, 149, 208, 153,
        208, 161, 208, 162, 208, 146, 208, 158, 208, 146, 208, 144, 208, 162, 208, 172, 44, 32, 208, 176, 32, 208, 189, 208, 181, 32, 208, 177, 208, 190, 208, 187,
        209, 130, 208, 176, 209, 130, 209, 140, 46]] nl"

text \<open>\<open>filepath.Join(base, e...)\<close>; \<open>home\<close> is the answer of \<open>os.UserHomeDir\<close>.\<close>

definition filepath_Join :: "string \<Rightarrow> string list \<Rightarrow> string" where
  "filepath_Join base es =
     (if is_abs base then abs_str (norm_onto (Clean_abs base) (concat (map comps es)))
      else let cs = clean_rel [] (comps base @ concat (map comps es)) in if cs = [] then ''.'' else Join cs ''/'')"

definition defaultDataDir :: "string result \<Rightarrow> string" where
  "defaultDataDir home =
     (case home of Inl e \<Rightarrow> ''.souz-go'' | Inr h \<Rightarrow> filepath_Join h [''.local'', ''state'', ''souz-go''])"

definition DefaultPath :: "string result \<Rightarrow> string" where
  "DefaultPath home = filepath_Join (defaultDataDir home) [''config.yaml'']"

definition no_provider :: ProviderConfig where
  "no_provider = \<lparr>pc_APIKey = NewSecureString [], pc_Model = [], pc_BaseURL = []\<rparr>"

definition config_Default :: "string result \<Rightarrow> Config" where
  "config_Default home = \<lparr>cg_DataDir = defaultDataDir home, cg_Provider = ''anthropic'', cg_Model = [],
     cg_Temperature = 7 / 10, cg_ContextSize = 16000, cg_MaxTokens = 4096, cg_SystemPrompt = defaultSystemPrompt,
     cg_Locale = [], cg_TimeZone = [], cg_Anthropic = no_provider, cg_OpenAICompat = no_provider,
     cg_Telegram = \<lparr>tg_Enabled = False, tg_Token = NewSecureString [], tg_AllowFrom = []\<rparr>,
     cg_Hooks = \<lparr>hk_TurnStartScript = [], hk_TurnEndScript = []\<rparr>,
     cg_Tools = \<lparr>to_FilesRoot = [], to_WebEnabled = True\<rparr>,
     cg_HTTP = \<lparr>ht_Enabled = True, ht_Addr = '':8080''\<rparr>, cg_MCP = [], cg_SkillsEnabled = True\<rparr>"

section \<open>Loading and saving\<close>

definition config_error :: "go_error \<Rightarrow> go_error" where
  "config_error e = Wrap ''config: '' e []"

definition config_Load :: "yaml_lib \<Rightarrow> string result \<Rightarrow> path \<Rightarrow> fs \<Rightarrow> Config result" where
  "config_Load y home p fs =
     (case os_ReadFile fs p of
        Inl e \<Rightarrow> (if is_not_exist e then Inr (config_Default home) else Inl (config_error e))
      | Inr data \<Rightarrow>
          (case yl_Parse y data of
             Inl e \<Rightarrow> Inl (config_error e)
           | Inr n \<Rightarrow>
               (case yd_Config (config_Default home) n of
                  None \<Rightarrow> Inl (config_error (Err ''yaml: unmarshal errors''))
                | Some cfg \<Rightarrow> Inr cfg)))"

text \<open>The write of the file may fail after some bytes.\<close>

definition config_Save :: "yaml_lib \<Rightarrow> nat option \<Rightarrow> path \<Rightarrow> Config \<Rightarrow> fs \<Rightarrow> unit result \<times> fs" where
  "config_Save y fault p cfg fs =
     (let data = yl_Print y (enc_Config y cfg)
      in case os_MkdirAll fs (butlast p) of
           (Inl e, fs1) \<Rightarrow> (Inl (config_error e), fs1)
         | (Inr _, fs1) \<Rightarrow>
             (case os_WriteFile fault p data fs1 of
                (Inl e, fs2) \<Rightarrow> (Inl (config_error e), fs2)
              | (Inr _, fs2) \<Rightarrow> (Inr (), fs2)))"

section \<open>What is written reads back\<close>

definition ykeys :: "(string \<times> ynode) list \<Rightarrow> string set" where
  "ykeys ms = fst ` set ms"

lemma ykeys_simps [simp]:
  "ykeys [] = {}" "ykeys (ykey k n) = {k}" "ykeys (ykey_opt k s) = (if s = [] then {} else {k})"
  "ykeys (ykey_list k f xs) = (if xs = [] then {} else {k})" "ykeys (a @ b) = ykeys a \<union> ykeys b"
  by (auto simp: ykeys_def ykey_def ykey_opt_def ykey_list_def)

lemma distinct_keys [simp]:
  "distinct (map fst (ykey k n))" "distinct (map fst (ykey_opt k s))" "distinct (map fst (ykey_list k f xs))"
  by (simp_all add: ykey_def ykey_opt_def ykey_list_def)

lemma distinct_keys_append:
  "distinct (map fst (a @ b)) \<longleftrightarrow> distinct (map fst a) \<and> distinct (map fst b) \<and> ykeys a \<inter> ykeys b = {}"
  by (auto simp: ykeys_def)

lemma yfield_simps [simp]:
  "yfield name d cur [] = Some cur"
  "yfield name d cur (ykey k n) = (if k = name then d cur n else Some cur)"
  "yfield name d cur (ykey_opt k s) = (if k = name \<and> s \<noteq> [] then d cur (ystr s) else Some cur)"
  "yfield name d cur (ykey_list k f xs) = (if k = name \<and> xs \<noteq> [] then d cur (YSeq (map f xs)) else Some cur)"
  "yfield name d cur (ykey k n @ ms) = (if k = name then d cur n else yfield name d cur ms)"
  "yfield name d cur (ykey_opt k s @ ms) = (if k = name \<and> s \<noteq> [] then d cur (ystr s) else yfield name d cur ms)"
  "yfield name d cur (ykey_list k f xs @ ms) = (if k = name \<and> xs \<noteq> [] then d cur (YSeq (map f xs)) else yfield name d cur ms)"
  by (simp_all add: yfield_def ykey_def ykey_opt_def ykey_list_def)

lemma ystr_read [simp]: "yd_string cur (ystr s) = Some s" "UnmarshalYAML sec (ystr s) = Some \<lparr>ss_value = s\<rparr>"
  by (simp_all add: ystr_def)

lemma ybool_read [simp]: "yd_bool cur (ybool b) = Some b"
  by (simp add: ybool_def)

lemma yint_read [simp]: "int64 i \<Longrightarrow> yd_int cur (yint i) = Some i"
  by (simp add: yint_def in_int64_def)

lemma those_Some [simp]: "those (map Some xs) = Some xs"
  by (induction xs) auto

lemma provider_read [simp]:
  "yd_ProviderConfig no_provider (enc_ProviderConfig c) = Some c"
  by (simp add: yd_ProviderConfig_def enc_ProviderConfig_def no_provider_def distinct_keys_append MarshalYAML_def del: map_append)

lemma telegram_read [simp]:
  "tg_AllowFrom cur = [] \<Longrightarrow> yd_TelegramConfig cur (enc_TelegramConfig c) = Some c"
  by (simp add: yd_TelegramConfig_def enc_TelegramConfig_def distinct_keys_append MarshalYAML_def comp_def del: map_append)

lemma hooks_read [simp]: "yd_HooksConfig \<lparr>hk_TurnStartScript = [], hk_TurnEndScript = []\<rparr> (enc_HooksConfig c) = Some c"
  by (simp add: yd_HooksConfig_def enc_HooksConfig_def distinct_keys_append del: map_append)

lemma tools_read [simp]: "to_FilesRoot cur = [] \<Longrightarrow> yd_ToolsConfig cur (enc_ToolsConfig c) = Some c"
  by (simp add: yd_ToolsConfig_def enc_ToolsConfig_def distinct_keys_append del: map_append)

lemma http_read [simp]: "yd_HTTPConfig cur (enc_HTTPConfig c) = Some c"
  by (simp add: yd_HTTPConfig_def enc_HTTPConfig_def distinct_keys_append del: map_append)

lemma mcp_server_read [simp]: "yd_MCPServerConfig zero_MCPServerConfig (enc_MCPServerConfig c) = Some c"
  by (simp add: yd_MCPServerConfig_def enc_MCPServerConfig_def zero_MCPServerConfig_def distinct_keys_append comp_def del: map_append)

lemma skills_read [simp]: "yd_SkillsSettings cur (enc_SkillsSettings b) = Some b"
  by (simp add: yd_SkillsSettings_def enc_SkillsSettings_def)

text \<open>The prompt that comes back: the default when none was written.\<close>

definition prompt_read :: "Config \<Rightarrow> Config" where
  "prompt_read cfg = (if cg_SystemPrompt cfg = [] then cfg\<lparr>cg_SystemPrompt := defaultSystemPrompt\<rparr> else cfg)"

lemma config_read:
  assumes "int64 (cg_ContextSize cfg)" "int64 (cg_MaxTokens cfg)"
  shows "yd_Config (config_Default home) (enc_Config y cfg) = Some (prompt_read cfg)"
proof -
  obtain ms where ms: "enc_Config y cfg = YMap ms" by (simp add: enc_Config_def)
  have f: "ms = (case enc_Config y cfg of YMap ms \<Rightarrow> ms | _ \<Rightarrow> [])" using ms by simp
  have "distinct (map fst ms)"
    unfolding f enc_Config_def ynode.case by (simp add: distinct_keys_append del: map_append)
  then have m: "ymembers (enc_Config y cfg) = Some ms" using ms by simp
  show ?thesis
    unfolding yd_Config_def m unfolding f enc_Config_def ynode.case
    using assms by (simp add: config_Default_def prompt_read_def comp_def)
qed

lemma put_file_there:
  assumes "is_dir fs d" "plain c" "file_or_free fs (d @ [c])"
  shows "os_WriteFile None (d @ [c]) s fs = (Inr (), put (d @ [c]) (EFile s) fs)" "is_dir (put (d @ [c]) (EFile s) fs) d"
    "node (put (d @ [c]) (EFile s) fs) (d @ [c]) = Some (EFile s)"
proof -
  show d: "is_dir (put (d @ [c]) (EFile s) fs) d"
    using assms(1,3) by (intro is_dir_put_fresh) (auto elim: file_or_free_cases)
  show n: "node (put (d @ [c]) (EFile s) fs) (d @ [c]) = Some (EFile s)" by (simp add: node_def)
  show "os_WriteFile None (d @ [c]) s fs = (Inr (), put (d @ [c]) (EFile s) fs)"
  proof (cases rule: file_or_free_cases [OF assms(3)])
    case 1
    then show ?thesis using os_walk_child [OF assms(1,2)] os_walk_file [OF d assms(2) n] by (simp add: os_WriteFile_def)
  next
    case (2 t)
    then show ?thesis using os_walk_file [OF assms(1,2)] by (simp add: os_WriteFile_def)
  qed
qed

text \<open>
  C18: What \<open>Save\<close> wrote, \<open>Load\<close> reads back over the defaults, value by value, secrets included: fields that are
  not written because they are empty have an empty default, all but the system prompt, which comes back
  as the default prompt when it was empty. Before the first \<open>Save\<close>, \<open>Load\<close> gives the defaults.
\<close>

theorem config_saved_loads:
  assumes "is_dir fs d" "plain c" "file_or_free fs (d @ [c])" "int64 (cg_ContextSize cfg)" "int64 (cg_MaxTokens cfg)"
    and "yl_Parse y (yl_Print y (enc_Config y cfg)) = Inr (enc_Config y cfg)"
  shows "fst (config_Save y None (d @ [c]) cfg fs) = Inr () \<and>
    config_Load y home (d @ [c]) (snd (config_Save y None (d @ [c]) cfg fs)) = Inr (prompt_read cfg) \<and>
    (node fs (d @ [c]) = None \<longrightarrow> config_Load y home (d @ [c]) fs = Inr (config_Default home))"
proof -
  note w = put_file_there [OF assms(1-3), of "yl_Print y (enc_Config y cfg)"]
  have s: "config_Save y None (d @ [c]) cfg fs = (Inr (), put (d @ [c]) (EFile (yl_Print y (enc_Config y cfg))) fs)"
    using assms(1) w(1) by (simp add: config_Save_def)
  have "config_Load y home (d @ [c]) fs = Inr (config_Default home)" if "node fs (d @ [c]) = None"
    using os_ReadFile_missing [OF assms(1,2) that] by (simp add: config_Load_def path_error_def)
  moreover have "os_ReadFile (put (d @ [c]) (EFile (yl_Print y (enc_Config y cfg))) fs) (d @ [c]) = Inr (yl_Print y (enc_Config y cfg))"
    by (rule os_ReadFile_file [OF w(2) assms(2) w(3)])
  ultimately show ?thesis
    unfolding s using config_read [OF assms(4,5)] assms(6) by (simp add: config_Load_def)
qed

lemma enc_Config_cong: "yl_float_text y = yl_float_text y' \<Longrightarrow> enc_Config y c = enc_Config y' c"
  by (simp only: enc_Config_def)

text \<open>A library that knows one document.\<close>

definition demo_yaml :: "ynode \<Rightarrow> yaml_lib" where
  "demo_yaml n = \<lparr>yl_Parse = (\<lambda>s. if s = ''doc'' then Inr n else Inl (Err ''yaml'')), yl_Print = (\<lambda>m. ''doc''), yl_float_text = (\<lambda>r. ''0.7'')\<rparr>"

definition demo_config :: Config where
  "demo_config = (config_Default (Inr ''/home/u''))\<lparr>cg_SystemPrompt := [], cg_Anthropic := \<lparr>pc_APIKey = NewSecureString ''k'', pc_Model = [], pc_BaseURL = []\<rparr>\<rparr>"

lemma demo_yaml_reads:
  assumes "enc_Config (demo_yaml n) c = n"
  shows "yl_Parse (demo_yaml n) (yl_Print (demo_yaml n) (enc_Config (demo_yaml n) c)) = Inr (enc_Config (demo_yaml n) c)"
  unfolding assms by (simp add: demo_yaml_def)

theorem config_saved_loads_witness:
  "let y = demo_yaml (enc_Config (demo_yaml (YSeq [])) demo_config)
   in config_Load y (Inl (Err ''no home'')) [''c.yaml''] (snd (config_Save y None [''c.yaml''] demo_config [])) =
      Inr (demo_config\<lparr>cg_SystemPrompt := defaultSystemPrompt\<rparr>)"
proof -
  let ?y = "demo_yaml (enc_Config (demo_yaml (YSeq [])) demo_config)"
  have p: "yl_Parse ?y (yl_Print ?y (enc_Config ?y demo_config)) = Inr (enc_Config ?y demo_config)"
    by (rule demo_yaml_reads, rule enc_Config_cong) (simp only: demo_yaml_def yaml_lib.simps)
  have "is_dir [] []" "plain ''c.yaml''" "file_or_free [] ([] @ [''c.yaml''])" by (simp_all add: is_dir_def node_def plain_def file_or_free_def)
  moreover have "int64 (cg_ContextSize demo_config)" "int64 (cg_MaxTokens demo_config)"
    by (simp_all add: demo_config_def config_Default_def int64_def)
  ultimately have "config_Load ?y (Inl (Err ''no home'')) ([] @ [''c.yaml'']) (snd (config_Save ?y None ([] @ [''c.yaml'']) demo_config [])) =
      Inr (prompt_read demo_config)"
    using config_saved_loads [OF _ _ _ _ _ p] by blast
  then show ?thesis by (simp add: prompt_read_def demo_config_def)
qed

end
