(* ===== verification/Anthropic.thy ===== *)
theory Anthropic
  imports Codec Http_Client Sse
begin

text \<open>
  \<^verbatim>\<open>pkg/providers/anthropic\<close>: the request built from a chat request, the answer read from a whole response,
  and the answer accumulated from a stream of events. The HTTP client is a parameter, and so is the text of a
  \<open>float64\<close>; a \<open>json.RawMessage\<close> that is read keeps its value, printed without white space.
\<close>

section \<open>The request\<close>

definition anth_defaultBaseURL :: string where
  "anth_defaultBaseURL = ''https://api.anthropic.com''"

definition anth_defaultAPIVersion :: string where
  "anth_defaultAPIVersion = ''2023-06-01''"

definition anth_defaultModel :: string where
  "anth_defaultModel = ''claude-haiku-4-5-20251001''"

definition anth_defaultMaxTokens :: int where
  "anth_defaultMaxTokens = 4096"

record anth_Provider =
  ap_APIKey :: string
  ap_BaseURL :: string

definition anth_baseURL :: "anth_Provider \<Rightarrow> string" where
  "anth_baseURL p = (if ap_BaseURL p \<noteq> [] then ap_BaseURL p else anth_defaultBaseURL)"

record anthropicContentBlock =
  cb_Type :: string
  cb_Text :: string
  cb_ID :: string
  cb_Name :: string
  cb_Input :: string
  cb_ToolUseID :: string
  cb_Content :: string
  cb_IsError :: bool

definition zero_block :: anthropicContentBlock where
  "zero_block = \<lparr>cb_Type = [], cb_Text = [], cb_ID = [], cb_Name = [], cb_Input = [], cb_ToolUseID = [],
     cb_Content = [], cb_IsError = False\<rparr>"

record anthropicMessage =
  am_Role :: string
  am_Content :: "anthropicContentBlock list"

record anthropicTool =
  at_Name :: string
  at_Description :: string
  at_InputSchema :: string

record messagesRequest =
  mr_Model :: string
  mr_MaxTokens :: int
  mr_Messages :: "anthropicMessage list"
  mr_System :: string
  mr_Temperature :: "rat option"
  mr_Stream :: bool
  mr_Tools :: "anthropicTool list"
  mr_ToolChoice :: "(string \<times> string) list"

definition buildAssistantBlocks :: "Message \<Rightarrow> anthropicContentBlock list" where
  "buildAssistantBlocks m =
     (let blocks =
        (if m_Content m \<noteq> [] then [zero_block\<lparr>cb_Type := ''text'', cb_Text := m_Content m\<rparr>] else []) @
        map (\<lambda>tc. zero_block\<lparr>cb_Type := ''tool_use'', cb_ID := tc_ID tc, cb_Name := tc_Name tc, cb_Input := tc_Args tc\<rparr>)
          (m_ToolCalls m)
      in if blocks = [] then [zero_block\<lparr>cb_Type := ''text''\<rparr>] else blocks)"

definition buildContentBlocks :: "Message \<Rightarrow> anthropicContentBlock list" where
  "buildContentBlocks m =
     (if m_Parts m \<noteq> [] then
        map (\<lambda>part. if cp_Type part = ''tool_result''
          then zero_block\<lparr>cb_Type := ''tool_result'', cb_ToolUseID := cp_ToolCallID part, cb_Content := cp_Content part,
                 cb_IsError := cp_IsError part\<rparr>
          else zero_block\<lparr>cb_Type := ''text'', cb_Text := cp_Text part\<rparr>) (m_Parts m)
      else if m_Role m = RoleTool
      then [zero_block\<lparr>cb_Type := ''tool_result'', cb_ToolUseID := m_ToolCallID m, cb_Content := m_Content m\<rparr>]
      else [zero_block\<lparr>cb_Type := ''text'', cb_Text := m_Content m\<rparr>])"

definition anth_buildMessages :: "Message list \<Rightarrow> anthropicMessage list" where
  "anth_buildMessages msgs =
     concat (map (\<lambda>m.
       if m_Role m = RoleSystem then []
       else if m_Role m = RoleAssistant then [\<lparr>am_Role = ''assistant'', am_Content = buildAssistantBlocks m\<rparr>]
       else [\<lparr>am_Role = ''user'', am_Content = buildContentBlocks m\<rparr>]) msgs)"

definition anth_buildTools :: "ToolDefinition list \<Rightarrow> anthropicTool list" where
  "anth_buildTools = map (\<lambda>d. \<lparr>at_Name = td_Name d, at_Description = td_Description d, at_InputSchema = td_InputSchema d\<rparr>)"

definition anth_buildRequest :: "ChatRequest \<Rightarrow> bool \<Rightarrow> messagesRequest" where
  "anth_buildRequest req stream =
     \<lparr>mr_Model = (if rq_Model req = [] then anth_defaultModel else rq_Model req),
      mr_MaxTokens = (if rq_MaxTokens req \<le> 0 then anth_defaultMaxTokens else rq_MaxTokens req),
      mr_Messages = anth_buildMessages (rq_Messages req),
      mr_System = rq_SystemPrompt req,
      mr_Temperature = (if rq_Temperature req \<noteq> 0 then Some (rq_Temperature req) else None),
      mr_Stream = stream,
      mr_Tools = (if rq_Tools req \<noteq> [] then anth_buildTools (rq_Tools req) else []),
      mr_ToolChoice = (if rq_Tools req \<noteq> [] then [(''type'', ''auto'')] else [])\<rparr>"

subsection \<open>Its JSON\<close>

definition enc_block :: "anthropicContentBlock \<Rightarrow> json" where
  "enc_block b = JObj (
     fld ''type'' (JStr (cb_Type b)) @
     opt_fld ''text'' (cb_Text b \<noteq> []) (JStr (cb_Text b)) @
     opt_fld ''id'' (cb_ID b \<noteq> []) (JStr (cb_ID b)) @
     opt_fld ''name'' (cb_Name b \<noteq> []) (JStr (cb_Name b)) @
     opt_fld ''input'' (cb_Input b \<noteq> []) (raw_json (cb_Input b)) @
     opt_fld ''tool_use_id'' (cb_ToolUseID b \<noteq> []) (JStr (cb_ToolUseID b)) @
     opt_fld ''content'' (cb_Content b \<noteq> []) (JStr (cb_Content b)) @
     opt_fld ''is_error'' (cb_IsError b) (JBool (cb_IsError b)))"

definition enc_anthropicMessage :: "anthropicMessage \<Rightarrow> json" where
  "enc_anthropicMessage m =
     JObj (fld ''role'' (JStr (am_Role m)) @ fld ''content'' (JArr (map enc_block (am_Content m))))"

definition enc_anthropicTool :: "anthropicTool \<Rightarrow> json" where
  "enc_anthropicTool t = JObj (fld ''name'' (JStr (at_Name t)) @ fld ''description'' (JStr (at_Description t)) @
     fld ''input_schema'' (raw_json (at_InputSchema t)))"

definition enc_messagesRequest :: "(rat \<Rightarrow> string) \<Rightarrow> messagesRequest \<Rightarrow> json" where
  "enc_messagesRequest float_text r = JObj (
     fld ''model'' (JStr (mr_Model r)) @
     fld ''max_tokens'' (JNum (Itoa (mr_MaxTokens r))) @
     fld ''messages'' (JArr (map enc_anthropicMessage (mr_Messages r))) @
     opt_fld ''system'' (mr_System r \<noteq> []) (JStr (mr_System r)) @
     (case mr_Temperature r of None \<Rightarrow> [] | Some t \<Rightarrow> fld ''temperature'' (JNum (float_text t))) @
     fld ''stream'' (JBool (mr_Stream r)) @
     opt_fld ''tools'' (mr_Tools r \<noteq> []) (JArr (map enc_anthropicTool (mr_Tools r))) @
     opt_fld ''tool_choice'' (mr_ToolChoice r \<noteq> []) (JObj (map (\<lambda>(k, v). (k, JStr v)) (mr_ToolChoice r))))"

text \<open>Marshalling fails on a raw message that is not JSON.\<close>

definition messagesRequest_marshals :: "messagesRequest \<Rightarrow> bool" where
  "messagesRequest_marshals r \<longleftrightarrow>
     list_all (\<lambda>m. list_all (\<lambda>b. enc_raw (cb_Input b) \<noteq> None) (am_Content m)) (mr_Messages r) \<and>
     list_all (\<lambda>t. enc_raw (at_InputSchema t) \<noteq> None) (mr_Tools r)"

definition anth_newRequest ::
  "anth_Provider \<Rightarrow> 'w http_client \<Rightarrow> (rat \<Rightarrow> string) \<Rightarrow> messagesRequest \<Rightarrow> http_request result" where
  "anth_newRequest p hc float_text body =
     (if \<not> messagesRequest_marshals body then Inl (Wrap ''anthropic: encode request: '' (Err ''json: error'') [])
      else (let url = anth_baseURL p @ ''/v1/messages'' in
        case hc_NewRequest hc ''POST'' url of
          Some e \<Rightarrow> Inl (Wrap ''anthropic: build request: '' e [])
        | None \<Rightarrow> Inr \<lparr>hq_Method = ''POST'', hq_URL = url,
            hq_Header = [(''Content-Type'', ''application/json''), (''x-api-key'', ap_APIKey p),
                         (''anthropic-version'', anth_defaultAPIVersion)],
            hq_Body = json_print (enc_messagesRequest float_text body)\<rparr>))"

section \<open>The whole response\<close>

definition dec_block :: "anthropicContentBlock decoder" where
  "dec_block cur j =
     Option.bind (members j) (\<lambda>ms.
     Option.bind (dec_field ''type'' dec_string (cb_Type cur) ms) (\<lambda>ty.
     Option.bind (dec_field ''text'' dec_string (cb_Text cur) ms) (\<lambda>tx.
     Option.bind (dec_field ''id'' dec_string (cb_ID cur) ms) (\<lambda>i.
     Option.bind (dec_field ''name'' dec_string (cb_Name cur) ms) (\<lambda>n.
     Option.bind (dec_field ''input'' dec_raw_text (cb_Input cur) ms) (\<lambda>inp.
     Option.bind (dec_field ''tool_use_id'' dec_string (cb_ToolUseID cur) ms) (\<lambda>u.
     Option.bind (dec_field ''content'' dec_string (cb_Content cur) ms) (\<lambda>c.
     Option.bind (dec_field ''is_error'' dec_bool (cb_IsError cur) ms) (\<lambda>e.
       Some \<lparr>cb_Type = ty, cb_Text = tx, cb_ID = i, cb_Name = n, cb_Input = inp, cb_ToolUseID = u, cb_Content = c,
             cb_IsError = e\<rparr>)))))))))"

record messagesResponse =
  mp_StopReason :: string
  mp_Content :: "anthropicContentBlock list"
  mp_InputTokens :: int
  mp_OutputTokens :: int

definition zero_messagesResponse :: messagesResponse where
  "zero_messagesResponse = \<lparr>mp_StopReason = [], mp_Content = [], mp_InputTokens = 0, mp_OutputTokens = 0\<rparr>"

definition dec_tokens :: "(int \<times> int) decoder" where
  "dec_tokens cur j =
     Option.bind (members j) (\<lambda>ms.
     Option.bind (dec_field ''input_tokens'' dec_int (fst cur) ms) (\<lambda>i.
     Option.bind (dec_field ''output_tokens'' dec_int (snd cur) ms) (\<lambda>out. Some (i, out))))"

definition dec_messagesResponse :: "messagesResponse decoder" where
  "dec_messagesResponse cur j =
     Option.bind (members j) (\<lambda>ms.
     Option.bind (dec_field ''stop_reason'' dec_string (mp_StopReason cur) ms) (\<lambda>s.
     Option.bind (dec_field ''content'' (dec_list zero_block dec_block) (mp_Content cur) ms) (\<lambda>c.
     Option.bind (dec_field ''usage'' dec_tokens (mp_InputTokens cur, mp_OutputTokens cur) ms) (\<lambda>u.
       Some \<lparr>mp_StopReason = s, mp_Content = c, mp_InputTokens = fst u, mp_OutputTokens = snd u\<rparr>))))"

definition anth_toFinishReason :: "string \<Rightarrow> FinishReason" where
  "anth_toFinishReason s =
     (if s = ''tool_use'' then FinishToolUse else if s = ''max_tokens'' then FinishLength else FinishStop)"

definition anth_toChatResponse :: "messagesResponse \<Rightarrow> ChatResponse" where
  "anth_toChatResponse r =
     \<lparr>rs_Content = concat (map cb_Text (filter (\<lambda>b. cb_Type b = ''text'') (mp_Content r))),
      rs_ToolCalls = map (\<lambda>b. \<lparr>tc_ID = cb_ID b, tc_Name = cb_Name b, tc_Args = cb_Input b\<rparr>)
        (filter (\<lambda>b. cb_Type b = ''tool_use'') (mp_Content r)),
      rs_Usage = \<lparr>us_InputTokens = mp_InputTokens r, us_OutputTokens = mp_OutputTokens r\<rparr>,
      rs_FinishReason = anth_toFinishReason (mp_StopReason r)\<rparr>"

definition anth_Chat ::
  "anth_Provider \<Rightarrow> 'w http_client \<Rightarrow> (rat \<Rightarrow> string) \<Rightarrow> ChatRequest \<Rightarrow> 'w \<Rightarrow> ChatResponse result \<times> 'w" where
  "anth_Chat p hc float_text req w =
     (case anth_newRequest p hc float_text (anth_buildRequest req False) of
        Inl e \<Rightarrow> (Inl e, w)
      | Inr httpReq \<Rightarrow>
          (case hc_Do hc httpReq w of
             (Inl e, w1) \<Rightarrow> (Inl (Wrap ''anthropic: request failed: '' e []), w1)
           | (Inr resp, w1) \<Rightarrow>
               (case ReadAll resp of
                  Inl e \<Rightarrow> Inl (Wrap ''anthropic: read response: '' e [])
                | Inr data \<Rightarrow>
                    (if hp_Status resp \<ge> 300
                     then Inl (Err (''anthropic: status '' @ Itoa (hp_Status resp) @ '': '' @ data))
                     else (case unmarshal zero_messagesResponse dec_messagesResponse data of
                             None \<Rightarrow> Inl (Wrap ''anthropic: decode response: '' (Err ''json: error'') [])
                           | Some parsed \<Rightarrow> Inr (anth_toChatResponse parsed))), w1)))"

section \<open>The stream\<close>

record sse_delta =
  sd_Type :: string
  sd_Text :: string
  sd_PartialJSON :: string
  sd_StopReason :: string

record sseEnvelope =
  se_Type :: string
  se_Index :: int
  se_Message :: "int option"
  se_ContentBlock :: "anthropicContentBlock option"
  se_Delta :: "sse_delta option"
  se_Usage :: "int option"

definition zero_delta :: sse_delta where
  "zero_delta = \<lparr>sd_Type = [], sd_Text = [], sd_PartialJSON = [], sd_StopReason = []\<rparr>"

definition zero_sseEnvelope :: sseEnvelope where
  "zero_sseEnvelope = \<lparr>se_Type = [], se_Index = 0, se_Message = None, se_ContentBlock = None, se_Delta = None, se_Usage = None\<rparr>"

definition dec_delta :: "sse_delta decoder" where
  "dec_delta cur j =
     Option.bind (members j) (\<lambda>ms.
     Option.bind (dec_field ''type'' dec_string (sd_Type cur) ms) (\<lambda>ty.
     Option.bind (dec_field ''text'' dec_string (sd_Text cur) ms) (\<lambda>tx.
     Option.bind (dec_field ''partial_json'' dec_string (sd_PartialJSON cur) ms) (\<lambda>p.
     Option.bind (dec_field ''stop_reason'' dec_string (sd_StopReason cur) ms) (\<lambda>s.
       Some \<lparr>sd_Type = ty, sd_Text = tx, sd_PartialJSON = p, sd_StopReason = s\<rparr>)))))"

text \<open>A struct of which one integer field matters; \<open>message.usage.input_tokens\<close> and \<open>usage.output_tokens\<close>.\<close>

definition dec_int_in :: "string \<Rightarrow> int decoder" where
  "dec_int_in name cur j = Option.bind (members j) (dec_field name dec_int cur)"

definition dec_start_message :: "int decoder" where
  "dec_start_message cur j = Option.bind (members j) (dec_field ''usage'' (dec_int_in ''input_tokens'') cur)"

definition dec_sseEnvelope :: "sseEnvelope decoder" where
  "dec_sseEnvelope cur j =
     Option.bind (members j) (\<lambda>ms.
     Option.bind (dec_field ''type'' dec_string (se_Type cur) ms) (\<lambda>ty.
     Option.bind (dec_field ''index'' dec_int (se_Index cur) ms) (\<lambda>i.
     Option.bind (dec_field ''message'' (dec_ptr 0 dec_start_message) (se_Message cur) ms) (\<lambda>m.
     Option.bind (dec_field ''content_block'' (dec_ptr zero_block dec_block) (se_ContentBlock cur) ms) (\<lambda>b.
     Option.bind (dec_field ''delta'' (dec_ptr zero_delta dec_delta) (se_Delta cur) ms) (\<lambda>d.
     Option.bind (dec_field ''usage'' (dec_ptr 0 (dec_int_in ''output_tokens'')) (se_Usage cur) ms) (\<lambda>u.
       Some \<lparr>se_Type = ty, se_Index = i, se_Message = m, se_ContentBlock = b, se_Delta = d, se_Usage = u\<rparr>)))))))"

record toolBlockState =
  tb_id :: string
  tb_name :: string
  tb_args :: string

text \<open>The variables of \<open>readStream\<close>, and the world \<open>onChunk\<close> acts on.\<close>

record 'w anth_stream =
  sm_text :: string
  sm_blocks :: "(int \<times> toolBlockState) list"
  sm_calls :: "ToolCall list"
  sm_finish :: FinishReason
  sm_usage :: Usage
  sm_data :: "string list"
  sm_world :: 'w

definition anth_start :: "'w \<Rightarrow> 'w anth_stream" where
  "anth_start w = \<lparr>sm_text = [], sm_blocks = [], sm_calls = [], sm_finish = FinishStop, sm_usage = zero_Usage, sm_data = [],
     sm_world = w\<rparr>"

text \<open>The \<open>switch\<close> of \<open>flush\<close>.\<close>

definition anth_event :: "(string \<Rightarrow> 'w \<Rightarrow> 'w) \<Rightarrow> sseEnvelope \<Rightarrow> 'w anth_stream \<Rightarrow> 'w anth_stream" where
  "anth_event onChunk evt st =
     (if se_Type evt = ''message_start'' then
        (case se_Message evt of None \<Rightarrow> st
         | Some n \<Rightarrow> st\<lparr>sm_usage := (sm_usage st)\<lparr>us_InputTokens := n\<rparr>\<rparr>)
      else if se_Type evt = ''content_block_start'' then
        (case se_ContentBlock evt of None \<Rightarrow> st
         | Some b \<Rightarrow> (if cb_Type b = ''tool_use''
             then st\<lparr>sm_blocks := put (se_Index evt) \<lparr>tb_id = cb_ID b, tb_name = cb_Name b, tb_args = []\<rparr> (sm_blocks st)\<rparr>
             else st))
      else if se_Type evt = ''content_block_delta'' then
        (case se_Delta evt of None \<Rightarrow> st
         | Some d \<Rightarrow>
             (if sd_Type d = ''text_delta'' then
                (if sd_Text d \<noteq> [] then st\<lparr>sm_text := sm_text st @ sd_Text d, sm_world := onChunk (sd_Text d) (sm_world st)\<rparr> else st)
              else if sd_Type d = ''input_json_delta'' then
                (case map_of (sm_blocks st) (se_Index evt) of None \<Rightarrow> st
                 | Some tb \<Rightarrow> st\<lparr>sm_blocks := put (se_Index evt) (tb\<lparr>tb_args := tb_args tb @ sd_PartialJSON d\<rparr>) (sm_blocks st)\<rparr>)
              else st))
      else if se_Type evt = ''content_block_stop'' then
        (case map_of (sm_blocks st) (se_Index evt) of None \<Rightarrow> st
         | Some tb \<Rightarrow> st\<lparr>sm_blocks := del (se_Index evt) (sm_blocks st),
             sm_calls := sm_calls st @ [\<lparr>tc_ID = tb_id tb, tc_Name = tb_name tb,
               tc_Args = (if tb_args tb = [] then ''{}'' else tb_args tb)\<rparr>]\<rparr>)
      else if se_Type evt = ''message_delta'' then
        (let st1 = (case se_Delta evt of None \<Rightarrow> st
           | Some d \<Rightarrow> (if sd_StopReason d \<noteq> [] then st\<lparr>sm_finish := anth_toFinishReason (sd_StopReason d)\<rparr> else st))
         in case se_Usage evt of None \<Rightarrow> st1
            | Some n \<Rightarrow> st1\<lparr>sm_usage := (sm_usage st1)\<lparr>us_OutputTokens := n\<rparr>\<rparr>)
      else st)"

definition anth_flush :: "(string \<Rightarrow> 'w \<Rightarrow> 'w) \<Rightarrow> 'w anth_stream \<Rightarrow> 'w anth_stream" where
  "anth_flush onChunk st =
     (if sm_data st = [] then st
      else (let data = Join (sm_data st) nl; st1 = st\<lparr>sm_data := []\<rparr> in
        if data = [] \<or> data = ''[DONE]'' then st1
        else (case unmarshal zero_sseEnvelope dec_sseEnvelope data of None \<Rightarrow> st1
              | Some evt \<Rightarrow> anth_event onChunk evt st1)))"

definition anth_line :: "(string \<Rightarrow> 'w \<Rightarrow> 'w) \<Rightarrow> string \<Rightarrow> 'w anth_stream \<Rightarrow> 'w anth_stream" where
  "anth_line onChunk line st =
     (if line = [] then anth_flush onChunk st
      else if HasPrefix line ''data:'' then st\<lparr>sm_data := sm_data st @ [data_of line]\<rparr>
      else st)"

definition anth_buffer :: nat where
  "anth_buffer = 1024 * 1024"

definition anth_response :: "'w anth_stream \<Rightarrow> ChatResponse" where
  "anth_response st =
     \<lparr>rs_Content = sm_text st, rs_ToolCalls = sm_calls st, rs_Usage = sm_usage st,
      rs_FinishReason = (if sm_calls st \<noteq> [] then FinishToolUse else sm_finish st)\<rparr>"

definition anth_readStream ::
  "(string \<Rightarrow> 'w \<Rightarrow> 'w) \<Rightarrow> string \<Rightarrow> go_error option \<Rightarrow> 'w \<Rightarrow> ChatResponse result \<times> 'w" where
  "anth_readStream onChunk body read_err w =
     (let (lines, too_long) = scan_lines anth_buffer body;
          st = anth_flush onChunk (fold (anth_line onChunk) lines (anth_start w))
      in (case scanner_Err too_long read_err of
            Some e \<Rightarrow> Inl (Wrap ''anthropic: read stream: '' e [])
          | None \<Rightarrow> Inr (anth_response st),
          sm_world st))"

definition anth_ChatStream ::
  "anth_Provider \<Rightarrow> 'w http_client \<Rightarrow> (rat \<Rightarrow> string) \<Rightarrow> ChatRequest \<Rightarrow> (string \<Rightarrow> 'w \<Rightarrow> 'w) \<Rightarrow> 'w \<Rightarrow>
   ChatResponse result \<times> 'w" where
  "anth_ChatStream p hc float_text req onChunk w =
     (case anth_newRequest p hc float_text (anth_buildRequest req True) of
        Inl e \<Rightarrow> (Inl e, w)
      | Inr httpReq \<Rightarrow>
          (case hc_Do hc (httpReq\<lparr>hq_Header := hq_Header httpReq @ [(''Accept'', ''text/event-stream'')]\<rparr>) w of
             (Inl e, w1) \<Rightarrow> (Inl (Wrap ''anthropic: request failed: '' e []), w1)
           | (Inr resp, w1) \<Rightarrow>
               (if hp_Status resp \<ge> 300
                then (Inl (Err (''anthropic: status '' @ Itoa (hp_Status resp) @ '': '' @ hp_Body resp)), w1)
                else anth_readStream onChunk (hp_Body resp) (hp_ReadErr resp) w1)))"

definition anthropic_provider :: "anth_Provider \<Rightarrow> 'w http_client \<Rightarrow> (rat \<Rightarrow> string) \<Rightarrow> 'w LLMProvider" where
  "anthropic_provider p hc float_text =
     \<lparr>Chat = anth_Chat p hc float_text, ChatStream = anth_ChatStream p hc float_text\<rparr>"

section \<open>A stream and the whole response\<close>

text \<open>
  What the service sends for an answer, by its documented protocol: the blocks of the answer, each given here with
  the pieces it is cut into, and their events.
\<close>

datatype piece_block = Text "string list" | Use string string "string list"

fun whole_block :: "piece_block \<Rightarrow> anthropicContentBlock" where
  "whole_block (Text ps) = zero_block\<lparr>cb_Type := ''text'', cb_Text := concat ps\<rparr>"
| "whole_block (Use i n ps) = zero_block\<lparr>cb_Type := ''tool_use'', cb_ID := i, cb_Name := n,
     cb_Input := (if concat ps = [] then ''{}'' else concat ps)\<rparr>"

definition ev :: "string \<Rightarrow> (string \<times> json) list \<Rightarrow> string \<times> (string \<times> json) list" where
  "ev ty ms = (ty, fld ''type'' (JStr ty) @ ms)"

definition ev_delta :: "int \<Rightarrow> string \<Rightarrow> string \<Rightarrow> string \<Rightarrow> string \<times> (string \<times> json) list" where
  "ev_delta i ty key s = ev ''content_block_delta''
     (fld ''index'' (JNum (Itoa i)) @ fld ''delta'' (JObj (fld ''type'' (JStr ty) @ fld key (JStr s))))"

fun block_events :: "int \<Rightarrow> piece_block \<Rightarrow> (string \<times> (string \<times> json) list) list" where
  "block_events i (Text ps) =
     ev ''content_block_start'' (fld ''index'' (JNum (Itoa i)) @
       fld ''content_block'' (JObj (fld ''type'' (JStr ''text'') @ fld ''text'' (JStr [])))) #
     map (ev_delta i ''text_delta'' ''text'') ps @ [ev ''content_block_stop'' (fld ''index'' (JNum (Itoa i)))]"
| "block_events i (Use d n ps) =
     ev ''content_block_start'' (fld ''index'' (JNum (Itoa i)) @
       fld ''content_block'' (JObj (fld ''type'' (JStr ''tool_use'') @ fld ''id'' (JStr d) @ fld ''name'' (JStr n) @
         fld ''input'' (JObj [])))) #
     map (ev_delta i ''input_json_delta'' ''partial_json'') ps @ [ev ''content_block_stop'' (fld ''index'' (JNum (Itoa i)))]"

fun blocks_events :: "int \<Rightarrow> piece_block list \<Rightarrow> (string \<times> (string \<times> json) list) list" where
  "blocks_events i [] = []"
| "blocks_events i (b # bs) = block_events i b @ blocks_events (i + 1) bs"

definition answer_events :: "int \<Rightarrow> piece_block list \<Rightarrow> string \<Rightarrow> int \<Rightarrow> (string \<times> (string \<times> json) list) list" where
  "answer_events n_in bs stop n_out =
     ev ''message_start'' (fld ''message'' (JObj (fld ''usage'' (JObj (fld ''input_tokens'' (JNum (Itoa n_in))))))) #
     blocks_events 0 bs @
     [ev ''message_delta'' (fld ''delta'' (JObj (fld ''stop_reason'' (JStr stop))) @
        fld ''usage'' (JObj (fld ''output_tokens'' (JNum (Itoa n_out))))),
      ev ''message_stop'' []]"

definition event_frame :: "string \<times> (string \<times> json) list \<Rightarrow> string \<times> string" where
  "event_frame e = (fst e, json_print (JObj (snd e)))"

fun text_pieces :: "piece_block \<Rightarrow> string list" where
  "text_pieces (Text ps) = filter (\<lambda>s. s \<noteq> []) ps"
| "text_pieces (Use i n ps) = []"

fun piece_ok :: "piece_block \<Rightarrow> bool" where
  "piece_ok (Text ps) = list_all utf8_Valid ps"
| "piece_ok (Use i n ps) = (utf8_Valid i \<and> utf8_Valid n \<and> list_all utf8_Valid ps)"

subsection \<open>Events\<close>

text \<open>What the data of one frame does.\<close>

definition anth_data :: "(string \<Rightarrow> 'w \<Rightarrow> 'w) \<Rightarrow> string \<Rightarrow> 'w anth_stream \<Rightarrow> 'w anth_stream" where
  "anth_data onChunk data st =
     (if data = [] \<or> data = ''[DONE]'' then st
      else (case unmarshal zero_sseEnvelope dec_sseEnvelope data of None \<Rightarrow> st | Some evt \<Rightarrow> anth_event onChunk evt st))"

lemma anth_event_data [simp]: "sm_data (anth_event onChunk evt st) = sm_data st"
  by (simp add: anth_event_def Let_def split: option.split)

interpretation anth: frame_reader anth_buffer "anth_line onChunk" "\<lambda>e. anth_data onChunk (snd e)" "\<lambda>st. sm_data st = []"
  for onChunk
proof
  fix st :: "'a anth_stream" and e
  assume idle: "sm_data st = []"
  have upd: "st\<lparr>sm_data := []\<rparr> = st" using idle by (cases st) simp
  show "fold (anth_line onChunk) (frame_lines e) st = anth_data onChunk (snd e) st"
    using idle by (simp add: upd Let_def frame_lines_def anth_line_def HasPrefix_def data_of_def TrimPrefix_def anth_flush_def anth_data_def)
  show "sm_data (anth_data onChunk (snd e) st) = []" using idle by (simp add: anth_data_def split: option.split)
qed

lemma envelope_keys [simp]:
  "ToLower ''index'' = ''index''" "ToLower ''message'' = ''message''" "ToLower ''content_block'' = ''content_block''"
  "ToLower ''delta'' = ''delta''" "ToLower ''usage'' = ''usage''" "ToLower ''partial_json'' = ''partial_json''"
  "ToLower ''stop_reason'' = ''stop_reason''" "ToLower ''input_tokens'' = ''input_tokens''"
  "ToLower ''output_tokens'' = ''output_tokens''" "ToLower ''input'' = ''input''" "ToLower ''tool_use_id'' = ''tool_use_id''"
  by code_simp+

lemma anth_data_event:
  assumes "members_ok (snd e)"
  shows "anth_data onChunk (snd (event_frame e)) st =
    (case dec_sseEnvelope zero_sseEnvelope (JObj (snd e)) of None \<Rightarrow> st | Some evt \<Rightarrow> anth_event onChunk evt st)"
proof -
  have "json_parse (json_print (JObj (snd e))) = Some (JObj (snd e))"
    using json_roundtrip [of "JObj (snd e)"] assms by (simp del: json_print.simps)
  then have "unmarshal zero_sseEnvelope dec_sseEnvelope (json_print (JObj (snd e))) = dec_sseEnvelope zero_sseEnvelope (JObj (snd e))"
    by (simp add: unmarshal_def)
  moreover have "json_print (JObj (snd e)) \<noteq> []" "json_print (JObj (snd e)) \<noteq> ''[DONE]''" by simp_all
  ultimately show ?thesis by (simp add: anth_data_def event_frame_def)
qed

lemmas dec_event = dec_sseEnvelope_def zero_sseEnvelope_def ev_def ev_delta_def same_key_def dec_delta_def zero_delta_def
  dec_block_def zero_block_def dec_int_in_def dec_start_message_def dec_raw_text_def

lemma dec_start: "int64 n \<Longrightarrow> dec_sseEnvelope zero_sseEnvelope
    (JObj (snd (ev ''message_start'' (fld ''message'' (JObj (fld ''usage'' (JObj (fld ''input_tokens'' (JNum (Itoa n)))))))))) =
  Some (zero_sseEnvelope\<lparr>se_Type := ''message_start'', se_Message := Some n\<rparr>)"
  by (simp add: dec_event)

lemma dec_text_start: "int64 i \<Longrightarrow> dec_sseEnvelope zero_sseEnvelope (JObj (snd (ev ''content_block_start'' (fld ''index'' (JNum (Itoa i)) @
    fld ''content_block'' (JObj (fld ''type'' (JStr ''text'') @ fld ''text'' (JStr []))))))) =
  Some (zero_sseEnvelope\<lparr>se_Type := ''content_block_start'', se_Index := i,
    se_ContentBlock := Some (zero_block\<lparr>cb_Type := ''text''\<rparr>)\<rparr>)"
  by (simp add: dec_event)

lemma dec_use_start: "int64 i \<Longrightarrow> dec_sseEnvelope zero_sseEnvelope (JObj (snd (ev ''content_block_start'' (fld ''index'' (JNum (Itoa i)) @
    fld ''content_block'' (JObj (fld ''type'' (JStr ''tool_use'') @ fld ''id'' (JStr d) @ fld ''name'' (JStr n) @
      fld ''input'' (JObj []))))))) =
  Some (zero_sseEnvelope\<lparr>se_Type := ''content_block_start'', se_Index := i,
    se_ContentBlock := Some (zero_block\<lparr>cb_Type := ''tool_use'', cb_ID := d, cb_Name := n, cb_Input := ''{}''\<rparr>)\<rparr>)"
  by (simp add: dec_event)

lemma dec_text_delta: "int64 i \<Longrightarrow> dec_sseEnvelope zero_sseEnvelope (JObj (snd (ev_delta i ''text_delta'' ''text'' s))) =
  Some (zero_sseEnvelope\<lparr>se_Type := ''content_block_delta'', se_Index := i,
    se_Delta := Some (zero_delta\<lparr>sd_Type := ''text_delta'', sd_Text := s\<rparr>)\<rparr>)"
  by (simp add: dec_event)

lemma dec_json_delta: "int64 i \<Longrightarrow> dec_sseEnvelope zero_sseEnvelope (JObj (snd (ev_delta i ''input_json_delta'' ''partial_json'' s))) =
  Some (zero_sseEnvelope\<lparr>se_Type := ''content_block_delta'', se_Index := i,
    se_Delta := Some (zero_delta\<lparr>sd_Type := ''input_json_delta'', sd_PartialJSON := s\<rparr>)\<rparr>)"
  by (simp add: dec_event)

lemma dec_stop: "int64 i \<Longrightarrow> dec_sseEnvelope zero_sseEnvelope (JObj (snd (ev ''content_block_stop'' (fld ''index'' (JNum (Itoa i)))))) =
  Some (zero_sseEnvelope\<lparr>se_Type := ''content_block_stop'', se_Index := i\<rparr>)"
  by (simp add: dec_event)

lemma dec_end: "int64 n \<Longrightarrow> dec_sseEnvelope zero_sseEnvelope (JObj (snd (ev ''message_delta''
    (fld ''delta'' (JObj (fld ''stop_reason'' (JStr s))) @ fld ''usage'' (JObj (fld ''output_tokens'' (JNum (Itoa n)))))))) =
  Some (zero_sseEnvelope\<lparr>se_Type := ''message_delta'', se_Delta := Some (zero_delta\<lparr>sd_StopReason := s\<rparr>), se_Usage := Some n\<rparr>)"
  by (simp add: dec_event)

lemma dec_message_stop: "dec_sseEnvelope zero_sseEnvelope (JObj (snd (ev ''message_stop'' []))) =
  Some (zero_sseEnvelope\<lparr>se_Type := ''message_stop''\<rparr>)"
  by (simp add: dec_event)

subsection \<open>Blocks\<close>

lemma event_keys_ok [simp]:
  "utf8_Valid ''index''" "utf8_Valid ''message''" "utf8_Valid ''content_block''" "utf8_Valid ''delta''" "utf8_Valid ''usage''"
  "utf8_Valid ''partial_json''" "utf8_Valid ''stop_reason''" "utf8_Valid ''input_tokens''" "utf8_Valid ''output_tokens''"
  "utf8_Valid ''input''" "utf8_Valid ''text_delta''" "utf8_Valid ''input_json_delta''" "utf8_Valid ''content_block_start''"
  "utf8_Valid ''content_block_delta''" "utf8_Valid ''content_block_stop''" "utf8_Valid ''message_start''"
  "utf8_Valid ''message_delta''" "utf8_Valid ''message_stop''" "utf8_Valid ''tool_use''" "utf8_Valid []"
  by code_simp+

text \<open>One event of the answer, decoded.\<close>

definition one_event :: "(string \<Rightarrow> 'w \<Rightarrow> 'w) \<Rightarrow> string \<times> (string \<times> json) list \<Rightarrow> 'w anth_stream \<Rightarrow> 'w anth_stream" where
  "one_event onChunk e st = anth_data onChunk (snd (event_frame e)) st"

lemma one_event_dec:
  "members_ok (snd e) \<Longrightarrow> dec_sseEnvelope zero_sseEnvelope (JObj (snd e)) = Some evt \<Longrightarrow> one_event onChunk e st = anth_event onChunk evt st"
  by (simp add: one_event_def anth_data_event)

lemma text_deltas:
  "int64 i \<Longrightarrow> list_all utf8_Valid ps \<Longrightarrow>
   fold (one_event f) (map (ev_delta i ''text_delta'' ''text'') ps) st =
     st\<lparr>sm_text := sm_text st @ concat ps, sm_world := fold f (filter (\<lambda>s. s \<noteq> []) ps) (sm_world st)\<rparr>"
proof (induction ps arbitrary: st)
  case (Cons s ps)
  have "one_event f (ev_delta i ''text_delta'' ''text'' s) st =
      (if s = [] then st else st\<lparr>sm_text := sm_text st @ s, sm_world := f s (sm_world st)\<rparr>)"
    using Cons.prems by (subst one_event_dec [OF _ dec_text_delta])
      (simp_all add: ev_delta_def ev_def anth_event_def zero_sseEnvelope_def zero_delta_def)
  then show ?case using Cons by simp
qed simp

lemma json_deltas:
  "int64 i \<Longrightarrow> list_all utf8_Valid ps \<Longrightarrow> sm_blocks st = [(i, tb)] \<Longrightarrow>
   fold (one_event f) (map (ev_delta i ''input_json_delta'' ''partial_json'') ps) st =
     st\<lparr>sm_blocks := [(i, tb\<lparr>tb_args := tb_args tb @ concat ps\<rparr>)]\<rparr>"
proof (induction ps arbitrary: st tb)
  case (Cons s ps)
  have "one_event f (ev_delta i ''input_json_delta'' ''partial_json'' s) st =
      st\<lparr>sm_blocks := [(i, tb\<lparr>tb_args := tb_args tb @ s\<rparr>)]\<rparr>"
    using Cons.prems by (subst one_event_dec [OF _ dec_json_delta])
      (simp_all add: ev_delta_def ev_def anth_event_def zero_sseEnvelope_def zero_delta_def)
  then show ?case using Cons by simp
qed simp

text \<open>What a block adds to the text, to the calls and to the world.\<close>

definition add_block :: "(string \<Rightarrow> 'w \<Rightarrow> 'w) \<Rightarrow> piece_block \<Rightarrow> 'w anth_stream \<Rightarrow> 'w anth_stream" where
  "add_block f b st =
     (case b of
        Text ps \<Rightarrow> st\<lparr>sm_text := sm_text st @ concat ps, sm_world := fold f (text_pieces b) (sm_world st)\<rparr>
      | Use d n ps \<Rightarrow> st\<lparr>sm_calls := sm_calls st @ [\<lparr>tc_ID = d, tc_Name = n, tc_Args = cb_Input (whole_block b)\<rparr>]\<rparr>)"

lemma block_added:
  assumes "int64 i" "piece_ok b" "sm_blocks st = []"
  shows "fold (one_event f) (block_events i b) st = add_block f b st"
proof (cases b)
  case (Text ps)
  have start: "one_event f (hd (block_events i b)) st = st"
    using assms Text by (simp, subst one_event_dec [OF _ dec_text_start])
      (simp_all add: ev_def anth_event_def zero_sseEnvelope_def zero_block_def)
  have stop: "one_event f (ev ''content_block_stop'' (fld ''index'' (JNum (Itoa i)))) st' = st'" if "sm_blocks st' = []" for st'
    using assms that by (subst one_event_dec [OF _ dec_stop]) (simp_all add: ev_def anth_event_def zero_sseEnvelope_def)
  show ?thesis using assms Text start by (simp add: text_deltas stop add_block_def)
next
  case (Use d n ps)
  have start: "one_event f (hd (block_events i b)) st = st\<lparr>sm_blocks := [(i, \<lparr>tb_id = d, tb_name = n, tb_args = []\<rparr>)]\<rparr>"
    using assms Use by (simp, subst one_event_dec [OF _ dec_use_start])
      (simp_all add: ev_def anth_event_def zero_sseEnvelope_def zero_block_def)
  have stop: "one_event f (ev ''content_block_stop'' (fld ''index'' (JNum (Itoa i)))) st' =
      st'\<lparr>sm_blocks := [], sm_calls := sm_calls st' @ [\<lparr>tc_ID = tb_id tb, tc_Name = tb_name tb,
        tc_Args = (if tb_args tb = [] then ''{}'' else tb_args tb)\<rparr>]\<rparr>" if "sm_blocks st' = [(i, tb)]" for st' tb
    using assms that by (subst one_event_dec [OF _ dec_stop]) (simp_all add: ev_def anth_event_def zero_sseEnvelope_def)
  show ?thesis using assms Use start
    by (cases st) (simp add: json_deltas stop add_block_def zero_block_def)
qed

lemma add_block_fields [simp]: "sm_blocks (add_block f b st) = sm_blocks st" "sm_usage (add_block f b st) = sm_usage st"
  "sm_finish (add_block f b st) = sm_finish st" "sm_data (add_block f b st) = sm_data st"
  by (simp_all add: add_block_def split: piece_block.split)

lemma blocks_added:
  "0 \<le> i \<Longrightarrow> i + int (length bs) < 2 ^ 63 \<Longrightarrow> list_all piece_ok bs \<Longrightarrow> sm_blocks st = [] \<Longrightarrow>
   fold (one_event f) (blocks_events i bs) st = fold (add_block f) bs st"
proof (induction bs arbitrary: i st)
  case (Cons b bs)
  then show ?case by (simp add: block_added int64_def)
qed simp

lemma add_blocks:
  "sm_text (fold (add_block f) bs st) = sm_text st @ rs_Content (anth_toChatResponse (zero_messagesResponse\<lparr>mp_Content := map whole_block bs\<rparr>))"
  "sm_calls (fold (add_block f) bs st) = sm_calls st @ rs_ToolCalls (anth_toChatResponse (zero_messagesResponse\<lparr>mp_Content := map whole_block bs\<rparr>))"
  "sm_world (fold (add_block f) bs st) = fold f (concat (map text_pieces bs)) (sm_world st)"
  "sm_usage (fold (add_block f) bs st) = sm_usage st" "sm_finish (fold (add_block f) bs st) = sm_finish st"
  "sm_data (fold (add_block f) bs st) = sm_data st" "sm_blocks (fold (add_block f) bs st) = sm_blocks st"
  by (induction bs arbitrary: st)
    (simp_all add: anth_toChatResponse_def zero_messagesResponse_def add_block_def zero_block_def split: piece_block.split)

lemma anth_start_fields:
  "sm_text (anth_start w) = []" "sm_blocks (anth_start w) = []" "sm_calls (anth_start w) = []" "sm_data (anth_start w) = []"
  "sm_usage (anth_start w) = zero_Usage" "sm_finish (anth_start w) = FinishStop" "sm_world (anth_start w) = w"
  by (simp_all add: anth_start_def)

definition answer_response :: "int \<Rightarrow> piece_block list \<Rightarrow> string \<Rightarrow> int \<Rightarrow> messagesResponse" where
  "answer_response n_in bs stop n_out =
     \<lparr>mp_StopReason = stop, mp_Content = map whole_block bs, mp_InputTokens = n_in, mp_OutputTokens = n_out\<rparr>"

definition is_use :: "piece_block \<Rightarrow> bool" where
  "is_use b \<longleftrightarrow> (case b of Use _ _ _ \<Rightarrow> True | _ \<Rightarrow> False)"

definition answer_frames :: "int \<Rightarrow> piece_block list \<Rightarrow> string \<Rightarrow> int \<Rightarrow> (string \<times> string) list" where
  "answer_frames n_in bs stop n_out = map event_frame (answer_events n_in bs stop n_out)"

lemma fold_event_frames:
  "fold (\<lambda>e. anth_data f (snd e)) (map event_frame es) st = fold (one_event f) es st"
  by (induction es arbitrary: st) (simp_all add: one_event_def)

lemma calls_of_uses:
  "rs_ToolCalls (anth_toChatResponse (zero_messagesResponse\<lparr>mp_Content := map whole_block bs\<rparr>)) = [] \<longleftrightarrow> \<not> list_ex is_use bs"
  by (induction bs)
    (simp_all add: anth_toChatResponse_def zero_messagesResponse_def zero_block_def is_use_def split: piece_block.split)

lemma answer_folded:
  assumes "int64 n_in" "int64 n_out" "int (length bs) < 2 ^ 63" "list_all piece_ok bs" "utf8_Valid stop" "stop \<noteq> []"
  shows "fold (one_event f) (answer_events n_in bs stop n_out) (anth_start w) =
    (fold (add_block f) bs (anth_start w\<lparr>sm_usage := \<lparr>us_InputTokens = n_in, us_OutputTokens = 0\<rparr>\<rparr>))
      \<lparr>sm_usage := \<lparr>us_InputTokens = n_in, us_OutputTokens = n_out\<rparr>, sm_finish := anth_toFinishReason stop\<rparr>"
proof -
  let ?st = "anth_start w\<lparr>sm_usage := \<lparr>us_InputTokens = n_in, us_OutputTokens = 0\<rparr>\<rparr>"
  have start: "one_event f (ev ''message_start'' (fld ''message'' (JObj (fld ''usage'' (JObj (fld ''input_tokens'' (JNum (Itoa n_in)))))))) (anth_start w) = ?st"
    using assms by (subst one_event_dec [OF _ dec_start])
      (simp_all add: ev_def anth_event_def zero_sseEnvelope_def anth_start_def zero_Usage_def)
  have blocks: "fold (one_event f) (blocks_events 0 bs) ?st = fold (add_block f) bs ?st"
    by (rule blocks_added) (use assms in \<open>simp_all add: anth_start_def\<close>)
  have last: "one_event f (ev ''message_delta'' (fld ''delta'' (JObj (fld ''stop_reason'' (JStr stop))) @
      fld ''usage'' (JObj (fld ''output_tokens'' (JNum (Itoa n_out)))))) st =
      st\<lparr>sm_usage := (sm_usage st)\<lparr>us_OutputTokens := n_out\<rparr>, sm_finish := anth_toFinishReason stop\<rparr>" for st
    using assms by (subst one_event_dec [OF _ dec_end])
      (simp_all add: ev_def anth_event_def zero_sseEnvelope_def zero_delta_def Let_def)
  have fin: "one_event f (ev ''message_stop'' []) st = st" for st
    by (subst one_event_dec [OF _ dec_message_stop]) (simp_all add: ev_def anth_event_def zero_sseEnvelope_def)
  show ?thesis by (simp add: answer_events_def start blocks last fin add_blocks)
qed


text \<open>Two pieces of text and a call whose arguments come in two pieces.\<close>

definition demo_pieces :: "piece_block list" where
  "demo_pieces = [Text [''Let '', ''me see''], Use ''t1'' ''calculator'' [''{'', ''}'']]"


end
