(* ===== verification/OpenAI.thy ===== *)
theory OpenAI
  imports Codec Http_Client Sse
begin

text \<open>
  \<^verbatim>\<open>pkg/providers/openai_compat\<close>: the request, the whole response and the stream of an OpenAI-compatible chat
  completion service. Unlike the other streams, this one is read line by line, without frames; the pieces of a
  tool call are put together by their index.
\<close>

section \<open>The request\<close>

definition oai_defaultBaseURL :: string where
  "oai_defaultBaseURL = ''https://api.openai.com/v1''"

definition oai_defaultModel :: string where
  "oai_defaultModel = ''gpt-5-nano''"

record oai_Provider =
  op_APIKey :: string
  op_BaseURL :: string

definition oai_baseURL :: "oai_Provider \<Rightarrow> string" where
  "oai_baseURL p = (if op_BaseURL p \<noteq> [] then op_BaseURL p else oai_defaultBaseURL)"

record chatToolCallFunc =
  cf_Name :: string
  cf_Arguments :: string

record chatToolCall =
  ct_ID :: string
  ct_Type :: string
  ct_Function :: chatToolCallFunc

record chatMessage =
  cm_Role :: string
  cm_Content :: string
  cm_Name :: string
  cm_ToolCallID :: string
  cm_ToolCalls :: "chatToolCall list"

record chatToolFunc =
  tf_Name :: string
  tf_Description :: string
  tf_Parameters :: string

record chatTool =
  cl_Type :: string
  cl_Function :: chatToolFunc

record chatRequest =
  cr_Model :: string
  cr_Messages :: "chatMessage list"
  cr_Stream :: bool
  cr_MaxCompletionTokens :: int
  cr_Temperature :: "rat option"
  cr_Tools :: "chatTool list"
  cr_ToolChoice :: string

definition zero_chatMessage :: chatMessage where
  "zero_chatMessage = \<lparr>cm_Role = [], cm_Content = [], cm_Name = [], cm_ToolCallID = [], cm_ToolCalls = []\<rparr>"

definition buildAssistantMessage :: "Message \<Rightarrow> chatMessage" where
  "buildAssistantMessage m =
     (let cm = zero_chatMessage\<lparr>cm_Role := ''assistant'', cm_Content := m_Content m\<rparr>
      in if m_ToolCalls m = [] then cm
         else cm\<lparr>cm_ToolCalls := map (\<lambda>tc. \<lparr>ct_ID = tc_ID tc, ct_Type = ''function'',
                  ct_Function = \<lparr>cf_Name = tc_Name tc, cf_Arguments = tc_Args tc\<rparr>\<rparr>) (m_ToolCalls m)\<rparr>)"

definition oai_buildMessages :: "ChatRequest \<Rightarrow> chatMessage list" where
  "oai_buildMessages req =
     (if rq_SystemPrompt req \<noteq> [] then [zero_chatMessage\<lparr>cm_Role := ''system'', cm_Content := rq_SystemPrompt req\<rparr>] else []) @
     map (\<lambda>m.
       if m_Role m = RoleSystem then zero_chatMessage\<lparr>cm_Role := ''system'', cm_Content := m_Content m\<rparr>
       else if m_Role m = RoleTool
       then zero_chatMessage\<lparr>cm_Role := ''tool'', cm_Content := m_Content m, cm_ToolCallID := m_ToolCallID m\<rparr>
       else if m_Role m = RoleAssistant then buildAssistantMessage m
       else zero_chatMessage\<lparr>cm_Role := ''user'', cm_Content := m_Content m, cm_Name := m_Name m\<rparr>) (rq_Messages req)"

definition oai_buildTools :: "ToolDefinition list \<Rightarrow> chatTool list" where
  "oai_buildTools = map (\<lambda>d. \<lparr>cl_Type = ''function'', cl_Function =
     \<lparr>tf_Name = td_Name d, tf_Description = td_Description d, tf_Parameters = td_InputSchema d\<rparr>\<rparr>)"

definition oai_buildRequest :: "ChatRequest \<Rightarrow> bool \<Rightarrow> chatRequest" where
  "oai_buildRequest req stream =
     \<lparr>cr_Model = (if rq_Model req = [] then oai_defaultModel else rq_Model req),
      cr_Messages = oai_buildMessages req,
      cr_Stream = stream,
      cr_MaxCompletionTokens = (if rq_MaxTokens req > 0 then rq_MaxTokens req else 0),
      cr_Temperature = (if rq_Temperature req \<noteq> 0 then Some (rq_Temperature req) else None),
      cr_Tools = (if rq_Tools req \<noteq> [] then oai_buildTools (rq_Tools req) else []),
      cr_ToolChoice = (if rq_Tools req \<noteq> [] then ''auto'' else [])\<rparr>"

subsection \<open>Its JSON\<close>

definition enc_chatToolCall :: "chatToolCall \<Rightarrow> json" where
  "enc_chatToolCall t = JObj (fld ''id'' (JStr (ct_ID t)) @ fld ''type'' (JStr (ct_Type t)) @
     fld ''function'' (JObj (fld ''name'' (JStr (cf_Name (ct_Function t))) @
       fld ''arguments'' (JStr (cf_Arguments (ct_Function t))))))"

definition enc_chatMessage :: "chatMessage \<Rightarrow> json" where
  "enc_chatMessage m = JObj (
     fld ''role'' (JStr (cm_Role m)) @
     opt_fld ''content'' (cm_Content m \<noteq> []) (JStr (cm_Content m)) @
     opt_fld ''name'' (cm_Name m \<noteq> []) (JStr (cm_Name m)) @
     opt_fld ''tool_call_id'' (cm_ToolCallID m \<noteq> []) (JStr (cm_ToolCallID m)) @
     opt_fld ''tool_calls'' (cm_ToolCalls m \<noteq> []) (slice_json enc_chatToolCall (cm_ToolCalls m)))"

definition enc_chatTool :: "chatTool \<Rightarrow> json" where
  "enc_chatTool t = JObj (fld ''type'' (JStr (cl_Type t)) @
     fld ''function'' (JObj (fld ''name'' (JStr (tf_Name (cl_Function t))) @
       fld ''description'' (JStr (tf_Description (cl_Function t))) @
       fld ''parameters'' (raw_json (tf_Parameters (cl_Function t))))))"

definition enc_chatRequest :: "(rat \<Rightarrow> string) \<Rightarrow> chatRequest \<Rightarrow> json" where
  "enc_chatRequest float_text r = JObj (
     fld ''model'' (JStr (cr_Model r)) @
     fld ''messages'' (JArr (map enc_chatMessage (cr_Messages r))) @
     fld ''stream'' (JBool (cr_Stream r)) @
     opt_fld ''max_completion_tokens'' (cr_MaxCompletionTokens r \<noteq> 0) (JNum (Itoa (cr_MaxCompletionTokens r))) @
     (case cr_Temperature r of None \<Rightarrow> [] | Some t \<Rightarrow> fld ''temperature'' (JNum (float_text t))) @
     opt_fld ''tools'' (cr_Tools r \<noteq> []) (slice_json enc_chatTool (cr_Tools r)) @
     opt_fld ''tool_choice'' (cr_ToolChoice r \<noteq> []) (JStr (cr_ToolChoice r)))"

definition oai_newRequest ::
  "oai_Provider \<Rightarrow> 'w http_client \<Rightarrow> (rat \<Rightarrow> string) \<Rightarrow> chatRequest \<Rightarrow> http_request result" where
  "oai_newRequest p hc float_text body =
     (if \<not> list_all (\<lambda>t. enc_raw (tf_Parameters (cl_Function t)) \<noteq> None) (cr_Tools body)
      then Inl (Wrap ''openai_compat: encode request: '' (Err ''json: error'') [])
      else (let url = oai_baseURL p @ ''/chat/completions'' in
        case hc_NewRequest hc ''POST'' url of
          Some e \<Rightarrow> Inl (Wrap ''openai_compat: build request: '' e [])
        | None \<Rightarrow> Inr \<lparr>hq_Method = ''POST'', hq_URL = url,
            hq_Header = [(''Content-Type'', ''application/json''), (''Authorization'', ''Bearer '' @ op_APIKey p)],
            hq_Body = json_print (enc_chatRequest float_text body)\<rparr>))"

section \<open>The whole response\<close>

record oai_call =
  oc_Index :: int
  oc_ID :: string
  oc_Name :: string
  oc_Arguments :: string

record oai_choice =
  ch_Content :: string
  ch_ToolCalls :: "oai_call list"
  ch_FinishReason :: string

record chatResponse =
  cp_Choices :: "oai_choice list"
  cp_PromptTokens :: int
  cp_CompletionTokens :: int

definition zero_call :: oai_call where
  "zero_call = \<lparr>oc_Index = 0, oc_ID = [], oc_Name = [], oc_Arguments = []\<rparr>"

definition zero_choice :: oai_choice where
  "zero_choice = \<lparr>ch_Content = [], ch_ToolCalls = [], ch_FinishReason = []\<rparr>"

definition zero_chatResponse :: chatResponse where
  "zero_chatResponse = \<lparr>cp_Choices = [], cp_PromptTokens = 0, cp_CompletionTokens = 0\<rparr>"

definition dec_function :: "(string \<times> string) decoder" where
  "dec_function cur j =
     Option.bind (members j) (\<lambda>ms.
     Option.bind (dec_field ''name'' dec_string (fst cur) ms) (\<lambda>n.
     Option.bind (dec_field ''arguments'' dec_string (snd cur) ms) (\<lambda>a. Some (n, a))))"

text \<open>The tool calls of a whole message have no index; those of a stream do.\<close>

definition dec_call :: "bool \<Rightarrow> oai_call decoder" where
  "dec_call indexed cur j =
     Option.bind (members j) (\<lambda>ms.
     Option.bind (if indexed then dec_field ''index'' dec_int (oc_Index cur) ms else Some 0) (\<lambda>ix.
     Option.bind (dec_field ''id'' dec_string (oc_ID cur) ms) (\<lambda>i.
     Option.bind (dec_field ''function'' dec_function (oc_Name cur, oc_Arguments cur) ms) (\<lambda>f.
       Some \<lparr>oc_Index = ix, oc_ID = i, oc_Name = fst f, oc_Arguments = snd f\<rparr>))))"

definition dec_choice_message :: "(string \<times> oai_call list) decoder" where
  "dec_choice_message cur j =
     Option.bind (members j) (\<lambda>ms.
     Option.bind (dec_field ''content'' dec_string (fst cur) ms) (\<lambda>c.
     Option.bind (dec_field ''tool_calls'' (dec_list zero_call (dec_call False)) (snd cur) ms) (\<lambda>t. Some (c, t))))"

definition dec_choice :: "oai_choice decoder" where
  "dec_choice cur j =
     Option.bind (members j) (\<lambda>ms.
     Option.bind (dec_field ''message'' dec_choice_message (ch_Content cur, ch_ToolCalls cur) ms) (\<lambda>m.
     Option.bind (dec_field ''finish_reason'' dec_string (ch_FinishReason cur) ms) (\<lambda>f.
       Some \<lparr>ch_Content = fst m, ch_ToolCalls = snd m, ch_FinishReason = f\<rparr>)))"

definition dec_usage :: "(int \<times> int) decoder" where
  "dec_usage cur j =
     Option.bind (members j) (\<lambda>ms.
     Option.bind (dec_field ''prompt_tokens'' dec_int (fst cur) ms) (\<lambda>p.
     Option.bind (dec_field ''completion_tokens'' dec_int (snd cur) ms) (\<lambda>c. Some (p, c))))"

definition dec_chatResponse :: "chatResponse decoder" where
  "dec_chatResponse cur j =
     Option.bind (members j) (\<lambda>ms.
     Option.bind (dec_field ''choices'' (dec_list zero_choice dec_choice) (cp_Choices cur) ms) (\<lambda>c.
     Option.bind (dec_field ''usage'' dec_usage (cp_PromptTokens cur, cp_CompletionTokens cur) ms) (\<lambda>u.
       Some \<lparr>cp_Choices = c, cp_PromptTokens = fst u, cp_CompletionTokens = snd u\<rparr>)))"

definition oai_toFinishReason :: "string \<Rightarrow> FinishReason" where
  "oai_toFinishReason s =
     (if s = ''tool_calls'' then FinishToolUse else if s = ''length'' then FinishLength else FinishStop)"

definition toRawArgs :: "string \<Rightarrow> string" where
  "toRawArgs s = (if s = [] then ''{}'' else s)"

text \<open>Without a choice the finish reason keeps its zero value.\<close>

definition oai_toChatResponse :: "chatResponse \<Rightarrow> ChatResponse" where
  "oai_toChatResponse r =
     (let usage = \<lparr>us_InputTokens = cp_PromptTokens r, us_OutputTokens = cp_CompletionTokens r\<rparr>
      in case cp_Choices r of
           [] \<Rightarrow> \<lparr>rs_Content = [], rs_ToolCalls = [], rs_Usage = usage, rs_FinishReason = FinishUnset\<rparr>
         | choice # _ \<Rightarrow>
             \<lparr>rs_Content = ch_Content choice,
              rs_ToolCalls = map (\<lambda>tc. \<lparr>tc_ID = oc_ID tc, tc_Name = oc_Name tc, tc_Args = toRawArgs (oc_Arguments tc)\<rparr>)
                (ch_ToolCalls choice),
              rs_Usage = usage, rs_FinishReason = oai_toFinishReason (ch_FinishReason choice)\<rparr>)"

definition oai_Chat ::
  "oai_Provider \<Rightarrow> 'w http_client \<Rightarrow> (rat \<Rightarrow> string) \<Rightarrow> ChatRequest \<Rightarrow> 'w \<Rightarrow> ChatResponse result \<times> 'w" where
  "oai_Chat p hc float_text req w =
     (case oai_newRequest p hc float_text (oai_buildRequest req False) of
        Inl e \<Rightarrow> (Inl e, w)
      | Inr httpReq \<Rightarrow>
          (case hc_Do hc httpReq w of
             (Inl e, w1) \<Rightarrow> (Inl (Wrap ''openai_compat: request failed: '' e []), w1)
           | (Inr resp, w1) \<Rightarrow>
               (case ReadAll resp of
                  Inl e \<Rightarrow> Inl (Wrap ''openai_compat: read response: '' e [])
                | Inr data \<Rightarrow>
                    (if hp_Status resp \<ge> 300
                     then Inl (Err (''openai_compat: status '' @ Itoa (hp_Status resp) @ '': '' @ data))
                     else (case unmarshal zero_chatResponse dec_chatResponse data of
                             None \<Rightarrow> Inl (Wrap ''openai_compat: decode response: '' (Err ''json: error'') [])
                           | Some parsed \<Rightarrow> Inr (oai_toChatResponse parsed))), w1)))"

section \<open>The stream\<close>

record stream_choice =
  sc_Content :: "string option"
  sc_ToolCalls :: "oai_call list"
  sc_FinishReason :: "string option"

record chatStreamChunk =
  sk_Choices :: "stream_choice list"
  sk_Usage :: "(int \<times> int) option"

definition zero_stream_choice :: stream_choice where
  "zero_stream_choice = \<lparr>sc_Content = None, sc_ToolCalls = [], sc_FinishReason = None\<rparr>"

definition zero_chunk :: chatStreamChunk where
  "zero_chunk = \<lparr>sk_Choices = [], sk_Usage = None\<rparr>"

definition dec_choice_delta :: "(string option \<times> oai_call list) decoder" where
  "dec_choice_delta cur j =
     Option.bind (members j) (\<lambda>ms.
     Option.bind (dec_field ''content'' (dec_ptr [] dec_string) (fst cur) ms) (\<lambda>c.
     Option.bind (dec_field ''tool_calls'' (dec_list zero_call (dec_call True)) (snd cur) ms) (\<lambda>t. Some (c, t))))"

definition dec_stream_choice :: "stream_choice decoder" where
  "dec_stream_choice cur j =
     Option.bind (members j) (\<lambda>ms.
     Option.bind (dec_field ''delta'' dec_choice_delta (sc_Content cur, sc_ToolCalls cur) ms) (\<lambda>d.
     Option.bind (dec_field ''finish_reason'' (dec_ptr [] dec_string) (sc_FinishReason cur) ms) (\<lambda>f.
       Some \<lparr>sc_Content = fst d, sc_ToolCalls = snd d, sc_FinishReason = f\<rparr>)))"

definition dec_chunk :: "chatStreamChunk decoder" where
  "dec_chunk cur j =
     Option.bind (members j) (\<lambda>ms.
     Option.bind (dec_field ''choices'' (dec_list zero_stream_choice dec_stream_choice) (sk_Choices cur) ms) (\<lambda>c.
     Option.bind (dec_field ''usage'' (dec_ptr (0, 0) dec_usage) (sk_Usage cur) ms) (\<lambda>u.
       Some \<lparr>sk_Choices = c, sk_Usage = u\<rparr>)))"

record toolCallAccumulator =
  ta_id :: string
  ta_name :: string
  ta_args :: string

record 'w oai_stream =
  os_text :: string
  os_calls :: "(int \<times> toolCallAccumulator) list"
  os_order :: "int list"
  os_finish :: FinishReason
  os_usage :: Usage
  os_world :: 'w

definition oai_start :: "'w \<Rightarrow> 'w oai_stream" where
  "oai_start w = \<lparr>os_text = [], os_calls = [], os_order = [], os_finish = FinishStop, os_usage = zero_Usage, os_world = w\<rparr>"

definition add_call :: "oai_call \<Rightarrow> 'w oai_stream \<Rightarrow> 'w oai_stream" where
  "add_call tc st =
     (let found = map_of (os_calls st) (oc_Index tc);
          acc = (case found of None \<Rightarrow> \<lparr>ta_id = [], ta_name = [], ta_args = []\<rparr> | Some acc \<Rightarrow> acc);
          acc' = \<lparr>ta_id = (if oc_ID tc \<noteq> [] then oc_ID tc else ta_id acc),
                  ta_name = (if oc_Name tc \<noteq> [] then oc_Name tc else ta_name acc),
                  ta_args = ta_args acc @ oc_Arguments tc\<rparr>
      in st\<lparr>os_calls := put (oc_Index tc) acc' (os_calls st),
            os_order := (if found = None then os_order st @ [oc_Index tc] else os_order st)\<rparr>)"

definition add_choice :: "(string \<Rightarrow> 'w \<Rightarrow> 'w) \<Rightarrow> stream_choice \<Rightarrow> 'w oai_stream \<Rightarrow> 'w oai_stream" where
  "add_choice onChunk choice st =
     (let st1 = (case sc_Content choice of None \<Rightarrow> st
            | Some c \<Rightarrow> (if c \<noteq> [] then st\<lparr>os_text := os_text st @ c, os_world := onChunk c (os_world st)\<rparr> else st));
          st2 = fold add_call (sc_ToolCalls choice) st1
      in case sc_FinishReason choice of None \<Rightarrow> st2 | Some f \<Rightarrow> st2\<lparr>os_finish := oai_toFinishReason f\<rparr>)"

definition add_chunk :: "(string \<Rightarrow> 'w \<Rightarrow> 'w) \<Rightarrow> chatStreamChunk \<Rightarrow> 'w oai_stream \<Rightarrow> 'w oai_stream" where
  "add_chunk onChunk chunk st =
     fold (add_choice onChunk) (sk_Choices chunk)
       (case sk_Usage chunk of None \<Rightarrow> st
        | Some u \<Rightarrow> st\<lparr>os_usage := \<lparr>us_InputTokens = fst u, us_OutputTokens = snd u\<rparr>\<rparr>)"

text \<open>One pass of the loop: the chunk a line carries, if it carries one.\<close>

definition chunk_of :: "string \<Rightarrow> chatStreamChunk option" where
  "chunk_of line =
     (if \<not> HasPrefix line ''data:'' then None
      else (let data = TrimSpace (TrimPrefix line ''data:'') in
        if data = [] \<or> data = ''[DONE]'' then None else unmarshal zero_chunk dec_chunk data))"

definition oai_line :: "(string \<Rightarrow> 'w \<Rightarrow> 'w) \<Rightarrow> string \<Rightarrow> 'w oai_stream \<Rightarrow> 'w oai_stream" where
  "oai_line onChunk line st = (case chunk_of line of None \<Rightarrow> st | Some chunk \<Rightarrow> add_chunk onChunk chunk st)"

definition oai_buffer :: nat where
  "oai_buffer = 1024 * 1024"

definition oai_response :: "'w oai_stream \<Rightarrow> ChatResponse" where
  "oai_response st =
     \<lparr>rs_Content = os_text st,
      rs_ToolCalls = map (\<lambda>idx. case map_of (os_calls st) idx of
          Some acc \<Rightarrow> \<lparr>tc_ID = ta_id acc, tc_Name = ta_name acc, tc_Args = toRawArgs (ta_args acc)\<rparr>
        | None \<Rightarrow> zero_ToolCall) (os_order st),
      rs_Usage = os_usage st, rs_FinishReason = os_finish st\<rparr>"

definition oai_readStream ::
  "(string \<Rightarrow> 'w \<Rightarrow> 'w) \<Rightarrow> string \<Rightarrow> go_error option \<Rightarrow> 'w \<Rightarrow> ChatResponse result \<times> 'w" where
  "oai_readStream onChunk body read_err w =
     (let (lines, too_long) = scan_lines oai_buffer body;
          st = fold (oai_line onChunk) lines (oai_start w)
      in (case scanner_Err too_long read_err of
            Some e \<Rightarrow> Inl (Wrap ''openai_compat: read stream: '' e [])
          | None \<Rightarrow> Inr (oai_response st),
          os_world st))"

definition oai_ChatStream ::
  "oai_Provider \<Rightarrow> 'w http_client \<Rightarrow> (rat \<Rightarrow> string) \<Rightarrow> ChatRequest \<Rightarrow> (string \<Rightarrow> 'w \<Rightarrow> 'w) \<Rightarrow> 'w \<Rightarrow>
   ChatResponse result \<times> 'w" where
  "oai_ChatStream p hc float_text req onChunk w =
     (case oai_newRequest p hc float_text (oai_buildRequest req True) of
        Inl e \<Rightarrow> (Inl e, w)
      | Inr httpReq \<Rightarrow>
          (case hc_Do hc (httpReq\<lparr>hq_Header := hq_Header httpReq @ [(''Accept'', ''text/event-stream'')]\<rparr>) w of
             (Inl e, w1) \<Rightarrow> (Inl (Wrap ''openai_compat: request failed: '' e []), w1)
           | (Inr resp, w1) \<Rightarrow>
               (if hp_Status resp \<ge> 300
                then (Inl (Err (''openai_compat: status '' @ Itoa (hp_Status resp) @ '': '' @ hp_Body resp)), w1)
                else oai_readStream onChunk (hp_Body resp) (hp_ReadErr resp) w1)))"

definition openai_provider :: "oai_Provider \<Rightarrow> 'w http_client \<Rightarrow> (rat \<Rightarrow> string) \<Rightarrow> 'w LLMProvider" where
  "openai_provider p hc float_text =
     \<lparr>Chat = oai_Chat p hc float_text, ChatStream = oai_ChatStream p hc float_text\<rparr>"

section \<open>What the stream adds up to\<close>

text \<open>All the chunks of the lines, their choices, and the pieces those hold.\<close>

definition chunks_of :: "string list \<Rightarrow> chatStreamChunk list" where
  "chunks_of lines = List.map_filter chunk_of lines"

definition choices_of :: "string list \<Rightarrow> stream_choice list" where
  "choices_of lines = concat (map sk_Choices (chunks_of lines))"

definition text_piece :: "stream_choice \<Rightarrow> string option" where
  "text_piece c = (case sc_Content c of Some s \<Rightarrow> if s \<noteq> [] then Some s else None | None \<Rightarrow> None)"

definition text_chunks :: "stream_choice list \<Rightarrow> string list" where
  "text_chunks cs = List.map_filter text_piece cs"

definition call_pieces :: "stream_choice list \<Rightarrow> oai_call list" where
  "call_pieces cs = concat (map sc_ToolCalls cs)"

text \<open>The last of the values given, the first occurrences of the indices, and the call assembled for an index.\<close>

definition last_of :: "'a \<Rightarrow> 'a list \<Rightarrow> 'a" where
  "last_of z xs = (if xs = [] then z else last xs)"

definition last_given :: "string list \<Rightarrow> string" where
  "last_given ss = last_of [] (filter (\<lambda>s. s \<noteq> []) ss)"

definition firsts :: "'a list \<Rightarrow> 'a list" where
  "firsts xs = rev (remdups (rev xs))"

definition assembled :: "oai_call list \<Rightarrow> int \<Rightarrow> toolCallAccumulator" where
  "assembled tcs i =
     (let mine = filter (\<lambda>tc. oc_Index tc = i) tcs
      in \<lparr>ta_id = last_given (map oc_ID mine), ta_name = last_given (map oc_Name mine), ta_args = concat (map oc_Arguments mine)\<rparr>)"

definition streamed_response :: "string list \<Rightarrow> ChatResponse" where
  "streamed_response lines =
     (let cs = choices_of lines; tcs = call_pieces cs
      in \<lparr>rs_Content = concat (text_chunks cs),
          rs_ToolCalls = map (\<lambda>i. \<lparr>tc_ID = ta_id (assembled tcs i), tc_Name = ta_name (assembled tcs i),
             tc_Args = toRawArgs (ta_args (assembled tcs i))\<rparr>) (firsts (map oc_Index tcs)),
          rs_Usage = last_of zero_Usage (map (\<lambda>u. \<lparr>us_InputTokens = fst u, us_OutputTokens = snd u\<rparr>)
             (List.map_filter sk_Usage (chunks_of lines))),
          rs_FinishReason = last_of FinishStop (map oai_toFinishReason (List.map_filter sc_FinishReason cs))\<rparr>)"

lemma last_of_snoc [simp]: "last_of z (xs @ [x]) = x" "last_of z [] = z"
  by (simp_all add: last_of_def)

lemma last_given_snoc: "last_given (ss @ [s]) = (if s \<noteq> [] then s else last_given ss)"
  by (simp add: last_given_def)

lemma firsts_snoc: "firsts (xs @ [x]) = (if x \<in> set xs then firsts xs else firsts xs @ [x])"
  by (simp add: firsts_def)

lemma set_firsts [simp]: "set (firsts xs) = set xs"
  by (simp add: firsts_def)

lemma map_filter_snoc: "List.map_filter f (xs @ [x]) = List.map_filter f xs @ (case f x of None \<Rightarrow> [] | Some y \<Rightarrow> [y])"
  by (induction xs) (auto simp: List.map_filter_simps split: option.split)

lemma map_filter_Nil [simp]: "List.map_filter f [] = []"
  by (simp add: List.map_filter_simps)

definition calls_inv :: "oai_call list \<Rightarrow> 'w oai_stream \<Rightarrow> bool" where
  "calls_inv tcs st \<longleftrightarrow> os_order st = firsts (map oc_Index tcs) \<and>
     (\<forall>i. map_of (os_calls st) i = (if i \<in> oc_Index ` set tcs then Some (assembled tcs i) else None))"

lemma assembled_snoc:
  "assembled (tcs @ [tc]) i =
    (if oc_Index tc = i
     then \<lparr>ta_id = (if oc_ID tc \<noteq> [] then oc_ID tc else ta_id (assembled tcs i)),
           ta_name = (if oc_Name tc \<noteq> [] then oc_Name tc else ta_name (assembled tcs i)),
           ta_args = ta_args (assembled tcs i) @ oc_Arguments tc\<rparr>
     else assembled tcs i)"
  by (simp add: assembled_def last_given_snoc Let_def)

lemma assembled_none: "i \<notin> oc_Index ` set tcs \<Longrightarrow> assembled tcs i = \<lparr>ta_id = [], ta_name = [], ta_args = []\<rparr>"
proof -
  assume "i \<notin> oc_Index ` set tcs"
  then have "filter (\<lambda>tc. oc_Index tc = i) tcs = []" by (auto simp: filter_empty_conv)
  then show ?thesis by (simp add: assembled_def last_given_def)
qed

lemma calls_inv_add: "calls_inv tcs st \<Longrightarrow> calls_inv (tcs @ [tc]) (add_call tc st)"
  by (auto simp: calls_inv_def add_call_def Let_def assembled_snoc firsts_snoc assembled_none)

lemma calls_inv_adds: "calls_inv tcs st \<Longrightarrow> calls_inv (tcs @ new) (fold add_call new st)"
proof (induction new arbitrary: tcs st)
  case (Cons tc new)
  then show ?case using Cons.IH [OF calls_inv_add [OF Cons.prems]] by simp
qed simp

lemma add_calls_fields [simp]:
  "os_text (fold add_call tcs st) = os_text st" "os_finish (fold add_call tcs st) = os_finish st"
  "os_usage (fold add_call tcs st) = os_usage st" "os_world (fold add_call tcs st) = os_world st"
  by (induction tcs arbitrary: st) (simp_all add: add_call_def Let_def)

text \<open>What the loop has built from the choices so far.\<close>

definition choices_inv :: "(string \<Rightarrow> 'w \<Rightarrow> 'w) \<Rightarrow> 'w \<Rightarrow> stream_choice list \<Rightarrow> 'w oai_stream \<Rightarrow> bool" where
  "choices_inv f w cs st \<longleftrightarrow> os_text st = concat (text_chunks cs) \<and> os_world st = fold f (text_chunks cs) w \<and>
     os_finish st = last_of FinishStop (map oai_toFinishReason (List.map_filter sc_FinishReason cs)) \<and>
     calls_inv (call_pieces cs) st"

lemma calls_inv_same: "os_calls st = os_calls st' \<Longrightarrow> os_order st = os_order st' \<Longrightarrow> calls_inv tcs st = calls_inv tcs st'"
  by (simp add: calls_inv_def)

lemma choices_inv_add:
  assumes "choices_inv f w cs st"
  shows "choices_inv f w (cs @ [c]) (add_choice f c st)" "os_usage (add_choice f c st) = os_usage st"
proof -
  define st1 where "st1 = (case text_piece c of None \<Rightarrow> st | Some s \<Rightarrow> st\<lparr>os_text := os_text st @ s, os_world := f s (os_world st)\<rparr>)"
  have add: "add_choice f c st =
      (case sc_FinishReason c of None \<Rightarrow> fold add_call (sc_ToolCalls c) st1
       | Some r \<Rightarrow> (fold add_call (sc_ToolCalls c) st1)\<lparr>os_finish := oai_toFinishReason r\<rparr>)"
    by (simp add: add_choice_def st1_def text_piece_def Let_def split: option.split)
  have "calls_inv (call_pieces cs) st1"
    using assms calls_inv_same [of st1 st] by (simp add: choices_inv_def st1_def split: option.split)
  from calls_inv_adds [OF this] have calls: "calls_inv (call_pieces (cs @ [c])) (fold add_call (sc_ToolCalls c) st1)"
    by (simp add: call_pieces_def)
  have fin: "calls_inv (call_pieces (cs @ [c])) (add_choice f c st)"
    using calls by (simp add: add calls_inv_def split: option.split)
  show "os_usage (add_choice f c st) = os_usage st" by (simp add: add st1_def split: option.split)
  show "choices_inv f w (cs @ [c]) (add_choice f c st)"
    using assms fin
    by (simp add: choices_inv_def) (simp add: add st1_def text_chunks_def map_filter_snoc split: option.split)
qed

lemma choices_inv_adds:
  "choices_inv f w cs st \<Longrightarrow> choices_inv f w (cs @ new) (fold (add_choice f) new st) \<and>
     os_usage (fold (add_choice f) new st) = os_usage st"
proof (induction new arbitrary: cs st)
  case (Cons c new)
  then show ?case using Cons.IH [OF choices_inv_add(1) [OF Cons.prems, of c]] choices_inv_add(2) [OF Cons.prems, of c] by simp
qed simp

lemma choices_inv_usage: "choices_inv f w cs (st\<lparr>os_usage := u\<rparr>) = choices_inv f w cs st"
  by (simp add: choices_inv_def calls_inv_def)

lemma lines_read:
  "choices_inv f w (choices_of lines) (fold (oai_line f) lines (oai_start w)) \<and>
   os_usage (fold (oai_line f) lines (oai_start w)) =
     last_of zero_Usage (map (\<lambda>u. \<lparr>us_InputTokens = fst u, us_OutputTokens = snd u\<rparr>) (List.map_filter sk_Usage (chunks_of lines)))"
proof (induction lines rule: rev_induct)
  case Nil
  show ?case
    by (simp add: choices_inv_def calls_inv_def choices_of_def chunks_of_def text_chunks_def call_pieces_def oai_start_def firsts_def)
next
  case (snoc line lines)
  let ?st = "fold (oai_line f) lines (oai_start w)"
  show ?case
  proof (cases "chunk_of line")
    case None
    then show ?thesis using snoc by (simp add: choices_of_def chunks_of_def map_filter_snoc oai_line_def [of f line])
  next
    case (Some k)
    let ?u = "case sk_Usage k of None \<Rightarrow> ?st | Some u \<Rightarrow> ?st\<lparr>os_usage := \<lparr>us_InputTokens = fst u, us_OutputTokens = snd u\<rparr>\<rparr>"
    have "choices_inv f w (choices_of lines) ?u" using snoc by (simp add: choices_inv_usage split: option.split)
    from choices_inv_adds [OF this, of "sk_Choices k"] show ?thesis
      using snoc Some
      by (simp add: choices_of_def chunks_of_def map_filter_snoc oai_line_def [of f line] add_chunk_def split: option.split)
  qed
qed

text \<open>
  C20: Whatever a service sends, the response is put together as the protocol says: the content is the texts of all
  choices in order, and \<open>onChunk\<close> was called with exactly those; there is one tool call for each index, in the
  order of their first appearance, with the last id and name given for it and the arguments pieced together in
  order; lines that carry no chunk change nothing; a line too long for the buffer, or a failing read, is an error.
\<close>

theorem oai_stream_assembles:
  "oai_readStream onChunk body read_err w =
    (let (lines, too_long) = scan_lines oai_buffer body
     in (case scanner_Err too_long read_err of
           Some e \<Rightarrow> Inl (Wrap ''openai_compat: read stream: '' e [])
         | None \<Rightarrow> Inr (streamed_response lines),
         fold onChunk (text_chunks (choices_of lines)) w))"
proof -
  obtain lines too_long where s: "scan_lines oai_buffer body = (lines, too_long)" by fastforce
  let ?st = "fold (oai_line onChunk) lines (oai_start w)"
  have inv: "choices_inv onChunk w (choices_of lines) ?st" and u: "os_usage ?st = rs_Usage (streamed_response lines)"
    using lines_read [of onChunk w lines] by (simp_all add: streamed_response_def Let_def)
  have calls: "map_of (os_calls ?st) i = Some (assembled (call_pieces (choices_of lines)) i)" if "i \<in> set (os_order ?st)" for i
    using inv that by (auto simp: choices_inv_def calls_inv_def)
  have "rs_ToolCalls (oai_response ?st) = rs_ToolCalls (streamed_response lines)"
    using inv calls by (simp add: oai_response_def streamed_response_def Let_def choices_inv_def calls_inv_def)
  then have "oai_response ?st = streamed_response lines"
    using inv u by (intro ChatResponse.equality) (simp_all add: oai_response_def streamed_response_def choices_inv_def Let_def)
  then show ?thesis using s inv by (simp add: oai_readStream_def choices_inv_def split: option.split)
qed

end
