(* ===== verification/Codex.thy ===== *)
theory Codex
  imports Codex_Auth Sse
begin

text \<open>
  The Codex provider: the request to the Responses API (\<^verbatim>\<open>request.go\<close>), the reading of its stream
  (\<^verbatim>\<open>stream.go\<close>), and the token it sends, refreshed when it is close to its end (\<^verbatim>\<open>codex.go\<close>).
\<close>

section \<open>request.go\<close>

record responsesTool =
  rt_Type :: string
  rt_Name :: string
  rt_Description :: string
  rt_Parameters :: string

text \<open>An input item is a \<open>map[string]any\<close>; \<open>json.Marshal\<close> writes its keys in order.\<close>

record responsesRequest =
  rp_Model :: string
  rp_Input :: "(string \<times> json) list list"
  rp_Instructions :: string
  rp_Store :: bool
  rp_Stream :: bool
  rp_Tools :: "responsesTool list"

definition buildInputItems :: "Message list \<Rightarrow> (string \<times> json) list list" where
  "buildInputItems messages =
     concat (map (\<lambda>m.
       if m_Role m = RoleUser
       then [[(''type'', JStr ''message''), (''role'', JStr ''user''), (''content'', JStr (m_Content m))]]
       else if m_Role m = RoleAssistant
       then (if m_Content m \<noteq> []
             then [[(''type'', JStr ''message''), (''role'', JStr ''assistant''), (''content'', JStr (m_Content m))]] else []) @
            map (\<lambda>tc. [(''type'', JStr ''function_call''), (''call_id'', JStr (tc_ID tc)), (''name'', JStr (tc_Name tc)),
                       (''arguments'', JStr (if tc_Args tc = [] then ''{}'' else tc_Args tc))]) (m_ToolCalls m)
       else if m_Role m = RoleTool
       then [[(''type'', JStr ''function_call_output''), (''call_id'', JStr (m_ToolCallID m)), (''output'', JStr (m_Content m))]]
       else []) messages)"

definition buildResponsesRequest :: "ChatRequest \<Rightarrow> responsesRequest" where
  "buildResponsesRequest req =
     \<lparr>rp_Model = rq_Model req, rp_Input = buildInputItems (rq_Messages req), rp_Instructions = rq_SystemPrompt req,
      rp_Store = False, rp_Stream = True,
      rp_Tools = map (\<lambda>t. \<lparr>rt_Type = ''function'', rt_Name = td_Name t, rt_Description = td_Description t,
        rt_Parameters = td_InputSchema t\<rparr>) (rq_Tools req)\<rparr>"

definition enc_responsesTool :: "responsesTool \<Rightarrow> json" where
  "enc_responsesTool t = JObj (fld ''type'' (JStr (rt_Type t)) @ fld ''name'' (JStr (rt_Name t)) @
     fld ''description'' (JStr (rt_Description t)) @ fld ''parameters'' (raw_json (rt_Parameters t)))"

definition enc_responsesRequest :: "responsesRequest \<Rightarrow> json" where
  "enc_responsesRequest r = JObj (
     fld ''model'' (JStr (rp_Model r)) @
     fld ''input'' (slice_json (\<lambda>i. JObj (sort_key fst i)) (rp_Input r)) @
     opt_fld ''instructions'' (rp_Instructions r \<noteq> []) (JStr (rp_Instructions r)) @
     fld ''store'' (JBool (rp_Store r)) @
     fld ''stream'' (JBool (rp_Stream r)) @
     opt_fld ''tools'' (rp_Tools r \<noteq> []) (slice_json enc_responsesTool (rp_Tools r)))"

section \<open>stream.go\<close>

definition maxSSELineBytes :: nat where
  "maxSSELineBytes = 10 * 2 ^ 20"

record codexUsage =
  cu_InputTokens :: int
  cu_OutputTokens :: int

record codexResponse =
  cx_Usage :: "codexUsage option"
  cx_Error :: string

record codexSSEEnvelope =
  ce_Type :: string
  ce_Item :: string
  ce_Response :: "codexResponse option"
  ce_Error :: string

definition zero_codexUsage :: codexUsage where
  "zero_codexUsage = \<lparr>cu_InputTokens = 0, cu_OutputTokens = 0\<rparr>"

definition zero_codexResponse :: codexResponse where
  "zero_codexResponse = \<lparr>cx_Usage = None, cx_Error = []\<rparr>"

definition zero_codexSSEEnvelope :: codexSSEEnvelope where
  "zero_codexSSEEnvelope = \<lparr>ce_Type = [], ce_Item = [], ce_Response = None, ce_Error = []\<rparr>"

definition dec_codexUsage :: "codexUsage decoder" where
  "dec_codexUsage cur j =
     Option.bind (members j) (\<lambda>ms.
     Option.bind (dec_field ''input_tokens'' dec_int (cu_InputTokens cur) ms) (\<lambda>i.
     Option.bind (dec_field ''output_tokens'' dec_int (cu_OutputTokens cur) ms) (\<lambda>out.
       Some \<lparr>cu_InputTokens = i, cu_OutputTokens = out\<rparr>)))"

definition dec_codexResponse :: "codexResponse decoder" where
  "dec_codexResponse cur j =
     Option.bind (members j) (\<lambda>ms.
     Option.bind (dec_field ''usage'' (dec_ptr zero_codexUsage dec_codexUsage) (cx_Usage cur) ms) (\<lambda>u.
     Option.bind (dec_field ''error'' dec_raw_text (cx_Error cur) ms) (\<lambda>e.
       Some \<lparr>cx_Usage = u, cx_Error = e\<rparr>)))"

definition dec_codexSSEEnvelope :: "codexSSEEnvelope decoder" where
  "dec_codexSSEEnvelope cur j =
     Option.bind (members j) (\<lambda>ms.
     Option.bind (dec_field ''type'' dec_string (ce_Type cur) ms) (\<lambda>ty.
     Option.bind (dec_field ''item'' dec_raw_text (ce_Item cur) ms) (\<lambda>i.
     Option.bind (dec_field ''response'' (dec_ptr zero_codexResponse dec_codexResponse) (ce_Response cur) ms) (\<lambda>r.
     Option.bind (dec_field ''error'' dec_raw_text (ce_Error cur) ms) (\<lambda>e.
       Some \<lparr>ce_Type = ty, ce_Item = i, ce_Response = r, ce_Error = e\<rparr>)))))"

text \<open>\<open>json.Unmarshal(raw, &s)\<close> into a string: \<open>null\<close> leaves it empty.\<close>

definition codexErrorText :: "codexSSEEnvelope \<Rightarrow> string" where
  "codexErrorText evt =
     (let raw = (case ce_Response evt of Some r \<Rightarrow> if cx_Error r \<noteq> [] then cx_Error r else ce_Error evt
                 | None \<Rightarrow> ce_Error evt)
      in if raw = [] then ''unknown error''
         else (case unmarshal [] dec_string raw of
                 Some s \<Rightarrow> if s \<noteq> [] then s else raw
               | None \<Rightarrow> raw))"

record codexOutputItem =
  ci_Type :: string
  ci_Content :: string
  ci_Text :: string
  ci_Name :: string
  ci_Arguments :: string
  ci_CallID :: string
  ci_ID :: string

definition zero_codexOutputItem :: codexOutputItem where
  "zero_codexOutputItem = \<lparr>ci_Type = [], ci_Content = [], ci_Text = [], ci_Name = [], ci_Arguments = [], ci_CallID = [],
     ci_ID = []\<rparr>"

definition dec_codexOutputItem :: "codexOutputItem decoder" where
  "dec_codexOutputItem cur j =
     Option.bind (members j) (\<lambda>ms.
     Option.bind (dec_field ''type'' dec_string (ci_Type cur) ms) (\<lambda>ty.
     Option.bind (dec_field ''content'' dec_raw_text (ci_Content cur) ms) (\<lambda>c.
     Option.bind (dec_field ''text'' dec_string (ci_Text cur) ms) (\<lambda>tx.
     Option.bind (dec_field ''name'' dec_string (ci_Name cur) ms) (\<lambda>n.
     Option.bind (dec_field ''arguments'' dec_string (ci_Arguments cur) ms) (\<lambda>a.
     Option.bind (dec_field ''call_id'' dec_string (ci_CallID cur) ms) (\<lambda>ca.
     Option.bind (dec_field ''id'' dec_string (ci_ID cur) ms) (\<lambda>i.
       Some \<lparr>ci_Type = ty, ci_Content = c, ci_Text = tx, ci_Name = n, ci_Arguments = a, ci_CallID = ca, ci_ID = i\<rparr>))))))))"

definition dec_codexContentPart :: "(string \<times> string) decoder" where
  "dec_codexContentPart cur j =
     Option.bind (members j) (\<lambda>ms.
     Option.bind (dec_field ''type'' dec_string (fst cur) ms) (\<lambda>ty.
     Option.bind (dec_field ''text'' dec_string (snd cur) ms) (\<lambda>tx. Some (ty, tx))))"

definition extractMessageText :: "codexOutputItem \<Rightarrow> string" where
  "extractMessageText item =
     (if ci_Content item = [] then ci_Text item
      else (case unmarshal [] dec_string (ci_Content item) of
              Some s \<Rightarrow> s
            | None \<Rightarrow>
                (case unmarshal [] (dec_list ([], []) dec_codexContentPart) (ci_Content item) of
                   Some parts \<Rightarrow> concat (map snd (filter (\<lambda>p. fst p = ''text'' \<or> fst p = ''output_text'') parts))
                 | None \<Rightarrow> [])))"

definition item_call :: "codexOutputItem \<Rightarrow> ToolCall" where
  "item_call item =
     \<lparr>tc_ID = (if ci_CallID item = [] then ci_ID item else ci_CallID item), tc_Name = ci_Name item,
      tc_Args = (if ci_Arguments item = [] then ''{}'' else ci_Arguments item)\<rparr>"

definition codex_buildChatResponse :: "string list \<Rightarrow> codexUsage option \<Rightarrow> ChatResponse" where
  "codex_buildChatResponse rawItems usage =
     (let items = List.map_filter (unmarshal zero_codexOutputItem dec_codexOutputItem) rawItems;
          textParts = map extractMessageText (filter (\<lambda>i. ci_Type i = ''message'') items);
          toolCalls = map item_call (filter (\<lambda>i. ci_Type i = ''function_call'') items)
      in \<lparr>rs_Content = Join textParts [], rs_ToolCalls = toolCalls,
          rs_Usage = (case usage of None \<Rightarrow> zero_Usage
            | Some u \<Rightarrow> \<lparr>us_InputTokens = cu_InputTokens u, us_OutputTokens = cu_OutputTokens u\<rparr>),
          rs_FinishReason = (if toolCalls \<noteq> [] then FinishToolUse else FinishStop)\<rparr>)"

text \<open>The variables of \<open>readCodexStream\<close>.\<close>

record codex_stream =
  xs_event :: string
  xs_items :: "string list"
  xs_usage :: "codexUsage option"
  xs_err :: "go_error option"
  xs_data :: "string list"

definition codex_start :: codex_stream where
  "codex_start = \<lparr>xs_event = [], xs_items = [], xs_usage = None, xs_err = None, xs_data = []\<rparr>"

definition codex_event :: "string \<Rightarrow> string \<Rightarrow> codexSSEEnvelope \<Rightarrow> codex_stream \<Rightarrow> codex_stream" where
  "codex_event eventType data evt st =
     (if eventType = ''response.output_item.done''
      then st\<lparr>xs_items := xs_items st @ [if ce_Item evt \<noteq> [] then ce_Item evt else data]\<rparr>
      else if eventType = ''response.completed''
      then (case ce_Response evt of None \<Rightarrow> st | Some r \<Rightarrow> st\<lparr>xs_usage := cx_Usage r\<rparr>)
      else if eventType = ''response.failed'' \<or> eventType = ''response.incomplete''
      then st\<lparr>xs_err := Some (Err (''codex: stream error ('' @ eventType @ ''): '' @ codexErrorText evt))\<rparr>
      else st)"

definition codex_flush :: "codex_stream \<Rightarrow> codex_stream" where
  "codex_flush st =
     (if xs_data st = [] then st
      else (let data = Join (xs_data st) nl; st1 = st\<lparr>xs_data := []\<rparr> in
        if data = [] \<or> data = ''[DONE]'' then st1\<lparr>xs_event := []\<rparr>
        else (case unmarshal zero_codexSSEEnvelope dec_codexSSEEnvelope data of
                None \<Rightarrow> st1\<lparr>xs_event := []\<rparr>
              | Some evt \<Rightarrow>
                  (codex_event (if xs_event st1 = [] then ce_Type evt else xs_event st1) data evt st1)\<lparr>xs_event := []\<rparr>)))"

definition codex_line :: "string \<Rightarrow> codex_stream \<Rightarrow> codex_stream" where
  "codex_line line st =
     (if line = [] then codex_flush st
      else if HasPrefix line ''event:'' then st\<lparr>xs_event := event_of line\<rparr>
      else if HasPrefix line ''data:'' then st\<lparr>xs_data := xs_data st @ [data_of line]\<rparr>
      else st)"

definition readCodexStream :: "string \<Rightarrow> go_error option \<Rightarrow> ChatResponse result" where
  "readCodexStream body read_err =
     (let (lines, too_long) = scan_lines maxSSELineBytes body;
          st = codex_flush (fold codex_line lines codex_start)
      in case scanner_Err too_long read_err of
           Some e \<Rightarrow> Inl (Wrap ''codex: read stream: '' e [])
         | None \<Rightarrow>
             (case xs_err st of
                Some e \<Rightarrow> Inl e
              | None \<Rightarrow> if xs_items st = [] then Inl (Err ''codex: stream ended with no output'')
                        else Inr (codex_buildChatResponse (xs_items st) (xs_usage st))))"

section \<open>codex.go\<close>

definition originator :: string where
  "originator = ''codex_cli_rs''"

definition openaiBeta :: string where
  "openaiBeta = ''responses=experimental''"

definition responsesURL :: string where
  "responsesURL = ''https://chatgpt.com/backend-api/codex/responses''"

text \<open>The mutex keeps one call at a time here, so it is one step of the world.\<close>

definition ensureValidToken ::
  "path \<Rightarrow> 'w session_world_scheme http_client \<Rightarrow> 'w session_world_scheme \<Rightarrow>
   (string \<times> string) result \<times> 'w session_world_scheme" where
  "ensureValidToken p hc w =
     (case token_Load p (sw_fs w) of
        Inl e \<Rightarrow> (Inl e, w)
      | Inr None \<Rightarrow> (Inl (Err ''codex: not linked (run `souz-agent -codex-login` first)''), w)
      | Inr (Some tok) \<Rightarrow>
          (if to_AccessToken tok = [] then (Inl (Err ''codex: not linked (run `souz-agent -codex-login` first)''), w)
           else (let (now, w1) = time_Now w in
             if unix_time now < to_ExpiresAt tok - refreshBufferSecs \<or> to_RefreshToken tok = []
             then (Inr (to_AccessToken tok, to_AccountID tok), w1)
             else (case RefreshAccessToken hc (to_RefreshToken tok) w1 of
                     (Inl e, w2) \<Rightarrow> (Inr (to_AccessToken tok, to_AccountID tok), w2)
                   | (Inr fresh, w2) \<Rightarrow>
                       (let refreshed = fresh\<lparr>to_RefreshToken := (if to_RefreshToken fresh = [] then to_RefreshToken tok else to_RefreshToken fresh),
                                              to_AccountID := (if to_AccountID fresh = [] then to_AccountID tok else to_AccountID fresh)\<rparr>
                        in case save_token p refreshed w2 of
                             (Inl e, w3) \<Rightarrow> (Inl (Wrap ''codex: save refreshed token: '' e []), w3)
                           | (Inr _, w3) \<Rightarrow> (Inr (to_AccessToken refreshed, to_AccountID refreshed), w3))))))"

definition codex_ChatStream ::
  "path \<Rightarrow> 'w session_world_scheme http_client \<Rightarrow> ChatRequest \<Rightarrow>
   (string \<Rightarrow> 'w session_world_scheme \<Rightarrow> 'w session_world_scheme) \<Rightarrow> 'w session_world_scheme \<Rightarrow>
   ChatResponse result \<times> 'w session_world_scheme" where
  "codex_ChatStream p hc req onChunk w =
     (case ensureValidToken p hc w of
        (Inl e, w1) \<Rightarrow> (Inl e, w1)
      | (Inr (token, accountID), w1) \<Rightarrow>
          (let body = buildResponsesRequest req in
           if \<not> list_all (\<lambda>t. enc_raw (rt_Parameters t) \<noteq> None) (rp_Tools body)
           then (Inl (Wrap ''codex: encode request: '' (Err ''json: error'') []), w1)
           else (case hc_NewRequest hc ''POST'' responsesURL of
              Some e \<Rightarrow> (Inl (Wrap ''codex: build request: '' e []), w1)
            | None \<Rightarrow>
                (case hc_Do hc \<lparr>hq_Method = ''POST'', hq_URL = responsesURL,
                     hq_Header = [(''Content-Type'', ''application/json''), (''Authorization'', ''Bearer '' @ token),
                       (''Chatgpt-Account-Id'', accountID), (''originator'', originator), (''OpenAI-Beta'', openaiBeta)],
                     hq_Body = json_print (enc_responsesRequest body)\<rparr> w1 of
                   (Inl e, w2) \<Rightarrow> (Inl (Wrap ''codex: request failed: '' e []), w2)
                 | (Inr resp, w2) \<Rightarrow>
                     (if hp_Status resp \<ge> 300
                      then (Inl (Err (''codex: status '' @ Itoa (hp_Status resp) @ '': '' @ hp_Body resp)), w2)
                      else (readCodexStream (hp_Body resp) (hp_ReadErr resp), w2))))))"

definition codex_Chat ::
  "path \<Rightarrow> 'w session_world_scheme http_client \<Rightarrow> ChatRequest \<Rightarrow> 'w session_world_scheme \<Rightarrow>
   ChatResponse result \<times> 'w session_world_scheme" where
  "codex_Chat p hc req = codex_ChatStream p hc req (\<lambda>_ w. w)"

definition codex_provider :: "path \<Rightarrow> 'w session_world_scheme http_client \<Rightarrow> 'w session_world_scheme LLMProvider" where
  "codex_provider p hc = \<lparr>Chat = codex_Chat p hc, ChatStream = codex_ChatStream p hc\<rparr>"

section \<open>The token that is kept\<close>

text \<open>The directory of the token is real, and the token is a file, when there is one.\<close>

definition token_store_ok :: "path \<Rightarrow> string \<Rightarrow> fs \<Rightarrow> bool" where
  "token_store_ok d c fs \<longleftrightarrow> is_dir fs d \<and> plain c \<and> \<not> is_temp c \<and> file_or_free fs (d @ [c])"

definition token_ok :: "Token \<Rightarrow> bool" where
  "token_ok t \<longleftrightarrow> utf8_Valid (to_AccessToken t) \<and> utf8_Valid (to_RefreshToken t) \<and> utf8_Valid (to_AccountID t) \<and>
     int64 (to_ExpiresAt t)"

lemma token_keys [simp]:
  "ToLower ''accessToken'' = ''accesstoken''" "ToLower ''refreshToken'' = ''refreshtoken''" "ToLower ''accountId'' = ''accountid''"
  "ToLower ''expiresAt'' = ''expiresat''" "utf8_Valid ''accessToken''" "utf8_Valid ''refreshToken''" "utf8_Valid ''accountId''"
  "utf8_Valid ''expiresAt''"
  by code_simp+

lemma unmarshal_token: "token_ok t \<Longrightarrow> unmarshal zero_Token dec_Token (MarshalIndent (enc_Token t)) = Some t"
proof -
  assume ok: "token_ok t"
  then have "json_ok (enc_Token t)" by (simp add: token_ok_def enc_Token_def)
  moreover have "dec_Token zero_Token (enc_Token t) = Some t"
    using ok by (simp add: token_ok_def dec_Token_def enc_Token_def zero_Token_def same_key_def)
  ultimately show ?thesis by (simp add: unmarshal_def)
qed

lemma token_Load_same: "token_store_ok d c fs \<Longrightarrow> node fs' = node fs \<Longrightarrow> token_Load (d @ [c]) fs' = token_Load (d @ [c]) fs"
proof -
  assume ok: "token_store_ok d c fs" and same: "node fs' = node fs"
  then have d: "is_dir fs d" "is_dir fs' d" using is_dir_same_nodes [of fs d fs'] by (simp_all add: token_store_ok_def)
  have "file_or_free fs (d @ [c])" "plain c" using ok by (simp_all add: token_store_ok_def)
  then show ?thesis using d same by (elim file_or_free_cases) (simp_all add: token_Load_def path_error_def)
qed

lemma save_token_cases:
  assumes ok: "token_store_ok d c (sw_fs w)" and s: "save_token (d @ [c]) t w = (r, w')"
  shows "r = Inr () \<and> (token_ok t \<longrightarrow> token_Load (d @ [c]) (sw_fs w') = Inr (Some t)) \<or>
    (\<exists>e. r = Inl e) \<and> token_Load (d @ [c]) (sw_fs w') = token_Load (d @ [c]) (sw_fs w)"
proof -
  let ?fs = "sw_fs w" and ?data = "MarshalIndent (enc_Token t)"
  have d: "is_dir ?fs d" and c: "plain c" "\<not> is_temp c \<or> node ?fs (d @ [c]) \<noteq> None" using ok by (simp_all add: token_store_ok_def)
  obtain r1 fs1 where wr: "writeFileAtomic (sw_faults w (sw_saves w)) (d @ [c]) ?data ?fs = (r1, fs1)" by fastforce
  have run: "sw_fs w' = fs1" "r = Inr () \<longleftrightarrow> r1 = Inr ()" "r \<noteq> Inr () \<longleftrightarrow> (\<exists>e. r = Inl e)"
    using s wr d by (auto simp: save_token_def token_Save_def split: sum.splits)
  from writeFileAtomic_cases(1) [OF d c wr] show ?thesis
  proof
    assume new: "r1 = Inr () \<and> node ?fs (d @ [c]) \<noteq> Some EDir \<and> node fs1 = (node ?fs)(d @ [c] \<mapsto> EFile ?data)"
    then have "node fs1 (take k d) = node ?fs (take k d)" for k using take_neq_snoc [of k d c] by simp
    then have "is_dir fs1 d" using is_dir_same_nodes [OF d] by blast
    then have "os_ReadFile fs1 (d @ [c]) = Inr ?data" using new c(1) by simp
    then show ?thesis using new run unmarshal_token [of t] by (simp add: token_Load_def)
  next
    assume "r1 \<noteq> Inr () \<and> node fs1 = node ?fs"
    then show ?thesis using run token_Load_same [OF ok, of fs1] by simp
  qed
qed

lemma postTokenForm_fs:
  assumes "\<And>q v. sw_fs (snd (hc_Do hc q v)) = sw_fs v" "postTokenForm hc form w = (r, w')"
  shows "sw_fs w' = sw_fs w" and "r = Inr t \<Longrightarrow> to_AccessToken t \<noteq> []"
proof -
  have "sw_fs w1 = sw_fs w" if "hc_Do hc q w = (x, w1)" for q x w1 using assms(1) [of q w] that by simp
  then show "sw_fs w' = sw_fs w"
    using assms(2) by (auto simp: postTokenForm_def time_Now_def Let_def split: option.splits prod.splits sum.splits if_splits)
  show "r = Inr t \<Longrightarrow> to_AccessToken t \<noteq> []"
    using assms(2) by (auto simp: postTokenForm_def time_Now_def Let_def split: option.splits prod.splits sum.splits if_splits)
qed


text \<open>An expired token, a service that is down.\<close>

definition demo_token :: Token where
  "demo_token = \<lparr>to_AccessToken = ''a'', to_RefreshToken = ''r'', to_AccountID = ''i'', to_ExpiresAt = 0\<rparr>"

definition demo_codex_world :: session_world where
  "demo_codex_world = \<lparr>sw_fs = [([''d''], EDir), ([''d'', ''t''], EFile (MarshalIndent (enc_Token demo_token)))],
     sw_clock = \<lambda>_. Time 2026 1 1 0 0 0 0, sw_ticks = 0, sw_random = \<lambda>_. [], sw_draws = 0, sw_faults = \<lambda>_. NoFault, sw_saves = 0\<rparr>"

definition demo_down :: "session_world http_client" where
  "demo_down = \<lparr>hc_NewRequest = \<lambda>_ _. None, hc_Do = \<lambda>_ w. (Inl (Err ''connection refused''), w)\<rparr>"

lemma demo_codex_ok: "token_store_ok [''d''] ''t'' (sw_fs demo_codex_world)"
  "token_Load [''d'', ''t''] (sw_fs demo_codex_world) = Inr (Some demo_token)"
proof -
  have d: "is_dir (sw_fs demo_codex_world) [''d'']" by (simp add: demo_codex_world_def is_dir_step plain_def node_def)
  have n: "node (sw_fs demo_codex_world) ([''d''] @ [''t'']) = Some (EFile (MarshalIndent (enc_Token demo_token)))"
    by (simp add: demo_codex_world_def node_def)
  have c: "plain ''t''" "\<not> is_temp ''t''" by (simp_all add: plain_def is_temp_def)
  have "token_ok demo_token" by (simp add: token_ok_def demo_token_def int64_def) code_simp
  then show "token_Load [''d'', ''t''] (sw_fs demo_codex_world) = Inr (Some demo_token)"
    using os_ReadFile_file [OF d c(1) n] by (simp add: token_Load_def unmarshal_token)
  show "token_store_ok [''d''] ''t'' (sw_fs demo_codex_world)" using d n c by (simp add: token_store_ok_def file_or_free_def)
qed


section \<open>The stream, frame by frame\<close>

definition codex_data :: "string \<times> string \<Rightarrow> codex_stream \<Rightarrow> codex_stream" where
  "codex_data e st =
     (if snd e = [] \<or> snd e = ''[DONE]'' then st
      else (case unmarshal zero_codexSSEEnvelope dec_codexSSEEnvelope (snd e) of
              None \<Rightarrow> st
            | Some evt \<Rightarrow> codex_event (if fst e = [] then ce_Type evt else fst e) (snd e) evt st))"

lemma codex_event_fields [simp]:
  "xs_data (codex_event t d evt st) = xs_data st" "xs_event (codex_event t d evt st) = xs_event st"
  by (simp_all add: codex_event_def split: option.split)

lemma codex_event_other: "codex_event t d evt (st\<lparr>xs_event := x\<rparr>) = (codex_event t d evt st)\<lparr>xs_event := x\<rparr>"
  by (simp add: codex_event_def split: option.split)

interpretation codex: frame_reader maxSSELineBytes codex_line codex_data "\<lambda>st. xs_data st = [] \<and> xs_event st = []"
proof
  fix st :: codex_stream and e
  assume idle: "xs_data st = [] \<and> xs_event st = []" and ok: "frame_ok maxSSELineBytes e"
  have ty: "event_of (''event: '' @ fst e) = fst e" using ok by (simp only: event_line frame_ok_def)
  have reset: "st\<lparr>xs_event := []\<rparr> = st" "st\<lparr>xs_data := []\<rparr> = st" using idle by (cases st; simp)+
  have drop: "st\<lparr>xs_event := x, xs_data := []\<rparr> = st\<lparr>xs_event := x\<rparr>" for x using idle by (cases st) simp
  have resets: "(codex_event t d evt st)\<lparr>xs_event := []\<rparr> = codex_event t d evt st" for t d evt
    using codex_event_other [of t d evt "[]" st] reset(1) by simp
  have 1: "codex_line (''event: '' @ fst e) st = st\<lparr>xs_event := fst e\<rparr>"
    unfolding codex_line_def using event_line(1) ty by simp
  have 2: "codex_line (''data: '' @ snd e) st' = st'\<lparr>xs_data := xs_data st' @ [snd e]\<rparr>" for st'
    by (simp add: codex_line_def HasPrefix_def data_of_def TrimPrefix_def)
  have 3: "codex_line [] st' = codex_flush st'" for st' by (simp add: codex_line_def)
  have "fold codex_line (frame_lines e) st = codex_flush (st\<lparr>xs_event := fst e, xs_data := [snd e]\<rparr>)"
    using 1 2 3 idle by (simp only: frame_lines_def fold.simps comp_def id_def) simp
  also have "\<dots> = codex_data e st"
    using reset resets codex_event_other [of _ _ _ _ st]
    by (simp add: codex_flush_def codex_data_def Let_def drop split: option.split)
  finally show "fold codex_line (frame_lines e) st = codex_data e st" .
  show "xs_data (codex_data e st) = [] \<and> xs_event (codex_data e st) = []"
    using idle by (simp add: codex_data_def split: option.split)
qed

text \<open>A stream of whole frames is read as the frames are handled one after the other.\<close>

lemma readCodexStream_frames:
  assumes "list_all (frame_ok maxSSELineBytes) es"
  defines "st \<equiv> fold codex_data es codex_start"
  shows "readCodexStream (concat (map frame_text es)) None =
    (case xs_err st of Some e \<Rightarrow> Inl e
     | None \<Rightarrow> if xs_items st = [] then Inl (Err ''codex: stream ended with no output'')
               else Inr (codex_buildChatResponse (xs_items st) (xs_usage st)))"
proof -
  have idle: "xs_data codex_start = [] \<and> xs_event codex_start = []" by (simp add: codex_start_def)
  have "codex_flush st = st" using codex.delivers_idle [OF idle assms(1)] by (simp add: st_def codex_flush_def)
  then show ?thesis
    using codex.reads_frames [OF idle assms(1)]
    by (simp add: readCodexStream_def st_def split_beta Let_def scanner_Err_def split: option.split)
qed

end
