(* ===== verification/Telegram.thy ===== *)
theory Telegram
  imports Inbound Codex_Auth Frames
begin

text \<open>
  The Telegram channel (\<^verbatim>\<open>pkg/channels/telegram\<close>): the Markdown of the model as the HTML of the Bot API
  (\<^verbatim>\<open>markdown.go\<close>), and the long-polling channel (\<^verbatim>\<open>telegram.go\<close>). The HTTP client is a parameter.
\<close>

section \<open>markdown.go\<close>

text \<open>\<open>html.EscapeString\<close>.\<close>

definition escape_char :: "char \<Rightarrow> string" where
  "escape_char c =
     (if c = CHR ''&'' then ''&amp;''
      else if c = CHR 0x27 then ''&#39;''
      else if c = CHR ''<'' then ''&lt;''
      else if c = CHR ''>'' then ''&gt;''
      else if c = CHR 0x22 then ''&#34;''
      else [c])"

definition EscapeString :: "string \<Rightarrow> string" where
  "EscapeString s = concat (map escape_char s)"

text \<open>
  \<open>Regexp.ReplaceAllString\<close>: from left to right, the matches that do not overlap. A matcher gives the replacement
  of the match at the front, and what follows it; no match is empty, so the length of the text is fuel enough.
\<close>

fun subst_fuel :: "(string \<Rightarrow> (string \<times> string) option) \<Rightarrow> nat \<Rightarrow> string \<Rightarrow> string" where
  "subst_fuel m 0 s = s"
| "subst_fuel m (Suc n) [] = []"
| "subst_fuel m (Suc n) (c # s) =
     (case m (c # s) of
        Some (out, rest) \<Rightarrow> out @ subst_fuel m n rest
      | None \<Rightarrow> c # subst_fuel m n s)"

definition replace_matches :: "(string \<Rightarrow> (string \<times> string) option) \<Rightarrow> string \<Rightarrow> string" where
  "replace_matches m s = subst_fuel m (length s) s"

text \<open>The text up to the character \<open>e\<close>, when it is not empty, and what follows \<open>e\<close>.\<close>

definition until :: "char \<Rightarrow> string \<Rightarrow> (string \<times> string) option" where
  "until e s =
     (let t = takeWhile (\<lambda>c. c \<noteq> e) s
      in if t = [] \<or> length t = length s then None else Some (t, drop (length t + 1) s))"

definition mdLink :: "string \<Rightarrow> (string \<times> string) option" where
  "mdLink s =
     (if \<not> HasPrefix s ''['' then None
      else case until (CHR '']'') (drop 1 s) of
             None \<Rightarrow> None
           | Some (txt, r) \<Rightarrow>
               (if \<not> HasPrefix r ''('' then None
                else map_option (\<lambda>(u, rest). (''<a href='' @ [CHR 0x22] @ u @ [CHR 0x22] @ ''>'' @ txt @ ''</a>'', rest))
                       (until (CHR '')'') (drop 1 r))))"

definition mdCode :: "string \<Rightarrow> (string \<times> string) option" where
  "mdCode s =
     (if \<not> HasPrefix s [CHR 0x60] then None
      else map_option (\<lambda>(t, rest). (''<code>'' @ t @ ''</code>'', rest)) (until (CHR 0x60) (drop 1 s)))"

text \<open>\<open>.+?\<close>: at least one character, no line feed, up to the first two stars.\<close>

fun up_to_stars :: "string \<Rightarrow> (string \<times> string) option" where
  "up_to_stars [] = None"
| "up_to_stars (c # s) =
     (if HasPrefix (c # s) ''**'' then Some ([], drop 1 s)
      else if c = char_of (10::nat) then None
      else map_option (\<lambda>(t, rest). (c # t, rest)) (up_to_stars s))"

definition mdBold :: "string \<Rightarrow> (string \<times> string) option" where
  "mdBold s =
     (if \<not> HasPrefix s ''**'' then None
      else case drop 2 s of
             [] \<Rightarrow> None
           | c # r \<Rightarrow>
               (if c = char_of (10::nat) then None
                else map_option (\<lambda>(t, rest). (''<b>'' @ (c # t) @ ''</b>'', rest)) (up_to_stars r)))"

definition mdToHTML :: "string \<Rightarrow> string" where
  "mdToHTML s = replace_matches mdBold (replace_matches mdCode (replace_matches mdLink (EscapeString s)))"

section \<open>telegram.go\<close>

definition tg_defaultBaseURL :: string where
  "tg_defaultBaseURL = ''https://api.telegram.org''"

definition longPollTimeoutSeconds :: int where
  "longPollTimeoutSeconds = 30"

record tg_Config =
  tc_Token :: string
  tc_AllowFrom :: "string list"
  tc_BaseURL :: string

record tg_Channel =
  tg_Base :: BaseChannel
  tg_Config :: tg_Config

definition tg_New :: "tg_Config \<Rightarrow> tg_Channel" where
  "tg_New cfg = \<lparr>tg_Base = NewBaseChannel ''telegram'' (tc_AllowFrom cfg), tg_Config = cfg\<rparr>"

definition tg_baseURL :: "tg_Channel \<Rightarrow> string" where
  "tg_baseURL c = (if tc_BaseURL (tg_Config c) \<noteq> [] then tc_BaseURL (tg_Config c) else tg_defaultBaseURL)"

definition apiURL :: "tg_Channel \<Rightarrow> string \<Rightarrow> string" where
  "apiURL c method = tg_baseURL c @ ''/bot'' @ tc_Token (tg_Config c) @ ''/'' @ method"

record tgMessage =
  tm_MessageID :: int
  tm_From :: "int option"
  tm_Chat :: int
  tm_Text :: string

record tgUpdate =
  tu_UpdateID :: int
  tu_Message :: "tgMessage option"

definition zero_tgMessage :: tgMessage where
  "zero_tgMessage = \<lparr>tm_MessageID = 0, tm_From = None, tm_Chat = 0, tm_Text = []\<rparr>"

definition zero_tgUpdate :: tgUpdate where
  "zero_tgUpdate = \<lparr>tu_UpdateID = 0, tu_Message = None\<rparr>"

text \<open>\<open>tgUser\<close> and \<open>tgChat\<close> are their ids.\<close>

definition dec_id :: "int decoder" where
  "dec_id cur j = Option.bind (members j) (dec_field ''id'' dec_int cur)"

definition dec_tgMessage :: "tgMessage decoder" where
  "dec_tgMessage cur j =
     Option.bind (members j) (\<lambda>ms.
     Option.bind (dec_field ''message_id'' dec_int (tm_MessageID cur) ms) (\<lambda>i.
     Option.bind (dec_field ''from'' (dec_ptr 0 dec_id) (tm_From cur) ms) (\<lambda>f.
     Option.bind (dec_field ''chat'' dec_id (tm_Chat cur) ms) (\<lambda>c.
     Option.bind (dec_field ''text'' dec_string (tm_Text cur) ms) (\<lambda>t.
       Some \<lparr>tm_MessageID = i, tm_From = f, tm_Chat = c, tm_Text = t\<rparr>)))))"

definition dec_tgUpdate :: "tgUpdate decoder" where
  "dec_tgUpdate cur j =
     Option.bind (members j) (\<lambda>ms.
     Option.bind (dec_field ''update_id'' dec_int (tu_UpdateID cur) ms) (\<lambda>i.
     Option.bind (dec_field ''message'' (dec_ptr zero_tgMessage dec_tgMessage) (tu_Message cur) ms) (\<lambda>m.
       Some \<lparr>tu_UpdateID = i, tu_Message = m\<rparr>)))"

text \<open>\<open>Decoder.Decode\<close> reads the first value of the body.\<close>

definition decode_first :: "'a \<Rightarrow> 'a decoder \<Rightarrow> string \<Rightarrow> 'a option" where
  "decode_first z d body = Option.bind (parse_json (2 * length body + 2) PValue body) (\<lambda>(v, rest). d z v)"

definition dec_envelope :: "'a \<Rightarrow> 'a decoder \<Rightarrow> (bool \<times> string \<times> 'a) decoder" where
  "dec_envelope z d cur j =
     Option.bind (members j) (\<lambda>ms.
     Option.bind (dec_field ''ok'' dec_bool (fst cur) ms) (\<lambda>ok.
     Option.bind (dec_field ''description'' dec_string (fst (snd cur)) ms) (\<lambda>desc.
     Option.bind (dec_field ''result'' d (snd (snd cur)) ms) (\<lambda>res.
       Some (ok, desc, res)))))"

definition tg_call :: "'w http_client \<Rightarrow> string \<Rightarrow> (string \<times> string) list \<Rightarrow> 'a \<Rightarrow> 'a decoder \<Rightarrow> 'w \<Rightarrow> 'a result \<times> 'w" where
  "tg_call hc url values z d w =
     (case hc_NewRequest hc ''POST'' url of
        Some e \<Rightarrow> (Inl (Wrap ''telegram: build request: '' e []), w)
      | None \<Rightarrow>
          (case hc_Do hc \<lparr>hq_Method = ''POST'', hq_URL = url,
               hq_Header = [(''Content-Type'', ''application/x-www-form-urlencoded'')], hq_Body = form_Encode values\<rparr> w of
             (Inl e, w1) \<Rightarrow> (Inl (Wrap ''telegram: request failed: '' e []), w1)
           | (Inr resp, w1) \<Rightarrow>
               (case decode_first (False, [], z) (dec_envelope z d) (hp_Body resp) of
                  None \<Rightarrow> (Inl (Wrap ''telegram: decode response: '' (Err ''invalid JSON'') []), w1)
                | Some (ok, desc, res) \<Rightarrow>
                    (if \<not> ok then (Inl (Err (''telegram: api error: '' @ desc)), w1) else (Inr res, w1)))))"

definition tg_Send :: "'w http_client \<Rightarrow> tg_Channel \<Rightarrow> OutboundMessage \<Rightarrow> 'w \<Rightarrow> go_error option \<times> 'w" where
  "tg_Send hc c msg w =
     (let values = [(''chat_id'', ou_ChatID msg), (''text'', mdToHTML (ou_Text msg)), (''parse_mode'', ''HTML'')] @
            (if ou_ReplyToMessageID msg \<noteq> [] then [(''reply_to_message_id'', ou_ReplyToMessageID msg)] else [])
      in case tg_call hc (apiURL c ''sendMessage'') values [] dec_raw_text w of
           (Inl e, w1) \<Rightarrow> (Some e, w1)
         | (Inr _, w1) \<Rightarrow> (None, w1))"

definition sendChatAction :: "'w http_client \<Rightarrow> tg_Channel \<Rightarrow> string \<Rightarrow> 'w \<Rightarrow> go_error option \<times> 'w" where
  "sendChatAction hc c chatID w =
     (case tg_call hc (apiURL c ''sendChatAction'') [(''chat_id'', chatID), (''action'', ''typing'')] [] dec_raw_text w of
        (Inl e, w1) \<Rightarrow> (Some e, w1)
      | (Inr _, w1) \<Rightarrow> (None, w1))"

text \<open>The first chat action; its repetition in the background, and its end, are \<open>repeat\<close>.\<close>

definition tg_StartTyping ::
  "'w http_client \<Rightarrow> (string \<Rightarrow> ('w \<Rightarrow> 'w) \<times> ('w \<Rightarrow> 'w)) \<Rightarrow> tg_Channel \<Rightarrow> string \<Rightarrow> 'w \<Rightarrow> ('w \<Rightarrow> 'w) result \<times> 'w" where
  "tg_StartTyping hc repeats c chatID w =
     (case sendChatAction hc c chatID w of
        (Some e, w1) \<Rightarrow> (Inl e, w1)
      | (None, w1) \<Rightarrow> (Inr (snd (repeats chatID)), fst (repeats chatID) w1))"

definition getUpdates :: "'w http_client \<Rightarrow> tg_Channel \<Rightarrow> int \<Rightarrow> 'w \<Rightarrow> tgUpdate list result \<times> 'w" where
  "getUpdates hc c offset w =
     tg_call hc (apiURL c ''getUpdates'')
       [(''timeout'', Itoa longPollTimeoutSeconds), (''offset'', Itoa offset),
        (''allowed_updates'', ''['' @ [CHR 0x22] @ ''message'' @ [CHR 0x22] @ '']'')]
       [] (dec_list zero_tgUpdate dec_tgUpdate) w"

definition toInboundMessage :: "tgUpdate \<Rightarrow> InboundMessage option" where
  "toInboundMessage u =
     (case tu_Message u of
        None \<Rightarrow> None
      | Some m \<Rightarrow>
          (if tm_Text m = [] then None
           else Some \<lparr>in_Channel = ''telegram'', in_ChatID = Itoa (tm_Chat m),
                      in_SenderID = (case tm_From m of None \<Rightarrow> [] | Some i \<Rightarrow> Itoa i), in_Text = tm_Text m,
                      in_MessageID = Itoa (tm_MessageID m), in_Metadata = []\<rparr>))"

text \<open>An \<open>int64\<close> plus one.\<close>

definition next_offset :: "int \<Rightarrow> int" where
  "next_offset i = (if i = 2 ^ 63 - 1 then - (2 ^ 63) else i + 1)"

text \<open>The loop over the updates of one answer: the offset, and the error that ends \<open>Start\<close>, if any.\<close>

fun handle_updates ::
  "(InboundMessage \<Rightarrow> 'w \<Rightarrow> go_error option \<times> 'w) \<Rightarrow> BaseChannel \<Rightarrow> tgUpdate list \<Rightarrow> int \<Rightarrow> 'w \<Rightarrow> (int \<times> go_error option) \<times> 'w" where
  "handle_updates pub b [] offset w = ((offset, None), w)"
| "handle_updates pub b (u # us) offset w =
     (case Option.bind (toInboundMessage u) (HandleInbound b) of
        None \<Rightarrow> handle_updates pub b us (next_offset (tu_UpdateID u)) w
      | Some msg \<Rightarrow>
          (case pub msg w of
             (Some e, w1) \<Rightarrow> ((next_offset (tu_UpdateID u), Some e), w1)
           | (None, w1) \<Rightarrow> handle_updates pub b us (next_offset (tu_UpdateID u)) w1))"

text \<open>
  One round of \<open>Start\<close>: go on with an offset, or return an error. \<open>backoff\<close> is the wait after a failed poll; it gives
  the error of the context when that ends first.
\<close>

definition poll_round ::
  "'w http_client \<Rightarrow> ('w \<Rightarrow> go_error option) \<Rightarrow> ('w \<Rightarrow> go_error option \<times> 'w) \<Rightarrow>
   (InboundMessage \<Rightarrow> 'w \<Rightarrow> go_error option \<times> 'w) \<Rightarrow> tg_Channel \<Rightarrow> int \<Rightarrow> 'w \<Rightarrow> (int + go_error) \<times> 'w" where
  "poll_round hc ctx backoff pub c offset w =
     (case ctx w of
        Some e \<Rightarrow> (Inr e, w)
      | None \<Rightarrow>
          (case getUpdates hc c offset w of
             (Inl err, w1) \<Rightarrow>
               (case ctx w1 of
                  Some e \<Rightarrow> (Inr e, w1)
                | None \<Rightarrow> (case backoff w1 of (Some e, w2) \<Rightarrow> (Inr e, w2) | (None, w2) \<Rightarrow> (Inl offset, w2)))
           | (Inr updates, w1) \<Rightarrow>
               (case handle_updates pub (tg_Base c) updates offset w1 of
                  ((offset', None), w2) \<Rightarrow> (Inl offset', w2)
                | ((_, Some e), w2) \<Rightarrow> (Inr e, w2))))"

text \<open>\<open>None\<close>: it polls for ever.\<close>

partial_function (option) tg_poll_loop ::
  "'w http_client \<Rightarrow> ('w \<Rightarrow> go_error option) \<Rightarrow> ('w \<Rightarrow> go_error option \<times> 'w) \<Rightarrow>
   (InboundMessage \<Rightarrow> 'w \<Rightarrow> go_error option \<times> 'w) \<Rightarrow> tg_Channel \<Rightarrow> int \<Rightarrow> 'w \<Rightarrow> (go_error \<times> 'w) option" where
  "tg_poll_loop hc ctx backoff pub c offset w =
     (case poll_round hc ctx backoff pub c offset w of
        (Inr e, w1) \<Rightarrow> Some (e, w1)
      | (Inl offset', w1) \<Rightarrow> tg_poll_loop hc ctx backoff pub c offset' w1)"

definition tg_Start ::
  "'w http_client \<Rightarrow> ('w \<Rightarrow> go_error option) \<Rightarrow> ('w \<Rightarrow> go_error option \<times> 'w) \<Rightarrow>
   (InboundMessage \<Rightarrow> 'w \<Rightarrow> go_error option \<times> 'w) \<Rightarrow> (bool \<Rightarrow> 'w \<Rightarrow> 'w) \<Rightarrow> tg_Channel \<Rightarrow> 'w \<Rightarrow> (go_error \<times> 'w) option" where
  "tg_Start hc ctx backoff pub setRunning c w =
     (if tc_Token (tg_Config c) = [] then Some (Err ''telegram: token is required'', w)
      else map_option (\<lambda>(e, w'). (e, setRunning False w')) (tg_poll_loop hc ctx backoff pub c 0 (setRunning True w)))"

text \<open>The channel as the loops of the program see it.\<close>

definition tg_channel :: "'w http_client \<Rightarrow> (string \<Rightarrow> ('w \<Rightarrow> 'w) \<times> ('w \<Rightarrow> 'w)) \<Rightarrow> tg_Channel \<Rightarrow> 'w channel" where
  "tg_channel hc repeats c = \<lparr>chn_Send = tg_Send hc c, chn_StartTyping = Some (tg_StartTyping hc repeats c)\<rparr>"

section \<open>The HTML of a message\<close>

definition html_tags :: "string list" where
  "html_tags = [''<a href='' @ [CHR 0x22], ''</a>'', ''<code>'', ''</code>'', ''<b>'', ''</b>'']"

text \<open>Every \<open><\<close> begins a tag of the list.\<close>

fun tagged :: "string \<Rightarrow> bool" where
  "tagged [] = True"
| "tagged (c # s) = ((c = CHR ''<'' \<longrightarrow> list_ex (HasPrefix (c # s)) html_tags) \<and> tagged s)"

definition tag_chars :: "string" where
  "tag_chars = concat html_tags"

lemma HasPrefix_more: "HasPrefix a t \<Longrightarrow> HasPrefix (a @ b) t"
  by (auto simp: HasPrefix_iff)

lemma tagged_append: "tagged a \<Longrightarrow> tagged b \<Longrightarrow> tagged (a @ b)"
  by (induction a) (auto simp: list_ex_iff intro: HasPrefix_more [of "_ # _", simplified])

lemma HasPrefix_cut: "HasPrefix (a @ c # b) t \<Longrightarrow> c \<notin> set t \<Longrightarrow> HasPrefix a t"
proof -
  assume "HasPrefix (a @ c # b) t" "c \<notin> set t"
  then obtain r where r: "a @ c # b = t @ r" by (auto simp: HasPrefix_iff)
  with \<open>c \<notin> set t\<close> have "length t \<le> length a"
    by (metis in_set_conv_decomp append_eq_append_conv_if linorder_not_le nth_append_length nth_mem nth_append)
  with r show "HasPrefix a t" by (metis HasPrefix_iff append_eq_append_conv_if append_take_drop_id)
qed

lemma tag_char: "t \<in> set html_tags \<Longrightarrow> c \<notin> set tag_chars \<Longrightarrow> c \<notin> set t"
  by (auto simp: tag_chars_def)

lemma tagged_cut: "tagged (a @ c # b) \<Longrightarrow> c \<notin> set tag_chars \<Longrightarrow> tagged a \<and> tagged b"
proof (induction a)
  case (Cons d a)
  have "list_ex (HasPrefix (d # a)) html_tags" if "d = CHR ''<''"
  proof -
    from Cons.prems that obtain t where "t \<in> set html_tags" "HasPrefix ((d # a) @ c # b) t" by (auto simp: list_ex_iff)
    then have "HasPrefix (d # a) t" using HasPrefix_cut [of "d # a" c b t] tag_char Cons.prems(2) by simp
    with \<open>t \<in> set html_tags\<close> show ?thesis by (auto simp: list_ex_iff)
  qed
  with Cons show ?case by simp
qed simp

lemma marks: "CHR ''['' \<notin> set tag_chars" "CHR '']'' \<notin> set tag_chars" "CHR ''('' \<notin> set tag_chars" "CHR '')'' \<notin> set tag_chars"
  "CHR 0x60 \<notin> set tag_chars" "CHR ''*'' \<notin> set tag_chars"
  by (simp_all add: tag_chars_def html_tags_def)

lemma tagged_pieces: "tagged (''<a href='' @ [CHR 0x22])" "tagged ([CHR 0x22] @ ''>'')" "tagged ''</a>''" "tagged ''<code>''" "tagged ''</code>''"
  "tagged ''<b>''" "tagged ''</b>''"
  by (simp_all add: html_tags_def HasPrefix_def)

lemma until_split: "until e s = Some (t, r) \<Longrightarrow> s = t @ e # r \<and> t \<noteq> []"
  using takeWhile_split [of "\<lambda>c. c \<noteq> e" s]
  by (auto simp: until_def Let_def simp del: takeWhile_eq_all_conv split: if_split_asm)

definition keeps_tagged :: "(string \<Rightarrow> (string \<times> string) option) \<Rightarrow> bool" where
  "keeps_tagged m \<longleftrightarrow> (\<forall>c s. c \<in> set tag_chars \<longrightarrow> m (c # s) = None) \<and>
     (\<forall>s out rest. tagged s \<longrightarrow> m s = Some (out, rest) \<longrightarrow> tagged out \<and> tagged rest)"

lemma HasPrefix_single: "HasPrefix s [c] \<Longrightarrow> \<exists>r. s = c # r"
  by (auto simp: HasPrefix_iff)

lemma keeps_mdLink: "keeps_tagged mdLink"
  unfolding keeps_tagged_def
proof (intro conjI allI impI)
  show "mdLink (c # s) = None" if "c \<in> set tag_chars" for c s
    using that marks(1) by (auto simp: mdLink_def HasPrefix_def)
  fix s out rest assume s: "tagged s" and m: "mdLink s = Some (out, rest)"
  obtain lab r u where 1: "HasPrefix s ''[''" "until (CHR '']'') (drop 1 s) = Some (lab, r)" "HasPrefix r ''(''"
    "until (CHR '')'') (drop 1 r) = Some (u, rest)" "out = ''<a href='' @ [CHR 0x22] @ u @ [CHR 0x22] @ ''>'' @ lab @ ''</a>''"
    using m by (auto simp: mdLink_def split: if_split_asm option.split_asm prod.split_asm)
  have "s = CHR ''['' # lab @ CHR '']'' # CHR ''('' # u @ CHR '')'' # rest"
    using HasPrefix_single [OF 1(1)] HasPrefix_single [OF 1(3)] until_split [OF 1(2)] until_split [OF 1(4)] by auto
  then have "tagged (lab @ CHR '']'' # CHR ''('' # u @ CHR '')'' # rest)" using s by simp
  then have 2: "tagged lab" "tagged (u @ CHR '')'' # rest)"
    using tagged_cut [of lab "CHR '']''" "CHR ''('' # u @ CHR '')'' # rest"] marks(2) by simp_all
  from tagged_cut [OF 2(2) marks(4)] have 3: "tagged u" "tagged rest" by simp_all
  have "tagged ((''<a href='' @ [CHR 0x22]) @ u @ ([CHR 0x22] @ ''>'') @ lab @ ''</a>'')"
    by (intro tagged_append tagged_pieces 2(1) 3(1))
  with 1(5) 3(2) show "tagged out" "tagged rest" by simp_all
qed

lemma keeps_mdCode: "keeps_tagged mdCode"
  unfolding keeps_tagged_def
proof (intro conjI allI impI)
  show "mdCode (c # s) = None" if "c \<in> set tag_chars" for c s
    using that marks(5) by (auto simp: mdCode_def HasPrefix_def)
  fix s out rest assume s: "tagged s" and m: "mdCode s = Some (out, rest)"
  obtain t where 1: "HasPrefix s [CHR 0x60]" "until (CHR 0x60) (drop 1 s) = Some (t, rest)" "out = ''<code>'' @ t @ ''</code>''"
    using m by (auto simp: mdCode_def split: if_split_asm)
  have "s = CHR 0x60 # t @ CHR 0x60 # rest" using HasPrefix_single [OF 1(1)] until_split [OF 1(2)] by auto
  then have "tagged (t @ CHR 0x60 # rest)" using s by simp
  from tagged_cut [OF this marks(5)] have 2: "tagged t" "tagged rest" by simp_all
  have "tagged (''<code>'' @ t @ ''</code>'')" by (intro tagged_append tagged_pieces 2(1))
  with 1(3) 2(2) show "tagged out" "tagged rest" by simp_all
qed

lemma up_to_stars_split: "up_to_stars s = Some (t, rest) \<Longrightarrow> s = t @ CHR ''*'' # CHR ''*'' # rest"
proof (induction s arbitrary: t)
  case (Cons c s)
  show ?case
  proof (cases "HasPrefix (c # s) ''**''")
    case True
    then have "c = CHR ''*'' \<and> s = CHR ''*'' # drop 1 s" by (auto simp: HasPrefix_iff)
    with True Cons.prems show ?thesis by auto
  next
    case False
    then obtain t' where "up_to_stars s = Some (t', rest)" "t = c # t'" using Cons.prems by (auto split: if_split_asm)
    then show ?thesis using Cons.IH by simp
  qed
qed simp

lemma keeps_mdBold: "keeps_tagged mdBold"
  unfolding keeps_tagged_def
proof (intro conjI allI impI)
  show "mdBold (c # s) = None" if "c \<in> set tag_chars" for c s
    using that marks(6) by (auto simp: mdBold_def HasPrefix_def)
  fix s out rest assume s: "tagged s" and m: "mdBold s = Some (out, rest)"
  obtain c r t where 1: "HasPrefix s ''**''" "drop 2 s = c # r" "up_to_stars r = Some (t, rest)" "out = ''<b>'' @ (c # t) @ ''</b>''"
    using m by (auto simp: mdBold_def split: if_split_asm list.split_asm)
  have "s = [CHR ''*''] @ CHR ''*'' # (c # t) @ CHR ''*'' # CHR ''*'' # rest"
    using 1(1,2) up_to_stars_split [OF 1(3)] by (auto simp: HasPrefix_iff)
  then have "tagged ((c # t) @ CHR ''*'' # CHR ''*'' # rest)" using s by simp
  from tagged_cut [OF this marks(6)] have 2: "tagged (c # t)" "tagged rest" by simp_all
  have "tagged (''<b>'' @ (c # t) @ ''</b>'')" by (intro tagged_append tagged_pieces 2(1))
  with 1(4) 2(2) show "tagged out" "tagged rest" by simp_all
qed

lemma keeps_prefix: "(\<And>x y. x \<in> set p \<Longrightarrow> m (x # y) = None) \<Longrightarrow> HasPrefix (subst_fuel m n (p @ r)) p"
proof (induction p arbitrary: n)
  case Nil then show ?case by (simp add: HasPrefix_iff)
next
  case (Cons x p)
  then show ?case by (cases n) (auto simp: HasPrefix_iff)
qed

lemma replace_tagged: "keeps_tagged m \<Longrightarrow> tagged s \<Longrightarrow> tagged (subst_fuel m n s)"
proof (induction m n s rule: subst_fuel.induct)
  case (3 m n c s)
  show ?case
  proof (cases "m (c # s)")
    case None
    have "list_ex (HasPrefix (c # subst_fuel m n s)) html_tags" if "c = CHR ''<''"
    proof -
      from 3(4) that obtain t where t: "t \<in> set html_tags" "HasPrefix (c # s) t" by (auto simp: list_ex_iff)
      have "t \<noteq> []" using t(1) by (auto simp: html_tags_def)
      then obtain p r where p: "t = c # p" "s = p @ r" using t(2) by (cases t) (auto simp: HasPrefix_iff)
      have "m (x # y) = None" if "x \<in> set p" for x y
      proof -
        have "x \<in> set tag_chars" using that t(1) p(1) by (auto simp: tag_chars_def intro: bexI [of _ t])
        then show ?thesis using 3(3) unfolding keeps_tagged_def by blast
      qed
      then have "HasPrefix (subst_fuel m n s) p" unfolding p(2) by (rule keeps_prefix)
      then have "HasPrefix (c # subst_fuel m n s) t" unfolding p(1) by (auto simp: HasPrefix_iff)
      with t(1) show ?thesis by (auto simp: list_ex_iff)
    qed
    with None 3 show ?thesis by simp
  next
    case (Some x)
    then obtain out rest where x: "m (c # s) = Some (out, rest)" by (cases x) auto
    have "tagged out \<and> tagged rest" using 3(3,4) x unfolding keeps_tagged_def by blast
    then have "tagged (out @ subst_fuel m n rest)" using 3(2) [OF x refl 3(3)] by (simp add: tagged_append)
    then show ?thesis using x by simp
  qed
qed simp_all

text \<open>What the reader sees of an escaped text: the five entities as their characters.\<close>

definition entity :: "string \<Rightarrow> (string \<times> string) option" where
  "entity s =
     (if HasPrefix s ''&amp;'' then Some (''&'', drop 5 s)
      else if HasPrefix s ''&#39;'' then Some ([CHR 0x27], drop 5 s)
      else if HasPrefix s ''&lt;'' then Some (''<'', drop 4 s)
      else if HasPrefix s ''&gt;'' then Some (''>'', drop 4 s)
      else if HasPrefix s ''&#34;'' then Some ([CHR 0x22], drop 5 s)
      else None)"

lemma entity_escape: "\<exists>d e. escape_char c @ s = d # e \<and>
    (entity (d # e) = Some ([c], s) \<or> entity (d # e) = None \<and> d = c \<and> e = s)"
  by (simp add: escape_char_def entity_def HasPrefix_def)

lemma unescape_fuel: "length s \<le> n \<Longrightarrow> subst_fuel entity n (EscapeString s) = s"
proof (induction s arbitrary: n)
  case Nil show ?case by (cases n) (simp_all add: EscapeString_def)
next
  case (Cons c s)
  then obtain k where n: "n = Suc k" "length s \<le> k" by (cases n) auto
  have e: "EscapeString (c # s) = escape_char c @ EscapeString s" by (simp add: EscapeString_def)
  obtain d r where "escape_char c @ EscapeString s = d # r"
    "entity (d # r) = Some ([c], EscapeString s) \<or> entity (d # r) = None \<and> d = c \<and> r = EscapeString s"
    using entity_escape by blast
  with Cons.IH [OF n(2)] show ?case unfolding e n(1) by auto
qed

lemma escape_longer_text: "length s \<le> length (EscapeString s)"
proof (induction s)
  case (Cons c s)
  have "EscapeString (c # s) = escape_char c @ EscapeString s" by (simp add: EscapeString_def)
  moreover have "1 \<le> length (escape_char c)" by (simp add: escape_char_def)
  ultimately show ?case using Cons by simp
qed simp

lemma escape_tagged: "tagged (EscapeString s)"
proof (induction s)
  case (Cons c s)
  have "tagged (escape_char c)" by (simp add: escape_char_def)
  with Cons tagged_append show ?case by (simp add: EscapeString_def)
qed (simp add: EscapeString_def)

lemma replace_none: "(\<And>c r. c \<in> set s \<Longrightarrow> m (c # r) = None) \<Longrightarrow> subst_fuel m n s = s"
  by (induction m n s rule: subst_fuel.induct) auto

lemma escape_no_marks: "c \<in> set (EscapeString s) \<Longrightarrow> c \<notin> set s \<Longrightarrow> c \<notin> {CHR ''['', CHR 0x60, CHR ''*''}"
  by (auto simp: EscapeString_def escape_char_def split: if_split_asm)

lemma mdToHTML_tagged: "tagged (mdToHTML s)"
  unfolding mdToHTML_def replace_matches_def
  by (intro replace_tagged keeps_mdLink keeps_mdCode keeps_mdBold escape_tagged)

lemma unmarked:
  assumes "\<And>c. c \<in> set s \<Longrightarrow> c \<notin> {CHR ''['', CHR 0x60, CHR ''*''}"
  shows "mdToHTML s = EscapeString s"
proof -
  have e: "c \<notin> {CHR ''['', CHR 0x60, CHR ''*''}" if "c \<in> set (EscapeString s)" for c
    using that assms [of c] escape_no_marks [OF that] by (cases "c \<in> set s") auto
  have "mdLink (c # r) = None" "mdCode (c # r) = None" "mdBold (c # r) = None" if "c \<in> set (EscapeString s)" for c r
    using e [OF that] by (auto simp: mdLink_def mdCode_def mdBold_def HasPrefix_def)
  then show ?thesis unfolding mdToHTML_def replace_matches_def by (simp add: replace_none)
qed

lemma entities_read_back: "replace_matches entity (EscapeString s) = s"
  unfolding replace_matches_def by (rule unescape_fuel [OF escape_longer_text])

lemma nested_marks_cross: "mdToHTML ''**a `b** c`'' = ''<b>a <code>b</b> c</code>''"
  by code_simp

text \<open>
  C23: Whatever the model wrote, the HTML given to the Bot API has no markup but that of \<open>mdToHTML\<close>: every
  \<open><\<close> of it begins one of the seven pieces of markup the function writes, so nothing of the text is
  read as a tag. A text with none of the marks is shown as it is: the entities of the HTML read back as the text.
\<close>

theorem html_safe:
  "tagged (mdToHTML s) \<and>
   ((\<forall>c\<in>set s. c \<notin> {CHR ''['', CHR 0x60, CHR ''*''}) \<longrightarrow> replace_matches entity (mdToHTML s) = s)"
  by (simp add: mdToHTML_tagged unmarked entities_read_back)

theorem html_safe_witness:
  "tagged (mdToHTML ''1 < 2 **& <i>**'') \<and> mdToHTML ''1 < 2 **& <i>**'' = ''1 &lt; 2 <b>&amp; &lt;i&gt;</b>'' \<and>
   replace_matches entity (mdToHTML ''if a<b & c'') = ''if a<b & c''"
proof (intro conjI)
  show "tagged (mdToHTML ''1 < 2 **& <i>**'')" using html_safe by (rule conjunct1)
  show "mdToHTML ''1 < 2 **& <i>**'' = ''1 &lt; 2 <b>&amp; &lt;i&gt;</b>''" by code_simp
  show "replace_matches entity (mdToHTML ''if a<b & c'') = ''if a<b & c''" using html_safe [of "''if a<b & c''"] by simp
qed

section \<open>What a run of the poller publishes\<close>

definition accepted :: "BaseChannel \<Rightarrow> tgUpdate list \<Rightarrow> InboundMessage list" where
  "accepted b us = List.map_filter (\<lambda>u. Option.bind (toInboundMessage u) (HandleInbound b)) us"

lemma accepted_simps [simp]:
  "accepted b [] = []"
  "accepted b (u # us) = (case Option.bind (toInboundMessage u) (HandleInbound b) of None \<Rightarrow> accepted b us | Some m \<Rightarrow> m # accepted b us)"
  by (simp_all add: accepted_def map_filter_simps split: option.split)

lemma accepted_append: "accepted b (us @ vs) = accepted b us @ accepted b vs"
  by (induction us) (auto split: option.splits)

text \<open>
  What is known of the rest of the program: \<open>published w\<close> is the sequence of messages taken by the bus, and only a
  publication that succeeds adds to it.
\<close>

definition records_published ::
  "'w http_client \<Rightarrow> ('w \<Rightarrow> go_error option \<times> 'w) \<Rightarrow> (InboundMessage \<Rightarrow> 'w \<Rightarrow> go_error option \<times> 'w) \<Rightarrow> ('w \<Rightarrow> InboundMessage list) \<Rightarrow> bool" where
  "records_published hc backoff pub published \<longleftrightarrow>
     (\<forall>rq w. published (snd (hc_Do hc rq w)) = published w) \<and>
     (\<forall>w. published (snd (backoff w)) = published w) \<and>
     (\<forall>m w. published (snd (pub m w)) = published w @ (if fst (pub m w) = None then [m] else []))"

text \<open>
  The answers the Bot API promises for an offset: of the updates it has by now, in order, those whose id is at
  least the offset.
\<close>

definition api_answer :: "tgUpdate list \<Rightarrow> int \<Rightarrow> tgUpdate list result \<Rightarrow> bool" where
  "api_answer hist offset r \<longleftrightarrow>
     (case r of Inl e \<Rightarrow> True
      | Inr us \<Rightarrow> (\<exists>k. us = filter (\<lambda>u. offset \<le> tu_UpdateID u) (take k hist)))"

definition update_log :: "tgUpdate list \<Rightarrow> bool" where
  "update_log hist \<longleftrightarrow> sorted_wrt (\<lambda>u v. tu_UpdateID u < tu_UpdateID v) hist \<and>
     list_all (\<lambda>u. 0 \<le> tu_UpdateID u \<and> tu_UpdateID u < 2 ^ 63 - 1) hist"

text \<open>The offset and the world after some rounds of the loop of \<open>Start\<close>.\<close>

inductive poll_run ::
  "'w http_client \<Rightarrow> ('w \<Rightarrow> go_error option) \<Rightarrow> ('w \<Rightarrow> go_error option \<times> 'w) \<Rightarrow>
   (InboundMessage \<Rightarrow> 'w \<Rightarrow> go_error option \<times> 'w) \<Rightarrow> tg_Channel \<Rightarrow> tgUpdate list \<Rightarrow> 'w \<Rightarrow> int \<Rightarrow> 'w \<Rightarrow> bool"
  for hc ctx backoff pub c hist w0 where
  first_poll: "poll_run hc ctx backoff pub c hist w0 0 w0"
| next_poll: "poll_run hc ctx backoff pub c hist w0 offset' w'"
  if "poll_run hc ctx backoff pub c hist w0 offset w" "api_answer hist offset (fst (getUpdates hc c offset w))"
     "poll_round hc ctx backoff pub c offset w = (Inl offset', w')"

lemma getUpdates_published:
  assumes "records_published hc backoff pub published"
  shows "published (snd (getUpdates hc c offset w)) = published w"
proof -
  have "published (snd (tg_call hc url kvs z d w)) = published w" for url kvs z and d :: "'b decoder"
  proof -
    have "hc_Do hc rq w = (r, w1) \<Longrightarrow> published w1 = published w" for rq r w1
      using assms unfolding records_published_def by (metis snd_conv)
    then show ?thesis unfolding tg_call_def by (auto simp only: snd_conv split: option.split sum.split prod.split if_split)
  qed
  then show ?thesis by (simp add: getUpdates_def)
qed

lemma handle_updates_published:
  assumes "records_published hc backoff pub published" "list_all (\<lambda>u. tu_UpdateID u < 2 ^ 63 - 1) us"
    "handle_updates pub b us offset w = ((offset', r), w')"
  shows "(r = None \<longrightarrow> published w' = published w @ accepted b us \<and> offset' = (if us = [] then offset else tu_UpdateID (last us) + 1)) \<and>
     (\<exists>n. published w' = published w @ accepted b (take n us))"
  using assms(2,3)
proof (induction us arbitrary: offset w)
  case (Cons u us)
  have n: "next_offset (tu_UpdateID u) = tu_UpdateID u + 1" using Cons.prems(1) by (simp add: next_offset_def)
  have us: "list_all (\<lambda>u. tu_UpdateID u < 2 ^ 63 - 1) us" using Cons.prems(1) by simp
  show ?case
  proof (cases "Option.bind (toInboundMessage u) (HandleInbound b)")
    case None
    then have "handle_updates pub b us (tu_UpdateID u + 1) w = ((offset', r), w')" using Cons.prems(2) n by simp
    from Cons.IH [OF us this] obtain k where k: "published w' = published w @ accepted b (take k us)"
      "r = None \<longrightarrow> published w' = published w @ accepted b us \<and> offset' = (if us = [] then tu_UpdateID u + 1 else tu_UpdateID (last us) + 1)"
      by blast
    then show ?thesis using None by (auto intro: exI [of _ "Suc k"])
  next
    case (Some m)
    obtain p w1 where p: "pub m w = (p, w1)" by fastforce
    have 1: "published w1 = published w @ (if p = None then [m] else [])"
      using assms(1) p unfolding records_published_def by (metis fst_conv snd_conv)
    show ?thesis
    proof (cases p)
      case None
      then have "handle_updates pub b us (tu_UpdateID u + 1) w1 = ((offset', r), w')" using Cons.prems(2) n Some p by simp
      from Cons.IH [OF us this] obtain k where k: "published w' = published w1 @ accepted b (take k us)"
        "r = None \<longrightarrow> published w' = published w1 @ accepted b us \<and> offset' = (if us = [] then tu_UpdateID u + 1 else tu_UpdateID (last us) + 1)"
        by blast
      then show ?thesis using Some 1 None by (auto intro: exI [of _ "Suc k"])
    next
      case (Some e)
      then have "r = Some e" "w' = w1" using Cons.prems(2) \<open>Option.bind _ _ = Some m\<close> p by simp_all
      then show ?thesis using 1 Some by (auto intro: exI [of _ 0])
    qed
  qed
qed auto

lemma sorted_partition:
  "sorted_wrt (\<lambda>u v. tu_UpdateID u < tu_UpdateID v) us \<Longrightarrow>
   filter (\<lambda>u. tu_UpdateID u < i) us @ filter (\<lambda>u. i \<le> tu_UpdateID u) us = us"
proof (induction us)
  case (Cons u us)
  have "filter (\<lambda>v. tu_UpdateID v < i) us = []" if "i \<le> tu_UpdateID u"
    using Cons.prems that by (auto simp: filter_empty_conv)
  with Cons show ?case by auto
qed simp

lemma new_updates:
  assumes "sorted_wrt (\<lambda>u v. tu_UpdateID u < tu_UpdateID v) hist" "us = filter (\<lambda>u. i \<le> tu_UpdateID u) (take k hist)" "us \<noteq> []"
  shows "filter (\<lambda>u. tu_UpdateID u < tu_UpdateID (last us) + 1) hist = filter (\<lambda>u. tu_UpdateID u < i) hist @ us"
proof -
  let ?a = "take k hist" and ?b = "drop k hist"
  have s: "sorted_wrt (\<lambda>u v. tu_UpdateID u < tu_UpdateID v) ?a" "\<forall>u\<in>set ?a. \<forall>v\<in>set ?b. tu_UpdateID u < tu_UpdateID v"
    using assms(1) sorted_wrt_append [of _ ?a ?b] by (metis append_take_drop_id)+
  have l: "last us \<in> set ?a" "i \<le> tu_UpdateID (last us)" using assms(2,3) last_in_set [of us] by auto
  have a: "?a = filter (\<lambda>u. tu_UpdateID u < i) ?a @ us" using sorted_partition [OF s(1), of i] assms(2) by simp
  then have "last ?a = last us" "?a \<noteq> []" using assms(3) by (metis last_append, metis append_is_Nil_conv)
  moreover obtain p where "?a = p @ [last ?a]" using \<open>?a \<noteq> []\<close> by (metis append_butlast_last_id)
  ultimately have m: "\<forall>u\<in>set ?a. tu_UpdateID u < tu_UpdateID (last us) + 1"
    using s(1) by (metis (no_types, lifting) sorted_wrt_append set_append Un_iff list.set_intros(1) empty_iff empty_set set_ConsD zless_add1_eq)
  have "filter (\<lambda>u. tu_UpdateID u < tu_UpdateID (last us) + 1) ?b = []" "filter (\<lambda>u. tu_UpdateID u < i) ?b = []"
    using s(2) l by (force simp: filter_empty_conv)+
  then have "filter (\<lambda>u. tu_UpdateID u < tu_UpdateID (last us) + 1) (?a @ ?b) = ?a" "filter (\<lambda>u. tu_UpdateID u < i) (?a @ ?b) = filter (\<lambda>u. tu_UpdateID u < i) ?a"
    using m by (simp_all only: filter_append append_Nil2 filter_True)
  with a show ?thesis by simp
qed

lemma poll_round_published:
  assumes w: "records_published hc backoff pub published" and l: "update_log hist" and a: "api_answer hist offset (fst (getUpdates hc c offset w))"
    and p: "published w = accepted (tg_Base c) (filter (\<lambda>u. tu_UpdateID u < offset) hist)"
  shows "poll_round hc ctx backoff pub c offset w = (Inl offset', w') \<Longrightarrow>
      published w' = accepted (tg_Base c) (filter (\<lambda>u. tu_UpdateID u < offset') hist)"
    and "poll_round hc ctx backoff pub c offset w = (Inr e, w') \<Longrightarrow>
      \<exists>n. published w' = accepted (tg_Base c) (filter (\<lambda>u. tu_UpdateID u < offset) hist @ take n (filter (\<lambda>u. offset \<le> tu_UpdateID u) hist))"
proof -
  obtain r w1 where g: "getUpdates hc c offset w = (r, w1)" by fastforce
  have w1: "published w1 = published w" using getUpdates_published [OF w, of c offset w] g by simp
  have b: "backoff w1 = (r', w2) \<Longrightarrow> published w2 = published w1" for r' w2
    using w unfolding records_published_def by (metis snd_conv)
  have ends: "\<exists>n. published w = accepted (tg_Base c) (filter (\<lambda>u. tu_UpdateID u < offset) hist @ take n (filter (\<lambda>u. offset \<le> tu_UpdateID u) hist))"
    using p by (auto intro: exI [of _ 0])
  have sorted: "sorted_wrt (\<lambda>u v. tu_UpdateID u < tu_UpdateID v) hist" using l by (simp add: update_log_def)
  show "published w' = accepted (tg_Base c) (filter (\<lambda>u. tu_UpdateID u < offset') hist)"
    if "poll_round hc ctx backoff pub c offset w = (Inl offset', w')"
  proof (cases r)
    case (Inl e)
    then show ?thesis using that g b w1 p by (auto simp: poll_round_def split: option.split_asm prod.split_asm)
  next
    case (Inr us)
    then have h: "handle_updates pub (tg_Base c) us offset w1 = ((offset', None), w')"
      using that g by (auto simp: poll_round_def split: option.split_asm prod.split_asm)
    obtain k where us: "us = filter (\<lambda>u. offset \<le> tu_UpdateID u) (take k hist)" using a g Inr by (auto simp: api_answer_def)
    have "list_all (\<lambda>u. tu_UpdateID u < 2 ^ 63 - 1) us" using l us by (auto simp: update_log_def list_all_iff dest: in_set_takeD)
    from handle_updates_published [OF w this h]
    have "published w' = published w1 @ accepted (tg_Base c) us" "offset' = (if us = [] then offset else tu_UpdateID (last us) + 1)" by simp_all
    then show ?thesis using new_updates [OF sorted us] w1 p by (auto simp: accepted_append)
  qed
  show "\<exists>n. published w' = accepted (tg_Base c) (filter (\<lambda>u. tu_UpdateID u < offset) hist @ take n (filter (\<lambda>u. offset \<le> tu_UpdateID u) hist))"
    if q: "poll_round hc ctx backoff pub c offset w = (Inr e, w')"
  proof (cases "published w' = published w")
    case True then show ?thesis using ends by simp
  next
    case False
    then obtain us offset' where h: "r = Inr us" "handle_updates pub (tg_Base c) us offset w1 = ((offset', Some e), w')"
      using q g b w1 by (auto simp: poll_round_def split: option.split_asm prod.split_asm sum.split_asm)
    obtain k where us: "us = filter (\<lambda>u. offset \<le> tu_UpdateID u) (take k hist)" using a g h by (auto simp: api_answer_def)
    have "list_all (\<lambda>u. tu_UpdateID u < 2 ^ 63 - 1) us" using l us by (auto simp: update_log_def list_all_iff dest: in_set_takeD)
    from handle_updates_published [OF w this h(2)] obtain n where n: "published w' = published w1 @ accepted (tg_Base c) (take n us)" by blast
    have "filter (\<lambda>u. offset \<le> tu_UpdateID u) hist = us @ filter (\<lambda>u. offset \<le> tu_UpdateID u) (drop k hist)"
      unfolding us by (metis append_take_drop_id filter_append)
    then have "take (min n (length us)) (filter (\<lambda>u. offset \<le> tu_UpdateID u) hist) = take n us" by (simp add: min_def)
    then show ?thesis using n w1 p by (intro exI [of _ "min n (length us)"]) (simp add: accepted_append)
  qed
qed

lemma poll_run_published:
  assumes "records_published hc backoff pub published" "update_log hist" "published w0 = []"
  shows "poll_run hc ctx backoff pub c hist w0 offset w \<Longrightarrow>
    published w = accepted (tg_Base c) (filter (\<lambda>u. tu_UpdateID u < offset) hist)"
proof (induction rule: poll_run.induct)
  case first_poll
  have "filter (\<lambda>u. tu_UpdateID u < 0) hist = []" using assms(2) by (auto simp: update_log_def list_all_iff filter_empty_conv)
  then show ?case using assms(3) by simp
next
  case (next_poll offset w offset' w')
  then show ?case using poll_round_published(1) [OF assms(1,2)] by blast
qed

text \<open>
  C22: When the Bot API answers as it promises, then after any number of rounds, failed polls included, the bus has
  taken the messages of allowed senders among the updates below the offset, each once and in their order; and
  if the next round ends \<open>Start\<close>, only a beginning of the updates that follow was added.
\<close>

theorem polling_exact:
  assumes "records_published hc backoff pub published" "update_log hist" "published w0 = []"
    and "poll_run hc ctx backoff pub c hist w0 offset w"
  shows "published w = accepted (tg_Base c) (filter (\<lambda>u. tu_UpdateID u < offset) hist) \<and>
    (\<forall>e w'. api_answer hist offset (fst (getUpdates hc c offset w)) \<longrightarrow> poll_round hc ctx backoff pub c offset w = (Inr e, w') \<longrightarrow>
      (\<exists>n. published w' = accepted (tg_Base c) (filter (\<lambda>u. tu_UpdateID u < offset) hist @ take n (filter (\<lambda>u. offset \<le> tu_UpdateID u) hist))))"
  using poll_run_published [OF assms] poll_round_published(2) [OF assms(1,2)] by blast

text \<open>A bot with two updates, of which one is from a stranger, and a bus that takes one message.\<close>

definition demo_bot :: tg_Channel where
  "demo_bot = tg_New \<lparr>tc_Token = ''t'', tc_AllowFrom = [''5''], tc_BaseURL = []\<rparr>"

definition demo_updates :: "tgUpdate list" where
  "demo_updates = [\<lparr>tu_UpdateID = 7, tu_Message = Some \<lparr>tm_MessageID = 1, tm_From = Some 5, tm_Chat = 2, tm_Text = ''a''\<rparr>\<rparr>,
     \<lparr>tu_UpdateID = 9, tu_Message = Some \<lparr>tm_MessageID = 3, tm_From = Some 6, tm_Chat = 2, tm_Text = ''b''\<rparr>\<rparr>]"

text \<open>The body in which the Bot API sends updates.\<close>

definition id_json :: "int \<Rightarrow> json" where
  "id_json i = JObj (fld ''id'' (JNum (Itoa i)) @ [])"

definition message_json :: "tgMessage \<Rightarrow> json" where
  "message_json m = JObj (fld ''message_id'' (JNum (Itoa (tm_MessageID m))) @
     opt_fld ''from'' (tm_From m \<noteq> None) (id_json (the (tm_From m))) @
     fld ''chat'' (id_json (tm_Chat m)) @ fld ''text'' (JStr (tm_Text m)) @ [])"

definition update_json :: "tgUpdate \<Rightarrow> json" where
  "update_json u = JObj (fld ''update_id'' (JNum (Itoa (tu_UpdateID u))) @
     opt_fld ''message'' (tu_Message u \<noteq> None) (message_json (the (tu_Message u))) @ [])"

definition updates_json :: "tgUpdate list \<Rightarrow> json" where
  "updates_json us = JObj (fld ''ok'' (JBool True) @ fld ''result'' (JArr (map update_json us)) @ [])"

definition tg_message_ok :: "tgMessage \<Rightarrow> bool" where
  "tg_message_ok m \<longleftrightarrow> int64 (tm_MessageID m) \<and> pred_option int64 (tm_From m) \<and> int64 (tm_Chat m) \<and> utf8_Valid (tm_Text m)"

definition update_ok :: "tgUpdate \<Rightarrow> bool" where
  "update_ok u \<longleftrightarrow> int64 (tu_UpdateID u) \<and> pred_option tg_message_ok (tu_Message u)"

lemma api_keys [simp]:
  "ToLower ''ok'' = ''ok''" "ToLower ''result'' = ''result''" "ToLower ''description'' = ''description''" "ToLower ''id'' = ''id''"
  "ToLower ''message_id'' = ''message_id''" "ToLower ''from'' = ''from''" "ToLower ''chat'' = ''chat''" "ToLower ''text'' = ''text''"
  "ToLower ''update_id'' = ''update_id''" "ToLower ''message'' = ''message''"
  "utf8_Valid ''ok''" "utf8_Valid ''result''" "utf8_Valid ''id''" "utf8_Valid ''message_id''" "utf8_Valid ''from''" "utf8_Valid ''chat''"
  "utf8_Valid ''text''" "utf8_Valid ''update_id''" "utf8_Valid ''message''"
  by code_simp+

lemma id_json_ptr [simp]: "dec_ptr z d None (id_json i) = map_option Some (d z (id_json i))"
  by (simp add: id_json_def)

lemma message_json_ptr [simp]: "dec_ptr z d None (message_json m) = map_option Some (d z (message_json m))"
  by (simp add: message_json_def)

lemma tg_id_read [simp]: "int64 i \<Longrightarrow> dec_id z (id_json i) = Some i"
  by (simp add: dec_id_def id_json_def same_key_def)

lemma message_read [simp]: "tg_message_ok m \<Longrightarrow> dec_tgMessage zero_tgMessage (message_json m) = Some m"
  by (cases "tm_From m") (auto simp: dec_tgMessage_def message_json_def zero_tgMessage_def tg_message_ok_def same_key_def)

lemma update_read [simp]: "update_ok u \<Longrightarrow> dec_tgUpdate zero_tgUpdate (update_json u) = Some u"
  by (cases "tu_Message u") (auto simp: dec_tgUpdate_def update_json_def zero_tgUpdate_def update_ok_def same_key_def)

lemma message_json_ok: "tg_message_ok m \<Longrightarrow> json_ok (message_json m)"
  by (auto simp: message_json_def id_json_def tg_message_ok_def)

lemma update_json_ok: "update_ok u \<Longrightarrow> json_ok (update_json u)"
  by (auto simp: update_json_def update_ok_def message_json_ok)

lemma decode_first_print: "json_ok j \<Longrightarrow> decode_first z d (json_print j) = d z j"
  using json_parse_print [of j] by (auto simp: decode_first_def json_parse_def split: option.splits if_splits)

lemma updates_read:
  assumes "\<And>u. u \<in> set us \<Longrightarrow> update_ok u"
  shows "decode_first (False, [], []) (dec_envelope [] (dec_list zero_tgUpdate dec_tgUpdate)) (json_print (updates_json us)) = Some (True, [], us)"
proof -
  have "json_ok (updates_json us)" using assms update_json_ok by (simp add: updates_json_def)
  moreover have "those (map (dec_tgUpdate zero_tgUpdate) (map update_json us)) = Some us"
    using assms those_map_Some [of us "\<lambda>u. dec_tgUpdate zero_tgUpdate (update_json u)" id] by (simp add: comp_def)
  ultimately show ?thesis
    unfolding decode_first_print [OF \<open>json_ok (updates_json us)\<close>]
    by (simp add: dec_envelope_def updates_json_def same_key_def comp_def)
qed

definition demo_client :: "(nat \<times> InboundMessage list) http_client" where
  "demo_client = \<lparr>hc_NewRequest = (\<lambda>m u. None),
     hc_Do = (\<lambda>rq (n, ms). (if n = 0 then Inr \<lparr>hp_Status = 200, hp_Body = json_print (updates_json demo_updates), hp_ReadErr = None\<rparr> else Inl (Err ''closed''), (Suc n, ms)))\<rparr>"

definition demo_ctx :: "nat \<times> InboundMessage list \<Rightarrow> go_error option" where
  "demo_ctx w = (if fst w = 0 then None else Some (Err ''context canceled''))"

definition demo_wait :: "nat \<times> InboundMessage list \<Rightarrow> go_error option \<times> nat \<times> InboundMessage list" where
  "demo_wait w = (None, w)"

definition demo_pub :: "InboundMessage \<Rightarrow> nat \<times> InboundMessage list \<Rightarrow> go_error option \<times> nat \<times> InboundMessage list" where
  "demo_pub m w = (None, (fst w, snd w @ [m]))"

definition demo_message :: InboundMessage where
  "demo_message = \<lparr>in_Channel = ''telegram'', in_ChatID = ''2'', in_SenderID = ''5'', in_Text = ''a'', in_MessageID = ''1'', in_Metadata = []\<rparr>"

lemma demo_published: "records_published demo_client demo_wait demo_pub snd"
  by (simp add: records_published_def demo_client_def demo_wait_def demo_pub_def split: prod.split)

lemma demo_log: "update_log demo_updates"
  by (simp add: update_log_def demo_updates_def)

lemma update_texts: "utf8_Valid ''a''" "utf8_Valid ''b''"
  by code_simp+

lemma demo_decoded: "decode_first (False, [], []) (dec_envelope [] (dec_list zero_tgUpdate dec_tgUpdate)) (json_print (updates_json demo_updates)) = Some (True, [], demo_updates)"
  by (rule updates_read) (auto simp: demo_updates_def update_ok_def tg_message_ok_def int64_def update_texts)

lemma demo_get: "getUpdates demo_client demo_bot off (0, ms) = (Inr demo_updates, (1, ms))"
  by (simp add: getUpdates_def tg_call_def demo_client_def demo_decoded)

lemma demo_round: "poll_round demo_client demo_ctx demo_wait demo_pub demo_bot 0 (0, []) = (Inl 10, (1, [demo_message]))"
proof -
  have "handle_updates demo_pub (tg_Base demo_bot) demo_updates 0 (1, []) = ((10, None), (1, [demo_message]))" by code_simp
  then show ?thesis by (simp add: poll_round_def demo_ctx_def demo_get)
qed

theorem polling_exact_witness:
  "\<exists>w. poll_run demo_client demo_ctx demo_wait demo_pub demo_bot demo_updates (0, []) 10 w \<and>
     snd w = accepted (tg_Base demo_bot) (filter (\<lambda>u. tu_UpdateID u < 10) demo_updates) \<and> snd w = [demo_message] \<and>
     (\<exists>e w' n. poll_round demo_client demo_ctx demo_wait demo_pub demo_bot 10 w = (Inr e, w') \<and>
       snd w' = accepted (tg_Base demo_bot) (filter (\<lambda>u. tu_UpdateID u < 10) demo_updates @
         take n (filter (\<lambda>u. 10 \<le> tu_UpdateID u) demo_updates)))"
proof -
  let ?w = "(1::nat, [demo_message])"
  have "api_answer demo_updates 0 (fst (getUpdates demo_client demo_bot 0 (0, [])))"
    unfolding demo_get api_answer_def by (auto simp: demo_updates_def intro: exI [of _ 2])
  then have r: "poll_run demo_client demo_ctx demo_wait demo_pub demo_bot demo_updates (0, []) 10 ?w"
    by (rule next_poll [OF first_poll _ demo_round])
  have "snd (0::nat, [] :: InboundMessage list) = []" by simp
  note p = polling_exact [OF demo_published demo_log this r]
  have e: "poll_round demo_client demo_ctx demo_wait demo_pub demo_bot 10 ?w = (Inr (Err ''context canceled''), ?w)"
    by (simp add: poll_round_def demo_ctx_def)
  have "api_answer demo_updates 10 (fst (getUpdates demo_client demo_bot 10 ?w))"
    by (simp add: getUpdates_def tg_call_def demo_client_def api_answer_def)
  with e p have "\<exists>n. snd ?w = accepted (tg_Base demo_bot) (filter (\<lambda>u. tu_UpdateID u < 10) demo_updates @
      take n (filter (\<lambda>u. 10 \<le> tu_UpdateID u) demo_updates))" by blast
  with r e conjunct1 [OF p] show ?thesis by (intro exI [of _ ?w] conjI) auto
qed

end
