(* ===== verification/Wiring.thy ===== *)
theory Wiring
  imports Turn Val_Store Calculator Web Config Anthropic OpenAI Codex Telegram Mcp
begin

text \<open>
  How the process is put together (\<^verbatim>\<open>cmd/souz-agent/wiring.go\<close> and \<open>run\<close> of \<^verbatim>\<open>main.go\<close>): the provider, the registry of the
  local tools, the MCP clients and the channels the configuration asks for. What is outside of the program is the
  record \<open>platform\<close>.
\<close>

section \<open>The tools as the model sees them\<close>

definition calculator_Schema :: string where
  \<open>calculator_Schema = raw_lines
     [(0, ''{''),
      (2, ''"type": "object",''),
      (2, ''"properties": {''),
      (3, ''"expression": {"type": "string", "description": "Arithmetic expression, e.g. '' @ [CHR 0x5C] @ ''"128 * 453'' @ [CHR 0x5C] @ ''""}''),
      (2, ''},''),
      (2, ''"required": ["expression"]''),
      (1, ''}'')]\<close>

definition web_fetch_Schema :: string where
  \<open>web_fetch_Schema = raw_lines
     [(0, ''{''),
      (2, ''"type": "object",''),
      (2, ''"properties": {''),
      (3, ''"url": {"type": "string", "description": "Page URL, must start with http:// or https://"},''),
      (3, ''"max_chars": {"type": "integer", "description": "Cap on returned characters; defaults to 6000, '' @
         ''clamped to [500, 20000]"}''),
      (2, ''},''),
      (2, ''"required": ["url"]''),
      (1, ''}'')]\<close>

definition web_search_Schema :: string where
  \<open>web_search_Schema = raw_lines
     [(0, ''{''),
      (2, ''"type": "object",''),
      (2, ''"properties": {''),
      (3, ''"query": {"type": "string", "description": "Search query"},''),
      (3, ''"max_results": {"type": "integer", "description": "Cap on results; defaults to 5, max 10"}''),
      (2, ''},''),
      (2, ''"required": ["query"]''),
      (1, ''}'')]\<close>

definition run_skill_Schema :: string where
  \<open>run_skill_Schema = raw_lines
     [(0, ''{''),
      (2, ''"type": "object",''),
      (2, ''"properties": {''),
      (3, ''"skillId": {"type": "string", "description": "Id of an installed, approved skill"},''),
      (3, ''"runtime": {"type": "string", "enum": ["bash", "python", "node", "process"], "description": "How to '' @
         ''run this command; defaults to bash. If bash isn'' @ [CHR 0x27] @ ''t installed on this system, '' @ [CHR 0x5C] @ ''"bash'' @ [CHR 0x5C] @ ''" silently falls '' @
         ''back to sh '' @ bytes [226, 128, 148] @ '' avoid bash-only syntax (arrays, [[ ]], process substitution) unless bash is known to '' @
         ''be present"},''),
      (3, ''"script": {"type": "string", "description": "Inline script source, for runtime bash/python/node"},''),
      (3, ''"command": {"type": "array", "items": {"type": "string"}, "description": "argv, for runtime '' @
         ''process"},''),
      (3, ''"workingDirectory": {"type": "string", "description": "Directory to run in, relative to the skill'' @ [CHR 0x27] @ ''s '' @
         ''bundle root; defaults to the root"},''),
      (3, ''"environment": {"type": "object", "additionalProperties": {"type": "string"}, "description": "Extra '' @
         ''environment variables"},''),
      (3, ''"stdin": {"type": "string", "description": "Text piped to the command'' @ [CHR 0x27] @ ''s stdin"},''),
      (3, ''"timeoutMillis": {"type": "integer", "description": "Timeout in milliseconds; defaults to 60000, '' @
         ''capped at 300000"}''),
      (2, ''},''),
      (2, ''"required": ["skillId"]''),
      (1, ''}'')]\<close>

text \<open>The calculator returns for every input (\<open>Evaluate_returns\<close>); the error is never given.\<close>

definition calculator_tool :: "math_lib \<Rightarrow> 'w Tool" where
  \<open>calculator_tool ml =
     \<lparr>tl_Name = ''calculator'',
       tl_Description = ''Evaluates an arithmetic expression. Supports + - * / ^, parentheses, unary +/-, and '' @
         ''sqrt/sin/cos/tan (trig functions take degrees). Example: "(2+3)^2" -> "25".'',
       tl_Schema = calculator_Schema,
       tl_Execute = (\<lambda>args meta w. case Calculator_Execute ml args meta w of
          (None, w1) \<Rightarrow> (Inl (Err ''out of fuel''), w1) | (Some r, w1) \<Rightarrow> (r, w1))\<rparr>\<close>

text \<open>\<open>web.New\<close>: an empty \<open>SearchBaseURL\<close> is the default one.\<close>

definition web_New :: "'w web_client \<Rightarrow> (string \<Rightarrow> string) \<Rightarrow> (string \<Rightarrow> string option) \<Rightarrow> string \<Rightarrow> 'w Tool list" where
  \<open>web_New wc unescape uddg baseURL =
     (let baseURL = (if baseURL = [] then defaultSearchBaseURL else baseURL)
      in [\<lparr>tl_Name = ''web_fetch'',
           tl_Description = ''Fetches a web page over HTTP(S) and returns its visible text content, HTML tags stripped.'',
           tl_Schema = web_fetch_Schema, tl_Execute = (\<lambda>args _. Fetch_Execute wc unescape args)\<rparr>,
          \<lparr>tl_Name = ''web_search'',
           tl_Description = ''Searches the web (via DuckDuckGo) and returns matching titles, URLs, and snippets.'',
           tl_Schema = web_search_Schema, tl_Execute = (\<lambda>args _. Search_Execute wc unescape uddg baseURL args)\<rparr>])\<close>

definition run_skill_tool :: "run_config \<Rightarrow> exec_env \<Rightarrow> fs Tool" where
  \<open>run_skill_tool cfg xe =
     \<lparr>tl_Name = ''RunSkillCommand'',
       tl_Description = ''Runs a script or command for one of the skills active this turn, in a subprocess confined to that '' @
         ''skill'' @ [CHR 0x27] @ ''s directory. Use only for files or instructions from active skills, and only when a skill '' @
         ''explicitly needs command execution. Do not use this tool just to list, inspect, or browse skill '' @
         ''bundle files. Do not call it for instruction-only/template-only skills that can be followed '' @
         ''directly from the system prompt.'',
       tl_Schema = run_skill_Schema, tl_Execute = RunSkill_Execute cfg xe\<rparr>\<close>

text \<open>A tool that works on the file system of the world.\<close>

definition on_disk :: "fs Tool \<Rightarrow> 'w session_world_scheme Tool" where
  "on_disk t = \<lparr>tl_Name = tl_Name t, tl_Description = tl_Description t, tl_Schema = tl_Schema t,
     tl_Execute = (\<lambda>args meta w. case tl_Execute t args meta (sw_fs w) of (r, fs') \<Rightarrow> (r, w\<lparr>sw_fs := fs'\<rparr>))\<rparr>"

section \<open>The platform\<close>

text \<open>
  A connection to an MCP server: starting it, its calls, and closing it. \<open>Stdio\<close> and \<open>HTTPSSE\<close> are the two transports
  with the arguments they are made with.
\<close>

datatype transport = Stdio string "string list" | HTTPSSE string

record 'w mcp_conn =
  mk_Start :: "'w \<Rightarrow> go_error option \<times> 'w"
  mk_calls :: "'w mcp_calls"
  mk_Close :: "'w \<Rightarrow> go_error option \<times> 'w"

record 'w platform =
  pf_cwd :: path
  pf_http :: "'w session_world_scheme http_client"
  pf_web :: "'w session_world_scheme web_client"
  pf_unescape :: "string \<Rightarrow> string"
  pf_uddg :: "string \<Rightarrow> string option"
  pf_math :: math_lib
  pf_float_text :: "rat \<Rightarrow> string"
  pf_exec :: exec_env
  pf_sha256 :: "string \<Rightarrow> string"
  pf_write :: write_fault
  pf_NewClient :: "transport \<Rightarrow> 'w session_world_scheme mcp_conn"

section \<open>wiring.go\<close>

text \<open>A path below the data directory.\<close>

definition data_path :: "path \<Rightarrow> Config \<Rightarrow> string \<Rightarrow> path" where
  "data_path cwd cfg nm = filepath_Abs cwd (filepath_Join (cg_DataDir cfg) [nm])"

definition codexTokenPath :: "path \<Rightarrow> Config \<Rightarrow> path" where
  "codexTokenPath cwd cfg = data_path cwd cfg ''codex-token.json''"

definition buildProvider :: "'w platform \<Rightarrow> Config \<Rightarrow> 'w session_world_scheme LLMProvider result" where
  \<open>buildProvider pf cfg =
     (if cg_Provider cfg = ''anthropic'' then
        (let p = \<lparr>ap_APIKey = secure_Value (pc_APIKey (cg_Anthropic cfg)), ap_BaseURL = pc_BaseURL (cg_Anthropic cfg)\<rparr>
         in Inr \<lparr>Chat = anth_Chat p (pf_http pf) (pf_float_text pf), ChatStream = anth_ChatStream p (pf_http pf) (pf_float_text pf)\<rparr>)
      else if cg_Provider cfg = ''openai_compat'' then
        (let p = \<lparr>op_APIKey = secure_Value (pc_APIKey (cg_OpenAICompat cfg)), op_BaseURL = pc_BaseURL (cg_OpenAICompat cfg)\<rparr>
         in Inr \<lparr>Chat = oai_Chat p (pf_http pf) (pf_float_text pf), ChatStream = oai_ChatStream p (pf_http pf) (pf_float_text pf)\<rparr>)
      else if cg_Provider cfg = ''codex'' then Inr (codex_provider (codexTokenPath (pf_cwd pf) cfg) (pf_http pf))
      else Inl (Err (''unknown provider '' @ quote (cg_Provider cfg) @ '' (expected "anthropic", "openai_compat", or "codex")'')))\<close>

definition skill_run_config :: "'w platform \<Rightarrow> Config \<Rightarrow> run_config" where
  "skill_run_config pf cfg = \<lparr>rc_sha256 = pf_sha256 pf, rc_policy = bundle_DefaultPolicy,
     rc_registry = data_path (pf_cwd pf) cfg ''skills'', rc_store = data_path (pf_cwd pf) cfg ''skill-validations'',
     rc_PolicyVersion = p_Version DefaultPolicy\<rparr>"

definition buildToolRegistry :: "'w platform \<Rightarrow> Config \<Rightarrow> fs \<Rightarrow> (string \<times> 'w session_world_scheme Tool) list" where
  "buildToolRegistry pf cfg fs =
     NewRegistry
       [[calculator_tool (pf_math pf)] @
        (if to_WebEnabled (cg_Tools cfg) then web_New (pf_web pf) (pf_unescape pf) (pf_uddg pf) [] else []) @
        (if to_FilesRoot (cg_Tools cfg) \<noteq> [] then
           (case files_New (pf_write pf) (pf_cwd pf) (to_FilesRoot (cg_Tools cfg)) fs of
              Inl e \<Rightarrow> [] | Inr fileTools \<Rightarrow> map on_disk fileTools)
         else []) @
        (if cg_SkillsEnabled cfg then [on_disk (run_skill_tool (skill_run_config pf cfg) (pf_exec pf))] else [])]"

definition transport_of :: "MCPServerConfig \<Rightarrow> transport option" where
  "transport_of sc =
     (if ms_Transport sc = ''stdio'' then Some (Stdio (ms_Command sc) (ms_Args sc))
      else if ms_Transport sc = ''http_sse'' then Some (HTTPSSE (ms_URL sc)) else None)"

definition agentVersion :: string where
  "agentVersion = ''0.1.0''"

text \<open>One server: connected, or skipped.\<close>

definition connect_server ::
  "(transport \<Rightarrow> 'w mcp_conn) \<Rightarrow> MCPServerConfig \<Rightarrow> 'w \<Rightarrow> 'w mcp_conn option \<times> 'w" where
  "connect_server newClient sc w =
     (case transport_of sc of
        None \<Rightarrow> (None, w)
      | Some t \<Rightarrow>
          (case mk_Start (newClient t) w of
             (Some e, w1) \<Rightarrow> (None, w1)
           | (None, w1) \<Rightarrow>
               (case Initialize (mk_calls (newClient t)) ''souz-agent'' agentVersion w1 of
                  (Inl e, w2) \<Rightarrow> (None, snd (mk_Close (newClient t) w2))
                | (Inr _, w2) \<Rightarrow> (Some (newClient t), w2))))"

fun connect_servers ::
  "(transport \<Rightarrow> 'w mcp_conn) \<Rightarrow> MCPServerConfig list \<Rightarrow> (string \<times> 'w mcp_conn) list \<Rightarrow> 'w \<Rightarrow> (string \<times> 'w mcp_conn) list \<times> 'w" where
  "connect_servers newClient [] clients w = (clients, w)"
| "connect_servers newClient (sc # scs) clients w =
     (case connect_server newClient sc w of
        (None, w1) \<Rightarrow> connect_servers newClient scs clients w1
      | (Some c, w1) \<Rightarrow> connect_servers newClient scs (put (ms_Name sc) c clients) w1)"

definition buildMCPClients :: "'w platform \<Rightarrow> Config \<Rightarrow> 'w session_world_scheme \<Rightarrow> (string \<times> 'w session_world_scheme mcp_conn) list \<times> 'w session_world_scheme" where
  "buildMCPClients pf cfg w = connect_servers (pf_NewClient pf) (cg_MCP cfg) [] w"

text \<open>The order of a Go map is any; here it is that of the list, which the theorem below does not depend on.\<close>

fun closeMCPClients :: "(string \<times> 'w mcp_conn) list \<Rightarrow> 'w \<Rightarrow> 'w" where
  "closeMCPClients [] w = w"
| "closeMCPClients ((name, c) # cs) w = closeMCPClients cs (snd (mk_Close c w))"

text \<open>\<open>repeats\<close>: the background of the typing indicator.\<close>

definition buildChannels ::
  "'w platform \<Rightarrow> (string \<Rightarrow> ('w session_world_scheme \<Rightarrow> 'w session_world_scheme) \<times> ('w session_world_scheme \<Rightarrow> 'w session_world_scheme)) \<Rightarrow>
   Config \<Rightarrow> (string \<times> 'w session_world_scheme channel) list" where
  "buildChannels pf repeats cfg =
     (if tg_Enabled (cg_Telegram cfg) then
        (let ch = tg_New \<lparr>tc_Token = secure_Value (tg_Token (cg_Telegram cfg)), tc_AllowFrom = tg_AllowFrom (cg_Telegram cfg), tc_BaseURL = []\<rparr>
         in [(bc_name (tg_Base ch), tg_channel (pf_http pf) repeats ch)])
      else [])"

section \<open>main.go: run\<close>

text \<open>The catalog of skills and the store of verdicts on the disk, as the graph nodes call them. \<open>ff\<close> is how a float64 is printed.\<close>

definition disk_registry :: "run_config \<Rightarrow> 'w session_world_scheme Registry" where
  "disk_registry rc = \<lparr>rg_ListSkills = (\<lambda>w. ListSkills (rc_sha256 rc) (rc_policy rc) (rc_registry rc) (sw_fs w)),
     rg_LoadSkillBundle = (\<lambda>skillID hash w. LoadSkillBundle (rc_sha256 rc) (rc_policy rc) (rc_registry rc) skillID hash (sw_fs w))\<rparr>"

definition disk_store :: "(float64 \<Rightarrow> string) \<Rightarrow> write_fault \<Rightarrow> path \<Rightarrow> 'w session_world_scheme ValidationStore" where
  "disk_store ff fault rt = \<lparr>
     vs_InvalidateOthers = (\<lambda>skillID version hash w. w\<lparr>sw_fs := snd (InvalidateOthers ff (\<lambda>_. fault) rt skillID version hash (sw_fs w))\<rparr>),
     vs_Get = (\<lambda>skillID version hash w. vstore_Get rt skillID version hash (sw_fs w)),
     vs_Save = (\<lambda>rec w. w\<lparr>sw_fs := snd (vstore_Save ff fault rt rec (sw_fs w))\<rparr>)\<rparr>"

definition run_skills_config ::
  "'w platform \<Rightarrow> (float64 \<Rightarrow> string) \<Rightarrow> Config \<Rightarrow> 'w session_world_scheme LLMProvider \<Rightarrow> 'w session_world_scheme SkillsConfig" where
  "run_skills_config pf ff cfg provider =
     (if cg_SkillsEnabled cfg then
        (let rc = skill_run_config pf cfg
         in \<lparr>sc_Provider = Some provider, sc_Registry = Some (disk_registry rc),
             sc_ValidationStore = Some (disk_store ff (pf_write pf) (rc_store rc)),
             sc_Policy = DefaultPolicy, sc_Model = cg_Model cfg\<rparr>)
      else \<lparr>sc_Provider = None, sc_Registry = None, sc_ValidationStore = None,
             sc_Policy = \<lparr>p_Version = 0, p_MinApprovalConfidence = mk_float False 0, p_ExcerptCharsPerFile = 0, p_MaxSkillMarkdownChars = 0\<rparr>,
             sc_Model = []\<rparr>)"

text \<open>What \<open>run\<close> starts its loops with. \<open>base\<close> has what the graph nodes take from elsewhere: the clock, the prompts.\<close>

record 'w started =
  rn_Executor :: "(node_id, 'w session_world_scheme) Executor"
  rn_Settings :: AgentSettings
  rn_Store :: path
  rn_SystemPrompt :: string
  rn_channels :: "(string \<times> 'w session_world_scheme channel) list"
  rn_clients :: "(string \<times> 'w session_world_scheme mcp_conn) list"
  rn_HTTP :: "string option"

definition run_start ::
  "'w platform \<Rightarrow> (float64 \<Rightarrow> string) \<Rightarrow> 'w session_world_scheme turn_env \<Rightarrow>
   (string \<Rightarrow> ('w session_world_scheme \<Rightarrow> 'w session_world_scheme) \<times> ('w session_world_scheme \<Rightarrow> 'w session_world_scheme)) \<Rightarrow>
   Config \<Rightarrow> 'w session_world_scheme \<Rightarrow> 'w started result \<times> 'w session_world_scheme" where
  "run_start pf ff base repeats cfg w =
     (case buildProvider pf cfg of
        Inl e \<Rightarrow> (Inl (Wrap ''provider: '' e []), w)
      | Inr provider \<Rightarrow>
          (let toolRegistry = buildToolRegistry pf cfg (sw_fs w);
               (mcpClients, w1) = buildMCPClients pf cfg w;
               env = base\<lparr>te_provider := provider, te_registry := toolRegistry,
                 te_mcpClients := map (\<lambda>(n, c). (n, calls_client (mk_calls c))) mcpClients,
                 te_skillsCfg := run_skills_config pf ff cfg provider\<rparr>;
               turnHooks = \<lparr>TurnStartScript = hk_TurnStartScript (cg_Hooks cfg), TurnEndScript = hk_TurnEndScript (cg_Hooks cfg)\<rparr>
           in (Inr \<lparr>rn_Executor = turn_executor env (Some turnHooks),
                    rn_Settings = \<lparr>st_Model = cg_Model cfg, st_Temperature = cg_Temperature cfg,
                      st_MaxTokens = cg_MaxTokens cfg, st_ContextSize = cg_ContextSize cfg\<rparr>,
                    rn_Store = data_path (pf_cwd pf) cfg ''sessions'',
                    rn_SystemPrompt = cg_SystemPrompt cfg,
                    rn_channels = buildChannels pf repeats cfg,
                    rn_clients = mcpClients,
                    rn_HTTP = (if ht_Enabled (cg_HTTP cfg) then Some (ht_Addr (cg_HTTP cfg)) else None)\<rparr>, w1)))"

text \<open>The loops over the messages of the channels run in this environment.\<close>

definition run_loop_env ::
  "(OutboundMessage \<Rightarrow> 'w session_world_scheme \<Rightarrow> go_error option \<times> 'w session_world_scheme) \<Rightarrow>
   (string \<Rightarrow> 'w session_world_scheme \<Rightarrow> 'w session_world_scheme) \<Rightarrow> ('w session_world_scheme \<Rightarrow> go_error option) \<Rightarrow>
   'w started \<Rightarrow> (node_id, 'w) loop_env" where
  "run_loop_env publish launch ctx rn =
     \<lparr>lp_Executor = rn_Executor rn, lp_Store = rn_Store rn, lp_Settings = rn_Settings rn,
      lp_SystemPrompt = rn_SystemPrompt rn, lp_channels = rn_channels rn, lp_Publish = publish, lp_launch = launch, lp_ctx = ctx\<rparr>"

section \<open>The tools of a configuration\<close>

lemma NewRegistry_single: "dom (map_of (NewRegistry [ts])) = set (map tl_Name ts)"
proof -
  have "map_of (NewRegistry [ts]) n \<noteq> None \<longleftrightarrow> n \<in> set (map tl_Name ts)" for n
    by (auto simp: NewRegistry_lookup find_None_iff)
  then show ?thesis by (auto simp: dom_def)
qed

definition files_names :: "string set" where
  "files_names = {''read_file'', ''list_files'', ''write_file'', ''search_files''}"

lemma files_New_names: "files_New fault cwd rt fs = Inr ts \<Longrightarrow> set (map tl_Name (map on_disk ts)) = files_names"
  by (auto simp: files_New_def files_tools_def on_disk_def files_names_def map_sum_def split: sum.splits)

lemma sandbox_names:
  "set (map tl_Name (case files_New fault cwd rt fs of Inl e \<Rightarrow> [] | Inr ts \<Rightarrow> map on_disk ts)) =
     (if \<exists>sb. newSandbox cwd rt fs = Inr sb then files_names else {})"
proof (cases "newSandbox cwd rt fs")
  case (Inr sb)
  then have "files_New fault cwd rt fs = Inr (files_tools fault sb)" by (simp add: files_New_def)
  with files_New_names [OF this] Inr show ?thesis by simp
qed (simp add: files_New_def)

lemma web_names: "set (map tl_Name (web_New wc unescape uddg baseURL)) = {''web_fetch'', ''web_search''}"
  by (simp add: web_New_def Let_def)

text \<open>
  The registry has the calculator, and of the other tools those the configuration asks for: no file tool without a
  root that can be used as a sandbox, no command without the skills, nothing from the web unless it is enabled.
\<close>

theorem local_tools:
  "dom (map_of (buildToolRegistry pf cfg fs)) =
     {''calculator''} \<union>
     (if to_WebEnabled (cg_Tools cfg) then {''web_fetch'', ''web_search''} else {}) \<union>
     (if to_FilesRoot (cg_Tools cfg) \<noteq> [] \<and> (\<exists>sb. newSandbox (pf_cwd pf) (to_FilesRoot (cg_Tools cfg)) fs = Inr sb) then files_names else {}) \<union>
     (if cg_SkillsEnabled cfg then {''RunSkillCommand''} else {})"
  unfolding buildToolRegistry_def NewRegistry_single map_append set_append
  by (simp add: web_names sandbox_names calculator_tool_def on_disk_def run_skill_tool_def del: set_map)

section \<open>The MCP servers of a run\<close>

text \<open>
  \<open>opened\<close> and \<open>shut\<close> count the servers that were started and closed, by transport: starting one that succeeds adds to the
  first, closing one to the second, and calls change neither.
\<close>

definition counts_servers :: "(transport \<Rightarrow> 'w mcp_conn) \<Rightarrow> ('w \<Rightarrow> transport multiset) \<Rightarrow> ('w \<Rightarrow> transport multiset) \<Rightarrow> bool" where
  "counts_servers newClient opened shut \<longleftrightarrow>
     (\<forall>t w. opened (snd (mk_Start (newClient t) w)) = opened w + (if fst (mk_Start (newClient t) w) = None then {#t#} else {#}) \<and>
        shut (snd (mk_Start (newClient t) w)) = shut w \<and>
        opened (snd (mk_Close (newClient t) w)) = opened w \<and> shut (snd (mk_Close (newClient t) w)) = shut w + {#t#} \<and>
        (\<forall>m p. opened (snd (cl_call (mk_calls (newClient t)) m p w)) = opened w \<and> shut (snd (cl_call (mk_calls (newClient t)) m p w)) = shut w) \<and>
        (\<forall>s. opened (snd (cl_send (mk_calls (newClient t)) s w)) = opened w \<and> shut (snd (cl_send (mk_calls (newClient t)) s w)) = shut w))"

lemma Initialize_counts:
  assumes "counts_servers newClient opened shut" "Initialize (mk_calls (newClient t)) n v w = (r, w')"
  shows "opened w' = opened w \<and> shut w' = shut w"
proof -
  let ?c = "mk_calls (newClient t)"
  have call: "cl_call ?c m p w = (x, w1) \<Longrightarrow> opened w1 = opened w \<and> shut w1 = shut w" for m p w x w1
    using assms(1) unfolding counts_servers_def by (metis snd_conv)
  have send: "cl_send ?c s w = (x, w1) \<Longrightarrow> opened w1 = opened w \<and> shut w1 = shut w" for s w x w1
    using assms(1) unfolding counts_servers_def by (metis snd_conv)
  obtain x w1 where x: "cl_call ?c ''initialize'' (Some (Inr (initialize_params n v))) w = (x, w1)" by fastforce
  have n: "notify ?c m None w1 = (y, w2) \<Longrightarrow> opened w2 = opened w1 \<and> shut w2 = shut w1" for m y w2
    by (auto simp: notify_def split: sum.split_asm dest: send)
  show ?thesis
    using assms(2) call [OF x] n by (auto simp: Initialize_def x split: sum.split_asm prod.split_asm option.split_asm)
qed

lemma connect_server_counts:
  assumes "counts_servers newClient opened shut" "connect_server newClient sc w = (r, w')"
  shows "\<exists>ts. (case r of None \<Rightarrow> ts = [] | Some c \<Rightarrow> \<exists>t. ts = [t] \<and> c = newClient t) \<and> opened w' + shut w = shut w' + opened w + mset ts"
proof (cases "transport_of sc")
  case None
  then show ?thesis using assms(2) by (auto simp: connect_server_def intro: exI [of _ "[]"])
next
  case (Some t)
  have law: "opened (snd (mk_Start (newClient t) w)) = opened w + (if fst (mk_Start (newClient t) w) = None then {#t#} else {#})"
    "shut (snd (mk_Start (newClient t) w)) = shut w" "\<And>w. opened (snd (mk_Close (newClient t) w)) = opened w"
    "\<And>w. shut (snd (mk_Close (newClient t) w)) = shut w + {#t#}"
    using assms(1) unfolding counts_servers_def by blast+
  obtain e w1 where s: "mk_Start (newClient t) w = (e, w1)" by fastforce
  show ?thesis
  proof (cases e)
    case (Some e')
    then show ?thesis using assms(2) law(1,2) s \<open>transport_of sc = Some t\<close> by (auto simp: connect_server_def intro: exI [of _ "[]"])
  next
    case None
    obtain i w2 where i: "Initialize (mk_calls (newClient t)) ''souz-agent'' agentVersion w1 = (i, w2)" by fastforce
    note c = Initialize_counts [OF assms(1) i]
    show ?thesis
    proof (cases i)
      case (Inl e')
      then show ?thesis using assms(2) law s None i c Some by (auto simp: connect_server_def intro: exI [of _ "[]"])
    next
      case (Inr x)
      then show ?thesis using assms(2) law s None i c Some by (auto simp: connect_server_def intro: exI [of _ "[t]"])
    qed
  qed
qed

lemma put_fresh: "k \<notin> fst ` set m \<Longrightarrow> put k v m = m @ [(k, v)]"
  by (induction m) auto

lemma connect_servers_counts:
  assumes "counts_servers newClient opened shut"
  shows "\<lbrakk>connect_servers newClient scs clients w = (cs, w'); distinct (map ms_Name scs); fst ` set clients \<inter> ms_Name ` set scs = {}\<rbrakk> \<Longrightarrow>
    \<exists>ts. map snd cs = map snd clients @ map newClient ts \<and> opened w' + shut w = shut w' + opened w + mset ts"
proof (induction scs arbitrary: clients w)
  case (Cons sc scs)
  obtain r w1 where r: "connect_server newClient sc w = (r, w1)" by fastforce
  obtain t1 where t1: "case r of None \<Rightarrow> t1 = [] | Some c \<Rightarrow> \<exists>t. t1 = [t] \<and> c = newClient t" "opened w1 + shut w = shut w1 + opened w + mset t1"
    using connect_server_counts [OF assms r] by blast
  let ?cl = "case r of None \<Rightarrow> clients | Some c \<Rightarrow> clients @ [(ms_Name sc, c)]"
  have "ms_Name sc \<notin> fst ` set clients" using Cons.prems(3) by auto
  then have "connect_servers newClient scs ?cl w1 = (cs, w')" using Cons.prems(1) r by (auto simp: put_fresh split: option.split)
  moreover have "fst ` set ?cl \<inter> ms_Name ` set scs = {}" using Cons.prems(2,3) by (auto split: option.splits)
  moreover have "distinct (map ms_Name scs)" using Cons.prems(2) by simp
  ultimately obtain ts where ts: "map snd cs = map snd ?cl @ map newClient ts" "opened w' + shut w1 = shut w' + opened w1 + mset ts"
    using Cons.IH by blast
  have "opened w' + shut w = shut w' + opened w + mset (t1 @ ts)"
  proof -
    have "(opened w' + shut w) + (shut w1 + opened w1) = (opened w' + shut w1) + (opened w1 + shut w)" by (simp add: ac_simps)
    also have "\<dots> = (shut w' + opened w1 + mset ts) + (shut w1 + opened w + mset t1)" using ts(2) t1(2) by simp
    also have "\<dots> = (shut w' + opened w + mset (t1 @ ts)) + (shut w1 + opened w1)" by (simp add: ac_simps)
    finally show ?thesis by (metis add_right_cancel)
  qed
  moreover have "map snd cs = map snd clients @ map newClient (t1 @ ts)" using ts(1) t1(1) by (auto split: option.splits)
  ultimately show ?case by blast
qed auto

lemma closeMCPClients_counts:
  assumes "counts_servers newClient opened shut"
  shows "map snd cs = map newClient ts \<Longrightarrow> opened (closeMCPClients cs w) = opened w \<and> shut (closeMCPClients cs w) = shut w + mset ts"
proof (induction cs arbitrary: ts w)
  case (Cons c cs)
  then obtain t ts' where ts: "ts = t # ts'" by (cases ts) auto
  then have c: "snd c = newClient t" "map snd cs = map newClient ts'" using Cons.prems by auto
  have "opened (snd (mk_Close (newClient t) w)) = opened w \<and> shut (snd (mk_Close (newClient t) w)) = shut w + {#t#}"
    using assms unfolding counts_servers_def by blast
  with Cons.IH [OF c(2), of "snd (mk_Close (newClient t) w)"] c(1) ts show ?case by (cases c) simp
qed simp

lemma reorder_map: "mset xs = image_mset f (mset ts) \<Longrightarrow> \<exists>us. xs = map f us \<and> mset us = mset ts"
proof (induction xs arbitrary: ts)
  case (Cons x xs)
  have "add_mset x (mset xs) = image_mset f (mset ts)" using Cons.prems by simp
  then obtain t M where t: "mset ts = add_mset t M" "f t = x" "image_mset f M = mset xs"
    by (metis msed_map_invR)
  obtain vs where vs: "mset vs = M" using ex_mset by blast
  then obtain us where us: "xs = map f us" "mset us = mset vs" using Cons.IH [of vs] t(3) by auto
  then show ?case using t vs by (intro exI [of _ "t # us"]) simp
qed simp

text \<open>
  C27: When no two servers have the same name, every MCP server that was started is closed exactly once by the end of
  the process: at once when it does not initialize, and otherwise by \<open>closeMCPClients\<close>, in whatever order it goes over
  its map.
\<close>

theorem mcp_servers_closed:
  assumes "counts_servers newClient opened shut" "distinct (map ms_Name scs)" "connect_servers newClient scs [] w = (cs, w1)" "mset cs' = mset cs"
  shows "opened (closeMCPClients cs' w1) + shut w = shut (closeMCPClients cs' w1) + opened w"
proof -
  obtain ts where ts: "map snd cs = map newClient ts" "opened w1 + shut w = shut w1 + opened w + mset ts"
    using connect_servers_counts [OF assms(1,3,2)] by auto
  have "mset (map snd cs') = image_mset newClient (mset ts)" using assms(4) ts(1) by (metis mset_map)
  then obtain us where us: "map snd cs' = map newClient us" "mset us = mset ts" using reorder_map by blast
  show ?thesis using closeMCPClients_counts [OF assms(1) us(1), of w1] ts(2) us(2) by (simp add: ac_simps)
qed

text \<open>Servers that start and answer \<open>initialize\<close>; the world is what was started and what was closed.\<close>

definition demo_conn :: "transport \<Rightarrow> (transport multiset \<times> transport multiset) mcp_conn" where
  "demo_conn t = \<lparr>mk_Start = (\<lambda>w. (None, fst w + {#t#}, snd w)),
     mk_calls = \<lparr>cl_call = (\<lambda>m p w. (Inr ''{}'', w)), cl_send = (\<lambda>s w. (None, w))\<rparr>,
     mk_Close = (\<lambda>w. (None, fst w, snd w + {#t#}))\<rparr>"

definition server_entry :: "string \<Rightarrow> string \<Rightarrow> MCPServerConfig" where
  "server_entry nm cmd = \<lparr>ms_Name = nm, ms_Transport = ''stdio'', ms_Command = cmd, ms_Args = [], ms_URL = []\<rparr>"

lemma demo_counts: "counts_servers demo_conn fst snd"
  by (simp add: counts_servers_def demo_conn_def)

lemma demo_initialized: "Initialize (mk_calls (demo_conn t)) ''souz-agent'' agentVersion w = (Inr \<lparr>in_ProtocolVersion = [], in_Name = [], in_Version = [], in_Capabilities = []\<rparr>, w)"
proof -
  have d: "decode_result ''initialize'' \<lparr>in_ProtocolVersion = [], in_Name = [], in_Version = [], in_Capabilities = []\<rparr> dec_InitializeResult (Inr ''{}'') =
      Inr \<lparr>in_ProtocolVersion = [], in_Name = [], in_Version = [], in_Capabilities = []\<rparr>" by code_simp
  have n: "\<exists>s. newNotification ''notifications/initialized'' None = Inr s" by (simp add: newNotification_def marshalParams_def)
  show ?thesis using d n by (auto simp: Initialize_def demo_conn_def notify_def)
qed

lemma demo_connected:
  "connect_servers demo_conn [server_entry ''a'' ''x'', server_entry ''b'' ''y''] [] ({#}, {#}) =
     ([(''a'', demo_conn (Stdio ''x'' [])), (''b'', demo_conn (Stdio ''y'' []))], ({#Stdio ''x'' [], Stdio ''y'' []#}, {#}))"
proof -
  have "mk_Start (demo_conn t) w = (None, fst w + {#t#}, snd w)" for t w by (simp add: demo_conn_def)
  then show ?thesis by (simp add: connect_server_def transport_of_def server_entry_def demo_initialized)
qed

theorem mcp_servers_closed_witness:
  "fst (closeMCPClients [(''b'', demo_conn (Stdio ''y'' [])), (''a'', demo_conn (Stdio ''x'' []))] ({#Stdio ''x'' [], Stdio ''y'' []#}, {#})) =
   snd (closeMCPClients [(''b'', demo_conn (Stdio ''y'' [])), (''a'', demo_conn (Stdio ''x'' []))] ({#Stdio ''x'' [], Stdio ''y'' []#}, {#}))"
  using mcp_servers_closed [OF demo_counts _ demo_connected, of "[(''b'', demo_conn (Stdio ''y'' [])), (''a'', demo_conn (Stdio ''x'' []))]"]
  by (simp add: server_entry_def)

text \<open>Two servers of one name: both are started, and one is closed.\<close>

lemma same_name_left_open:
  "let (cs, w1) = connect_servers demo_conn [server_entry ''a'' ''x'', server_entry ''a'' ''y''] [] ({#}, {#})
   in fst (closeMCPClients cs w1) = {#Stdio ''x'' [], Stdio ''y'' []#} \<and> snd (closeMCPClients cs w1) = {#Stdio ''y'' []#}"
proof -
  have "mk_Start (demo_conn t) w = (None, fst w + {#t#}, snd w)" "mk_Close (demo_conn t) w = (None, fst w, snd w + {#t#})" for t w
    by (simp_all add: demo_conn_def)
  then show ?thesis by (simp add: connect_server_def transport_of_def server_entry_def demo_initialized)
qed

section \<open>Starting\<close>

lemma buildProvider_known:
  "(\<exists>p. buildProvider pf cfg = Inr p) \<longleftrightarrow> cg_Provider cfg \<in> {''anthropic'', ''openai_compat'', ''codex''}"
  by (simp add: buildProvider_def Let_def)


end
