(* ===== verification/Spec2Isabelle.thy ===== *)
theory Spec2Isabelle
  imports Http_Turns Mcp_Client Registry Inbound Wiring
begin

text \<open>
  A verification development of souz-go, a personal agent written in Go: a process that takes messages of a
  user from an HTTP server or a chat channel, lets a language model work on them with tools, skills and MCP servers,
  and keeps the chats on disk. All paths below are relative to \<^verbatim>\<open>src/\<close>.

  \<^bold>\<open>The program and how its parts interact.\<close>
  \<^verbatim>\<open>cmd/souz-agent\<close> reads a configuration (\<^verbatim>\<open>pkg/config\<close>), builds a model provider (\<^verbatim>\<open>pkg/providers\<close>), the registry of
  tools (\<^verbatim>\<open>pkg/tools\<close>), the MCP clients (\<^verbatim>\<open>pkg/mcp\<close>) and the channels (\<^verbatim>\<open>pkg/channels\<close>), and one executor
  (\<^verbatim>\<open>pkg/agent\<close>). A message reaches the executor from the HTTP server (\<^verbatim>\<open>pkg/http\<close>) or, through the message bus
  (\<^verbatim>\<open>pkg/bus\<close>), from a channel; both load the chat from the session store (\<^verbatim>\<open>pkg/storage\<close>), run one turn and save
  it. A turn is a run of the graph of \<^verbatim>\<open>pkg/agent/nodes\<close> by the generic runner of \<^verbatim>\<open>pkg/graph\<close>: classify the
  input, connect the MCP tools, select and approve skills (\<^verbatim>\<open>pkg/skills\<close>), enrich the history, then model and tools
  by turns, then summarize. Skills are bundles of files installed by the registry, reviewed by a pipeline of static
  checks and a model call, and run by a tool as subprocesses.

  \<^bold>\<open>The modelling conventions.\<close>
  A Go struct is a record, an interface the record of its operations, an error a value of \<open>go_error\<close>, a fallible
  call returns \<open>Inl error\<close> or \<open>Inr value\<close>. Effects are passed as a state: the file tree \<open>fs\<close> where only files
  matter, a world that is a type parameter where the code calls something it does not own (a model, a tool, a
  server), and the record \<open>session_world\<close> (files, clock readings, random draws, faults to come) in the two front
  ends. Concurrency is a step relation over all interleavings of the atomic actions of goroutines. A Go string is a
  list of bytes. An \<open>int\<close> of Go is an \<open>int\<close> without bounds where the code only counts, and a value out of range is refused
  where it is read from outside (JSON, \<^verbatim>\<open>strconv\<close>).

  \<^bold>\<open>The theories.\<close>
  \<^item> Prelude (errors, \<^verbatim>\<open>strings\<close>, \<^verbatim>\<open>strconv\<close>, maps), Json and JsonText (\<^verbatim>\<open>encoding/json\<close> and \<^verbatim>\<open>unicode/utf8\<close>: parser,
    printers, decoding, and the round trip of the printers), Codec (the structs of \<^verbatim>\<open>pkg/providers/types.go\<close> along
    their JSON tags), Clock (\<^verbatim>\<open>time.Time\<close>), Float64 (binary64 arithmetic), Regex (\<^verbatim>\<open>regexp\<close>), Fs (a Unix file tree
    with symbolic links, \<^verbatim>\<open>os\<close> and \<^verbatim>\<open>path/filepath\<close>), Http_Client, Sse and Frames (lines, Server-Sent Events) are what
    the source uses of Go's library, each written for the functions the source calls.
  \<^item> Graph: \<^verbatim>\<open>pkg/graph\<close>. The work queue with step limit, retries, cancellation and observer, and an abstract machine
    without limits that it refines; the number of executions is bounded.
  \<^item> Providers and Agent: \<^verbatim>\<open>pkg/providers/types.go\<close>, \<^verbatim>\<open>pkg/agent/context.go\<close>, \<^verbatim>\<open>executor.go\<close>, \<^verbatim>\<open>pkg/hooks\<close>.
  \<^item> Tools, Calculator, Files, RunSkill, Web: \<^verbatim>\<open>pkg/tools\<close>. The registry and argument readers; the recursive-descent
    calculator, total; the sandbox and the four file tools, which stay inside the root; the tool that runs a skill,
    for approved skills only; a page as text, fetch and search with their limits.
  \<^item> Nodes, SkillsNode, Turn: \<^verbatim>\<open>pkg/agent/nodes\<close>. Each node as the function it wraps, then \<open>BuildGraph\<close>; a turn
    equals a straight program, keeps tool calls answered and grants approved skills only.
  \<^item> Bundle, Bundle_Dir, Registry, Selection, Validation, Val_Store: \<^verbatim>\<open>pkg/skills\<close>. The frontmatter and its
    round trip, bundles with their hash and paths, the walk that loads exactly the files of a directory, the catalog and
    installation, the model call that selects, the pipeline that approves and fails closed, the verdicts on disk.
  \<^item> Keyed_Store and Storage: the contract of the file stores as a locale, and \<^verbatim>\<open>pkg/storage/storage.go\<close> with its atomic
    saves, round trip and deletion. Storage and Val_Store interpret the locale.
  \<^item> Anthropic, OpenAI, Codex_Auth, Codex: \<^verbatim>\<open>pkg/providers/anthropic\<close>, \<^verbatim>\<open>openai_compat\<close>, \<^verbatim>\<open>codex\<close>. Requests, whole
    answers, streams and what they assemble, the account and its token file, which a failed refresh keeps.
  \<^item> Bus: \<^verbatim>\<open>pkg/bus\<close> and \<^verbatim>\<open>pkg/channels/channel.go\<close>, as a step relation: order and bounds of the buffers, and that \<open>Close\<close> returns.
  \<^item> Mcp and Mcp_Client: \<^verbatim>\<open>pkg/mcp\<close>. Messages and both wire formats, without loss; callers, pump and \<open>Close\<close> as a step
    relation, in which each answer finds its caller and a close releases all of them.
  \<^item> Session, Http, Http_Turns: \<^verbatim>\<open>pkg/http\<close>. Identifiers, every handler, the broadcasters, and the interleaving
    of requests: one turn for a chat at a time, and what a turn leaves in the store.
  \<^item> Inbound and Telegram: the loops of \<^verbatim>\<open>cmd/souz-agent/main.go\<close> and \<^verbatim>\<open>pkg/channels/telegram\<close>: no message
    is lost or taken twice, and the HTML that is sent has no markup but that of the program.
  \<^item> Config and Wiring: \<^verbatim>\<open>pkg/config/config.go\<close> and its round trip, \<^verbatim>\<open>cmd/souz-agent/wiring.go\<close> and \<open>run\<close>, with the
    lifetime of the MCP servers.

  The readers of frames of Anthropic, Codex and Mcp are interpretations of the locale \<open>frame_reader\<close> of Sse: a body of
  frames is handled as the list of the frames. The streams of the providers and the MCP transport rest on it.

  \<^bold>\<open>Bounds and fuel.\<close>
  Recursion that is not structural has a measure: the runner its remaining steps (64 unless given), the walk along
  a path its remaining links (40 in the kernel, 255 in \<open>EvalSymlinks\<close>) and then the path. Fuel stands where the
  recursion is on the rest of a text or tree: the length of the text for runes, escaping and the replacements of
  Telegram and Web (each round consumes a byte), twice the length plus two for JSON (a value and the members of its
  container alternate, each after a token), eight times the length plus eight for the calculator (eight methods call one
  another before a token is consumed, which is proved to be enough), the number of entries for a walk of the tree (a
  path of \<open>k\<close> components needs \<open>k\<close> entries). \<open>Start\<close> of Telegram is a \<open>partial_function\<close>: a poll
  that never ends is \<open>None\<close>, and its theorems speak of every number of rounds.

  \<^bold>\<open>Parameters.\<close>
  The HTTP client, SHA-256, the text of a float, the text of a YAML document, \<^verbatim>\<open>html.UnescapeString\<close> and the query of a
  URL, the functions of \<^verbatim>\<open>math\<close>, the clock, the random source, the context, the launched subprocesses and the fault that
  hits a file write are arguments, in Wiring gathered in the record \<open>platform\<close>. What a theorem needs of
  one (a collision-free hash, a float that reads back, an API that answers as documented) is a named hypothesis, and its witness
  instantiates it.

  \<^bold>\<open>Not modelled.\<close>
  Flags, signals, logging, the start of goroutines and the shutdown of the HTTP server in \<^verbatim>\<open>main.go\<close>; starting and killing
  an MCP subprocess, and the wait for the endpoint event; the goroutine that repeats the typing indicator (an argument); the process a
  hook launches; the channels \<^verbatim>\<open>mattermost\<close> and \<^verbatim>\<open>sberboom\<close>, stubs that wait for the context and that no code builds. The Go
  memory model below the atomic actions of the step relations is not modelled either.
\<close>

end
